(* ===== verification/Prelude.thy ===== *)
theory Prelude
  imports Complex_Main "HOL-Library.Char_ord" "HOL-Library.List_Lexorder"
    "HOL-Library.Multiset" "HOL-Library.Sublist"
begin

text \<open>
  What every component of the model shares.

  \<^item> Errors: the sentinels of \<^verbatim>\<open>internal/domain/errors.go\<close>, wrapped as
    \<^verbatim>\<open>fmt.Errorf\<close> wraps them, and the result type \<open>error + 'a\<close> with its bind.
  \<^item> Machine integers: \<^verbatim>\<open>int\<close>, \<^verbatim>\<open>int64\<close> and \<^verbatim>\<open>time.Duration\<close>
    are \<open>int\<close> values kept in range by \<open>wrap64\<close>, written wherever the code can overflow.
  \<^item> Instants: a \<^verbatim>\<open>time.Time\<close> is the number of nanoseconds since
    0001-01-01T00:00:00Z, so \<^verbatim>\<open>IsZero\<close> is \<open>t = 0\<close>, \<^verbatim>\<open>UTC()\<close>
    (which changes only how an instant is printed) is the identity, \<^verbatim>\<open>Before\<close>,
    \<^verbatim>\<open>After\<close> and \<^verbatim>\<open>Equal\<close> are \<open><\<close>, \<open>>\<close> and \<open>=\<close>, \<^verbatim>\<open>Add\<close>
    is \<open>+\<close> and \<^verbatim>\<open>Sub\<close> is \<open>time_sub\<close>, which saturates as Go's does. Instants beyond
    the 292 billion years that Go's 64-bit second counter holds are outside the model.
  \<^item> Strings: \<open>char list\<close>, one \<open>char\<close> a byte, so \<^verbatim>\<open>len\<close> is \<open>length\<close> and
    \<^verbatim>\<open><\<close> is the bytewise lexicographic order. \<^verbatim>\<open>TrimSpace\<close>,
    \<^verbatim>\<open>ToLower\<close>, \<^verbatim>\<open>ToUpper\<close> and \<^verbatim>\<open>EqualFold\<close> are modelled on
    ASCII; a byte above 127 is left unchanged.
  \<^item> Sorting: \<^verbatim>\<open>sort.Slice\<close> with the code's comparator, and the interface a
    comparator has to satisfy for the result to be determined.
\<close>

section \<open>Proof collections\<close>

named_theorems go_unfold \<open>definitions of guards, validators and small helpers\<close>
named_theorems result_elims \<open>what the success of an operation says of its arguments\<close>

section \<open>Errors and results\<close>

datatype sentinel =
  ErrInvalid | ErrNotFound | ErrConflict | ErrForbidden | ErrExpired | ErrState

text \<open>
  An error value: a sentinel, one of the two context errors, a fresh error that wraps nothing,
  an error wrapped by \<^verbatim>\<open>fmt.Errorf\<close> with the text before and after its
  \<^verbatim>\<open>%w\<close>, or \<^verbatim>\<open>errors.Join\<close>.
\<close>

datatype error =
    Sentinel sentinel
  | ContextCanceled
  | ContextDeadlineExceeded
  | Plain string
  | Wrapped string error string
  | Joined "error list"

primrec sentinel_text :: "sentinel \<Rightarrow> string" where
  "sentinel_text ErrInvalid = ''canalclear: invalid input''"
| "sentinel_text ErrNotFound = ''canalclear: not found''"
| "sentinel_text ErrConflict = ''canalclear: conflict''"
| "sentinel_text ErrForbidden = ''canalclear: forbidden''"
| "sentinel_text ErrExpired = ''canalclear: expired''"
| "sentinel_text ErrState = ''canalclear: invalid state''"

text \<open>\<^verbatim>\<open>fmt.Errorf("%w: ...", sentinel)\<close>, the form almost every error takes.\<close>

abbreviation errorf :: "sentinel \<Rightarrow> string \<Rightarrow> error" where
  "errorf s m \<equiv> Wrapped [] (Sentinel s) ('': '' @ m)"

fun errors_is :: "error \<Rightarrow> error \<Rightarrow> bool" where
  "errors_is (Wrapped p e q) t = (Wrapped p e q = t \<or> errors_is e t)"
| "errors_is (Joined es) t = (Joined es = t \<or> list_ex (\<lambda>e. errors_is e t) es)"
| "errors_is e t = (e = t)"

abbreviation is_sentinel :: "error \<Rightarrow> sentinel \<Rightarrow> bool" where
  "is_sentinel e s \<equiv> errors_is e (Sentinel s)"

text \<open>\<^verbatim>\<open>Error()\<close>. \<^verbatim>\<open>errors.Join\<close> separates its parts with newlines.\<close>

fun error_text :: "error \<Rightarrow> string" where
  "error_text (Sentinel s) = sentinel_text s"
| "error_text ContextCanceled = ''context canceled''"
| "error_text ContextDeadlineExceeded = ''context deadline exceeded''"
| "error_text (Plain m) = m"
| "error_text (Wrapped p e q) = p @ error_text e @ q"
| "error_text (Joined es) = (case map error_text es of [] \<Rightarrow> [] | t # ts \<Rightarrow> t @ concat (map (\<lambda>u. CHR 0x0A # u) ts))"

type_synonym 'a result = "error + 'a"

fun bindR :: "'a result \<Rightarrow> ('a \<Rightarrow> 'b result) \<Rightarrow> 'b result" where
  "bindR (Inl e) f = Inl e"
| "bindR (Inr x) f = f x"

lemma bindR_Inr_iff: "bindR r f = Inr y \<longleftrightarrow> (\<exists>x. r = Inr x \<and> f x = Inr y)"
  by (cases r) auto

lemma bindR_Inl_iff: "bindR r f = Inl e \<longleftrightarrow> r = Inl e \<or> (\<exists>x. r = Inr x \<and> f x = Inl e)"
  by (cases r) auto

lemma bindR_Inr_E [elim]:
  assumes "bindR r f = Inr y"
  obtains x where "r = Inr x" and "f x = Inr y"
  using assms by (cases r) auto

lemma bindR_cong [fundef_cong]:
  "r = r' \<Longrightarrow> (\<And>x. r' = Inr x \<Longrightarrow> f x = g x) \<Longrightarrow> bindR r f = bindR r' g"
  by (cases r') auto

text \<open>A guard: the early return of an error when its condition holds.\<close>

definition refuse_if :: "bool \<Rightarrow> error \<Rightarrow> unit result" where
  "refuse_if b e = (if b then Inl e else Inr ())"

lemma refuse_if_simps [simp]:
  "refuse_if True e = Inl e" "refuse_if False e = Inr ()"
  "refuse_if b e = Inr u \<longleftrightarrow> \<not> b"
  "refuse_if b e = Inl d \<longleftrightarrow> b \<and> d = e"
  by (auto simp: refuse_if_def)

lemma bindR_refuse_if [simp]:
  "bindR (refuse_if b e) f = (if b then Inl e else f ())"
  by (simp add: refuse_if_def)

definition is_ok :: "'a result \<Rightarrow> bool" where
  "is_ok r = (case r of Inl _ \<Rightarrow> False | Inr _ \<Rightarrow> True)"

lemma is_ok_simps [simp]: "is_ok (Inl e) = False" "is_ok (Inr x) = True"
  by (simp_all add: is_ok_def)

lemma is_ok_iff: "is_ok r \<longleftrightarrow> (\<exists>x. r = Inr x)"
  by (cases r) auto

text \<open>Running a fallible check over a list stops at the first error.\<close>

fun check_all :: "('a \<Rightarrow> unit result) \<Rightarrow> 'a list \<Rightarrow> unit result" where
  "check_all f [] = Inr ()"
| "check_all f (x # xs) = bindR (f x) (\<lambda>_. check_all f xs)"

lemma check_all_ok [simp]: "check_all f xs = Inr u \<longleftrightarrow> (\<forall>x\<in>set xs. f x = Inr ())"
  by (induction xs) (auto simp: bindR_Inr_iff)

section \<open>64-bit integers and durations\<close>

definition wrap64 :: "int \<Rightarrow> int" where
  "wrap64 x = (x + 2 ^ 63) mod 2 ^ 64 - 2 ^ 63"

definition max_int64 :: int where "max_int64 = 2 ^ 63 - 1"
definition min_int64 :: int where "min_int64 = - (2 ^ 63)"

definition in_int64 :: "int \<Rightarrow> bool" where
  "in_int64 x \<longleftrightarrow> min_int64 \<le> x \<and> x \<le> max_int64"

lemma wrap64_id [simp]: "in_int64 x \<Longrightarrow> wrap64 x = x"
  by (simp add: wrap64_def in_int64_def min_int64_def max_int64_def)

lemma in_int64_wrap64 [simp]: "in_int64 (wrap64 x)"
proof -
  define m where "m = (x + 2 ^ 63) mod (2 ^ 64 :: int)"
  then have "0 \<le> m" and "m < 2 ^ 64" by simp_all
  then show ?thesis
    unfolding wrap64_def in_int64_def min_int64_def max_int64_def m_def [symmetric] by simp
qed

text \<open>The increment of a version or a counter.\<close>

definition inc64 :: "int \<Rightarrow> int" where
  "inc64 v = wrap64 (v + 1)"

lemma inc64_id: "in_int64 v \<Longrightarrow> v < max_int64 \<Longrightarrow> inc64 v = v + 1"
  by (simp add: inc64_def in_int64_def)

lemma inc64_neq [simp]: "inc64 v \<noteq> v"
proof
  assume "inc64 v = v"
  then have eq: "(v + 1 + 2 ^ 63) mod 2 ^ 64 = v + 2 ^ 63"
    unfolding inc64_def wrap64_def by linarith
  then have "(v + 1 + 2 ^ 63) mod 2 ^ 64 = (v + 2 ^ 63) mod 2 ^ 64"
    by (metis mod_mod_trivial)
  then have "(2 ^ 64 :: int) dvd 1"
    by (simp add: mod_eq_dvd_iff)
  then show False by simp
qed

type_synonym Duration = int
type_synonym Time = int

abbreviation (input) Nanosecond :: Duration where "Nanosecond \<equiv> 1"
abbreviation (input) Microsecond :: Duration where "Microsecond \<equiv> 1000"
abbreviation (input) Millisecond :: Duration where "Millisecond \<equiv> 1000000"
abbreviation (input) Second :: Duration where "Second \<equiv> 1000000000"
abbreviation (input) Minute :: Duration where "Minute \<equiv> 60000000000"
abbreviation (input) Hour :: Duration where "Hour \<equiv> 3600000000000"

text \<open>\<^verbatim>\<open>t.Sub(u)\<close> saturates at the ends of the duration range.\<close>

definition time_sub :: "Time \<Rightarrow> Time \<Rightarrow> Duration" where
  "time_sub t u = (if t - u > max_int64 then max_int64
                   else if t - u < min_int64 then min_int64 else t - u)"

lemma time_sub_exact: "in_int64 (t - u) \<Longrightarrow> time_sub t u = t - u"
  by (simp add: time_sub_def in_int64_def)

lemma time_sub_ge_iff [simp]: "d \<le> max_int64 \<Longrightarrow> min_int64 < d \<Longrightarrow> d \<le> time_sub t u \<longleftrightarrow> d \<le> t - u"
  by (auto simp: time_sub_def)

lemma time_sub_gt_iff: "d < max_int64 \<Longrightarrow> min_int64 \<le> d \<Longrightarrow> d < time_sub t u \<longleftrightarrow> d < t - u"
  by (auto simp: time_sub_def)

lemma time_sub_pos [simp]: "0 < time_sub t u \<longleftrightarrow> u < t"
  by (auto simp: time_sub_def max_int64_def min_int64_def)

lemma time_sub_same [simp]: "time_sub t t = 0"
  by (simp add: time_sub_def max_int64_def min_int64_def)

section \<open>Strings\<close>

definition is_space :: "char \<Rightarrow> bool" where
  "is_space c \<longleftrightarrow> c \<in> {CHR 0x09, CHR 0x0A, CHR 0x0B, CHR 0x0C, CHR 0x0D, CHR 0x20}"

definition trim_right :: "string \<Rightarrow> string" where
  "trim_right s = rev (dropWhile is_space (rev s))"

definition trim_space :: "string \<Rightarrow> string" where
  "trim_space s = trim_right (dropWhile is_space s)"

definition is_upper :: "char \<Rightarrow> bool" where
  "is_upper c \<longleftrightarrow> CHR ''A'' \<le> c \<and> c \<le> CHR ''Z''"

definition is_lower :: "char \<Rightarrow> bool" where
  "is_lower c \<longleftrightarrow> CHR ''a'' \<le> c \<and> c \<le> CHR ''z''"

definition is_digit :: "char \<Rightarrow> bool" where
  "is_digit c \<longleftrightarrow> CHR ''0'' \<le> c \<and> c \<le> CHR ''9''"

definition upper_char :: "char \<Rightarrow> char" where
  "upper_char c = (if is_lower c then char_of (of_char c - 32 :: nat) else c)"

definition lower_char :: "char \<Rightarrow> char" where
  "lower_char c = (if is_upper c then char_of (of_char c + 32 :: nat) else c)"

definition to_upper :: "string \<Rightarrow> string" where
  "to_upper = map upper_char"

definition to_lower :: "string \<Rightarrow> string" where
  "to_lower = map lower_char"

definition equal_fold :: "string \<Rightarrow> string \<Rightarrow> bool" where
  "equal_fold s t \<longleftrightarrow> to_lower s = to_lower t"

abbreviation has_prefix :: "string \<Rightarrow> string \<Rightarrow> bool" where
  "has_prefix s p \<equiv> prefix p s"

abbreviation has_suffix :: "string \<Rightarrow> string \<Rightarrow> bool" where
  "has_suffix s p \<equiv> suffix p s"

definition contains_str :: "string \<Rightarrow> string \<Rightarrow> bool" where
  "contains_str s sub \<longleftrightarrow> sublist sub s"

lemma trim_right_eq_self: "s = [] \<or> \<not> is_space (last s) \<Longrightarrow> trim_right s = s"
  by (cases s rule: rev_cases) (auto simp: trim_right_def)

lemma trim_right_Nil [simp]: "trim_right [] = []"
  by (simp add: trim_right_def)

lemma trim_space_Nil [simp]: "trim_space [] = []"
  by (simp add: trim_space_def)

lemma last_trim_right: "trim_right s \<noteq> [] \<Longrightarrow> \<not> is_space (last (trim_right s))"
  unfolding trim_right_def
  by (metis hd_dropWhile last_rev rev_is_Nil_conv)

lemma trim_right_idem [simp]: "trim_right (trim_right s) = trim_right s"
  by (metis last_trim_right trim_right_eq_self)

lemma trim_right_prefix: "\<exists>w. s = trim_right s @ w \<and> list_all is_space w"
proof (intro exI conjI)
  let ?w = "rev (takeWhile is_space (rev s))"
  show "s = trim_right s @ ?w"
    unfolding trim_right_def
    by (metis rev_append rev_rev_ident takeWhile_dropWhile_id)
  show "list_all is_space ?w"
    by (auto simp: list_all_iff dest: set_takeWhileD)
qed

lemma hd_trim_right: "trim_right s \<noteq> [] \<Longrightarrow> hd (trim_right s) = hd s"
  by (metis hd_append2 trim_right_prefix)

lemma trim_space_idem [simp]: "trim_space (trim_space s) = trim_space s"
proof (cases "trim_space s = []")
  case False
  let ?d = "dropWhile is_space s"
  from False have ne: "trim_right ?d \<noteq> []" by (simp only: trim_space_def not_False_eq_True)
  then have "?d \<noteq> []" by (metis trim_right_Nil)
  then have "\<not> is_space (hd ?d)" by (rule hd_dropWhile)
  then have "\<not> is_space (hd (trim_right ?d))" using ne by (simp add: hd_trim_right)
  then have "dropWhile is_space (trim_right ?d) = trim_right ?d"
    using ne by (cases "trim_right ?d") auto
  then show ?thesis by (simp add: trim_space_def)
qed simp

lemma trim_space_self:
  assumes "\<And>c. c \<in> set s \<Longrightarrow> \<not> is_space c" shows "trim_space s = s"
proof (cases "s = []")
  case False
  have "dropWhile is_space s = s"
    using assms False by (cases s) auto
  moreover have "\<not> is_space (last s)" using assms False by simp
  ultimately show ?thesis by (simp add: trim_space_def trim_right_eq_self)
qed simp

lemma length_to_upper [simp]: "length (to_upper s) = length s"
  by (simp add: to_upper_def)

lemma length_to_lower [simp]: "length (to_lower s) = length s"
  by (simp add: to_lower_def)

section \<open>Conclusions in several parts\<close>

lemma conj3I: "A1 \<Longrightarrow> A2 \<Longrightarrow> A3 \<Longrightarrow> A1 \<and> A2 \<and> A3"
  by blast

lemma conj4I: "A1 \<Longrightarrow> A2 \<Longrightarrow> A3 \<Longrightarrow> A4 \<Longrightarrow> A1 \<and> A2 \<and> A3 \<and> A4"
  by blast

lemma conj5I: "A1 \<Longrightarrow> A2 \<Longrightarrow> A3 \<Longrightarrow> A4 \<Longrightarrow> A5 \<Longrightarrow> A1 \<and> A2 \<and> A3 \<and> A4 \<and> A5"
  by blast

lemma conj6I: "A1 \<Longrightarrow> A2 \<Longrightarrow> A3 \<Longrightarrow> A4 \<Longrightarrow> A5 \<Longrightarrow> A6 \<Longrightarrow> A1 \<and> A2 \<and> A3 \<and> A4 \<and> A5 \<and> A6"
  by blast

lemma conj7I: "A1 \<Longrightarrow> A2 \<Longrightarrow> A3 \<Longrightarrow> A4 \<Longrightarrow> A5 \<Longrightarrow> A6 \<Longrightarrow> A7 \<Longrightarrow> A1 \<and> A2 \<and> A3 \<and> A4 \<and> A5 \<and> A6 \<and> A7"
  by blast

end
