(* ===== verification/Sort_Slice.thy ===== *)
theory Sort_Slice
  imports Prelude
begin

text \<open>
  \<^verbatim>\<open>sort.Slice\<close> and \<^verbatim>\<open>sort.SliceStable\<close>. The code passes a comparator
  \<^verbatim>\<open>less(i, j)\<close>; the model sorts by insertion with the same comparator, keeping the
  order of elements that compare equal. Go's \<^verbatim>\<open>sort.Slice\<close> promises an ordered
  permutation of its input, with elements that compare equal in any order. The locales
  \<open>comparator\<close> and \<open>total_comparator\<close> are the interface between the sort and its clients:
  what a comparator owes on the elements it is used on (\<open>ok\<close>), that the result is then ordered,
  and, when no two different elements compare equal, that every ordered permutation is this one,
  so that the choice of sorting algorithm cannot be observed.
\<close>

fun insert_by :: "('a \<Rightarrow> 'a \<Rightarrow> bool) \<Rightarrow> 'a \<Rightarrow> 'a list \<Rightarrow> 'a list" where
  "insert_by lt x [] = [x]"
| "insert_by lt x (y # ys) = (if lt y x then y # insert_by lt x ys else x # y # ys)"

definition sort_slice :: "('a \<Rightarrow> 'a \<Rightarrow> bool) \<Rightarrow> 'a list \<Rightarrow> 'a list" where
  "sort_slice lt xs = foldr (insert_by lt) xs []"

abbreviation ordered_by :: "('a \<Rightarrow> 'a \<Rightarrow> bool) \<Rightarrow> 'a list \<Rightarrow> bool" where
  "ordered_by lt \<equiv> sorted_wrt (\<lambda>x y. \<not> lt y x)"

lemma sort_slice_simps [simp]:
  "sort_slice lt [] = []"
  "sort_slice lt (x # xs) = insert_by lt x (sort_slice lt xs)"
  by (simp_all add: sort_slice_def)

lemma mset_insert_by [simp]: "mset (insert_by lt x ys) = add_mset x (mset ys)"
  by (induction ys) auto

lemma mset_sort_slice [simp]: "mset (sort_slice lt xs) = mset xs"
  by (induction xs) auto

lemma set_insert_by [simp]: "set (insert_by lt x ys) = insert x (set ys)"
  by (metis mset_insert_by set_mset_add_mset_insert set_mset_mset)

lemma set_sort_slice [simp]: "set (sort_slice lt xs) = set xs"
  by (metis mset_sort_slice set_mset_mset)

lemma length_sort_slice [simp]: "length (sort_slice lt xs) = length xs"
  by (metis mset_sort_slice size_mset)

lemma distinct_sort_slice [simp]: "distinct (sort_slice lt xs) = distinct xs"
  by (metis mset_sort_slice mset_eq_imp_distinct_iff)

lemma sort_slice_Nil_iff [simp]: "sort_slice lt xs = [] \<longleftrightarrow> xs = []"
  by (metis length_0_conv length_sort_slice)

lemma insert_by_cong:
  "(\<And>y. y \<in> set ys \<Longrightarrow> lt y x = lt' y x) \<Longrightarrow> insert_by lt x ys = insert_by lt' x ys"
  by (induction ys) auto

lemma sort_slice_cong:
  "(\<And>x y. x \<in> set xs \<Longrightarrow> y \<in> set xs \<Longrightarrow> lt x y = lt' x y) \<Longrightarrow>
    sort_slice lt xs = sort_slice lt' xs"
  by (induction xs) (auto intro!: insert_by_cong)

text \<open>A list already in order is left as it is.\<close>

lemma insert_by_le_all: "(\<And>y. y \<in> set ys \<Longrightarrow> \<not> lt y x) \<Longrightarrow> insert_by lt x ys = x # ys"
  by (cases ys) auto

lemma sort_slice_ordered: "ordered_by lt xs \<Longrightarrow> sort_slice lt xs = xs"
  by (induction xs) (auto simp: insert_by_le_all)

text \<open>Two ordered permutations of the same elements are equal when no two elements tie.\<close>

lemma ordered_perm_unique:
  assumes "mset xs = mset ys" and "ordered_by lt xs" and "ordered_by lt ys"
    and "\<And>x y. x \<in> set xs \<Longrightarrow> y \<in> set xs \<Longrightarrow> \<not> lt x y \<Longrightarrow> \<not> lt y x \<Longrightarrow> x = y"
  shows "xs = ys"
  using assms
proof (induction xs arbitrary: ys)
  case Nil
  then show ?case by simp
next
  case (Cons x xs)
  from Cons.prems(1) have sets: "set ys = insert x (set xs)"
    by (metis list.simps(15) set_mset_mset)
  then obtain y ys' where ys: "ys = y # ys'"
    by (cases ys) auto
  from sets ys have "y = x \<or> y \<in> set xs" and "x = y \<or> x \<in> set ys'" by auto
  with Cons.prems(2,3) ys have "y = x \<or> (\<not> lt y x \<and> \<not> lt x y)" by auto
  then have "y = x"
    using Cons.prems(4) [of x y] sets ys by auto
  with Cons ys show ?case by simp
qed

section \<open>The interface of a comparator\<close>

locale comparator =
  fixes lt :: "'a \<Rightarrow> 'a \<Rightarrow> bool" and ok :: "'a \<Rightarrow> bool"
  assumes asym: "ok x \<Longrightarrow> ok y \<Longrightarrow> lt x y \<Longrightarrow> \<not> lt y x"
    and neg_trans: "ok x \<Longrightarrow> ok y \<Longrightarrow> ok z \<Longrightarrow> lt x z \<Longrightarrow> lt x y \<or> lt y z"
begin

lemma ordered_insert_by:
  assumes "ok x" and "\<forall>y\<in>set ys. ok y" and "ordered_by lt ys"
  shows "ordered_by lt (insert_by lt x ys)"
  using assms
proof (induction ys)
  case Nil
  then show ?case by simp
next
  case (Cons y ys)
  show ?case
  proof (cases "lt y x")
    case True
    with Cons show ?thesis by (auto simp: asym)
  next
    case False
    have "\<not> lt z x" if "z \<in> set ys" for z
    proof
      assume "lt z x"
      with that Cons.prems have "lt z y \<or> lt y x"
        using neg_trans [of z y x] by auto
      with False that Cons.prems show False by auto
    qed
    with False Cons.prems show ?thesis by auto
  qed
qed

lemma ordered_sort_slice: "\<forall>x\<in>set xs. ok x \<Longrightarrow> ordered_by lt (sort_slice lt xs)"
  by (induction xs) (auto intro: ordered_insert_by)

end

locale total_comparator = comparator +
  assumes total: "ok x \<Longrightarrow> ok y \<Longrightarrow> \<not> lt x y \<Longrightarrow> \<not> lt y x \<Longrightarrow> x = y"
begin

lemma sort_slice_unique:
  assumes "\<forall>x\<in>set xs. ok x" and "mset ys = mset xs" and "ordered_by lt ys"
  shows "ys = sort_slice lt xs"
proof (rule ordered_perm_unique [of _ _ lt])
  show "mset ys = mset (sort_slice lt xs)" using assms(2) by simp
  show "ordered_by lt ys" by (rule assms(3))
  show "ordered_by lt (sort_slice lt xs)" by (rule ordered_sort_slice [OF assms(1)])
  have "set ys = set xs" using assms(2) by (metis set_mset_mset)
  then show "x = y" if "x \<in> set ys" "y \<in> set ys" "\<not> lt x y" "\<not> lt y x" for x y
    using that assms(1) total by blast
qed

lemma sort_slice_perm:
  "\<forall>x\<in>set xs. ok x \<Longrightarrow> mset ys = mset xs \<Longrightarrow> sort_slice lt ys = sort_slice lt xs"
proof (rule sort_slice_unique)
  assume ok: "\<forall>x\<in>set xs. ok x" and perm: "mset ys = mset xs"
  then have "\<forall>x\<in>set ys. ok x" by (metis set_mset_mset)
  then show "ordered_by lt (sort_slice lt ys)" by (rule ordered_sort_slice)
qed simp_all

end

section \<open>The comparators the code writes\<close>

text \<open>One key; two keys, the second deciding ties of the first.\<close>

definition by_key :: "('a \<Rightarrow> 'k::linorder) \<Rightarrow> 'a \<Rightarrow> 'a \<Rightarrow> bool" where
  "by_key k x y \<longleftrightarrow> k x < k y"

definition lex2 :: "('a \<Rightarrow> 'k::linorder) \<Rightarrow> ('a \<Rightarrow> 'l::linorder) \<Rightarrow> 'a \<Rightarrow> 'a \<Rightarrow> bool" where
  "lex2 k l x y \<longleftrightarrow> (if k x = k y then l x < l y else k x < k y)"

interpretation by_key: comparator "by_key k" "\<lambda>_. True" for k :: "'a \<Rightarrow> 'k::linorder"
  by unfold_locales (auto simp: by_key_def)

interpretation lex2: comparator "lex2 k l" "\<lambda>_. True"
  for k :: "'a \<Rightarrow> 'k::linorder" and l :: "'a \<Rightarrow> 'l::linorder"
  by unfold_locales (auto simp: lex2_def split: if_splits)

text \<open>Sorting plain keys (\<^verbatim>\<open>sort.Strings\<close>): the comparator has no ties.\<close>

definition less_than :: "'k::linorder \<Rightarrow> 'k \<Rightarrow> bool" where
  "less_than x y \<longleftrightarrow> x < y"

interpretation less_than: total_comparator "less_than :: 'k::linorder \<Rightarrow> 'k \<Rightarrow> bool" "\<lambda>_. True"
  by unfold_locales (auto simp: less_than_def)

abbreviation sort_strings :: "string list \<Rightarrow> string list" where
  "sort_strings \<equiv> sort_slice less_than"

lemma ordered_by_key_iff: "ordered_by (by_key k) xs \<longleftrightarrow> sorted (map k xs)"
  by (simp add: by_key_def not_less sorted_map)

lemma ordered_less_than_iff: "ordered_by less_than xs \<longleftrightarrow> sorted xs"
  by (simp add: less_than_def not_less sorted_wrt_iff_nth_less sorted_iff_nth_mono_less)

lemma sorted_sort_strings: "sorted (sort_slice less_than xs)"
  using less_than.ordered_sort_slice [of xs] by (simp add: ordered_less_than_iff)

lemma sort_slice_by_key: "sort_slice (by_key k) xs = sort_key k xs"
proof (induction xs)
  case (Cons x xs)
  have "insert_by (by_key k) x ys = insort_key k x ys" for ys
    by (induction ys) (auto simp: by_key_def not_less)
  with Cons show ?case by simp
qed simp

text \<open>Ties of a two-key comparator are pairs of elements that agree on both keys.\<close>

lemma sort_slice_lex2_perm:
  assumes "mset ys = mset xs" and "inj_on (\<lambda>x. (k x, l x)) (set xs)"
  shows "sort_slice (lex2 k l) ys = sort_slice (lex2 k l) xs"
proof (rule ordered_perm_unique [of _ _ "lex2 k l"])
  show "ordered_by (lex2 k l) (sort_slice (lex2 k l) ys)" and "ordered_by (lex2 k l) (sort_slice (lex2 k l) xs)"
    by (simp_all add: lex2.ordered_sort_slice)
  have "set ys = set xs" using assms(1) by (metis set_mset_mset)
  then show "x = y"
    if "x \<in> set (sort_slice (lex2 k l) ys)" "y \<in> set (sort_slice (lex2 k l) ys)"
      "\<not> lex2 k l x y" "\<not> lex2 k l y x" for x y
    using that assms(2) by (auto simp: lex2_def inj_on_def split: if_splits)
qed (use assms(1) in auto)

lemma sort_slice_by_key_perm:
  assumes "mset ys = mset xs" and "inj_on k (set xs)"
  shows "sort_slice (by_key k) ys = sort_slice (by_key k) xs"
proof (rule ordered_perm_unique [of _ _ "by_key k"])
  show "ordered_by (by_key k) (sort_slice (by_key k) ys)" and "ordered_by (by_key k) (sort_slice (by_key k) xs)"
    by (simp_all add: by_key.ordered_sort_slice)
  have "set ys = set xs" using assms(1) by (metis set_mset_mset)
  then show "x = y"
    if "x \<in> set (sort_slice (by_key k) ys)" "y \<in> set (sort_slice (by_key k) ys)"
      "\<not> by_key k x y" "\<not> by_key k y x" for x y
    using that assms(2) by (auto simp: by_key_def inj_on_def)
qed (use assms(1) in auto)

end
