(* ===== verification/Sha256.thy ===== *)
theory Sha256
  imports Prelude "HOL-Library.Word"
begin

unbundle bit_operations_syntax

text \<open>
  The parts of Go's standard library that turn bytes into fingerprints:
  \<^verbatim>\<open>crypto/sha256.Sum256\<close> (FIPS 180-4, on 32-bit words, so every addition wraps) and
  \<^verbatim>\<open>encoding/hex.EncodeToString\<close>. Manifest hashes, audit hashes, session token hashes and
  idempotency fingerprints all are \<open>sha256_hex\<close> of some byte string. The only facts the rest of
  the development uses are that the digest is 64 hexadecimal digits and that hexadecimal encoding
  is injective; no collision freedom is assumed anywhere.
\<close>

section \<open>Hexadecimal\<close>

definition hex_digit :: "nat \<Rightarrow> char" where
  "hex_digit n = ''0123456789abcdef'' ! n"

definition hex_byte :: "char \<Rightarrow> string" where
  "hex_byte c = [hex_digit (of_char c div 16), hex_digit (of_char c mod 16)]"

definition hex_encode :: "string \<Rightarrow> string" where
  "hex_encode s = concat (map hex_byte s)"

definition hex_value :: "char \<Rightarrow> nat" where
  "hex_value c = (if is_digit c then of_char c - 48 else of_char c - 87)"

lemma hex_value_digit [simp]:
  assumes "n < 16" shows "hex_value (hex_digit n) = n"
proof -
  have "n \<in> set [0..<16]" using assms by simp
  moreover have "\<forall>n\<in>set [0..<16]. hex_value (hex_digit n) = n" by code_simp
  ultimately show ?thesis by blast
qed

lemma of_char_less_256 [simp]: "of_char c < (256 :: nat)"
  by (metis nat_of_char_less_256)

lemma hex_byte_inj: "hex_byte c = hex_byte d \<Longrightarrow> c = d"
proof -
  assume eq: "hex_byte c = hex_byte d"
  have dm: "of_char c = 16 * hex_value (hex_byte c ! 0) + hex_value (hex_byte c ! 1)" for c :: char
    by (simp add: hex_byte_def less_mult_imp_div_less)
  from eq dm [of c] dm [of d] have "(of_char c :: nat) = of_char d" by simp
  then show "c = d" by simp
qed

lemma length_hex_byte [simp]: "length (hex_byte c) = 2"
  by (simp add: hex_byte_def)

lemma length_hex_encode [simp]: "length (hex_encode s) = 2 * length s"
  by (induction s) (auto simp: hex_encode_def)

lemma hex_encode_inj: "hex_encode s = hex_encode t \<Longrightarrow> s = t"
proof (induction s arbitrary: t)
  case Nil
  then show ?case by (cases t) (auto simp: hex_encode_def hex_byte_def)
next
  case (Cons c s)
  then obtain d u where t: "t = d # u"
    by (cases t) (auto simp: hex_encode_def hex_byte_def)
  with Cons.prems have "hex_byte c = hex_byte d \<and> hex_encode s = hex_encode u"
    by (simp add: hex_encode_def)
  with Cons.IH t show ?case by (auto dest: hex_byte_inj)
qed

section \<open>SHA-256\<close>

definition sha_K :: "32 word list" where
  "sha_K =
    [1116352408, 1899447441, 3049323471, 3921009573, 961987163, 1508970993, 2453635748, 2870763221,
     3624381080, 310598401, 607225278, 1426881987, 1925078388, 2162078206, 2614888103, 3248222580, 3835390401,
     4022224774, 264347078, 604807628, 770255983, 1249150122, 1555081692, 1996064986, 2554220882, 2821834349,
     2952996808, 3210313671, 3336571891, 3584528711, 113926993, 338241895, 666307205, 773529912, 1294757372,
     1396182291, 1695183700, 1986661051, 2177026350, 2456956037, 2730485921, 2820302411, 3259730800,
     3345764771, 3516065817, 3600352804, 4094571909, 275423344, 430227734, 506948616, 659060556, 883997877,
     958139571, 1322822218, 1537002063, 1747873779, 1955562222, 2024104815, 2227730452, 2361852424,
     2428436474, 2756734187, 3204031479, 3329325298]"

definition sha_H0 :: "32 word list" where
  "sha_H0 = [1779033703, 3144134277, 1013904242, 2773480762, 1359893119, 2600822924, 528734635, 1541459225]"

definition small_sigma0 :: "32 word \<Rightarrow> 32 word" where
  "small_sigma0 w = word_rotr 7 w XOR word_rotr 18 w XOR drop_bit 3 w"

definition small_sigma1 :: "32 word \<Rightarrow> 32 word" where
  "small_sigma1 w = word_rotr 17 w XOR word_rotr 19 w XOR drop_bit 10 w"

definition big_sigma0 :: "32 word \<Rightarrow> 32 word" where
  "big_sigma0 w = word_rotr 2 w XOR word_rotr 13 w XOR word_rotr 22 w"

definition big_sigma1 :: "32 word \<Rightarrow> 32 word" where
  "big_sigma1 w = word_rotr 6 w XOR word_rotr 11 w XOR word_rotr 25 w"

definition sha_ch :: "32 word \<Rightarrow> 32 word \<Rightarrow> 32 word \<Rightarrow> 32 word" where
  "sha_ch e f g = (e AND f) XOR (NOT e AND g)"

definition sha_maj :: "32 word \<Rightarrow> 32 word \<Rightarrow> 32 word \<Rightarrow> 32 word" where
  "sha_maj a b c = (a AND b) XOR (a AND c) XOR (b AND c)"

text \<open>Padding to a multiple of 64 bytes: a one bit, zeros and the bit length in eight bytes.\<close>

definition sha_pad :: "string \<Rightarrow> string" where
  "sha_pad m =
    (let n = length m; z = (119 - n mod 64) mod 64
     in m @ [char_of (128 :: nat)] @ replicate z (char_of (0 :: nat)) @
       map (\<lambda>i. char_of (int (8 * n) div 256 ^ i)) [7, 6, 5, 4, 3, 2, 1, 0])"

fun bytes_to_words :: "string \<Rightarrow> 32 word list" where
  "bytes_to_words (a # b # c # d # s) =
    word_of_int (((of_char a * 256 + of_char b) * 256 + of_char c) * 256 + of_char d) # bytes_to_words s"
| "bytes_to_words _ = []"

definition word_to_bytes :: "32 word \<Rightarrow> string" where
  "word_to_bytes w = map (\<lambda>i. char_of (uint w div 256 ^ i)) [3, 2, 1, 0]"

text \<open>The message schedule, newest word first.\<close>

fun sha_extend :: "nat \<Rightarrow> 32 word list \<Rightarrow> 32 word list" where
  "sha_extend 0 ws = ws"
| "sha_extend (Suc k) ws =
    sha_extend k ((small_sigma1 (ws ! 1) + ws ! 6 + small_sigma0 (ws ! 14) + ws ! 15) # ws)"

fun sha_round :: "32 word list \<Rightarrow> 32 word \<times> 32 word \<Rightarrow> 32 word list" where
  "sha_round [a, b, c, d, e, f, g, h] (k, w) =
    (let t1 = h + big_sigma1 e + sha_ch e f g + k + w;
         t2 = big_sigma0 a + sha_maj a b c
     in [t1 + t2, a, b, c, d + t1, e, f, g])"
| "sha_round st _ = st"

definition sha_compress :: "32 word list \<Rightarrow> 32 word list \<Rightarrow> 32 word list" where
  "sha_compress st block =
    map2 (+) st (foldl sha_round st (zip sha_K (rev (sha_extend 48 (rev block)))))"

function sha_blocks :: "32 word list \<Rightarrow> 32 word list \<Rightarrow> 32 word list" where
  "sha_blocks st ws =
    (if length ws < 16 then st else sha_blocks (sha_compress st (take 16 ws)) (drop 16 ws))"
  by pat_completeness auto
termination
  by (relation "measure (\<lambda>(st, ws). length ws)") auto

declare sha_blocks.simps [simp del]

definition sha256_sum :: "string \<Rightarrow> string" where
  "sha256_sum m = concat (map word_to_bytes (sha_blocks sha_H0 (bytes_to_words (sha_pad m))))"

definition sha256_hex :: "string \<Rightarrow> string" where
  "sha256_hex m = hex_encode (sha256_sum m)"

lemma length_sha_round: "length (sha_round st kw) = length st"
  by (cases "(st, kw)" rule: sha_round.cases) (auto simp: Let_def)

lemma length_foldl_sha_round: "length (foldl sha_round st kws) = length st"
  by (induction kws arbitrary: st) (auto simp: length_sha_round)

lemma length_sha_blocks: "length (sha_blocks st ws) = length st"
proof (induction st ws rule: sha_blocks.induct)
  case (1 st ws)
  then show ?case
    by (subst sha_blocks.simps) (simp add: sha_compress_def length_foldl_sha_round)
qed

lemma length_sha256_sum [simp]: "length (sha256_sum m) = 32"
proof -
  have "length (concat (map word_to_bytes ws)) = 4 * length ws" for ws
    by (induction ws) (auto simp: word_to_bytes_def)
  then show ?thesis by (simp add: sha256_sum_def length_sha_blocks sha_H0_def)
qed

lemma length_sha256_hex [simp]: "length (sha256_hex m) = 64"
  by (simp add: sha256_hex_def)

lemma sha256_hex_neq_Nil [simp]: "sha256_hex m \<noteq> []"
  by (metis length_0_conv length_sha256_hex zero_neq_numeral)

lemma sha256_hex_eq_iff: "sha256_hex m = sha256_hex n \<longleftrightarrow> sha256_sum m = sha256_sum n"
  by (auto simp: sha256_hex_def dest: hex_encode_inj)

definition sha256_collision :: "string \<Rightarrow> string \<Rightarrow> bool" where
  "sha256_collision m n \<longleftrightarrow> m \<noteq> n \<and> sha256_sum m = sha256_sum n"

lemma sha256_hex_eqD: "sha256_hex m = sha256_hex n \<Longrightarrow> m = n \<or> sha256_collision m n"
  by (auto simp: sha256_hex_eq_iff sha256_collision_def)

end
