(* ===== verification/Json.thy ===== *)
theory Json
  imports Prelude Sha256
begin

text \<open>
  What the code uses of \<^verbatim>\<open>encoding/json\<close>: the compact encoding of values by
  \<^verbatim>\<open>json.Marshal\<close>, with its escaping of strings (HTML-sensitive characters included), and
  decimal numbers. The theorem of this theory is that the encoding is injective, so that a
  fingerprint of a JSON text is a fingerprint of the value.
\<close>

section \<open>Decimal numbers\<close>

definition digit_char :: "nat \<Rightarrow> char" where
  "digit_char n = char_of (48 + n)"

definition digit_value :: "char \<Rightarrow> nat" where
  "digit_value c = of_char c - 48"

fun dec_nat :: "nat \<Rightarrow> string" where
  "dec_nat n = (if n < 10 then [digit_char n] else dec_nat (n div 10) @ [digit_char (n mod 10)])"

declare dec_nat.simps [simp del]

definition dec_int :: "int \<Rightarrow> string" where
  "dec_int i = (if i < 0 then CHR ''-'' # dec_nat (nat (- i)) else dec_nat (nat i))"

definition read_nat :: "string \<Rightarrow> nat" where
  "read_nat s = foldl (\<lambda>a c. 10 * a + digit_value c) 0 s"

text \<open>A number of a fixed width, padded with zeros on the left.\<close>

fun pad_nat :: "nat \<Rightarrow> nat \<Rightarrow> string" where
  "pad_nat 0 n = []"
| "pad_nat (Suc w) n = pad_nat w (n div 10) @ [digit_char (n mod 10)]"

lemma digit_facts:
  assumes "n < 10"
  shows "digit_value (digit_char n) = n" and "is_digit (digit_char n)"
    and "digit_char n \<noteq> CHR ''-''" and "digit_char n \<noteq> CHR ''.''" and "digit_char n \<noteq> CHR ''Z''"
proof -
  have "n \<in> set [0..<10]" using assms by simp
  moreover have "\<forall>n\<in>set [0..<10]. digit_value (digit_char n) = n \<and> is_digit (digit_char n) \<and>
    digit_char n \<noteq> CHR ''-'' \<and> digit_char n \<noteq> CHR ''.'' \<and> digit_char n \<noteq> CHR ''Z''" by code_simp
  ultimately show "digit_value (digit_char n) = n" and "is_digit (digit_char n)"
    and "digit_char n \<noteq> CHR ''-''" and "digit_char n \<noteq> CHR ''.''" and "digit_char n \<noteq> CHR ''Z''"
    by blast+
qed

lemma read_nat_snoc: "read_nat (s @ [c]) = 10 * read_nat s + digit_value c"
  by (simp add: read_nat_def)

lemma read_dec_nat [simp]: "read_nat (dec_nat n) = n"
proof (induction n rule: dec_nat.induct)
  case (1 n)
  show ?case
  proof (cases "n < 10")
    case True
    then show ?thesis
      by (subst dec_nat.simps) (simp add: digit_facts read_nat_def)
  next
    case False
    with 1 show ?thesis
      by (subst dec_nat.simps) (simp add: digit_facts read_nat_snoc)
  qed
qed

lemma dec_nat_digits: "\<forall>c\<in>set (dec_nat n). is_digit c" and dec_nat_neq_Nil [simp]: "dec_nat n \<noteq> []"
proof (induction n rule: dec_nat.induct)
  case (1 n)
  { case 1 show ?case using "1.IH" by (subst dec_nat.simps) (auto simp: digit_facts) }
  { case 2 show ?case by (subst dec_nat.simps) auto }
qed

text \<open>A decimal number followed by something that is not a digit can be read back off a text.\<close>

lemma dec_nat_split:
  assumes "dec_nat m @ r = dec_nat n @ s"
    and "r = [] \<or> \<not> is_digit (hd r)" and "s = [] \<or> \<not> is_digit (hd s)"
  shows "m = n \<and> r = s"
proof -
  have "takeWhile is_digit (dec_nat n @ s) = dec_nat n" if "s = [] \<or> \<not> is_digit (hd s)" for n s
    using that dec_nat_digits [of n] by (cases s) (auto simp: takeWhile_append2)
  with assms have "dec_nat m = dec_nat n" by metis
  with assms(1) show ?thesis by (metis append_same_eq read_dec_nat same_append_eq)
qed

lemma dec_nat_hd_digit: "is_digit (hd (dec_nat n))"
  by (meson dec_nat_digits dec_nat_neq_Nil hd_in_set)

lemma not_digit_minus [simp]: "\<not> is_digit CHR ''-''"
  by (simp add: is_digit_def)

lemma dec_int_split:
  assumes "dec_int i @ r = dec_int j @ s"
    and "r = [] \<or> \<not> is_digit (hd r)" and "s = [] \<or> \<not> is_digit (hd s)"
  shows "i = j \<and> r = s"
proof -
  have hd: "hd (dec_nat n @ s) \<noteq> CHR ''-''" for n s
    by (metis dec_nat_hd_digit dec_nat_neq_Nil hd_append2 not_digit_minus)
  show ?thesis
  proof (cases "i < 0"; cases "j < 0")
    assume "i < 0" "j < 0"
    with assms dec_nat_split [of "nat (- i)" r "nat (- j)" s] show ?thesis
      by (auto simp: dec_int_def)
  next
    assume "\<not> i < 0" "\<not> j < 0"
    with assms dec_nat_split [of "nat i" r "nat j" s] show ?thesis
      by (auto simp: dec_int_def)
  next
    assume "i < 0" "\<not> j < 0"
    with assms(1) hd [of "nat j" s] show ?thesis
      by (metis append_Cons dec_int_def list.sel(1))
  next
    assume "\<not> i < 0" "j < 0"
    with assms(1) hd [of "nat i" r] show ?thesis
      by (metis append_Cons dec_int_def list.sel(1))
  qed
qed

lemma dec_int_neq_Nil [simp]: "dec_int i \<noteq> []"
  by (simp add: dec_int_def)

lemma hd_dec_int: "hd (dec_int i) = CHR ''-'' \<or> is_digit (hd (dec_int i))"
  by (simp add: dec_int_def dec_nat_hd_digit)

lemma length_pad_nat [simp]: "length (pad_nat w n) = w"
  by (induction w arbitrary: n) auto

lemma pad_nat_digits: "\<forall>c\<in>set (pad_nat w n). is_digit c"
  by (induction w arbitrary: n) (auto simp: digit_facts)

lemma read_pad_nat: "n < 10 ^ w \<Longrightarrow> read_nat (pad_nat w n) = n"
proof (induction w arbitrary: n)
  case 0
  then show ?case by (simp add: read_nat_def)
next
  case (Suc w)
  then have "n div 10 < 10 ^ w" by (simp add: less_mult_imp_div_less)
  with Suc.IH show ?case by (simp add: read_nat_snoc digit_facts)
qed

lemma pad_nat_inj: "pad_nat w m = pad_nat w n \<Longrightarrow> m < 10 ^ w \<Longrightarrow> n < 10 ^ w \<Longrightarrow> m = n"
  by (metis read_pad_nat)

section \<open>Strings\<close>

definition escape_char :: "char \<Rightarrow> string" where
  "escape_char c =
    (if c = CHR 0x22 then [CHR 0x5C, CHR 0x22]
     else if c = CHR 0x5C then [CHR 0x5C, CHR 0x5C]
     else if c = CHR 0x08 then [CHR 0x5C, CHR ''b'']
     else if c = CHR 0x0C then [CHR 0x5C, CHR ''f'']
     else if c = CHR 0x0A then [CHR 0x5C, CHR ''n'']
     else if c = CHR 0x0D then [CHR 0x5C, CHR ''r'']
     else if c = CHR 0x09 then [CHR 0x5C, CHR ''t'']
     else if c < CHR 0x20 \<or> c = CHR ''<'' \<or> c = CHR ''>'' \<or> c = CHR ''&''
       then [CHR 0x5C, CHR ''u'', CHR ''0'', CHR ''0''] @ hex_byte c
     else [c])"

definition json_string :: "string \<Rightarrow> string" where
  "json_string s = CHR 0x22 # concat (map escape_char s) @ [CHR 0x22]"

text \<open>
  Reading one escaped character back off a text: the encoding of a character is never a proper
  prefix of another's, and none starts with the closing quote.
\<close>

definition unescape :: "string \<Rightarrow> (char \<times> string) option" where
  "unescape t = (case t of
      [] \<Rightarrow> None
    | c # r \<Rightarrow>
        if c = CHR 0x22 then None
        else if c \<noteq> CHR 0x5C then Some (c, r)
        else (case r of
            [] \<Rightarrow> None
          | d # q \<Rightarrow>
              if d = CHR ''b'' then Some (CHR 0x08, q)
              else if d = CHR ''f'' then Some (CHR 0x0C, q)
              else if d = CHR ''n'' then Some (CHR 0x0A, q)
              else if d = CHR ''r'' then Some (CHR 0x0D, q)
              else if d = CHR ''t'' then Some (CHR 0x09, q)
              else if d = CHR ''u''
                then Some (char_of (16 * hex_value (q ! 2) + hex_value (q ! 3)), drop 4 q)
              else Some (d, q)))"

lemma hex_byte_value: "char_of (16 * hex_value (hex_byte c ! 0) + hex_value (hex_byte c ! 1)) = c"
  by (simp add: hex_byte_def less_mult_imp_div_less)

lemma unescape_escape: "unescape (escape_char c @ r) = Some (c, r)"
proof -
  have "unescape ([CHR 0x5C, CHR ''u'', CHR ''0'', CHR ''0''] @ hex_byte c @ r) = Some (c, r)"
    using hex_byte_value [of c] by (simp add: unescape_def hex_byte_def)
  then show ?thesis
    by (simp add: escape_char_def unescape_def)
qed

lemma escape_char_neq_Nil [simp]: "escape_char c \<noteq> []"
  by (simp add: escape_char_def)

lemma unescape_quote [simp]: "unescape (CHR 0x22 # r) = None"
  by (simp add: unescape_def)

lemma escaped_split:
  "concat (map escape_char s) @ CHR 0x22 # r = concat (map escape_char t) @ CHR 0x22 # q \<Longrightarrow> s = t \<and> r = q"
proof (induction s arbitrary: t)
  case Nil
  then show ?case
  proof (cases t)
    case (Cons c u)
    with Nil have "unescape (CHR 0x22 # r) = Some (c, concat (map escape_char u) @ CHR 0x22 # q)"
      by (simp add: unescape_escape)
    then show ?thesis by simp
  qed simp
next
  case (Cons c s)
  show ?case
  proof (cases t)
    case Nil
    with Cons.prems have "unescape (CHR 0x22 # q) = Some (c, concat (map escape_char s) @ CHR 0x22 # r)"
      by (metis append_Nil append_assoc concat.simps(1) concat.simps(2) list.map(1) list.map(2) unescape_escape)
    then show ?thesis by simp
  next
    case (Cons d u)
    with Cons.prems have "unescape (escape_char c @ concat (map escape_char s) @ CHR 0x22 # r) =
        unescape (escape_char d @ concat (map escape_char u) @ CHR 0x22 # q)"
      by simp
    with Cons.IH [of u] Cons show ?thesis by (simp add: unescape_escape)
  qed
qed

lemma json_string_split: "json_string s @ r = json_string t @ q \<Longrightarrow> s = t \<and> r = q"
  using escaped_split [of s r t q] by (simp add: json_string_def)

section \<open>Values\<close>

datatype json =
  JNull | JBool bool | JInt int | JStr string | JArr "json list" | JObj "(string \<times> json) list"

fun commas :: "string list \<Rightarrow> string" where
  "commas [] = []"
| "commas [s] = s"
| "commas (s # t # ts) = s @ CHR '','' # commas (t # ts)"

fun json_encode :: "json \<Rightarrow> string" where
  "json_encode JNull = ''null''"
| "json_encode (JBool b) = (if b then ''true'' else ''false'')"
| "json_encode (JInt i) = dec_int i"
| "json_encode (JStr s) = json_string s"
| "json_encode (JArr vs) = CHR ''['' # commas (map json_encode vs) @ [CHR '']'']"
| "json_encode (JObj fs) =
    CHR ''{'' # commas (map (\<lambda>(k, v). json_string k @ CHR '':'' # json_encode v) fs) @ [CHR ''}'']"

text \<open>A text that may follow a value: nothing, or a separator or closing bracket.\<close>

definition json_end :: "string \<Rightarrow> bool" where
  "json_end r \<longleftrightarrow> r = [] \<or> hd r \<in> {CHR '','', CHR '']'', CHR ''}''}"

lemma json_end_simps [simp]:
  "json_end []" "json_end (CHR '','' # r)" "json_end (CHR '']'' # r)" "json_end (CHR ''}'' # r)"
  by (simp_all add: json_end_def)

lemma json_end_not_digit: "json_end r \<Longrightarrow> r = [] \<or> \<not> is_digit (hd r)"
  by (auto simp: json_end_def is_digit_def)

definition json_tag :: "json \<Rightarrow> nat" where
  "json_tag v = (case v of JNull \<Rightarrow> 0 | JBool b \<Rightarrow> (if b then 1 else 2) | JInt _ \<Rightarrow> 3 | JStr _ \<Rightarrow> 4
     | JArr _ \<Rightarrow> 5 | JObj _ \<Rightarrow> 6)"

definition char_tag :: "char \<Rightarrow> nat" where
  "char_tag c = (if c = CHR ''n'' then 0 else if c = CHR ''t'' then 1 else if c = CHR ''f'' then 2
     else if c = CHR ''-'' \<or> is_digit c then 3 else if c = CHR 0x22 then 4
     else if c = CHR ''['' then 5 else 6)"

lemma json_encode_neq_Nil [simp]: "json_encode v \<noteq> []"
  by (cases v) (auto simp: json_string_def)

lemma number_char: "c = CHR ''-'' \<or> is_digit c \<Longrightarrow> char_tag c = 3 \<and> c \<noteq> CHR '']'' \<and> c \<noteq> CHR ''}''"
  by (auto simp: char_tag_def is_digit_def)

lemma hd_json_encode: "char_tag (hd (json_encode v)) = json_tag v"
proof (cases v)
  case (JInt i)
  then show ?thesis using number_char [OF hd_dec_int] by (simp add: json_tag_def)
qed (auto simp: char_tag_def json_tag_def json_string_def is_digit_def)

lemma hd_json_encode_not_close: "hd (json_encode v) \<noteq> CHR '']''"
  using number_char [OF hd_dec_int] by (cases v) (auto simp: json_string_def)

lemma commas_Cons: "commas (s # ss) = s @ (if ss = [] then [] else CHR '','' # commas ss)"
  by (cases ss) auto

text \<open>Elements of a list, each readable off a text it starts, can be read off in a row.\<close>

lemma commas_split:
  assumes "commas (map f xs) @ e # r = commas (map f ys) @ e # q"
    and "e = CHR '']'' \<or> e = CHR ''}''"
    and "\<And>x y r q. x \<in> set xs \<Longrightarrow> f x @ r = f y @ q \<Longrightarrow> json_end r \<Longrightarrow> json_end q \<Longrightarrow> x = y \<and> r = q"
    and "\<And>x. f x \<noteq> []" and "\<And>x. hd (f x) \<noteq> e"
  shows "xs = ys \<and> r = q"
  using assms
proof (induction xs arbitrary: ys)
  case Nil
  show ?case
  proof (cases ys)
    case (Cons y ys')
    with Nil.prems(1) have "e = hd (f y)"
      by (simp add: commas_Cons) (metis Nil.prems(4) hd_append2 list.sel(1))
    with Nil.prems(5) show ?thesis by metis
  qed (use Nil in simp)
next
  case (Cons x xs)
  show ?case
  proof (cases ys)
    case Nil
    with Cons.prems(1) have "e = hd (f x)"
      by (simp add: commas_Cons) (metis Cons.prems(4) hd_append2 list.sel(1))
    with Cons.prems(5) show ?thesis by metis
  next
    case ys: (Cons y ys')
    let ?tail = "\<lambda>zs r. (if zs = [] then [] else CHR '','' # commas (map f zs)) @ e # r"
    have "f x @ ?tail xs r = f y @ ?tail ys' q"
      using Cons.prems(1) ys by (simp add: commas_Cons)
    moreover have "json_end (?tail zs r)" for zs r using Cons.prems(2) by auto
    ultimately have "x = y" and tails: "?tail xs r = ?tail ys' q"
      using Cons.prems(3) [of x "?tail xs r" y "?tail ys' q"] by auto
    have "e \<noteq> CHR '',''" using Cons.prems(2) by auto
    with tails have "xs = [] \<longleftrightarrow> ys' = []" by (auto split: if_splits)
    with tails have "commas (map f xs) @ e # r = commas (map f ys') @ e # q" by (auto split: if_splits)
    then have "xs = ys' \<and> r = q"
      by (rule Cons.IH) (use Cons.prems in auto)
    with \<open>x = y\<close> ys show ?thesis by simp
  qed
qed

lemma json_encode_split:
  "json_encode v @ r = json_encode w @ q \<Longrightarrow> json_end r \<Longrightarrow> json_end q \<Longrightarrow> v = w \<and> r = q"
proof (induction v arbitrary: w r q rule: json_encode.induct)
  case (5 vs)
  have "json_tag w = json_tag (JArr vs)"
    using "5.prems"(1) by (metis hd_append2 hd_json_encode json_encode_neq_Nil)
  then obtain ws where w: "w = JArr ws" by (cases w) (auto simp: json_tag_def split: if_splits)
  have "vs = ws \<and> r = q"
  proof (rule commas_split [of json_encode _ "CHR '']''"])
    show "commas (map json_encode vs) @ CHR '']'' # r = commas (map json_encode ws) @ CHR '']'' # q"
      using "5.prems"(1) w by simp
  qed (use "5.IH" hd_json_encode_not_close in auto)
  with w show ?case by simp
next
  case (6 fs)
  have "json_tag w = json_tag (JObj fs)"
    using "6.prems"(1) by (metis hd_append2 hd_json_encode json_encode_neq_Nil)
  then obtain gs where w: "w = JObj gs" by (cases w) (auto simp: json_tag_def split: if_splits)
  let ?f = "\<lambda>(k, v). json_string k @ CHR '':'' # json_encode v"
  have "fs = gs \<and> r = q"
  proof (rule commas_split [of ?f _ "CHR ''}''"])
    show "commas (map ?f fs) @ CHR ''}'' # r = commas (map ?f gs) @ CHR ''}'' # q"
      using "6.prems"(1) w by simp
    fix x y :: "string \<times> json" and r q
    assume x: "x \<in> set fs" and eq: "?f x @ r = ?f y @ q" and ends: "json_end r" "json_end q"
    obtain k v where x': "x = (k, v)" by (cases x)
    obtain l u where y: "y = (l, u)" by (cases y)
    from eq x' y have "json_string k @ (CHR '':'' # json_encode v @ r) = json_string l @ (CHR '':'' # json_encode u @ q)"
      by simp
    then have "k = l" and tails: "json_encode v @ r = json_encode u @ q"
      using json_string_split by blast+
    moreover from "6.IH" [OF x x' [symmetric] tails ends] have "v = u \<and> r = q" .
    ultimately show "x = y \<and> r = q" using x' y by simp
  qed (auto simp: json_string_def)
  with w show ?case by simp
next
  case (3 i)
  have "json_tag w = json_tag (JInt i)"
    using "3.prems"(1) by (metis hd_append2 hd_json_encode json_encode_neq_Nil)
  then obtain j where w: "w = JInt j" by (cases w) (auto simp: json_tag_def split: if_splits)
  with "3.prems" dec_int_split [of i r j q] json_end_not_digit show ?case by auto
next
  case (4 s)
  have "json_tag w = json_tag (JStr s)"
    using "4.prems"(1) by (metis hd_append2 hd_json_encode json_encode_neq_Nil)
  then obtain t where w: "w = JStr t" by (cases w) (auto simp: json_tag_def split: if_splits)
  with "4.prems" json_string_split [of s r t q] show ?case by auto
next
  case 1
  have "json_tag w = json_tag JNull"
    using "1.prems"(1) by (metis hd_append2 hd_json_encode json_encode_neq_Nil)
  then have "w = JNull" by (cases w) (auto simp: json_tag_def split: if_splits)
  with "1.prems" show ?case by simp
next
  case (2 b)
  have "json_tag w = json_tag (JBool b)"
    using "2.prems"(1) by (metis hd_append2 hd_json_encode json_encode_neq_Nil)
  then have "w = JBool b" by (cases w) (auto simp: json_tag_def split: if_splits)
  with "2.prems" show ?case by simp
qed

theorem json_encode_inj: "json_encode v = json_encode w \<Longrightarrow> v = w"
  using json_encode_split [of v "[]" w "[]"] by simp

end
