(* ===== verification/Rfc3339.thy ===== *)
theory Rfc3339
  imports Json
begin

text \<open>
  How \<^verbatim>\<open>time.Time.MarshalJSON\<close> writes an instant in UTC: RFC 3339 with up to nine
  fractional digits, and an error outside the years 0 to 9999. The calendar computation follows
  Go's \<^verbatim>\<open>absDate\<close>: whole cycles of 400, 100, 4 and 1 years are cut off the day count,
  then the month is found in the table of days before each month. The result proved is that two
  instants with the same text are equal.
\<close>

definition day_number :: "Time \<Rightarrow> int" where
  "day_number t = t div (24 * Hour)"

definition leap_year :: "int \<Rightarrow> bool" where
  "leap_year y \<longleftrightarrow> y mod 4 = 0 \<and> (y mod 100 \<noteq> 0 \<or> y mod 400 = 0)"

text \<open>Year and day within the year of a day counted from 1 January of year 1.\<close>

definition year_yday :: "int \<Rightarrow> int \<times> int" where
  "year_yday d =
    (let n400 = d div 146097; d1 = d mod 146097;
         n100 = (let n = d1 div 36524 in n - n div 4); d2 = d1 - 36524 * n100;
         n4 = d2 div 1461; d3 = d2 - 1461 * n4;
         n1 = (let n = d3 div 365 in n - n div 4); d4 = d3 - 365 * n1
     in (400 * n400 + 100 * n100 + 4 * n4 + n1 + 1, d4))"

definition days_before :: "int list" where
  "days_before = [0, 31, 59, 90, 120, 151, 181, 212, 243, 273, 304, 334, 365]"

definition month_day :: "bool \<Rightarrow> int \<Rightarrow> int \<times> int" where
  "month_day leap yday =
    (if leap \<and> yday = 59 then (2, 29)
     else
       let day = (if leap \<and> 59 < yday then yday - 1 else yday);
           m = nat (day div 31);
           month = (if day < days_before ! (m + 1) then m else m + 1)
       in (int month + 1, day - days_before ! month + 1))"

definition nanosecond_text :: "nat \<Rightarrow> string" where
  "nanosecond_text n =
    (if n = 0 then [] else CHR ''.'' # rev (dropWhile (\<lambda>c. c = CHR ''0'') (rev (pad_nat 9 n))))"

definition clock_text :: "nat \<Rightarrow> string" where
  "clock_text s = pad_nat 2 (s div 3600) @ CHR '':'' # pad_nat 2 (s div 60 mod 60) @ CHR '':'' # pad_nat 2 (s mod 60)"

definition year_of :: "Time \<Rightarrow> int" where
  "year_of t = fst (year_yday (day_number t))"

definition date_text :: "int \<Rightarrow> string" where
  "date_text d =
    (let (year, yday) = year_yday d; (month, day) = month_day (leap_year year) yday
     in pad_nat 4 (nat year) @ CHR ''-'' # pad_nat 2 (nat month) @ CHR ''-'' # pad_nat 2 (nat day))"

definition rfc3339_nano :: "Time \<Rightarrow> string" where
  "rfc3339_nano t =
    date_text (day_number t) @ CHR ''T'' # clock_text (nat (t mod (24 * Hour) div Second)) @
    nanosecond_text (nat (t mod Second)) @ ''Z''"

text \<open>\<^verbatim>\<open>MarshalJSON\<close>: \<open>None\<close> where it returns an error.\<close>

definition json_time :: "Time \<Rightarrow> json option" where
  "json_time t = (if 0 \<le> year_of t \<and> year_of t < 10000 then Some (JStr (rfc3339_nano t)) else None)"

section \<open>Reading the calendar back\<close>

definition yday_of :: "bool \<Rightarrow> int \<times> int \<Rightarrow> int" where
  "yday_of leap md =
    (let (month, day) = md
     in days_before ! nat (month - 1) + day - 1 + (if leap \<and> 2 < month then 1 else 0))"

lemma yday_of_month_day:
  assumes "0 \<le> y" and "y < (if leap then 366 else 365)"
  shows "yday_of leap (month_day leap y) = y \<and> 1 \<le> fst (month_day leap y) \<and> fst (month_day leap y) \<le> 12 \<and>
    1 \<le> snd (month_day leap y) \<and> snd (month_day leap y) \<le> 31"
proof -
  let ?ok = "\<lambda>leap y. yday_of leap (month_day leap y) = y \<and> 1 \<le> fst (month_day leap y) \<and>
    fst (month_day leap y) \<le> 12 \<and> 1 \<le> snd (month_day leap y) \<and> snd (month_day leap y) \<le> 31"
  have True: "list_all (?ok True) [0..365]" by code_simp
  have False: "list_all (?ok False) [0..364]" by code_simp
  show ?thesis
  proof (cases leap)
    case yes: True
    with assms have "y \<in> set [0..365]" by simp
    with True yes show ?thesis by (auto simp: list_all_iff)
  next
    case no: False
    with assms have "y \<in> set [0..364]" by simp
    with False no show ?thesis by (auto simp: list_all_iff)
  qed
qed

text \<open>The cycles that \<open>year_yday\<close> cuts off, and that the year determines them.\<close>

definition year_cycles :: "int \<Rightarrow> int \<Rightarrow> int \<Rightarrow> int \<Rightarrow> int \<Rightarrow> int \<Rightarrow> int \<Rightarrow> bool" where
  "year_cycles q a b c y yd d \<longleftrightarrow> 0 \<le> a \<and> a \<le> 3 \<and> 0 \<le> b \<and> b \<le> 24 \<and> 0 \<le> c \<and> c \<le> 3 \<and>
    y = 400 * q + 100 * a + 4 * b + c + 1 \<and> d = 146097 * q + 36524 * a + 1461 * b + 365 * c + yd"

lemma year_cycles_inj:
  "year_cycles q a b c y yd d \<Longrightarrow> year_cycles q' a' b' c' y yd d' \<Longrightarrow> d = d'"
proof -
  assume "year_cycles q a b c y yd d" "year_cycles q' a' b' c' y yd d'"
  then have bounds: "0 \<le> a" "a \<le> 3" "0 \<le> b" "b \<le> 24" "0 \<le> c" "c \<le> 3"
      "0 \<le> a'" "a' \<le> 3" "0 \<le> b'" "b' \<le> 24" "0 \<le> c'" "c' \<le> 3"
    and eq: "400 * q + 100 * a + 4 * b + c = 400 * q' + 100 * a' + 4 * b' + c'"
    and d: "d = 146097 * q + 36524 * a + 1461 * b + 365 * c + yd"
      "d' = 146097 * q' + 36524 * a' + 1461 * b' + 365 * c' + yd"
    by (simp_all add: year_cycles_def)
  from bounds eq have "q = q'" by (cases q q' rule: linorder_cases) linarith+
  moreover from this bounds eq have "a = a'" by (cases a a' rule: linorder_cases) linarith+
  moreover from \<open>q = q'\<close> \<open>a = a'\<close> bounds eq have "b = b'"
    by (cases b b' rule: linorder_cases) linarith+
  ultimately show "d = d'" using eq d by simp
qed

lemma div_bounds:
  fixes k x :: int
  assumes "0 < k" shows "k * (x div k) \<le> x" and "x < k * (x div k) + k"
  using assms pos_mod_bound [of k x] pos_mod_sign [of k x] mult_div_mod_eq [of k x] by linarith+

lemma small_cases:
  fixes m :: int
  assumes "0 \<le> m" and "m \<le> 4"
  obtains "m = 0" | "m = 1" | "m = 2" | "m = 3" | "m = 4"
  using assms by linarith

lemma year_yday_cycles:
  assumes "year_yday d = (y, yd)"
  obtains q a b c where "year_cycles q a b c y yd d"
    and "0 \<le> yd" and "yd < (if leap_year y then 366 else 365)"
proof -
  define q where "q = d div 146097"
  define d1 where "d1 = d mod 146097"
  define m where "m = d1 div 36524"
  define a where "a = m - m div 4"
  define d2 where "d2 = d1 - 36524 * a"
  define b where "b = d2 div 1461"
  define d3 where "d3 = d2 - 1461 * b"
  define n where "n = d3 div 365"
  define c where "c = n - n div 4"
  have y: "y = 400 * q + 100 * a + 4 * b + c + 1" and yd: "yd = d3 - 365 * c"
  proof -
    have "year_yday d = (400 * q + 100 * a + 4 * b + c + 1, d3 - 365 * c)"
      unfolding year_yday_def Let_def c_def n_def d3_def b_def d2_def a_def m_def d1_def q_def by (rule refl)
    with assms show "y = 400 * q + 100 * a + 4 * b + c + 1" and "yd = d3 - 365 * c" by simp_all
  qed
  have d: "d = 146097 * q + d1" and d1: "0 \<le> d1" "d1 < 146097" by (simp_all add: q_def d1_def)
  from div_bounds [of 36524 d1] have m: "36524 * m \<le> d1" "d1 < 36524 * m + 36524" by (simp_all add: m_def)
  with d1 have "0 \<le> m" "m \<le> 4" and m4: "m = 4 \<longrightarrow> d1 = 146096" by linarith+
  then have a: "0 \<le> a" "a \<le> 3" "a = (if m = 4 then 3 else m)" unfolding a_def by (auto elim!: small_cases)
  with m m4 have d2: "0 \<le> d2" "d2 \<le> 36524" "d2 = 36524 \<longrightarrow> a = 3"
    unfolding d2_def by (auto split: if_splits)
  from div_bounds [of 1461 d2] have b': "1461 * b \<le> d2" "d2 < 1461 * b + 1461" by (simp_all add: b_def)
  with d2 have b: "0 \<le> b" "b \<le> 24" and d3: "0 \<le> d3" "d3 \<le> 1460"
    unfolding d3_def by linarith+
  from div_bounds [of 365 d3] have n: "365 * n \<le> d3" "d3 < 365 * n + 365" by (simp_all add: n_def)
  with d3 have "0 \<le> n" "n \<le> 4" and n4: "n = 4 \<longrightarrow> d3 = 1460" by linarith+
  then have c: "0 \<le> c" "c \<le> 3" "c = (if n = 4 then 3 else n)" unfolding c_def by (auto elim!: small_cases)
  with n n4 have "0 \<le> yd" and "yd \<le> 365" and last: "yd = 365 \<longrightarrow> c = 3 \<and> d3 = 1460"
    unfolding yd by (auto split: if_splits)
  have "leap_year y" if "yd = 365"
  proof -
    from that last have c3: "c = 3" and "d3 = 1460" by auto
    then have d2': "d2 = 1461 * b + 1460" by (simp add: d3_def)
    show ?thesis
    proof (cases "b = 24")
      case True
      with d2' d2 have "a = 3" by simp
      with True c3 y have "y = 400 * (q + 1)" by simp
      then show ?thesis by (simp add: leap_year_def)
    next
      case False
      with b have "b \<le> 23" by simp
      have y': "y = 4 * (100 * q + 25 * a + b + 1)" using y c3 by simp
      have "y mod 100 = 4 * (b + 1)"
        using y c3 a b \<open>b \<le> 23\<close>
        by (intro int_mod_pos_eq [where q = "4 * q + a"]) auto
      with y' b show ?thesis by (simp add: leap_year_def)
    qed
  qed
  with \<open>yd \<le> 365\<close> have "yd < (if leap_year y then 366 else 365)"
    by (auto simp: order.strict_iff_order)
  moreover have "year_cycles q a b c y yd d"
    using a b c y yd d by (simp add: year_cycles_def d2_def d3_def)
  ultimately show thesis using that \<open>0 \<le> yd\<close> by blast
qed

lemma year_yday_inj: "year_yday d = year_yday e \<Longrightarrow> d = e"
  by (metis prod.exhaust year_cycles_inj year_yday_cycles)

section \<open>Texts determine instants\<close>

lemma append_eq_length: "length a = length b \<Longrightarrow> a @ r = b @ s \<longleftrightarrow> a = b \<and> r = s"
  by simp

lemma date_text_inj:
  assumes eq: "date_text d @ r = date_text e @ s"
    and d: "0 \<le> fst (year_yday d)" "fst (year_yday d) < 10000"
    and e: "0 \<le> fst (year_yday e)" "fst (year_yday e) < 10000"
  shows "d = e \<and> r = s"
proof -
  obtain y yd where yd: "year_yday d = (y, yd)" by (cases "year_yday d")
  obtain z ye where ye: "year_yday e = (z, ye)" by (cases "year_yday e")
  obtain m md where m: "month_day (leap_year y) yd = (m, md)" by (cases "month_day (leap_year y) yd")
  obtain k ke where k: "month_day (leap_year z) ye = (k, ke)" by (cases "month_day (leap_year z) ye")
  from yd have "0 \<le> yd" "yd < (if leap_year y then 366 else 365)" by (metis year_yday_cycles)+
  from yday_of_month_day [OF this] m have
    md: "yday_of (leap_year y) (m, md) = yd" "1 \<le> m" "m \<le> 12" "1 \<le> md" "md \<le> 31" by auto
  from ye have "0 \<le> ye" "ye < (if leap_year z then 366 else 365)" by (metis year_yday_cycles)+
  from yday_of_month_day [OF this] k have
    ke: "yday_of (leap_year z) (k, ke) = ye" "1 \<le> k" "k \<le> 12" "1 \<le> ke" "ke \<le> 31" by auto
  from eq have "pad_nat 4 (nat y) = pad_nat 4 (nat z)" "pad_nat 2 (nat m) = pad_nat 2 (nat k)"
      "pad_nat 2 (nat md) = pad_nat 2 (nat ke)" and rs: "r = s"
    by (auto simp: date_text_def yd ye m k append_eq_length)
  then have "nat y = nat z" "nat m = nat k" "nat md = nat ke"
    using d e md ke yd ye by (auto dest!: pad_nat_inj)
  then have "y = z" "m = k" "md = ke" using d e md ke yd ye by auto
  with md(1) ke(1) have "yd = ye" by simp
  with yd ye \<open>y = z\<close> rs show ?thesis by (metis year_yday_inj)
qed

lemma hms: "(k :: nat) = 3600 * (k div 3600) + 60 * (k div 60 mod 60) + k mod 60"
proof -
  have "k div 3600 = k div 60 div 60" by (simp add: div_mult2_eq [symmetric])
  then show ?thesis
    using div_mult_mod_eq [of k 60] div_mult_mod_eq [of "k div 60" 60] by linarith
qed

lemma clock_text_inj:
  assumes "clock_text m @ r = clock_text n @ s" and "m < 86400" and "n < 86400"
  shows "m = n \<and> r = s"
proof -
  have bounds: "k div 3600 < 10 ^ 2" "k div 60 mod 60 < 10 ^ 2" "k mod 60 < 10 ^ 2" if "k < 86400" for k :: nat
    using that by (auto simp: less_mult_imp_div_less intro: order.strict_trans)
  from assms(1) have "pad_nat 2 (m div 3600) = pad_nat 2 (n div 3600)"
      "pad_nat 2 (m div 60 mod 60) = pad_nat 2 (n div 60 mod 60)"
      "pad_nat 2 (m mod 60) = pad_nat 2 (n mod 60)" and "r = s"
    by (auto simp: clock_text_def append_eq_length)
  then have "m div 3600 = n div 3600" "m div 60 mod 60 = n div 60 mod 60" "m mod 60 = n mod 60"
    using bounds [OF assms(2)] bounds [OF assms(3)] by (meson pad_nat_inj)+
  then have "m = n" using hms [of m] hms [of n] by simp
  with \<open>r = s\<close> show ?thesis by simp
qed

lemma nanosecond_text_inj:
  assumes eq: "nanosecond_text m @ ''Z'' = nanosecond_text n @ ''Z''" and "m < 10 ^ 9" and "n < 10 ^ 9"
  shows "m = n"
proof -
  let ?trim = "\<lambda>t. rev (dropWhile (\<lambda>c. c = CHR ''0'') (rev t))"
  have untrim: "?trim t @ replicate (length t - length (?trim t)) CHR ''0'' = t" for t
  proof -
    have t: "t = ?trim t @ rev (takeWhile (\<lambda>c. c = CHR ''0'') (rev t))"
      by (metis rev_append rev_rev_ident takeWhile_dropWhile_id)
    moreover have "rev (takeWhile (\<lambda>c. c = CHR ''0'') (rev t)) =
        replicate (length t - length (?trim t)) CHR ''0''"
    proof (rule replicate_eqI)
      show "length (rev (takeWhile (\<lambda>c. c = CHR ''0'') (rev t))) = length t - length (?trim t)"
        using arg_cong [OF t, of length] by simp
    qed (auto dest: set_takeWhileD)
    ultimately show ?thesis by metis
  qed
  from eq have "nanosecond_text m = nanosecond_text n" by simp
  then consider "m = 0" "n = 0" | "?trim (pad_nat 9 m) = ?trim (pad_nat 9 n)"
    by (auto simp: nanosecond_text_def split: if_splits)
  then show ?thesis
  proof cases
    case 2
    then have "pad_nat 9 m = pad_nat 9 n" by (metis length_pad_nat untrim)
    then show ?thesis using assms(2,3) by (rule pad_nat_inj)
  qed simp
qed

theorem rfc3339_nano_inj:
  assumes eq: "rfc3339_nano t = rfc3339_nano u"
    and "0 \<le> year_of t" "year_of t < 10000" and "0 \<le> year_of u" "year_of u < 10000"
  shows "t = u"
proof -
  let ?s = "\<lambda>t :: Time. nat (t mod (24 * Hour) div Second)" and ?n = "\<lambda>t :: Time. nat (t mod Second)"
  have s: "?s t < 86400" and n: "?n t < 10 ^ 9" for t
    by (simp_all add: nat_less_iff)
  from eq assms(2-) have day: "day_number t = day_number u"
    and rest: "clock_text (?s t) @ nanosecond_text (?n t) @ ''Z'' = clock_text (?s u) @ nanosecond_text (?n u) @ ''Z''"
    unfolding rfc3339_nano_def year_of_def by (auto dest: date_text_inj)
  from clock_text_inj [OF rest s s] have hms: "?s t = ?s u"
    and "nanosecond_text (?n t) @ ''Z'' = nanosecond_text (?n u) @ ''Z''" by auto
  from nanosecond_text_inj [OF this(2) n n] have ns: "?n t = ?n u" .
  have "0 \<le> x mod (24 * Hour) div Second" and "0 \<le> x mod Second" for x :: Time
    by (simp_all add: pos_imp_zdiv_nonneg_iff)
  with hms ns have "t mod (24 * Hour) div Second = u mod (24 * Hour) div Second" and "t mod Second = u mod Second"
    by (simp_all only: eq_nat_nat_iff)
  moreover have "Second * (x mod (24 * Hour) div Second) + x mod Second = x mod (24 * Hour)" for x :: Time
  proof -
    have "x mod (24 * Hour) mod Second = x mod Second" by (rule mod_mod_cancel) simp
    then show ?thesis by (metis mult_div_mod_eq)
  qed
  moreover have "24 * Hour * day_number x + x mod (24 * Hour) = x" for x :: Time
    unfolding day_number_def by (rule mult_div_mod_eq)
  ultimately show "t = u" using day by metis
qed

lemma json_time_inj: "json_time t = Some v \<Longrightarrow> json_time u = Some v \<Longrightarrow> t = u"
  by (auto simp: json_time_def split: if_splits dest: rfc3339_nano_inj)

end
