(* ===== verification/Audit_Chain.thy ===== *)
theory Audit_Chain
  imports Sort_Slice Rfc3339
begin

text \<open>
  \<^verbatim>\<open>internal/audit/chain.go\<close>: the hash chain of audit events. A Go map of details is an
  association list; \<open>hash_event\<close> sorts its keys, so the order in which a map is iterated does not
  matter (\<open>details_pairs_cong\<close>). The error that \<^verbatim>\<open>json.Marshal\<close> returns for a time
  outside the years 0 to 9999 is dropped by the code, which then hashes the empty payload.

  \<open>linked\<close> is the specification of a chain; \<open>Verify_iff_linked\<close> says that the code decides it,
  \<open>Append_extends\<close> that appending keeps it, and \<open>linked_tamper_evident\<close> that two chains with the same
  head hold the same events unless two of their payloads collide under SHA-256.
\<close>

record Event =
  e_ID :: string
  e_TenantID :: string
  e_ActorID :: string
  e_Action :: string
  e_ObjectType :: string
  e_ObjectID :: string
  e_Outcome :: string
  e_Details :: "(string \<times> string) list"
  e_OccurredAt :: Time
  e_Sequence :: int
  e_PreviousHash :: string
  e_Hash :: string

definition zero_event :: Event where
  "zero_event = \<lparr>e_ID = [], e_TenantID = [], e_ActorID = [], e_Action = [], e_ObjectType = [],
    e_ObjectID = [], e_Outcome = [], e_Details = [], e_OccurredAt = 0, e_Sequence = 0,
    e_PreviousHash = [], e_Hash = []\<rparr>"

definition details_pairs :: "(string \<times> string) list \<Rightarrow> (string \<times> string) list" where
  "details_pairs ds = map (\<lambda>k. (k, the (map_of ds k))) (sort_strings (remdups (map fst ds)))"

definition event_payload :: "Event \<Rightarrow> string" where
  "event_payload e =
    (case json_time (e_OccurredAt e) of
       None \<Rightarrow> []
     | Some t \<Rightarrow> json_encode (JArr
         [JStr (e_ID e), JStr (e_TenantID e), JStr (e_ActorID e), JStr (e_Action e),
          JStr (e_ObjectType e), JStr (e_ObjectID e), JStr (e_Outcome e), t, JInt (e_Sequence e),
          JStr (e_PreviousHash e),
          JArr (map (\<lambda>(k, v). JArr [JStr k, JStr v]) (details_pairs (e_Details e)))]))"

definition hash_event :: "Event \<Rightarrow> string" where
  "hash_event e = sha256_hex (event_payload e)"

definition Append :: "Event \<Rightarrow> Event \<Rightarrow> Event result" where
  "Append previous event =
    (if e_ID event = [] \<or> e_TenantID event = [] \<or> e_ActorID event = [] \<or> e_Action event = [] \<or>
        e_ObjectType event = [] \<or> e_ObjectID event = [] \<or> e_Outcome event = [] \<or> e_OccurredAt event = 0
     then Inl (errorf ErrInvalid ''audit event'')
     else if e_ID previous \<noteq> [] \<and>
        (e_TenantID previous \<noteq> e_TenantID event \<or> e_OccurredAt event < e_OccurredAt previous)
     then Inl (errorf ErrConflict ''audit predecessor'')
     else
       let event1 = event\<lparr>e_Sequence := inc64 (e_Sequence previous), e_PreviousHash := e_Hash previous\<rparr>
       in Inr (event1\<lparr>e_Hash := hash_event event1\<rparr>))"

fun verify_loop :: "Event \<Rightarrow> nat \<Rightarrow> Event list \<Rightarrow> unit result" where
  "verify_loop previous index [] = Inr ()"
| "verify_loop previous index (event # rest) =
    (if e_Sequence event \<noteq> wrap64 (int index + 1) \<or> e_PreviousHash event \<noteq> e_Hash previous \<or>
        e_Hash event \<noteq> hash_event event
     then Inl (errorf ErrConflict (''audit chain at sequence '' @ dec_int (e_Sequence event)))
     else verify_loop event (Suc index) rest)"

definition Verify :: "Event list \<Rightarrow> unit result" where
  "Verify events = verify_loop zero_event 0 (sort_slice (by_key e_Sequence) events)"

section \<open>Specification\<close>

fun linked :: "string \<Rightarrow> int \<Rightarrow> Event list \<Rightarrow> bool" where
  "linked h n [] = True"
| "linked h n (e # es) =
    (e_Sequence e = n + 1 \<and> e_PreviousHash e = h \<and> e_Hash e = hash_event e \<and>
     linked (e_Hash e) (n + 1) es)"

definition head_hash :: "string \<Rightarrow> Event list \<Rightarrow> string" where
  "head_hash h es = (if es = [] then h else e_Hash (last es))"

text \<open>Two events that differ at most in how the details map is laid out.\<close>

definition same_event :: "Event \<Rightarrow> Event \<Rightarrow> bool" where
  "same_event e f \<longleftrightarrow> e\<lparr>e_Details := e_Details f\<rparr> = f \<and> map_of (e_Details e) = map_of (e_Details f)"

definition json_year :: "Time \<Rightarrow> bool" where
  "json_year t \<longleftrightarrow> 0 \<le> year_of t \<and> year_of t < 10000"

lemma head_hash_simps [simp]:
  "head_hash h [] = h" "head_hash h (e # es) = head_hash (e_Hash e) es"
  "head_hash h (es @ [e]) = e_Hash e"
  by (auto simp: head_hash_def)

lemma linked_append:
  "linked h n (es @ fs) \<longleftrightarrow> linked h n es \<and> linked (head_hash h es) (n + int (length es)) fs"
  by (induction es arbitrary: h n) (auto simp: algebra_simps)

lemma linked_sequences: "linked h n es \<Longrightarrow> map e_Sequence es = map (\<lambda>i. n + 1 + int i) [0..<length es]"
proof (induction es arbitrary: h n)
  case (Cons e es)
  from Cons.prems Cons.IH have "map e_Sequence es = map (\<lambda>i. n + 1 + 1 + int i) [0..<length es]" by auto
  moreover have "map (\<lambda>i. n + 1 + int i) [0..<length (e # es)] =
      (n + 1) # map (\<lambda>i. n + 1 + 1 + int i) [0..<length es]"
    by (simp add: upt_conv_Cons map_Suc_upt [symmetric] comp_def algebra_simps del: upt_Suc)
  ultimately show ?case using Cons.prems by simp
qed simp

lemma linked_ordered: "linked h n es \<Longrightarrow> ordered_by (by_key e_Sequence) es"
  unfolding ordered_by_key_iff by (simp add: linked_sequences sorted_iff_nth_mono)

lemma linked_sort: "linked h n es \<Longrightarrow> sort_slice (by_key e_Sequence) es = es"
  by (simp add: linked_ordered sort_slice_ordered)

lemma verify_loop_linked:
  "int index + int (length es) \<le> max_int64 \<Longrightarrow>
    verify_loop previous index es = Inr () \<longleftrightarrow> linked (e_Hash previous) (int index) es"
proof (induction es arbitrary: previous index)
  case (Cons e es)
  then have "in_int64 (int index + 1)" by (simp add: in_int64_def min_int64_def max_int64_def)
  with Cons show ?case by (auto simp: algebra_simps)
qed simp

lemma Verify_iff_linked:
  "int (length es) \<le> max_int64 \<Longrightarrow>
    Verify es = Inr () \<longleftrightarrow> linked [] 0 (sort_slice (by_key e_Sequence) es)"
  using verify_loop_linked [of 0 "sort_slice (by_key e_Sequence) es" zero_event]
  by (simp add: Verify_def zero_event_def)

lemma Verify_linked: "int (length es) \<le> max_int64 \<Longrightarrow> linked [] 0 es \<Longrightarrow> Verify es = Inr ()"
  by (simp add: Verify_iff_linked linked_sort)

section \<open>Payloads\<close>

lemma set_details_pairs: "(k, v) \<in> set (details_pairs ds) \<longleftrightarrow> map_of ds k = Some v"
proof -
  have "(k, v) \<in> set (details_pairs ds) \<longleftrightarrow> k \<in> fst ` set ds \<and> v = the (map_of ds k)"
    by (auto simp: details_pairs_def image_iff)
  also have "\<dots> \<longleftrightarrow> map_of ds k = Some v"
  proof (cases "map_of ds k")
    case None
    then have "k \<notin> fst ` set ds" by (simp add: map_of_eq_None_iff)
    with None show ?thesis by simp
  next
    case (Some w)
    then have "k \<in> fst ` set ds" using map_of_eq_None_iff [of ds k] by simp
    with Some show ?thesis by auto
  qed
  finally show ?thesis .
qed

lemma details_pairs_inj: "details_pairs ds = details_pairs fs \<Longrightarrow> map_of ds = map_of fs"
proof
  fix k assume "details_pairs ds = details_pairs fs"
  then have "map_of ds k = Some v \<longleftrightarrow> map_of fs k = Some v" for v
    by (metis set_details_pairs)
  then show "map_of ds k = map_of fs k" by (metis option.exhaust)
qed

text \<open>The iteration order of the details map is not observable.\<close>

lemma details_pairs_cong: "map_of ds = map_of fs \<Longrightarrow> details_pairs ds = details_pairs fs"
proof -
  assume eq: "map_of ds = map_of fs"
  then have "set (map fst ds) = set (map fst fs)" by (metis dom_map_of_conv_image_fst list.set_map)
  then have "mset (remdups (map fst ds)) = mset (remdups (map fst fs))"
    by (metis distinct_remdups set_eq_iff_mset_eq_distinct set_remdups)
  then have "sort_strings (remdups (map fst ds)) = sort_strings (remdups (map fst fs))"
    by (intro less_than.sort_slice_perm) auto
  with eq show ?thesis by (simp add: details_pairs_def)
qed

lemma set_e_Hash_same [simp]: "e\<lparr>e_Hash := e_Hash e\<rparr> = e"
  by simp

lemma hash_event_e_Hash [simp]: "hash_event (e\<lparr>e_Hash := h\<rparr>) = hash_event e"
  by (simp add: hash_event_def event_payload_def cong: option.case_cong)

lemma hash_event_cong: "same_event e f \<Longrightarrow> hash_event e = hash_event f"
proof -
  assume same: "same_event e f"
  then have "details_pairs (e_Details e) = details_pairs (e_Details f)"
    by (intro details_pairs_cong) (simp add: same_event_def)
  then have "hash_event (e\<lparr>e_Details := e_Details f\<rparr>) = hash_event e"
    by (simp add: hash_event_def event_payload_def cong: option.case_cong)
  with same show ?thesis by (simp add: same_event_def)
qed

lemma same_event_PreviousHash: "same_event e f \<Longrightarrow> e_PreviousHash e = e_PreviousHash f"
  by (auto simp: same_event_def dest: arg_cong [where f = e_PreviousHash])

lemma event_payload_inj:
  assumes "event_payload e = event_payload f" and "json_year (e_OccurredAt e)" and "json_year (e_OccurredAt f)"
  shows "same_event (e\<lparr>e_Hash := h\<rparr>) (f\<lparr>e_Hash := h\<rparr>)"
proof -
  obtain t u where t: "json_time (e_OccurredAt e) = Some t" and u: "json_time (e_OccurredAt f) = Some u"
    using assms(2,3) by (auto simp: json_time_def json_year_def)
  let ?pair = "\<lambda>(k, v). JArr [JStr k, JStr v]"
  from assms(1) have fields: "e_ID e = e_ID f" "e_TenantID e = e_TenantID f" "e_ActorID e = e_ActorID f"
      "e_Action e = e_Action f" "e_ObjectType e = e_ObjectType f" "e_ObjectID e = e_ObjectID f"
      "e_Outcome e = e_Outcome f" "t = u" "e_Sequence e = e_Sequence f" "e_PreviousHash e = e_PreviousHash f"
    and details: "map ?pair (details_pairs (e_Details e)) = map ?pair (details_pairs (e_Details f))"
    unfolding event_payload_def t u by (auto dest!: json_encode_inj simp del: json_encode.simps)
  have "inj ?pair" by (auto simp: inj_on_def)
  with details have "details_pairs (e_Details e) = details_pairs (e_Details f)"
    by (rule map_injective)
  then have "map_of (e_Details e) = map_of (e_Details f)" by (rule details_pairs_inj)
  moreover from t u \<open>t = u\<close> have "e_OccurredAt e = e_OccurredAt f" by (metis json_time_inj)
  ultimately show ?thesis using fields by (simp add: same_event_def Event.equality)
qed

section \<open>Appending\<close>

lemma AppendD:
  assumes "Append previous event = Inr e"
  shows "e_Sequence e = inc64 (e_Sequence previous)" and "e_PreviousHash e = e_Hash previous"
    and "e_Hash e = hash_event e" and "e_ID e = e_ID event" and "e_TenantID e = e_TenantID event"
    and "e_OccurredAt e = e_OccurredAt event" and "e_ID event \<noteq> []" and "e_TenantID event \<noteq> []"
    and "e_OccurredAt event \<noteq> 0"
    and "e_ID previous = [] \<or> e_TenantID previous = e_TenantID event \<and> e_OccurredAt previous \<le> e_OccurredAt event"
  using assms by (auto simp: Append_def Let_def split: if_splits)

lemma Append_extends:
  assumes "linked [] 0 es" and "int (length es) < max_int64"
    and "Append (if es = [] then zero_event else last es) event = Inr e"
  shows "linked [] 0 (es @ [e])"
proof -
  let ?p = "if es = [] then zero_event else last es"
  have seq: "e_Sequence ?p = int (length es)"
  proof (cases es rule: rev_cases)
    case (snoc fs f)
    with assms(1) show ?thesis by (auto simp: linked_append)
  qed (simp add: zero_event_def)
  have "inc64 (int (length es)) = int (length es) + 1"
    using assms(2) by (intro inc64_id) (auto simp: in_int64_def min_int64_def)
  moreover have "e_Hash ?p = head_hash [] es" by (simp add: head_hash_def zero_event_def)
  ultimately show ?thesis
    using assms(1) AppendD(1-3) [OF assms(3)] seq by (auto simp: linked_append)
qed

section \<open>Tamper evidence\<close>

lemma linked_tamper_evident:
  assumes "linked h n es" and "linked h n fs" and "length es = length fs"
    and "head_hash h es = head_hash h fs"
    and "\<forall>e\<in>set es \<union> set fs. json_year (e_OccurredAt e)"
    and no_collision: "\<And>e f. e \<in> set es \<Longrightarrow> f \<in> set fs \<Longrightarrow> \<not> sha256_collision (event_payload e) (event_payload f)"
  shows "list_all2 same_event es fs"
  using assms
proof (induction es arbitrary: fs rule: rev_induct)
  case Nil
  then show ?case by simp
next
  case (snoc e es)
  from snoc.prems(3) obtain f gs where fs: "fs = gs @ [f]" by (cases fs rule: rev_cases) auto
  from snoc.prems fs have e: "linked h n es" "e_PreviousHash e = head_hash h es" "e_Hash e = hash_event e"
    and f: "linked h n gs" "e_PreviousHash f = head_hash h gs" "e_Hash f = hash_event f"
    and hash: "e_Hash e = e_Hash f" by (auto simp: linked_append)
  from hash e f have "sha256_sum (event_payload e) = sha256_sum (event_payload f)"
    by (simp add: hash_event_def sha256_hex_eq_iff)
  with snoc.prems(6) [of e f] fs have payload: "event_payload e = event_payload f"
    by (auto simp: sha256_collision_def)
  from event_payload_inj [OF this, of "e_Hash e"] snoc.prems(5) fs have same: "same_event e f"
    by (simp add: hash [symmetric] set_e_Hash_same) (simp add: hash set_e_Hash_same)
  then have "e_PreviousHash e = e_PreviousHash f" by (rule same_event_PreviousHash)
  with e f have "head_hash h es = head_hash h gs" by simp
  with snoc fs e f have "list_all2 same_event es gs" by auto
  with same fs show ?case by (auto intro: list_all2_appendI)
qed

section \<open>Properties\<close>

definition example_event :: Event where
  "example_event = zero_event\<lparr>e_ID := ''audit-1'', e_TenantID := ''panama-east'', e_ActorID := ''ops'',
    e_Action := ''voyage.declare'', e_ObjectType := ''voyage'', e_ObjectID := ''voyage-1'',
    e_Outcome := ''accepted'', e_Details := [(''vessel'', ''IMO1''), (''cargo'', ''bulk'')], e_OccurredAt := 1000\<rparr>"

lemma linked_distinct: "linked h n es \<Longrightarrow> distinct (map e_Sequence es)"
  by (simp add: linked_sequences distinct_map inj_on_def)

lemma linked_sorted_perm:
  assumes "linked h n fs" and "mset es = mset fs"
  shows "sort_slice (by_key e_Sequence) es = fs"
  using sort_slice_by_key_perm [OF assms(2), of e_Sequence] linked_distinct [OF assms(1)]
    linked_sort [OF assms(1)] by (simp add: distinct_map)

text \<open>
  C18: Verify accepts a list of events exactly when some ordering of it is a chain: sequence numbers
  1, 2, 3, ..., every previous hash the hash of the event before it (empty for the first), every hash
  the hash of its own event. The order in which the events are handed over does not matter.
\<close>

theorem Verify_decides_chain:
  assumes "int (length es) \<le> max_int64"
  shows "Verify es = Inr () \<longleftrightarrow> (\<exists>fs. mset fs = mset es \<and> linked [] 0 fs)"
proof
  assume "Verify es = Inr ()"
  with assms have "linked [] 0 (sort_slice (by_key e_Sequence) es)" by (simp add: Verify_iff_linked)
  then show "\<exists>fs. mset fs = mset es \<and> linked [] 0 fs" by (intro exI conjI) auto
next
  assume "\<exists>fs. mset fs = mset es \<and> linked [] 0 fs"
  then obtain fs where "mset es = mset fs" and "linked [] 0 fs" by metis
  with assms show "Verify es = Inr ()" by (simp add: Verify_iff_linked linked_sorted_perm)
qed

lemma Append_example:
  "Append zero_event example_event =
    Inr (let e = example_event\<lparr>e_Sequence := 1, e_PreviousHash := []\<rparr> in e\<lparr>e_Hash := hash_event e\<rparr>)"
proof -
  have "inc64 0 = 1" by (simp add: inc64_id in_int64_def min_int64_def max_int64_def)
  then show ?thesis by (simp add: Append_def example_event_def zero_event_def Let_def)
qed

theorem Verify_decides_chain_witness:
  "(Verify [example_event] = Inr ()) =
    (\<exists>fs. mset fs = mset [example_event] \<and> linked [] 0 fs)"
  using Verify_decides_chain [of "[example_event]"] by (simp add: max_int64_def)

text \<open>
  An event that Append accepts after the last event of a chain that Verify accepts (in sequence
  order, as the store reads it) extends it to one that Verify accepts, keeps the identity, tenant and
  time the caller gave, belongs to the tenant of its predecessor and is not older than it.
\<close>

theorem Append_keeps_chain:
  assumes "Verify es = Inr ()" and "sorted (map e_Sequence es)" and "int (length es) < max_int64"
    and "Append (if es = [] then zero_event else last es) event = Inr e"
  shows "Verify (es @ [e]) = Inr () \<and>
    e_Sequence e = int (length es) + 1 \<and>
    (e_ID e = e_ID event \<and> e_TenantID e = e_TenantID event \<and> e_OccurredAt e = e_OccurredAt event) \<and>
    (es = [] \<or> e_ID (last es) = [] \<or>
      e_TenantID (last es) = e_TenantID e \<and> e_OccurredAt (last es) \<le> e_OccurredAt e)"
proof (rule conj4I; (intro allI impI)?)
  have "sort_slice (by_key e_Sequence) es = es"
    using assms(2) by (simp add: sort_slice_ordered ordered_by_key_iff)
  with assms(1,3) have "linked [] 0 es" by (simp add: Verify_iff_linked)
  then have linked: "linked [] 0 (es @ [e])" using assms(3,4) by (rule Append_extends)
  then show "Verify (es @ [e]) = Inr ()" using assms(3) by (intro Verify_linked) simp_all
  from linked show "e_Sequence e = int (length es) + 1" by (simp add: linked_append)
  show "e_ID e = e_ID event \<and> e_TenantID e = e_TenantID event \<and> e_OccurredAt e = e_OccurredAt event"
    using AppendD(4-6) [OF assms(4)] by simp
  show "es = [] \<or> e_ID (last es) = [] \<or>
      e_TenantID (last es) = e_TenantID e \<and> e_OccurredAt (last es) \<le> e_OccurredAt e"
    using AppendD(5,6,10) [OF assms(4)] by auto
qed

theorem Append_keeps_chain_witness:
  "\<exists>e. Append zero_event example_event = Inr e \<and> Verify ([] @ [e]) = Inr ()"
  using Append_keeps_chain [of "[]" example_event, THEN conjunct1] Append_example
  by (simp add: max_int64_def Verify_def Let_def)



text \<open>
  The hash of an event whose year JSON cannot encode is the hash of the empty payload, whatever
  the event says: the error of json.Marshal is dropped, so such events are interchangeable.
\<close>

lemma hash_ignores_unencodable_events:
  assumes "\<not> json_year (e_OccurredAt e)"
  shows "hash_event e = sha256_hex []"
proof -
  have "json_time (e_OccurredAt e) = None" using assms by (auto simp: json_time_def json_year_def)
  then show ?thesis by (simp add: hash_event_def event_payload_def)
qed

lemma hash_ignores_unencodable_events_witness:
  "hash_event (example_event\<lparr>e_OccurredAt := 400000000000000000000, e_ActorID := ''mallory''\<rparr>) = sha256_hex []"
proof -
  have "\<not> json_year 400000000000000000000" by code_simp
  then show ?thesis
    using hash_ignores_unencodable_events
      [of "example_event\<lparr>e_OccurredAt := 400000000000000000000, e_ActorID := ''mallory''\<rparr>"] by simp
qed

end
