(* ===== verification/Voyage.thy ===== *)
theory Voyage
  imports Sort_Slice Rfc3339
begin

text \<open>
  \<^verbatim>\<open>internal/clearance/model.go\<close>: voyages, cargo manifests and inspections, the operations
  that move a voyage through its life, and the table of transitions. A status is the string the
  code gives it. A function that returns a value beside an error is modelled by the error alone,
  since no caller reads the value then; \<^verbatim>\<open>*time.Time\<close> is \<open>Time option\<close>.

  \<open>voyage_step\<close> is the step relation of the four operations. Its lemmas say that a step follows
  the table, keeps the identity of the voyage and adds one to the version, and that the table has no
  cycle, so that no voyage takes more than six steps. \<open>BuildManifest_eq\<close> gives the manifest as a
  function of the set of its items.
\<close>

section \<open>Data\<close>

type_synonym VoyageStatus = string

abbreviation VoyageDraft :: VoyageStatus where "VoyageDraft \<equiv> ''draft''"
abbreviation VoyageDeclared :: VoyageStatus where "VoyageDeclared \<equiv> ''declared''"
abbreviation VoyageHeld :: VoyageStatus where "VoyageHeld \<equiv> ''held''"
abbreviation VoyageCleared :: VoyageStatus where "VoyageCleared \<equiv> ''cleared''"
abbreviation VoyageScheduled :: VoyageStatus where "VoyageScheduled \<equiv> ''scheduled''"
abbreviation VoyageInTransit :: VoyageStatus where "VoyageInTransit \<equiv> ''in_transit''"
abbreviation VoyageCompleted :: VoyageStatus where "VoyageCompleted \<equiv> ''completed''"
abbreviation VoyageCancelled :: VoyageStatus where "VoyageCancelled \<equiv> ''cancelled''"

record Voyage =
  v_ID :: string
  v_TenantID :: string
  v_VesselIMO :: string
  v_VesselName :: string
  v_OriginPort :: string
  v_DestinationPort :: string
  v_ETA :: Time
  v_Status :: VoyageStatus
  v_ManifestHash :: string
  v_DeclaredAt :: "Time option"
  v_ClearedAt :: "Time option"
  v_Version :: int

record CargoItem =
  c_ContainerNo :: string
  c_HSCode :: string
  c_Description :: string
  c_GrossKg :: int
  c_Packages :: int
  c_Hazardous :: bool

record Manifest =
  m_VoyageID :: string
  m_Items :: "CargoItem list"
  m_Hash :: string

record Inspection =
  i_ID :: string
  i_VoyageID :: string
  i_OfficerID :: string
  i_Kind :: string
  i_Status :: string
  i_Finding :: string
  i_OpenedAt :: Time
  i_ClosedAt :: "Time option"
  i_Version :: int

section \<open>Operations\<close>

definition NewVoyage ::
    "string \<Rightarrow> string \<Rightarrow> string \<Rightarrow> string \<Rightarrow> string \<Rightarrow> string \<Rightarrow> Time \<Rightarrow> Voyage result" where
  "NewVoyage vid tenant imo name origin destination eta =
    (if vid = [] \<or> tenant = [] \<or> length (trim_space imo) < 7 \<or> name = [] \<or> origin = [] \<or>
        destination = [] \<or> origin = destination \<or> eta = 0
     then Inl (errorf ErrInvalid ''voyage declaration'')
     else Inr \<lparr>v_ID = vid, v_TenantID = tenant, v_VesselIMO = trim_space imo, v_VesselName = trim_space name,
       v_OriginPort = origin, v_DestinationPort = destination, v_ETA = eta, v_Status = VoyageDraft,
       v_ManifestHash = [], v_DeclaredAt = None, v_ClearedAt = None, v_Version = 1\<rparr>)"

definition cargo_json :: "CargoItem \<Rightarrow> json" where
  "cargo_json c = JObj
    [(''ContainerNo'', JStr (c_ContainerNo c)), (''HSCode'', JStr (c_HSCode c)),
     (''Description'', JStr (c_Description c)), (''GrossKg'', JInt (c_GrossKg c)),
     (''Packages'', JInt (c_Packages c)), (''Hazardous'', JBool (c_Hazardous c))]"

text \<open>The payload that is hashed: \<^verbatim>\<open>json.Marshal\<close> of the items.\<close>

definition manifest_payload :: "CargoItem list \<Rightarrow> string" where
  "manifest_payload items = json_encode (JArr (map cargo_json items))"

definition valid_cargo :: "CargoItem \<Rightarrow> bool" where
  "valid_cargo c \<longleftrightarrow> c_ContainerNo c \<noteq> [] \<and> c_HSCode c \<noteq> [] \<and> c_Description c \<noteq> [] \<and>
    0 < c_GrossKg c \<and> 0 < c_Packages c"

text \<open>The checking loop; \<open>seen\<close> holds the containers of the items before.\<close>

fun check_cargo :: "string list \<Rightarrow> CargoItem list \<Rightarrow> unit result" where
  "check_cargo seen [] = Inr ()"
| "check_cargo seen (c # cs) =
    (if \<not> valid_cargo c then Inl (errorf ErrInvalid ''cargo item'')
     else if c_ContainerNo c \<in> set seen then Inl (errorf ErrConflict ''duplicate container'')
     else check_cargo (c_ContainerNo c # seen) cs)"

definition BuildManifest :: "string \<Rightarrow> CargoItem list \<Rightarrow> Manifest result" where
  "BuildManifest voyageID items =
    (if voyageID = [] \<or> items = [] then Inl (errorf ErrInvalid ''manifest'')
     else bindR (check_cargo [] items) (\<lambda>_.
       let copyItems = sort_slice (by_key c_ContainerNo) items
       in Inr \<lparr>m_VoyageID = voyageID, m_Items = copyItems, m_Hash = sha256_hex (manifest_payload copyItems)\<rparr>))"

definition Declare :: "Voyage \<Rightarrow> Manifest \<Rightarrow> Time \<Rightarrow> int \<Rightarrow> Voyage result" where
  "Declare voyage manifest t expectedVersion =
    (if v_Status voyage \<noteq> VoyageDraft \<or> v_Version voyage \<noteq> expectedVersion \<or>
        m_VoyageID manifest \<noteq> v_ID voyage \<or> length (m_Hash manifest) \<noteq> 64 \<or> t = 0
     then Inl (errorf ErrConflict ''voyage cannot be declared'')
     else Inr (voyage\<lparr>v_Status := VoyageDeclared, v_ManifestHash := m_Hash manifest,
       v_DeclaredAt := Some t, v_Version := inc64 (v_Version voyage)\<rparr>))"

definition OpenInspection ::
    "string \<Rightarrow> Voyage \<Rightarrow> string \<Rightarrow> string \<Rightarrow> Time \<Rightarrow> (Inspection \<times> Voyage) result" where
  "OpenInspection vid voyage officer kind t =
    (if vid = [] \<or> officer = [] \<or> kind = [] \<or> v_Status voyage \<noteq> VoyageDeclared \<or> t = 0
     then Inl (errorf ErrState ''inspection opening'')
     else Inr (\<lparr>i_ID = vid, i_VoyageID = v_ID voyage, i_OfficerID = officer, i_Kind = kind,
         i_Status = ''open'', i_Finding = [], i_OpenedAt = t, i_ClosedAt = None, i_Version = 1\<rparr>,
       voyage\<lparr>v_Status := VoyageHeld, v_Version := inc64 (v_Version voyage)\<rparr>))"

definition CloseInspection :: "Inspection \<Rightarrow> string \<Rightarrow> bool \<Rightarrow> Time \<Rightarrow> int \<Rightarrow> Inspection result" where
  "CloseInspection inspection finding passed t expectedVersion =
    (if i_Status inspection \<noteq> ''open'' \<or> i_Version inspection \<noteq> expectedVersion \<or>
        trim_space finding = [] \<or> t < i_OpenedAt inspection
     then Inl (errorf ErrConflict ''inspection closure'')
     else Inr (inspection\<lparr>i_Status := (if passed then ''passed'' else ''failed''),
       i_Finding := trim_space finding, i_ClosedAt := Some t, i_Version := inc64 (i_Version inspection)\<rparr>))"

definition Release :: "Voyage \<Rightarrow> Inspection list \<Rightarrow> Time \<Rightarrow> int \<Rightarrow> Voyage result" where
  "Release voyage inspections t expectedVersion =
    (if v_Status voyage \<noteq> VoyageDeclared \<and> v_Status voyage \<noteq> VoyageHeld \<or>
        v_Version voyage \<noteq> expectedVersion \<or> v_ManifestHash voyage = []
     then Inl (errorf ErrState ''voyage release state'')
     else if inspections = [] then Inl (errorf ErrConflict ''release inspection'')
     else bindR (check_all (\<lambda>i. refuse_if (i_VoyageID i \<noteq> v_ID voyage \<or> i_Status i \<noteq> ''passed'')
         (errorf ErrConflict ''unresolved inspection'')) inspections)
       (\<lambda>_. Inr (voyage\<lparr>v_Status := VoyageCleared, v_ClearedAt := Some t,
         v_Version := inc64 (v_Version voyage)\<rparr>)))"

text \<open>The table \<^verbatim>\<open>allowed\<close>; a status without an entry allows nothing.\<close>

definition allowed_next :: "VoyageStatus \<Rightarrow> VoyageStatus list" where
  "allowed_next s =
    (if s = VoyageDraft then [VoyageDeclared, VoyageCancelled]
     else if s = VoyageDeclared then [VoyageHeld, VoyageCleared, VoyageCancelled]
     else if s = VoyageHeld then [VoyageCleared, VoyageCancelled]
     else if s = VoyageCleared then [VoyageScheduled, VoyageCancelled]
     else if s = VoyageScheduled then [VoyageInTransit, VoyageCancelled]
     else if s = VoyageInTransit then [VoyageCompleted]
     else [])"

definition Transition :: "Voyage \<Rightarrow> VoyageStatus \<Rightarrow> Time \<Rightarrow> Voyage result" where
  "Transition voyage next_status t =
    (if next_status \<notin> set (allowed_next (v_Status voyage)) \<or> t = 0
     then Inl (errorf ErrState (v_Status voyage @ '' to '' @ next_status))
     else Inr (voyage\<lparr>v_Status := next_status, v_Version := inc64 (v_Version voyage)\<rparr>))"

section \<open>The life of a voyage\<close>

inductive voyage_step :: "Voyage \<Rightarrow> Voyage \<Rightarrow> bool" where
  declare_step: "Declare v m t n = Inr v' \<Longrightarrow> voyage_step v v'"
| open_step: "OpenInspection vid v off kind t = Inr (i, v') \<Longrightarrow> voyage_step v v'"
| release_step: "Release v is t n = Inr v' \<Longrightarrow> voyage_step v v'"
| transition_step: "Transition v s t = Inr v' \<Longrightarrow> voyage_step v v'"

inductive_cases voyage_stepE: "voyage_step v v'"

text \<open>How many steps a status is from the end of the longest path through the table.\<close>

definition steps_left :: "VoyageStatus \<Rightarrow> nat" where
  "steps_left s =
    (if s = VoyageDraft then 6 else if s = VoyageDeclared then 5 else if s = VoyageHeld then 4
     else if s = VoyageCleared then 3 else if s = VoyageScheduled then 2 else if s = VoyageInTransit then 1 else 0)"

definition voyage_identity :: "Voyage \<Rightarrow> string \<times> string \<times> string \<times> string \<times> string \<times> string \<times> Time" where
  "voyage_identity v = (v_ID v, v_TenantID v, v_VesselIMO v, v_VesselName v, v_OriginPort v,
    v_DestinationPort v, v_ETA v)"

lemma allowed_next_descends: "s' \<in> set (allowed_next s) \<Longrightarrow> steps_left s' < steps_left s"
  by (auto simp: allowed_next_def steps_left_def split: if_splits)

lemma DeclareD [result_elims]:
  "Declare v m t n = Inr v' \<Longrightarrow> v_Status v = VoyageDraft \<and> v_Version v = n \<and> m_VoyageID m = v_ID v \<and>
    length (m_Hash m) = 64 \<and> t \<noteq> 0 \<and>
    v' = v\<lparr>v_Status := VoyageDeclared, v_ManifestHash := m_Hash m, v_DeclaredAt := Some t,
      v_Version := inc64 (v_Version v)\<rparr>"
  by (auto simp: Declare_def split: if_splits)

lemma OpenInspectionD [result_elims]:
  "OpenInspection vid v off kind t = Inr (i, v') \<Longrightarrow> v_Status v = VoyageDeclared \<and>
    i_VoyageID i = v_ID v \<and> i_Status i = ''open'' \<and> i_ID i = vid \<and> i_Version i = 1 \<and>
    v' = v\<lparr>v_Status := VoyageHeld, v_Version := inc64 (v_Version v)\<rparr>"
  by (auto simp: OpenInspection_def split: if_splits)

lemma ReleaseD [result_elims]:
  "Release v is t n = Inr v' \<Longrightarrow> v_Status v \<in> {VoyageDeclared, VoyageHeld} \<and> v_Version v = n \<and>
    v_ManifestHash v \<noteq> [] \<and> is \<noteq> [] \<and> (\<forall>i\<in>set is. i_VoyageID i = v_ID v \<and> i_Status i = ''passed'') \<and>
    v' = v\<lparr>v_Status := VoyageCleared, v_ClearedAt := Some t, v_Version := inc64 (v_Version v)\<rparr>"
  by (auto simp: Release_def bindR_Inr_iff split: if_splits)

lemma TransitionD [result_elims]:
  "Transition v s t = Inr v' \<Longrightarrow> s \<in> set (allowed_next (v_Status v)) \<and> t \<noteq> 0 \<and>
    v' = v\<lparr>v_Status := s, v_Version := inc64 (v_Version v)\<rparr>"
  by (auto simp: Transition_def split: if_splits)

lemma voyage_step_follows_table:
  assumes "voyage_step v v'"
  shows "v_Status v' \<in> set (allowed_next (v_Status v)) \<and> v_Version v' = inc64 (v_Version v) \<and>
    voyage_identity v' = voyage_identity v"
  using assms
  by (rule voyage_stepE) (auto dest!: result_elims simp: allowed_next_def voyage_identity_def)

inductive voyage_run :: "nat \<Rightarrow> Voyage \<Rightarrow> Voyage \<Rightarrow> bool" where
  run_none: "voyage_run 0 v v"
| run_more: "voyage_run n v u \<Longrightarrow> voyage_step u w \<Longrightarrow> voyage_run (Suc n) v w"

lemma voyage_run_descends: "voyage_run n v w \<Longrightarrow> n + steps_left (v_Status w) \<le> steps_left (v_Status v)"
  by (induction rule: voyage_run.induct)
    (auto dest!: voyage_step_follows_table allowed_next_descends)

lemma steps_left_bound: "steps_left s \<le> 6"
  by (simp add: steps_left_def)

lemma voyage_run_version:
  "voyage_run n v w \<Longrightarrow> in_int64 (v_Version v) \<Longrightarrow> v_Version v \<le> max_int64 - 6 \<Longrightarrow>
    v_Version w = v_Version v + int n \<and> voyage_identity w = voyage_identity v"
proof (induction rule: voyage_run.induct)
  case (run_more n v u w)
  then have u: "v_Version u = v_Version v + int n" by simp
  from run_more.hyps have "voyage_run (Suc n) v w" by (intro voyage_run.intros)
  then have "Suc n \<le> 6" using voyage_run_descends steps_left_bound [of "v_Status v"] by fastforce
  with u run_more.prems have "inc64 (v_Version u) = v_Version u + 1"
    by (intro inc64_id) (auto simp: in_int64_def)
  with run_more u voyage_step_follows_table [OF run_more.hyps(2)] show ?case by simp
qed simp

section \<open>Manifests\<close>

lemma check_cargo_ok [simp]:
  "check_cargo seen items = Inr u \<longleftrightarrow>
    (\<forall>c\<in>set items. valid_cargo c) \<and> distinct (map c_ContainerNo items) \<and>
    set seen \<inter> c_ContainerNo ` set items = {}"
  by (induction items arbitrary: seen) auto

definition valid_items :: "CargoItem list \<Rightarrow> bool" where
  "valid_items items \<longleftrightarrow> items \<noteq> [] \<and> (\<forall>c\<in>set items. valid_cargo c) \<and> distinct (map c_ContainerNo items)"

lemma BuildManifest_Inr_iff:
  "BuildManifest vid items = Inr m \<longleftrightarrow> vid \<noteq> [] \<and> valid_items items \<and>
    m = \<lparr>m_VoyageID = vid, m_Items = sort_slice (by_key c_ContainerNo) items,
      m_Hash = sha256_hex (manifest_payload (sort_slice (by_key c_ContainerNo) items))\<rparr>"
  by (auto simp: BuildManifest_def valid_items_def bindR_Inr_iff Let_def)

lemma BuildManifest_errors:
  "BuildManifest vid items = Inl e \<Longrightarrow> is_sentinel e ErrInvalid \<or> is_sentinel e ErrConflict"
proof -
  have "is_sentinel e ErrInvalid \<or> is_sentinel e ErrConflict" if "check_cargo seen items = Inl e" for seen
    using that by (induction items arbitrary: seen) (auto split: if_splits)
  then show "BuildManifest vid items = Inl e \<Longrightarrow> ?thesis"
    by (auto simp: BuildManifest_def bindR_Inl_iff Let_def split: if_splits)
qed

lemma cargo_json_inj: "cargo_json c = cargo_json d \<Longrightarrow> c = d"
  by (simp add: cargo_json_def)

lemma manifest_payload_inj: "manifest_payload xs = manifest_payload ys \<Longrightarrow> xs = ys"
proof -
  assume "manifest_payload xs = manifest_payload ys"
  then have "map cargo_json xs = map cargo_json ys"
    by (auto simp: manifest_payload_def simp del: json_encode.simps dest!: json_encode_inj)
  then show ?thesis by (rule map_injective) (auto simp: inj_on_def dest: cargo_json_inj)
qed

lemma valid_items_perm: "mset xs = mset ys \<Longrightarrow> valid_items xs = valid_items ys"
proof -
  assume eq: "mset xs = mset ys"
  then have "set xs = set ys" by (metis set_mset_mset)
  moreover from eq have "distinct (map c_ContainerNo xs) = distinct (map c_ContainerNo ys)"
    by (metis mset_eq_imp_distinct_iff mset_map)
  ultimately show ?thesis by (auto simp: valid_items_def)
qed

lemma sort_items_perm:
  assumes "mset xs = mset ys" and "valid_items xs"
  shows "sort_slice (by_key c_ContainerNo) xs = sort_slice (by_key c_ContainerNo) ys"
  using assms valid_items_perm [OF assms(1)]
  by (intro sort_slice_by_key_perm) (auto simp: valid_items_def distinct_map)

section \<open>Properties\<close>

definition example_cargo :: "CargoItem list" where
  "example_cargo =
    [\<lparr>c_ContainerNo = ''MSCU2'', c_HSCode = ''8471'', c_Description = ''parts'', c_GrossKg = 900,
      c_Packages = 4, c_Hazardous = False\<rparr>,
     \<lparr>c_ContainerNo = ''CSQU1'', c_HSCode = ''2710'', c_Description = ''fuel'', c_GrossKg = 1200,
      c_Packages = 1, c_Hazardous = True\<rparr>]"

definition example_voyage :: Voyage where
  "example_voyage = \<lparr>v_ID = ''voyage-1'', v_TenantID = ''panama-east'', v_VesselIMO = ''IMO9321483'',
    v_VesselName = ''Azul'', v_OriginPort = ''CNSHA'', v_DestinationPort = ''PABLB'', v_ETA = 5000,
    v_Status = VoyageDraft, v_ManifestHash = [], v_DeclaredAt = None, v_ClearedAt = None, v_Version = 1\<rparr>"

text \<open>
  C17: However many of the four operations are applied to a voyage, and in whatever order, every one
  that succeeds follows the table of transitions and adds one to the version; the identity and the
  route of the voyage never change; and no voyage takes more than six of them, so its life ends.
\<close>

theorem voyage_life_is_bounded:
  assumes "NewVoyage vid tenant imo name origin destination eta = Inr v" and "voyage_run n v w"
  shows "n \<le> 6 \<and>
    v_Version w = 1 + int n \<and>
    voyage_identity w = voyage_identity v \<and>
    (\<forall>u. voyage_step w u \<longrightarrow> n < 6 \<and> v_Status u \<in> set (allowed_next (v_Status w)))"
proof (rule conj4I; (intro allI impI)?)
  from assms(1) have v: "v_Version v = 1" "v_Status v = VoyageDraft"
    by (auto simp: NewVoyage_def split: if_splits)
  have left: "n + steps_left (v_Status w) \<le> 6"
    using voyage_run_descends [OF assms(2)] steps_left_bound [of "v_Status v"] by linarith
  then show "n \<le> 6" by linarith
  show "v_Version w = 1 + int n" and "voyage_identity w = voyage_identity v"
    using voyage_run_version [OF assms(2)] v by (auto simp: in_int64_def max_int64_def min_int64_def)
  show "n < 6 \<and> v_Status u \<in> set (allowed_next (v_Status w))" if "voyage_step w u" for u
    using voyage_step_follows_table [OF that] allowed_next_descends [of "v_Status u" "v_Status w"] left
    by linarith
qed

theorem voyage_life_is_bounded_witness:
  "v_Version (example_voyage\<lparr>v_Status := VoyageCancelled, v_Version := 2\<rparr>) = 1 + int 1"
proof -
  have new: "NewVoyage ''voyage-1'' ''panama-east'' '' IMO9321483'' ''Azul'' ''CNSHA'' ''PABLB'' 5000 =
      Inr example_voyage" by code_simp
  have "inc64 1 = 2" by (simp add: inc64_id in_int64_def min_int64_def max_int64_def)
  then have "Transition example_voyage VoyageCancelled 7 =
      Inr (example_voyage\<lparr>v_Status := VoyageCancelled, v_Version := 2\<rparr>)"
    by (simp add: Transition_def example_voyage_def allowed_next_def)
  then have "voyage_run (Suc 0) example_voyage (example_voyage\<lparr>v_Status := VoyageCancelled, v_Version := 2\<rparr>)"
    by (intro run_more [OF run_none transition_step])
  from voyage_life_is_bounded [OF new this, THEN conjunct2, THEN conjunct1] show ?thesis by simp
qed

text \<open>
  A voyage is released exactly when it is declared or held, is at the version the caller saw,
  carries a manifest hash, and has at least one inspection, every one of them its own and passed;
  then it is cleared at the given time and nothing else changes. Every refusal is ErrState for the
  state of the voyage and ErrConflict for its inspections.
\<close>

theorem Release_iff:
  "(Release v is t n = Inr w \<longleftrightarrow>
    v_Status v \<in> {VoyageDeclared, VoyageHeld} \<and> v_Version v = n \<and> v_ManifestHash v \<noteq> [] \<and>
    is \<noteq> [] \<and> list_all (\<lambda>i. i_VoyageID i = v_ID v \<and> i_Status i = ''passed'') is \<and>
    w = v\<lparr>v_Status := VoyageCleared, v_ClearedAt := Some t, v_Version := inc64 n\<rparr>) \<and>
    (\<forall>e. Release v is t n = Inl e \<longrightarrow>
    is_sentinel e (if v_Status v \<in> {VoyageDeclared, VoyageHeld} \<and> v_Version v = n \<and> v_ManifestHash v \<noteq> []
      then ErrConflict else ErrState))"
proof
  show "Release v is t n = Inr w \<longleftrightarrow>
      v_Status v \<in> {VoyageDeclared, VoyageHeld} \<and> v_Version v = n \<and> v_ManifestHash v \<noteq> [] \<and>
      is \<noteq> [] \<and> list_all (\<lambda>i. i_VoyageID i = v_ID v \<and> i_Status i = ''passed'') is \<and>
      w = v\<lparr>v_Status := VoyageCleared, v_ClearedAt := Some t, v_Version := inc64 n\<rparr>"
    by (auto simp: Release_def bindR_Inr_iff list_all_iff)
  have "is_sentinel e ErrConflict"
    if "check_all (\<lambda>i. refuse_if (P i) (errorf ErrConflict m)) is = Inl e" for P m e
    using that by (induction "is") (auto split: if_splits)
  then show "\<forall>e. Release v is t n = Inl e \<longrightarrow>
      is_sentinel e (if v_Status v \<in> {VoyageDeclared, VoyageHeld} \<and> v_Version v = n \<and> v_ManifestHash v \<noteq> []
        then ErrConflict else ErrState)"
    by (auto simp: Release_def bindR_Inl_iff)
qed

theorem Release_iff_witness:
  "\<exists>w. Release (example_voyage\<lparr>v_Status := VoyageHeld, v_ManifestHash := ''ab''\<rparr>)
      [\<lparr>i_ID = ''i1'', i_VoyageID = ''voyage-1'', i_OfficerID = ''o'', i_Kind = ''seal'', i_Status = ''passed'',
        i_Finding = ''intact'', i_OpenedAt = 5, i_ClosedAt = Some 9, i_Version = 2\<rparr>] 10 1 = Inr w \<and>
    v_Status w = VoyageCleared \<and> v_ClearedAt w = Some 10"
  by (simp add: Release_iff [THEN conjunct1] example_voyage_def)

text \<open>
  A manifest is built exactly when the voyage is named, there is at least one item, every item is
  complete with positive weight and packages, and no container appears twice. The result does not
  depend on the order in which the items are given: items and hash are those of the sorted items.
\<close>

theorem BuildManifest_correct:
  assumes "mset items' = mset items"
  shows "(is_ok (BuildManifest vid items) \<longleftrightarrow> vid \<noteq> [] \<and> valid_items items) \<and>
    (BuildManifest vid items = Inr m \<longrightarrow> BuildManifest vid items' = Inr m \<and> m_VoyageID m = vid \<and>
      mset (m_Items m) = mset items \<and> sorted (map c_ContainerNo (m_Items m)) \<and>
      m_Hash m = sha256_hex (manifest_payload (m_Items m)))"
  using assms valid_items_perm [OF assms] sort_items_perm [OF assms]
    by_key.ordered_sort_slice [of items c_ContainerNo]
  by (auto simp: is_ok_iff BuildManifest_Inr_iff ordered_by_key_iff)

theorem BuildManifest_correct_witness:
  "is_ok (BuildManifest ''voyage-1'' (rev example_cargo))"
proof -
  have "valid_items (rev example_cargo)" by code_simp
  then show ?thesis using BuildManifest_correct [of "example_cargo" "rev example_cargo", THEN conjunct1] by simp
qed



text \<open>
  An inspection is closed at most once: a closing succeeds exactly on an open inspection at the
  version the caller saw, with a finding that is not blank and a time not before its opening, and the
  closed inspection refuses every further closing. The inspection of a failed or passed outcome keeps
  its identity.
\<close>

theorem CloseInspection_once:
  assumes "CloseInspection i finding passed t n = Inr j"
  shows "(i_Status i = ''open'' \<and> i_Version i = n \<and> trim_space finding \<noteq> [] \<and> i_OpenedAt i \<le> t) \<and>
    (i_Status j = (if passed then ''passed'' else ''failed'') \<and> i_ClosedAt j = Some t \<and>
      i_VoyageID j = i_VoyageID i \<and> i_ID j = i_ID i \<and> i_Kind j = i_Kind i \<and> i_Version j = inc64 n) \<and>
    \<not> is_ok (CloseInspection j finding' passed' t' n')"
  using assms by (auto simp: CloseInspection_def split: if_splits)

theorem CloseInspection_once_witness:
  "\<not> is_ok (CloseInspection \<lparr>i_ID = ''i1'', i_VoyageID = ''voyage-1'', i_OfficerID = ''o'', i_Kind = ''seal'',
      i_Status = ''passed'', i_Finding = ''ok'', i_OpenedAt = 5, i_ClosedAt = Some 9, i_Version = 2\<rparr> ''again'' False 10 2)"
proof -
  have "CloseInspection \<lparr>i_ID = ''i1'', i_VoyageID = ''voyage-1'', i_OfficerID = ''o'', i_Kind = ''seal'',
      i_Status = ''open'', i_Finding = [], i_OpenedAt = 5, i_ClosedAt = None, i_Version = 1\<rparr> '' ok '' True 9 1 =
    Inr \<lparr>i_ID = ''i1'', i_VoyageID = ''voyage-1'', i_OfficerID = ''o'', i_Kind = ''seal'',
      i_Status = ''passed'', i_Finding = ''ok'', i_OpenedAt = 5, i_ClosedAt = Some 9, i_Version = 2\<rparr>"
    by code_simp
  from CloseInspection_once [OF this, THEN conjunct2, THEN conjunct2] show ?thesis .
qed

end
