(* ===== verification/TimeWindow.thy ===== *)
theory TimeWindow
  imports Sort_Slice
begin

text \<open>
  \<^verbatim>\<open>internal/domain/timewindow.go\<close>: half-open windows of time, merging and subtracting
  them. The loops that grow a slice and overwrite its last element are recursions that carry the
  last element; the loop of \<^verbatim>\<open>SubtractWindows\<close> carries its cursor. \<open>covers ws t\<close> is the
  specification: the set of instants a list of windows stands for.
\<close>

record TimeWindow =
  w_StartsAt :: Time
  w_EndsAt :: Time

definition NewTimeWindow :: "Time \<Rightarrow> Time \<Rightarrow> Duration \<Rightarrow> TimeWindow result" where
  "NewTimeWindow startsAt endsAt maximum =
    (if startsAt = 0 \<or> \<not> startsAt < endsAt \<or> (0 < maximum \<and> maximum < time_sub endsAt startsAt)
     then Inl (errorf ErrInvalid ''time window'')
     else Inr \<lparr>w_StartsAt = startsAt, w_EndsAt = endsAt\<rparr>)"

definition window_Duration :: "TimeWindow \<Rightarrow> Duration" where
  "window_Duration w = time_sub (w_EndsAt w) (w_StartsAt w)"

definition Contains :: "TimeWindow \<Rightarrow> Time \<Rightarrow> bool" where
  "Contains w t \<longleftrightarrow> \<not> t < w_StartsAt w \<and> t < w_EndsAt w"

definition Overlaps :: "TimeWindow \<Rightarrow> TimeWindow \<Rightarrow> bool" where
  "Overlaps w v \<longleftrightarrow> w_StartsAt w < w_EndsAt v \<and> w_StartsAt v < w_EndsAt w"

abbreviation window_less :: "TimeWindow \<Rightarrow> TimeWindow \<Rightarrow> bool" where
  "window_less \<equiv> lex2 w_StartsAt w_EndsAt"

text \<open>The merging loop; \<open>l\<close> is the last window of \<^verbatim>\<open>merged\<close>.\<close>

fun merge_loop :: "TimeWindow \<Rightarrow> TimeWindow list \<Rightarrow> TimeWindow list" where
  "merge_loop l [] = [l]"
| "merge_loop l (c # cs) =
    (if w_EndsAt l < w_StartsAt c then l # merge_loop c cs
     else if w_EndsAt l < w_EndsAt c then merge_loop (l\<lparr>w_EndsAt := w_EndsAt c\<rparr>) cs
     else merge_loop l cs)"

definition check_window :: "TimeWindow \<Rightarrow> unit result" where
  "check_window w = bindR (NewTimeWindow (w_StartsAt w) (w_EndsAt w) 0) (\<lambda>_. Inr ())"

definition MergeWindows :: "TimeWindow list \<Rightarrow> TimeWindow list result" where
  "MergeWindows windows =
    (if windows = [] then Inr []
     else bindR (check_all check_window windows)
       (\<lambda>_. case sort_slice window_less windows of
              [] \<Rightarrow> Inr []
            | w # ws \<Rightarrow> Inr (merge_loop w ws)))"

text \<open>
  The subtraction loop. \<open>gap_window\<close> is the conditional append, \<open>gap_start\<close> the clipped start of
  the blocked window and \<open>advance_cursor\<close> the two updates of the cursor; the first equation is the
  code after the loop.
\<close>

definition gap_window :: "Duration \<Rightarrow> Time \<Rightarrow> Time \<Rightarrow> TimeWindow list" where
  "gap_window minimum cursor start =
    (if minimum \<le> time_sub start cursor then [\<lparr>w_StartsAt = cursor, w_EndsAt = start\<rparr>] else [])"

definition gap_start :: "TimeWindow \<Rightarrow> TimeWindow \<Rightarrow> Time" where
  "gap_start base current =
    (if w_StartsAt current < w_StartsAt base then w_StartsAt base else w_StartsAt current)"

definition advance_cursor :: "TimeWindow \<Rightarrow> TimeWindow \<Rightarrow> Time \<Rightarrow> Time" where
  "advance_cursor base current cursor =
    (let cursor' = (if cursor < w_EndsAt current then w_EndsAt current else cursor)
     in if w_EndsAt base < cursor' then w_EndsAt base else cursor')"

fun subtract_loop :: "TimeWindow \<Rightarrow> Duration \<Rightarrow> TimeWindow list \<Rightarrow> Time \<Rightarrow> TimeWindow list" where
  "subtract_loop base minimum [] cursor = gap_window minimum cursor (w_EndsAt base)"
| "subtract_loop base minimum (current # rest) cursor =
    (if \<not> Overlaps current base then subtract_loop base minimum rest cursor
     else gap_window minimum cursor (gap_start base current) @
       subtract_loop base minimum rest (advance_cursor base current cursor))"

definition SubtractWindows :: "TimeWindow \<Rightarrow> TimeWindow list \<Rightarrow> Duration \<Rightarrow> TimeWindow list result" where
  "SubtractWindows base blocked minimum =
    (if check_window base \<noteq> Inr () \<or> minimum \<le> 0
     then Inl (errorf ErrInvalid ''availability window'')
     else bindR (MergeWindows blocked)
       (\<lambda>merged. Inr (subtract_loop base minimum merged (w_StartsAt base))))"

section \<open>Specification: the instants a list of windows covers\<close>

definition covers :: "TimeWindow list \<Rightarrow> Time \<Rightarrow> bool" where
  "covers ws t \<longleftrightarrow> (\<exists>w\<in>set ws. Contains w t)"

text \<open>A window \<^verbatim>\<open>NewTimeWindow\<close> accepts, and windows in order with a gap between them.\<close>

definition valid_window :: "TimeWindow \<Rightarrow> bool" where
  "valid_window w \<longleftrightarrow> w_StartsAt w \<noteq> 0 \<and> w_StartsAt w < w_EndsAt w"

abbreviation separated :: "TimeWindow list \<Rightarrow> bool" where
  "separated \<equiv> sorted_wrt (\<lambda>v w. w_EndsAt v < w_StartsAt w)"

lemma check_window_ok [simp]: "check_window w = Inr u \<longleftrightarrow> valid_window w"
  by (auto simp: check_window_def NewTimeWindow_def valid_window_def)

lemma NewTimeWindow_Inr_iff:
  "NewTimeWindow s e m = Inr w \<longleftrightarrow>
    s \<noteq> 0 \<and> s < e \<and> (0 < m \<longrightarrow> time_sub e s \<le> m) \<and> w = \<lparr>w_StartsAt = s, w_EndsAt = e\<rparr>"
  by (auto simp: NewTimeWindow_def)

lemma Contains_iff: "Contains w t \<longleftrightarrow> w_StartsAt w \<le> t \<and> t < w_EndsAt w"
  by (auto simp: Contains_def)

lemma covers_simps [simp]:
  "covers [] t = False" "covers (w # ws) t = (Contains w t \<or> covers ws t)"
  by (simp_all add: covers_def)

lemma covers_set: "set xs = set ys \<Longrightarrow> covers xs = covers ys"
  by (auto simp: covers_def)

text \<open>Two windows that are not empty overlap exactly when they share an instant.\<close>

lemma Overlaps_iff_common:
  assumes "w_StartsAt v < w_EndsAt v" and "w_StartsAt w < w_EndsAt w"
  shows "Overlaps v w \<longleftrightarrow> (\<exists>t. Contains v t \<and> Contains w t)"
proof
  assume "Overlaps v w"
  with assms have "Contains v (max (w_StartsAt v) (w_StartsAt w)) \<and>
    Contains w (max (w_StartsAt v) (w_StartsAt w))"
    by (auto simp: Overlaps_def Contains_def max_def)
  then show "\<exists>t. Contains v t \<and> Contains w t" by blast
qed (auto simp: Overlaps_def Contains_def)

section \<open>Merging\<close>

lemma merge_loop_covers:
  "w_StartsAt l < w_EndsAt l \<Longrightarrow> \<forall>c\<in>set cs. w_StartsAt l \<le> w_StartsAt c \<and> w_StartsAt c < w_EndsAt c \<Longrightarrow>
    sorted (map w_StartsAt cs) \<Longrightarrow> covers (merge_loop l cs) t \<longleftrightarrow> Contains l t \<or> covers cs t"
proof (induction l cs rule: merge_loop.induct)
  case (2 l c cs)
  from "2.prems" have c: "w_StartsAt l \<le> w_StartsAt c" "w_StartsAt c < w_EndsAt c"
    and rest: "\<forall>d\<in>set cs. w_StartsAt c \<le> w_StartsAt d \<and> w_StartsAt d < w_EndsAt d"
    and sorted: "sorted (map w_StartsAt cs)" by auto
  consider (gap) "w_EndsAt l < w_StartsAt c"
    | (grow) "\<not> w_EndsAt l < w_StartsAt c" "w_EndsAt l < w_EndsAt c"
    | (inside) "\<not> w_EndsAt l < w_StartsAt c" "\<not> w_EndsAt l < w_EndsAt c" by blast
  then show ?case
  proof cases
    case gap
    with "2.IH"(1) c rest sorted show ?thesis by simp
  next
    case grow
    have "covers (merge_loop (l\<lparr>w_EndsAt := w_EndsAt c\<rparr>) cs) t \<longleftrightarrow>
        Contains (l\<lparr>w_EndsAt := w_EndsAt c\<rparr>) t \<or> covers cs t"
      by (rule "2.IH"(2) [OF grow]) (use c rest sorted in auto)
    moreover have "Contains (l\<lparr>w_EndsAt := w_EndsAt c\<rparr>) t \<longleftrightarrow> Contains l t \<or> Contains c t"
      using grow c "2.prems"(1) by (auto simp: Contains_def)
    ultimately show ?thesis using grow by auto
  next
    case inside
    have "covers (merge_loop l cs) t \<longleftrightarrow> Contains l t \<or> covers cs t"
      by (rule "2.IH"(3) [OF inside]) (use c rest sorted "2.prems"(1) in auto)
    moreover have "Contains c t \<Longrightarrow> Contains l t"
      using inside c by (auto simp: Contains_def)
    ultimately show ?thesis using inside by auto
  qed
qed simp

lemma merge_loop_separated:
  "valid_window l \<Longrightarrow> \<forall>c\<in>set cs. w_StartsAt l \<le> w_StartsAt c \<and> valid_window c \<Longrightarrow>
    sorted (map w_StartsAt cs) \<Longrightarrow>
    separated (merge_loop l cs) \<and> (\<forall>w\<in>set (merge_loop l cs). valid_window w \<and> w_StartsAt l \<le> w_StartsAt w)"
proof (induction l cs rule: merge_loop.induct)
  case (2 l c cs)
  from "2.prems" have c: "w_StartsAt l \<le> w_StartsAt c" "valid_window c"
    and rest: "\<forall>d\<in>set cs. w_StartsAt c \<le> w_StartsAt d \<and> valid_window d"
    and sorted: "sorted (map w_StartsAt cs)" by auto
  consider (gap) "w_EndsAt l < w_StartsAt c"
    | (grow) "\<not> w_EndsAt l < w_StartsAt c" "w_EndsAt l < w_EndsAt c"
    | (inside) "\<not> w_EndsAt l < w_StartsAt c" "\<not> w_EndsAt l < w_EndsAt c" by blast
  then show ?case
  proof cases
    case gap
    with "2.IH"(1) c rest sorted have "separated (merge_loop c cs)"
      and *: "\<forall>w\<in>set (merge_loop c cs). valid_window w \<and> w_StartsAt c \<le> w_StartsAt w" by auto
    moreover from gap * have "\<forall>w\<in>set (merge_loop c cs). w_EndsAt l < w_StartsAt w" by fastforce
    ultimately show ?thesis using gap c "2.prems"(1) by fastforce
  next
    case grow
    have "valid_window (l\<lparr>w_EndsAt := w_EndsAt c\<rparr>)"
      using "2.prems"(1) c grow by (auto simp: valid_window_def)
    from "2.IH"(2) [OF grow this] grow rest sorted c show ?thesis by fastforce
  next
    case inside
    from "2.IH"(3) [OF inside "2.prems"(1)] inside rest sorted c show ?thesis by fastforce
  qed
qed (simp add: valid_window_def)

lemma sorted_starts_window_sort: "sorted (map w_StartsAt (sort_slice window_less ws))"
proof -
  have "ordered_by window_less (sort_slice window_less ws)"
    by (rule lex2.ordered_sort_slice) simp
  then show ?thesis
    unfolding sorted_map
    by (rule sorted_wrt_mono_rel [rotated]) (auto simp: lex2_def split: if_splits)
qed

lemma MergeWindows_Inr_valid: "MergeWindows ws = Inr ms \<Longrightarrow> \<forall>w\<in>set ws. valid_window w"
  by (auto simp: MergeWindows_def bindR_Inr_iff split: if_splits)

lemma MergeWindows_total:
  "\<forall>w\<in>set ws. valid_window w \<Longrightarrow> \<exists>ms. MergeWindows ws = Inr ms"
  by (auto simp: MergeWindows_def bindR_Inr_iff split: list.split)

lemma MergeWindows_spec:
  assumes "MergeWindows ws = Inr ms"
  shows "covers ms = covers ws" and "separated ms" and "\<forall>m\<in>set ms. valid_window m"
proof -
  have "covers ms = covers ws \<and> separated ms \<and> (\<forall>m\<in>set ms. valid_window m)"
  proof (cases "ws = []")
    case True
    with assms show ?thesis by (simp add: MergeWindows_def)
  next
    case False
    then obtain v vs where sort: "sort_slice window_less ws = v # vs"
      by (metis list.exhaust sort_slice_Nil_iff)
    with assms False have ms: "ms = merge_loop v vs"
      by (auto simp: MergeWindows_def bindR_Inr_iff)
    have set: "set ws = insert v (set vs)"
      using sort by (metis list.simps(15) set_sort_slice)
    with MergeWindows_Inr_valid [OF assms] have valid: "valid_window v" "\<forall>c\<in>set vs. valid_window c"
      by auto
    from sorted_starts_window_sort [of ws] sort have
      starts: "\<forall>c\<in>set vs. w_StartsAt v \<le> w_StartsAt c" and sorted: "sorted (map w_StartsAt vs)"
      by auto
    have "covers ms t \<longleftrightarrow> covers ws t" for t
      using merge_loop_covers [of v vs t] valid starts sorted set
      by (auto simp: ms covers_def valid_window_def)
    moreover have "separated ms \<and> (\<forall>m\<in>set ms. valid_window m)"
      using merge_loop_separated [of v vs] valid starts sorted by (auto simp: ms)
    ultimately show ?thesis by blast
  qed
  then show "covers ms = covers ws" and "separated ms" and "\<forall>m\<in>set ms. valid_window m" by auto
qed

section \<open>Subtraction\<close>

text \<open>
  What one run of the loop from a cursor promises: each window it returns lies between the cursor
  and the end of the base, is long enough and misses every blocked window; and every long enough
  stretch that misses the blocked windows lies inside one of them.
\<close>

lemma set_gap_window:
  "0 < minimum \<Longrightarrow> minimum \<le> max_int64 \<Longrightarrow> r \<in> set (gap_window minimum cursor start) \<longleftrightarrow>
    r = \<lparr>w_StartsAt = cursor, w_EndsAt = start\<rparr> \<and> minimum \<le> start - cursor"
  by (auto simp: gap_window_def min_int64_def)

lemma advance_cursor_bounds:
  assumes "Overlaps current base" and "w_StartsAt base \<le> cursor" and "w_StartsAt base < w_EndsAt base"
  shows "w_StartsAt base \<le> advance_cursor base current cursor"
    and "cursor \<le> advance_cursor base current cursor \<or> advance_cursor base current cursor = w_EndsAt base"
    and "w_EndsAt current \<le> advance_cursor base current cursor \<or>
      advance_cursor base current cursor = w_EndsAt base"
  using assms by (auto simp: advance_cursor_def Overlaps_def Let_def)

lemma advance_cursor_le:
  "cursor \<le> a \<Longrightarrow> w_EndsAt current \<le> a \<Longrightarrow> advance_cursor base current cursor \<le> a"
  by (auto simp: advance_cursor_def Let_def)

lemma advance_cursor_next:
  assumes "Overlaps current base" and "\<forall>w\<in>set rest. w_EndsAt current < w_StartsAt w"
    and "cursor = w_StartsAt base \<or> (\<forall>w\<in>set (current # rest). cursor \<le> w_StartsAt w)"
  shows "advance_cursor base current cursor = w_StartsAt base \<or>
    (\<forall>w\<in>set rest. advance_cursor base current cursor \<le> w_StartsAt w)"
proof (cases "cursor < w_EndsAt current")
  case True
  with assms(2) show ?thesis by (force simp: advance_cursor_def Let_def)
next
  case False
  with assms(1,3) have "cursor \<noteq> w_StartsAt base" by (auto simp: Overlaps_def)
  with assms(3) False show ?thesis by (force simp: advance_cursor_def Let_def)
qed

lemma subtract_loop_sound:
  assumes "r \<in> set (subtract_loop base minimum ws cursor)"
    and "separated ws" and "\<forall>w\<in>set ws. w_StartsAt w < w_EndsAt w"
    and "cursor = w_StartsAt base \<or> (\<forall>w\<in>set ws. cursor \<le> w_StartsAt w)"
    and "w_StartsAt base \<le> cursor" and "w_StartsAt base < w_EndsAt base" and "0 < minimum" and "minimum \<le> max_int64"
  shows "cursor \<le> w_StartsAt r \<and> w_EndsAt r \<le> w_EndsAt base \<and>
    minimum \<le> w_EndsAt r - w_StartsAt r \<and>
    (\<forall>w\<in>set ws. w_EndsAt r \<le> w_StartsAt w \<or> w_EndsAt w \<le> w_StartsAt r)"
  using assms
proof (induction ws arbitrary: cursor)
  case Nil
  then show ?case by (simp add: set_gap_window)
next
  case (Cons current rest)
  note m = \<open>0 < minimum\<close> \<open>minimum \<le> max_int64\<close>
  show ?case
  proof (cases "Overlaps current base")
    case False
    with Cons.prems Cons.IH [of cursor] have IH: "cursor \<le> w_StartsAt r \<and> w_EndsAt r \<le> w_EndsAt base \<and>
      minimum \<le> w_EndsAt r - w_StartsAt r \<and>
      (\<forall>w\<in>set rest. w_EndsAt r \<le> w_StartsAt w \<or> w_EndsAt w \<le> w_StartsAt r)" by auto
    with False Cons.prems(5,6) have "w_EndsAt r \<le> w_StartsAt current \<or> w_EndsAt current \<le> w_StartsAt r"
      by (auto simp: Overlaps_def)
    with IH show ?thesis by simp
  next
    case True
    let ?c = "advance_cursor base current cursor"
    note adv = advance_cursor_bounds [OF True \<open>w_StartsAt base \<le> cursor\<close> \<open>w_StartsAt base < w_EndsAt base\<close>]
    from Cons.prems(2,3) have sep: "\<forall>w\<in>set rest. w_EndsAt current < w_StartsAt w"
      and nonempty: "w_StartsAt current < w_EndsAt current" by simp_all
    from True Cons.prems(1) consider (here) "r \<in> set (gap_window minimum cursor (gap_start base current))"
      | (later) "r \<in> set (subtract_loop base minimum rest ?c)" by auto
    then show ?thesis
    proof cases
      case here
      then have r: "r = \<lparr>w_StartsAt = cursor, w_EndsAt = gap_start base current\<rparr>"
        and long: "minimum \<le> gap_start base current - cursor" by (simp_all add: set_gap_window m)
      from long m Cons.prems(5) have "gap_start base current = w_StartsAt current"
        by (auto simp: gap_start_def split: if_splits)
      moreover from nonempty sep have "\<forall>w\<in>set rest. w_StartsAt current \<le> w_StartsAt w" by fastforce
      ultimately show ?thesis using True r long by (auto simp: Overlaps_def)
    next
      case later
      have "?c = w_StartsAt base \<or> (\<forall>w\<in>set rest. ?c \<le> w_StartsAt w)"
        by (rule advance_cursor_next) (use Cons.prems True in auto)
      with later Cons.IH [of ?c] Cons.prems adv(1) m have
        IH: "?c \<le> w_StartsAt r \<and> w_EndsAt r \<le> w_EndsAt base \<and> minimum \<le> w_EndsAt r - w_StartsAt r \<and>
        (\<forall>w\<in>set rest. w_EndsAt r \<le> w_StartsAt w \<or> w_EndsAt w \<le> w_StartsAt r)" by simp
      with m have "?c < w_EndsAt base" by linarith
      with adv IH show ?thesis by auto
    qed
  qed
qed

lemma subtract_loop_complete:
  assumes "\<forall>w\<in>set ws. w_StartsAt w < w_EndsAt w"
    and "cursor \<le> a" and "b \<le> w_EndsAt base" and "minimum \<le> b - a"
    and "\<forall>w\<in>set ws. b \<le> w_StartsAt w \<or> w_EndsAt w \<le> a"
    and "w_StartsAt base \<le> cursor" and "w_StartsAt base < w_EndsAt base"
    and "0 < minimum" and "minimum \<le> max_int64"
  shows "\<exists>r\<in>set (subtract_loop base minimum ws cursor). w_StartsAt r \<le> a \<and> b \<le> w_EndsAt r"
  using assms
proof (induction ws arbitrary: cursor)
  case Nil
  then show ?case by (auto simp: set_gap_window)
next
  case (Cons current rest)
  note m = \<open>0 < minimum\<close> \<open>minimum \<le> max_int64\<close>
  show ?case
  proof (cases "Overlaps current base")
    case False
    with Cons show ?thesis by simp
  next
    case True
    from Cons.prems(5) consider (before) "b \<le> w_StartsAt current" | (after) "w_EndsAt current \<le> a"
      by auto
    then show ?thesis
    proof cases
      case before
      then have "b \<le> gap_start base current" by (auto simp: gap_start_def)
      with Cons.prems(2,4) True show ?thesis
        by (auto simp: set_gap_window [OF m] intro!: bexI [of _ "\<lparr>w_StartsAt = cursor, w_EndsAt = gap_start base current\<rparr>"])
    next
      case after
      have "\<exists>r\<in>set (subtract_loop base minimum rest (advance_cursor base current cursor)).
          w_StartsAt r \<le> a \<and> b \<le> w_EndsAt r"
        by (rule Cons.IH)
          (use Cons.prems after advance_cursor_le advance_cursor_bounds(1) [OF True] in simp_all)
      with True show ?thesis by auto
    qed
  qed
qed

lemma subtract_loop_separated:
  assumes "separated ws" and "\<forall>w\<in>set ws. w_StartsAt w < w_EndsAt w"
    and "cursor = w_StartsAt base \<or> (\<forall>w\<in>set ws. cursor \<le> w_StartsAt w)"
    and "w_StartsAt base \<le> cursor" and "w_StartsAt base < w_EndsAt base" and "0 < minimum" and "minimum \<le> max_int64"
  shows "separated (subtract_loop base minimum ws cursor)"
  using assms
proof (induction ws arbitrary: cursor)
  case Nil
  then show ?case by (simp add: gap_window_def)
next
  case (Cons current rest)
  note m = \<open>0 < minimum\<close> \<open>minimum \<le> max_int64\<close>
  show ?case
  proof (cases "Overlaps current base")
    case False
    with Cons show ?thesis by auto
  next
    case True
    let ?c = "advance_cursor base current cursor"
    note adv = advance_cursor_bounds [OF True \<open>w_StartsAt base \<le> cursor\<close> \<open>w_StartsAt base < w_EndsAt base\<close>]
    from Cons.prems(1,2) have sep: "\<forall>w\<in>set rest. w_EndsAt current < w_StartsAt w" by simp
    have c: "?c = w_StartsAt base \<or> (\<forall>w\<in>set rest. ?c \<le> w_StartsAt w)"
      by (rule advance_cursor_next) (use Cons.prems True in auto)
    have IH: "separated (subtract_loop base minimum rest ?c)"
      by (rule Cons.IH) (use Cons.prems c adv m in auto)
    have "w_EndsAt g < w_StartsAt r"
      if g: "g \<in> set (gap_window minimum cursor (gap_start base current))"
        and r: "r \<in> set (subtract_loop base minimum rest ?c)" for g r
    proof -
      from g have "w_EndsAt g = gap_start base current" and "minimum \<le> gap_start base current - cursor"
        by (simp_all add: set_gap_window m)
      with m Cons.prems(4) have "w_EndsAt g = w_StartsAt current"
        by (auto simp: gap_start_def split: if_splits)
      moreover from subtract_loop_sound [OF r _ _ c adv(1) _ m] Cons.prems m
      have "?c \<le> w_StartsAt r" and "?c < w_EndsAt base" by auto
      ultimately show ?thesis using adv(3) Cons.prems(2) by auto
    qed
    with IH True show ?thesis by (auto simp: sorted_wrt_append gap_window_def)
  qed
qed

section \<open>Properties\<close>

text \<open>
  C26: MergeWindows fails exactly when some window is empty, reversed or starts at the zero time.
  Otherwise its result covers the same instants as its input and consists of valid windows in order
  with a gap between any two, so it is the canonical form of the input.
\<close>

theorem MergeWindows_correct:
  "case MergeWindows ws of
     Inl e \<Rightarrow> e = errorf ErrInvalid ''time window'' \<and> (\<exists>w\<in>set ws. \<not> valid_window w)
   | Inr ms \<Rightarrow> (\<forall>w\<in>set ws. valid_window w) \<and> (\<forall>t. covers ms t = covers ws t) \<and>
       separated ms \<and> (\<forall>m\<in>set ms. valid_window m)"
proof (cases "MergeWindows ws")
  case (Inl e)
  then have "check_all check_window ws = Inl e"
    by (auto simp: MergeWindows_def bindR_Inl_iff split: if_splits list.splits)
  then have "e = errorf ErrInvalid ''time window''"
    by (induction ws) (auto simp: bindR_Inl_iff check_window_def NewTimeWindow_def split: if_splits)
  moreover have "\<not> (\<forall>w\<in>set ws. valid_window w)"
    using MergeWindows_total Inl by fastforce
  ultimately show ?thesis using Inl by auto
next
  case (Inr ms)
  with MergeWindows_spec MergeWindows_Inr_valid show ?thesis by simp
qed

lemma MergeWindows_correct_witness:
  "MergeWindows [\<lparr>w_StartsAt = 30, w_EndsAt = 50\<rparr>, \<lparr>w_StartsAt = 10, w_EndsAt = 20\<rparr>,
      \<lparr>w_StartsAt = 20, w_EndsAt = 25\<rparr>] =
    Inr [\<lparr>w_StartsAt = 10, w_EndsAt = 25\<rparr>, \<lparr>w_StartsAt = 30, w_EndsAt = 50\<rparr>] \<and>
   (\<forall>t. covers [\<lparr>w_StartsAt = 10, w_EndsAt = 25\<rparr>, \<lparr>w_StartsAt = 30, w_EndsAt = 50\<rparr>] t =
     covers [\<lparr>w_StartsAt = 30, w_EndsAt = 50\<rparr>, \<lparr>w_StartsAt = 10, w_EndsAt = 20\<rparr>,
      \<lparr>w_StartsAt = 20, w_EndsAt = 25\<rparr>] t)"
proof -
  have run: "MergeWindows [\<lparr>w_StartsAt = 30, w_EndsAt = 50\<rparr>, \<lparr>w_StartsAt = 10, w_EndsAt = 20\<rparr>,
      \<lparr>w_StartsAt = 20, w_EndsAt = 25\<rparr>] =
    Inr [\<lparr>w_StartsAt = 10, w_EndsAt = 25\<rparr>, \<lparr>w_StartsAt = 30, w_EndsAt = 50\<rparr>]"
    by code_simp
  with MergeWindows_correct [of "[\<lparr>w_StartsAt = 30, w_EndsAt = 50\<rparr>,
      \<lparr>w_StartsAt = 10, w_EndsAt = 20\<rparr>, \<lparr>w_StartsAt = 20, w_EndsAt = 25\<rparr>]"]
  show ?thesis by (simp only: sum.case simp_thms)
qed

lemma SubtractWindows_spec:
  assumes run: "SubtractWindows base blocked minimum = Inr free" and range: "in_int64 minimum"
  shows "\<forall>r\<in>set free. w_StartsAt base \<le> w_StartsAt r \<and> w_EndsAt r \<le> w_EndsAt base \<and>
      minimum \<le> w_EndsAt r - w_StartsAt r \<and> (\<forall>t. Contains r t \<longrightarrow> \<not> covers blocked t)"
    and "\<And>a b. w_StartsAt base \<le> a \<Longrightarrow> b \<le> w_EndsAt base \<Longrightarrow> minimum \<le> b - a \<Longrightarrow>
      (\<And>t. a \<le> t \<Longrightarrow> t < b \<Longrightarrow> \<not> covers blocked t) \<Longrightarrow>
      \<exists>r\<in>set free. w_StartsAt r \<le> a \<and> b \<le> w_EndsAt r"
    and "separated free"
proof -
  from run have base: "valid_window base" and m: "0 < minimum"
    by (auto simp: SubtractWindows_def split: if_splits)
  from run obtain ms where merged: "MergeWindows blocked = Inr ms"
    and free: "free = subtract_loop base minimum ms (w_StartsAt base)"
    by (auto simp: SubtractWindows_def bindR_Inr_iff split: if_splits)
  note spec = MergeWindows_spec [OF merged]
  from spec(3) have nonempty: "\<forall>w\<in>set ms. w_StartsAt w < w_EndsAt w" by (simp add: valid_window_def)
  from base have b: "w_StartsAt base < w_EndsAt base" by (simp add: valid_window_def)
  from range have m': "minimum \<le> max_int64" by (simp add: in_int64_def)
  show "\<forall>r\<in>set free. w_StartsAt base \<le> w_StartsAt r \<and> w_EndsAt r \<le> w_EndsAt base \<and>
      minimum \<le> w_EndsAt r - w_StartsAt r \<and> (\<forall>t. Contains r t \<longrightarrow> \<not> covers blocked t)"
  proof
    fix r assume "r \<in> set free"
    from subtract_loop_sound [OF this [unfolded free] spec(2) nonempty _ order_refl b m m']
    show "w_StartsAt base \<le> w_StartsAt r \<and> w_EndsAt r \<le> w_EndsAt base \<and>
        minimum \<le> w_EndsAt r - w_StartsAt r \<and> (\<forall>t. Contains r t \<longrightarrow> \<not> covers blocked t)"
      by (fastforce simp: spec(1) [symmetric] covers_def Contains_def)
  qed
  show "separated free"
    unfolding free by (rule subtract_loop_separated) (use spec(2) nonempty b m m' in auto)
  fix x y assume stretch: "w_StartsAt base \<le> x" "y \<le> w_EndsAt base" "minimum \<le> y - x"
    and clear: "\<And>t. x \<le> t \<Longrightarrow> t < y \<Longrightarrow> \<not> covers blocked t"
  have "y \<le> w_StartsAt w \<or> w_EndsAt w \<le> x" if "w \<in> set ms" for w
  proof (rule ccontr)
    assume "\<not> ?thesis"
    with that nonempty stretch m have "covers ms (max x (w_StartsAt w))" and "max x (w_StartsAt w) < y"
      by (auto simp: covers_def Contains_def intro!: bexI [of _ w])
    with clear [of "max x (w_StartsAt w)"] show False by (simp add: spec(1))
  qed
  then show "\<exists>r\<in>set free. w_StartsAt r \<le> x \<and> y \<le> w_EndsAt r"
    unfolding free
    by (intro subtract_loop_complete) (use nonempty stretch b m m' in auto)
qed

text \<open>
  SubtractWindows is sound and complete. Every window it returns lies inside the base, is at
  least the minimum long and shares no instant with a blocked window; every stretch of the base of
  at least that length that is free of blocked instants lies inside one returned window; and the
  windows come in order with a gap between any two. A duration is a 64-bit integer, which bounds
  the minimum.
\<close>

theorem SubtractWindows_correct:
  assumes run: "SubtractWindows base blocked minimum = Inr free" and range: "in_int64 minimum"
  shows "(\<forall>r\<in>set free. w_StartsAt base \<le> w_StartsAt r \<and> w_EndsAt r \<le> w_EndsAt base \<and>
      minimum \<le> w_EndsAt r - w_StartsAt r \<and> (\<forall>t. Contains r t \<longrightarrow> \<not> covers blocked t)) \<and>
    (\<forall>a b. w_StartsAt base \<le> a \<and> b \<le> w_EndsAt base \<and> minimum \<le> b - a \<and>
      (\<forall>t. a \<le> t \<and> t < b \<longrightarrow> \<not> covers blocked t) \<longrightarrow> (\<exists>r\<in>set free. w_StartsAt r \<le> a \<and> b \<le> w_EndsAt r)) \<and>
    separated free"
  by (intro conjI SubtractWindows_spec(1) [OF run range] SubtractWindows_spec(3) [OF run range] allI impI
    SubtractWindows_spec(2) [OF run range]) blast+

lemma SubtractWindows_correct_witness:
  "SubtractWindows \<lparr>w_StartsAt = 10, w_EndsAt = 40\<rparr>
      [\<lparr>w_StartsAt = 15, w_EndsAt = 20\<rparr>, \<lparr>w_StartsAt = 21, w_EndsAt = 30\<rparr>] 2 =
     Inr [\<lparr>w_StartsAt = 10, w_EndsAt = 15\<rparr>, \<lparr>w_StartsAt = 30, w_EndsAt = 40\<rparr>] \<and>
   (\<exists>r\<in>set [\<lparr>w_StartsAt = 10, w_EndsAt = 15\<rparr>, \<lparr>w_StartsAt = 30, w_EndsAt = 40\<rparr>].
      w_StartsAt r \<le> 31 \<and> 33 \<le> w_EndsAt r)"
proof -
  have run: "SubtractWindows \<lparr>w_StartsAt = 10, w_EndsAt = 40\<rparr>
      [\<lparr>w_StartsAt = 15, w_EndsAt = 20\<rparr>, \<lparr>w_StartsAt = 21, w_EndsAt = 30\<rparr>] 2 =
     Inr [\<lparr>w_StartsAt = 10, w_EndsAt = 15\<rparr>, \<lparr>w_StartsAt = 30, w_EndsAt = 40\<rparr>]"
    by code_simp
  have "in_int64 2" by (simp add: in_int64_def min_int64_def max_int64_def)
  from SubtractWindows_correct [OF run this, THEN conjunct2, THEN conjunct1, THEN spec, THEN spec, of 31 33] run show ?thesis
    by (auto simp: Contains_def)
qed

end
