(* ===== verification/Reservation.thy ===== *)
theory Reservation
  imports TimeWindow
begin

text \<open>
  \<^verbatim>\<open>internal/passage/model.go\<close>: lock chambers and the reservations of their slots. A
  \<^verbatim>\<open>float64\<close> that is only compared is an \<open>F64\<close>: an exact value, an infinity or NaN,
  with the comparisons of IEEE 754 (every one with NaN is false). The loop of
  \<^verbatim>\<open>NextAvailable\<close> is \<open>next_loop\<close>, which carries the candidate.

  \<open>exclusive\<close> is the specification of a timetable: no two reservations of a chamber that are not
  cancelled overlap. Every operation keeps it (\<open>timetable_exclusive\<close>).
\<close>

section \<open>Floating-point values that are compared\<close>

datatype F64 = Fin rat | PosInf | NegInf | NaN

fun f64_less :: "F64 \<Rightarrow> F64 \<Rightarrow> bool" where
  "f64_less (Fin x) (Fin y) = (x < y)"
| "f64_less (Fin x) PosInf = True"
| "f64_less NegInf (Fin y) = True"
| "f64_less NegInf PosInf = True"
| "f64_less x y = False"

definition f64_le :: "F64 \<Rightarrow> F64 \<Rightarrow> bool" where
  "f64_le x y \<longleftrightarrow> f64_less x y \<or> (x = y \<and> x \<noteq> NaN)"

section \<open>Data\<close>

type_synonym SlotStatus = string

abbreviation SlotReserved :: SlotStatus where "SlotReserved \<equiv> ''reserved''"
abbreviation SlotConfirmed :: SlotStatus where "SlotConfirmed \<equiv> ''confirmed''"
abbreviation SlotEntered :: SlotStatus where "SlotEntered \<equiv> ''entered''"
abbreviation SlotExited :: SlotStatus where "SlotExited \<equiv> ''exited''"
abbreviation SlotCancelled :: SlotStatus where "SlotCancelled \<equiv> ''cancelled''"

record Chamber =
  ch_ID :: string
  ch_Name :: string
  ch_MaxLengthM :: F64
  ch_MaxBeamM :: F64
  ch_MaxDraftM :: F64
  ch_MaintenanceFrom :: "Time option"
  ch_MaintenanceTo :: "Time option"

record Reservation =
  r_ID :: string
  r_VoyageID :: string
  r_TenantID :: string
  r_ChamberID :: string
  r_StartsAt :: Time
  r_EndsAt :: Time
  r_LengthM :: F64
  r_BeamM :: F64
  r_DraftM :: F64
  r_Status :: SlotStatus
  r_Version :: int

section \<open>Operations\<close>

definition overlaps :: "Time \<Rightarrow> Time \<Rightarrow> Time \<Rightarrow> Time \<Rightarrow> bool" where
  "overlaps leftStart leftEnd rightStart rightEnd \<longleftrightarrow> leftStart < rightEnd \<and> rightStart < leftEnd"

text \<open>The maintenance condition: both ends set, and the slot overlaps them.\<close>

definition in_maintenance :: "Chamber \<Rightarrow> Time \<Rightarrow> Time \<Rightarrow> bool" where
  "in_maintenance chamber starts ends =
    (case (ch_MaintenanceFrom chamber, ch_MaintenanceTo chamber) of
       (Some f, Some t) \<Rightarrow> overlaps starts ends f t
     | _ \<Rightarrow> False)"

definition blocks :: "string \<Rightarrow> Time \<Rightarrow> Time \<Rightarrow> Reservation \<Rightarrow> bool" where
  "blocks chamberID starts ends r \<longleftrightarrow> r_ChamberID r = chamberID \<and> r_Status r \<noteq> SlotCancelled \<and>
    overlaps starts ends (r_StartsAt r) (r_EndsAt r)"

definition Reserve ::
    "string \<Rightarrow> string \<Rightarrow> string \<Rightarrow> Chamber \<Rightarrow> Time \<Rightarrow> Time \<Rightarrow> F64 \<Rightarrow> F64 \<Rightarrow> F64 \<Rightarrow> Reservation list \<Rightarrow>
     Reservation result" where
  "Reserve rid voyageID tenant chamber starts ends len beam draft existing =
    (if rid = [] \<or> voyageID = [] \<or> tenant = [] \<or> ch_ID chamber = [] \<or> \<not> starts < ends \<or>
        3 * Hour < time_sub ends starts
     then Inl (errorf ErrInvalid ''passage reservation'')
     else if f64_le len (Fin 0) \<or> f64_le beam (Fin 0) \<or> f64_le draft (Fin 0) \<or>
        f64_less (ch_MaxLengthM chamber) len \<or> f64_less (ch_MaxBeamM chamber) beam \<or>
        f64_less (ch_MaxDraftM chamber) draft
     then Inl (errorf ErrConflict ''vessel dimensions'')
     else if in_maintenance chamber starts ends then Inl (errorf ErrConflict ''chamber maintenance'')
     else if list_ex (blocks (ch_ID chamber) starts ends) existing
     then Inl (errorf ErrConflict ''chamber slot occupied'')
     else Inr \<lparr>r_ID = rid, r_VoyageID = voyageID, r_TenantID = tenant, r_ChamberID = ch_ID chamber,
       r_StartsAt = starts, r_EndsAt = ends, r_LengthM = len, r_BeamM = beam, r_DraftM = draft,
       r_Status = SlotReserved, r_Version = 1\<rparr>)"

abbreviation advance :: "Reservation \<Rightarrow> SlotStatus \<Rightarrow> Reservation" where
  "advance r s \<equiv> r\<lparr>r_Status := s, r_Version := inc64 (r_Version r)\<rparr>"

definition Confirm :: "Reservation \<Rightarrow> bool \<Rightarrow> int \<Rightarrow> Reservation result" where
  "Confirm reservation voyageCleared expectedVersion =
    (if r_Status reservation \<noteq> SlotReserved \<or> r_Version reservation \<noteq> expectedVersion \<or> \<not> voyageCleared
     then Inl (errorf ErrState ''passage confirmation'')
     else Inr (advance reservation SlotConfirmed))"

definition Enter :: "Reservation \<Rightarrow> Time \<Rightarrow> int \<Rightarrow> Reservation result" where
  "Enter reservation t expectedVersion =
    (if r_Status reservation \<noteq> SlotConfirmed \<or> r_Version reservation \<noteq> expectedVersion \<or>
        t < r_StartsAt reservation - 15 * Minute \<or> \<not> t < r_EndsAt reservation
     then Inl (errorf ErrState ''lock entry'')
     else Inr (advance reservation SlotEntered))"

definition Exit :: "Reservation \<Rightarrow> Time \<Rightarrow> int \<Rightarrow> Reservation result" where
  "Exit reservation t expectedVersion =
    (if r_Status reservation \<noteq> SlotEntered \<or> r_Version reservation \<noteq> expectedVersion \<or>
        t < r_StartsAt reservation
     then Inl (errorf ErrState ''lock exit'')
     else Inr (advance reservation SlotExited))"

definition Cancel :: "Reservation \<Rightarrow> Time \<Rightarrow> int \<Rightarrow> Reservation result" where
  "Cancel reservation t expectedVersion =
    (if r_Status reservation \<noteq> SlotReserved \<and> r_Status reservation \<noteq> SlotConfirmed \<or>
        r_Version reservation \<noteq> expectedVersion \<or> \<not> t < r_StartsAt reservation
     then Inl (errorf ErrState ''passage cancellation'')
     else Inr (advance reservation SlotCancelled))"

fun next_loop :: "Duration \<Rightarrow> Time \<Rightarrow> Reservation list \<Rightarrow> Time" where
  "next_loop duration candidate [] = candidate"
| "next_loop duration candidate (r # rs) =
    (if \<not> r_StartsAt r < candidate + duration then candidate
     else next_loop duration (if candidate < r_EndsAt r then r_EndsAt r else candidate) rs)"

definition NextAvailable :: "Chamber \<Rightarrow> Reservation list \<Rightarrow> Time \<Rightarrow> Duration \<Rightarrow> Time result" where
  "NextAvailable chamber existing earliest duration =
    (if ch_ID chamber = [] \<or> earliest = 0 \<or> duration \<le> 0 \<or> 3 * Hour < duration then Inl (Sentinel ErrInvalid)
     else
       let active = filter (\<lambda>r. r_ChamberID r = ch_ID chamber \<and> r_Status r \<noteq> SlotCancelled \<and> earliest < r_EndsAt r)
             existing;
           candidate = next_loop duration earliest (sort_slice (by_key r_StartsAt) active)
       in Inr (if in_maintenance chamber candidate (candidate + duration)
               then the (ch_MaintenanceTo chamber) else candidate))"

section \<open>Timetables\<close>

text \<open>Two reservations that claim the same chamber at a common instant.\<close>

definition clash :: "Reservation \<Rightarrow> Reservation \<Rightarrow> bool" where
  "clash r q \<longleftrightarrow> r_ChamberID r = r_ChamberID q \<and> r_Status r \<noteq> SlotCancelled \<and> r_Status q \<noteq> SlotCancelled \<and>
    overlaps (r_StartsAt r) (r_EndsAt r) (r_StartsAt q) (r_EndsAt q)"

abbreviation exclusive :: "Reservation list \<Rightarrow> bool" where
  "exclusive \<equiv> sorted_wrt (\<lambda>r q. \<not> clash r q)"

inductive slot_step :: "Reservation \<Rightarrow> Reservation \<Rightarrow> bool" where
  confirm_step: "Confirm r b n = Inr r' \<Longrightarrow> slot_step r r'"
| enter_step: "Enter r t n = Inr r' \<Longrightarrow> slot_step r r'"
| exit_step: "Exit r t n = Inr r' \<Longrightarrow> slot_step r r'"
| cancel_step: "Cancel r t n = Inr r' \<Longrightarrow> slot_step r r'"

inductive_cases slot_stepE: "slot_step r r'"

text \<open>
  What can happen to the list of all reservations: a new one is made against the list as it stands,
  for any chamber, or one of them takes a step.
\<close>

inductive timetable :: "Reservation list \<Rightarrow> bool" where
  timetable_empty: "timetable []"
| timetable_reserve: "timetable rs \<Longrightarrow>
    Reserve rid vid ten ch s e l b d rs = Inr r \<Longrightarrow> timetable (rs @ [r])"
| timetable_step: "timetable rs \<Longrightarrow> i < length rs \<Longrightarrow> slot_step (rs ! i) r' \<Longrightarrow> timetable (rs[i := r'])"

definition slot_next :: "SlotStatus \<Rightarrow> SlotStatus list" where
  "slot_next s =
    (if s = SlotReserved then [SlotConfirmed, SlotCancelled]
     else if s = SlotConfirmed then [SlotEntered, SlotCancelled]
     else if s = SlotEntered then [SlotExited] else [])"

lemma slot_step_facts:
  assumes "slot_step r r'"
  shows "r_Status r' \<in> set (slot_next (r_Status r))" and "r' = advance r (r_Status r')"
  using assms
  by (auto elim!: slot_stepE simp: Confirm_def Enter_def Exit_def Cancel_def slot_next_def split: if_splits)

lemma slot_step_not_cancelled: "slot_step r r' \<Longrightarrow> r_Status r \<noteq> SlotCancelled"
  using slot_step_facts(1) [of r r'] by (auto simp: slot_next_def)

lemma slot_step_clash: "slot_step r r' \<Longrightarrow> clash r' q \<Longrightarrow> clash r q"
proof -
  assume step: "slot_step r r'" and clash: "clash r' q"
  obtain s where "r' = advance r s" using slot_step_facts(2) [OF step] by blast
  with clash slot_step_not_cancelled [OF step] show ?thesis by (simp add: clash_def)
qed

lemma clash_sym: "clash r q \<longleftrightarrow> clash q r"
  by (auto simp: clash_def overlaps_def)

lemma Reserve_Inr_iff:
  "Reserve rid vid ten ch s e l b d rs = Inr r \<longleftrightarrow>
    rid \<noteq> [] \<and> vid \<noteq> [] \<and> ten \<noteq> [] \<and> ch_ID ch \<noteq> [] \<and> s < e \<and> e - s \<le> 3 * Hour \<and>
    \<not> f64_le l (Fin 0) \<and> \<not> f64_le b (Fin 0) \<and> \<not> f64_le d (Fin 0) \<and> \<not> f64_less (ch_MaxLengthM ch) l \<and>
    \<not> f64_less (ch_MaxBeamM ch) b \<and> \<not> f64_less (ch_MaxDraftM ch) d \<and> \<not> in_maintenance ch s e \<and>
    (\<forall>q\<in>set rs. \<not> blocks (ch_ID ch) s e q) \<and>
    r = \<lparr>r_ID = rid, r_VoyageID = vid, r_TenantID = ten, r_ChamberID = ch_ID ch, r_StartsAt = s, r_EndsAt = e,
      r_LengthM = l, r_BeamM = b, r_DraftM = d, r_Status = SlotReserved, r_Version = 1\<rparr>"
proof -
  have "3 * Hour < time_sub e s \<longleftrightarrow> 3 * Hour < e - s"
    by (simp add: time_sub_gt_iff max_int64_def min_int64_def)
  then show ?thesis by (auto simp: Reserve_def list_ex_iff not_less)
qed

lemma exclusive_update:
  assumes "exclusive rs" and "i < length rs" and "\<And>q. clash r' q \<Longrightarrow> clash (rs ! i) q"
  shows "exclusive (rs[i := r'])"
proof -
  have old: "\<not> clash (rs ! j) (rs ! k)" if "j < k" "k < length rs" for j k
    using assms(1) that by (simp add: sorted_wrt_iff_nth_less)
  have "\<not> clash (rs[i := r'] ! j) (rs[i := r'] ! k)" if "j < k" "k < length rs" for j k
    using old [OF that] old [of j k] that assms(2,3) clash_sym [of "rs ! j" r'] clash_sym [of "rs ! j" "rs ! i"]
    by (cases "j = i"; cases "k = i") auto
  then show ?thesis by (simp add: sorted_wrt_iff_nth_less)
qed

lemma timetable_exclusive: "timetable rs \<Longrightarrow> exclusive rs"
proof (induction rule: timetable.induct)
  case (timetable_reserve rs rid vid ten ch s e l b d r)
  then have "\<not> clash q r" if "q \<in> set rs" for q
    using that by (auto simp: Reserve_Inr_iff blocks_def clash_def overlaps_def)
  with timetable_reserve.IH show ?case by (simp add: sorted_wrt_append)
next
  case (timetable_step rs i r')
  then show ?case by (intro exclusive_update) (auto dest: slot_step_clash)
qed simp

section \<open>The next available slot\<close>

lemma next_loop_ge: "candidate \<le> next_loop d candidate rs"
proof (induction rs arbitrary: candidate)
  case (Cons r rs)
  from Cons [of candidate] Cons [of "r_EndsAt r"] show ?case by auto
qed simp

lemma next_loop_free:
  assumes "sorted (map r_StartsAt rs)" and "r \<in> set rs"
  shows "\<not> overlaps (next_loop d candidate rs) (next_loop d candidate rs + d) (r_StartsAt r) (r_EndsAt r)"
  using assms
proof (induction rs arbitrary: candidate)
  case (Cons q rs)
  show ?case
  proof (cases "r_StartsAt q < candidate + d")
    case False
    with Cons.prems show ?thesis by (auto simp: overlaps_def)
  next
    case True
    let ?c = "if candidate < r_EndsAt q then r_EndsAt q else candidate"
    have "r_EndsAt q \<le> next_loop d ?c rs" using next_loop_ge [of ?c d rs] by (rule order_trans [rotated]) simp
    with True Cons show ?thesis by (auto simp: overlaps_def)
  qed
qed simp

lemma next_loop_least:
  assumes "candidate \<le> t" and "\<forall>r\<in>set rs. \<not> overlaps t (t + d) (r_StartsAt r) (r_EndsAt r)"
  shows "next_loop d candidate rs \<le> t"
  using assms by (induction rs arbitrary: candidate) (auto simp: overlaps_def not_less)

definition slot_free :: "Chamber \<Rightarrow> Reservation list \<Rightarrow> Time \<Rightarrow> Duration \<Rightarrow> bool" where
  "slot_free chamber existing t d \<longleftrightarrow> \<not> list_ex (blocks (ch_ID chamber) t (t + d)) existing"

lemma NextAvailable_Inr:
  assumes "NextAvailable ch existing earliest d = Inr c"
  obtains candidate where "earliest \<le> candidate" and "slot_free ch existing candidate d"
    and "\<And>t. earliest \<le> t \<Longrightarrow> slot_free ch existing t d \<Longrightarrow> candidate \<le> t"
    and "c = (if in_maintenance ch candidate (candidate + d) then the (ch_MaintenanceTo ch) else candidate)"
    and "0 < d"
proof -
  let ?active = "filter (\<lambda>r. r_ChamberID r = ch_ID ch \<and> r_Status r \<noteq> SlotCancelled \<and> earliest < r_EndsAt r) existing"
  let ?sorted = "sort_slice (by_key r_StartsAt) ?active"
  let ?c = "next_loop d earliest ?sorted"
  from assms have c: "c = (if in_maintenance ch ?c (?c + d) then the (ch_MaintenanceTo ch) else ?c)" and "0 < d"
    by (auto simp: NextAvailable_def Let_def split: if_splits)
  have sorted: "sorted (map r_StartsAt ?sorted)"
    using by_key.ordered_sort_slice [of ?active r_StartsAt] by (simp add: ordered_by_key_iff)
  have ge: "earliest \<le> ?c" by (rule next_loop_ge)
  have "\<not> blocks (ch_ID ch) ?c (?c + d) r" if "r \<in> set existing" for r
  proof
    assume blocks: "blocks (ch_ID ch) ?c (?c + d) r"
    with ge that have "r \<in> set ?sorted" by (auto simp: blocks_def overlaps_def)
    from next_loop_free [OF sorted this] blocks show False by (simp add: blocks_def)
  qed
  then have free: "slot_free ch existing ?c d" by (simp add: slot_free_def list_ex_iff)
  have "?c \<le> t" if "earliest \<le> t" "slot_free ch existing t d" for t
    using that by (intro next_loop_least) (auto simp: slot_free_def list_ex_iff blocks_def)
  with ge free c \<open>0 < d\<close> that show thesis by blast
qed

section \<open>Properties\<close>

definition example_chamber :: Chamber where
  "example_chamber = \<lparr>ch_ID = ''gatun-a'', ch_Name = ''Gatun A'', ch_MaxLengthM = Fin 366, ch_MaxBeamM = Fin 49,
    ch_MaxDraftM = Fin 15, ch_MaintenanceFrom = None, ch_MaintenanceTo = None\<rparr>"

definition example_slot :: "string \<Rightarrow> Time \<Rightarrow> Time \<Rightarrow> Reservation" where
  "example_slot rid s e = \<lparr>r_ID = rid, r_VoyageID = ''voyage-1'', r_TenantID = ''panama-east'',
    r_ChamberID = ''gatun-a'', r_StartsAt = s, r_EndsAt = e, r_LengthM = Fin 200, r_BeamM = Fin 32, r_DraftM = Fin 12,
    r_Status = SlotReserved, r_Version = 1\<rparr>"

lemma example_timetable: "timetable [example_slot ''r1'' Hour (2 * Hour)]"
proof -
  have "Reserve ''r1'' ''voyage-1'' ''panama-east'' example_chamber Hour (2 * Hour) (Fin 200) (Fin 32) (Fin 12) [] =
      Inr (example_slot ''r1'' Hour (2 * Hour))"
    by code_simp
  from timetable_reserve [OF timetable_empty this] show ?thesis by simp
qed

text \<open>
  C14: No chamber is ever booked twice: in every timetable that reserving, confirming, entering,
  leaving and cancelling can produce, in any order and for any chambers, two reservations of one
  chamber that are not cancelled never share an instant.
\<close>

theorem no_double_booking:
  assumes "timetable rs" and "i < length rs" and "j < length rs" and "i \<noteq> j"
    and "r_ChamberID (rs ! i) = r_ChamberID (rs ! j)"
    and "r_Status (rs ! i) \<noteq> SlotCancelled" and "r_Status (rs ! j) \<noteq> SlotCancelled"
  shows "r_EndsAt (rs ! i) \<le> r_StartsAt (rs ! j) \<or> r_EndsAt (rs ! j) \<le> r_StartsAt (rs ! i)"
proof -
  have "\<not> clash (rs ! i) (rs ! j)"
    using timetable_exclusive [OF assms(1)] assms(2-4) clash_sym [of "rs ! i" "rs ! j"]
    by (cases "i < j") (auto simp: sorted_wrt_iff_nth_less)
  with assms(5-7) show ?thesis by (auto simp: clash_def overlaps_def)
qed

theorem no_double_booking_witness:
  "r_EndsAt (example_slot ''r1'' Hour (2 * Hour)) \<le> r_StartsAt (example_slot ''r2'' (3 * Hour) (4 * Hour)) \<or>
    r_EndsAt (example_slot ''r2'' (3 * Hour) (4 * Hour)) \<le> r_StartsAt (example_slot ''r1'' Hour (2 * Hour))"
proof -
  let ?first = "example_slot ''r1'' Hour (2 * Hour)" and ?second = "example_slot ''r2'' (3 * Hour) (4 * Hour)"
  have "Reserve ''r2'' ''voyage-1'' ''panama-east'' example_chamber (3 * Hour) (4 * Hour) (Fin 200) (Fin 32) (Fin 12)
      [?first] = Inr ?second"
    by code_simp
  from timetable_reserve [OF example_timetable this] have table: "timetable [?first, ?second]" by simp
  have "r_Status ?first \<noteq> SlotCancelled" "r_Status ?second \<noteq> SlotCancelled" "r_ChamberID ?first = r_ChamberID ?second"
    by (simp_all add: example_slot_def)
  with no_double_booking [OF table, of 0 1] show ?thesis by simp
qed

text \<open>
  A slot is reserved exactly when the parties are named, the slot is not empty and at most three
  hours long, the vessel's dimensions are not at most zero and not above the chamber's (comparisons
  that a NaN passes), the slot meets neither the maintenance of the chamber nor a reservation of it
  that is not cancelled; the reservation then starts in the state reserved at version 1.
\<close>

theorem Reserve_iff:
  "Reserve rid vid ten ch s e l b d existing = Inr r \<longleftrightarrow>
    rid \<noteq> [] \<and> vid \<noteq> [] \<and> ten \<noteq> [] \<and> ch_ID ch \<noteq> [] \<and> s < e \<and> e - s \<le> 3 * Hour \<and>
    list_all (\<lambda>(x, top). \<not> f64_le x (Fin 0) \<and> \<not> f64_less top x)
      [(l, ch_MaxLengthM ch), (b, ch_MaxBeamM ch), (d, ch_MaxDraftM ch)] \<and>
    \<not> in_maintenance ch s e \<and> \<not> list_ex (blocks (ch_ID ch) s e) existing \<and>
    r = \<lparr>r_ID = rid, r_VoyageID = vid, r_TenantID = ten, r_ChamberID = ch_ID ch, r_StartsAt = s, r_EndsAt = e,
      r_LengthM = l, r_BeamM = b, r_DraftM = d, r_Status = SlotReserved, r_Version = 1\<rparr>"
  by (auto simp: Reserve_Inr_iff list_ex_iff)

text \<open>
  The slot NextAvailable proposes is never before the earliest time asked for, never inside the
  maintenance of the chamber, and no later than any slot of that length that is really free; and it
  is itself free of reservations, unless it was moved to the end of the maintenance.
\<close>

theorem NextAvailable_correct:
  assumes "NextAvailable ch existing earliest d = Inr c"
  shows "earliest \<le> c \<and>
    \<not> in_maintenance ch c (c + d) \<and>
    (\<forall>t. earliest \<le> t \<longrightarrow> slot_free ch existing t d \<longrightarrow> \<not> in_maintenance ch t (t + d) \<longrightarrow> c \<le> t) \<and>
    (slot_free ch existing c d \<or> ch_MaintenanceTo ch = Some c)"
proof (rule conj4I; (intro allI impI)?)
  obtain k where k: "earliest \<le> k" "slot_free ch existing k d"
      "\<And>t. earliest \<le> t \<Longrightarrow> slot_free ch existing t d \<Longrightarrow> k \<le> t"
    and c: "c = (if in_maintenance ch k (k + d) then the (ch_MaintenanceTo ch) else k)"
    using NextAvailable_Inr [OF assms] by metis
  show "earliest \<le> c" and "\<not> in_maintenance ch c (c + d)" and
    "slot_free ch existing c d \<or> ch_MaintenanceTo ch = Some c"
    using k(1,2) c by (auto simp: in_maintenance_def overlaps_def split: option.splits if_splits)
  fix t assume t: "earliest \<le> t" "slot_free ch existing t d" "\<not> in_maintenance ch t (t + d)"
  from k(3) [OF t(1,2)] t(3) c show "c \<le> t"
    by (auto simp: in_maintenance_def overlaps_def split: option.splits if_splits)
qed

theorem NextAvailable_correct_witness:
  "slot_free example_chamber [example_slot ''r1'' 10 20, example_slot ''r2'' 25 40] 40 6"
proof -
  have "NextAvailable example_chamber [example_slot ''r1'' 10 20, example_slot ''r2'' 25 40] 12 6 = Inr 40"
    by code_simp
  from NextAvailable_correct [OF this, THEN conjunct2, THEN conjunct2, THEN conjunct2] show ?thesis by (simp add: example_chamber_def)
qed

text \<open>
  After the maintenance the candidate is not compared with the reservations again: here the
  proposed slot is the end of the maintenance, which a reservation occupies, and Reserve refuses it.
\<close>

lemma NextAvailable_after_maintenance_is_taken:
  "\<exists>ch existing c. NextAvailable ch existing Hour Hour = Inr c \<and> timetable existing \<and>
    Reserve ''r9'' ''voyage-9'' ''panama-east'' ch c (c + Hour) (Fin 200) (Fin 32) (Fin 12) existing =
      Inl (errorf ErrConflict ''chamber slot occupied'')"
proof (intro exI conjI)
  let ?ch = "example_chamber\<lparr>ch_MaintenanceFrom := Some Hour, ch_MaintenanceTo := Some (3 * Hour)\<rparr>"
  let ?slot = "example_slot ''r1'' (3 * Hour) (4 * Hour)"
  have "Reserve ''r1'' ''voyage-1'' ''panama-east'' ?ch (3 * Hour) (4 * Hour) (Fin 200) (Fin 32) (Fin 12) [] = Inr ?slot"
    by code_simp
  from timetable_reserve [OF timetable_empty this] show "timetable [?slot]" by simp
  show "NextAvailable ?ch [?slot] Hour Hour = Inr (3 * Hour)" by code_simp
  show "Reserve ''r9'' ''voyage-9'' ''panama-east'' ?ch (3 * Hour) (3 * Hour + Hour) (Fin 200) (Fin 32) (Fin 12) [?slot] =
      Inl (errorf ErrConflict ''chamber slot occupied'')"
    by code_simp
qed

end
