(* ===== verification/Movement.thy ===== *)
theory Movement
  imports Reservation
begin

text \<open>
  \<^verbatim>\<open>internal/passage/operations.go\<close>: movements through a lock, the check of a recorded
  history, and the utilization of a chamber. The scan of \<^verbatim>\<open>ValidateMovementHistory\<close> is
  \<open>history_loop\<close>, which carries \<^verbatim>\<open>status\<close> and \<^verbatim>\<open>lastTime\<close>. The quotient of
  two \<^verbatim>\<open>float64\<close> conversions at the end of \<^verbatim>\<open>ChamberUtilization\<close> is the argument
  \<open>float_div\<close>; what is proved is about the two durations it is given.
\<close>

record Movement =
  mv_ReservationID :: string
  mv_Status :: SlotStatus
  mv_OccurredAt :: Time
  mv_OperatorID :: string
  mv_Note :: string

definition BuildMovement ::
    "Reservation \<Rightarrow> SlotStatus \<Rightarrow> Time \<Rightarrow> string \<Rightarrow> string \<Rightarrow> (Movement \<times> Reservation) result" where
  "BuildMovement reservation next_status t operatorID remark =
    (if operatorID = [] \<or> t = 0 then Inl (errorf ErrInvalid ''passage movement'')
     else bindR
       (if next_status = SlotEntered then Enter reservation t (r_Version reservation)
        else if next_status = SlotExited then Exit reservation t (r_Version reservation)
        else if next_status = SlotCancelled then Cancel reservation t (r_Version reservation)
        else Inl (errorf ErrInvalid ''movement status''))
       (\<lambda>updated. Inr (\<lparr>mv_ReservationID = r_ID reservation, mv_Status = next_status, mv_OccurredAt = t,
         mv_OperatorID = operatorID, mv_Note = remark\<rparr>, updated)))"

abbreviation movement_less :: "Movement \<Rightarrow> Movement \<Rightarrow> bool" where
  "movement_less \<equiv> lex2 mv_OccurredAt mv_Status"

text \<open>The \<^verbatim>\<open>switch\<close> on the status reached so far.\<close>

definition check_next :: "SlotStatus \<Rightarrow> SlotStatus \<Rightarrow> unit result" where
  "check_next status next_status =
    (if status = SlotConfirmed
     then refuse_if (next_status \<noteq> SlotEntered \<and> next_status \<noteq> SlotCancelled)
       (errorf ErrState ''expected entry or cancellation'')
     else if status = SlotEntered
     then refuse_if (next_status \<noteq> SlotExited) (errorf ErrState ''expected exit'')
     else Inl (errorf ErrState ''terminal reservation has movement''))"

fun history_loop :: "Reservation \<Rightarrow> SlotStatus \<Rightarrow> Time \<Rightarrow> Movement list \<Rightarrow> SlotStatus result" where
  "history_loop reservation status lastTime [] = Inr status"
| "history_loop reservation status lastTime (movement # rest) =
    (if mv_ReservationID movement \<noteq> r_ID reservation \<or> mv_OperatorID movement = [] \<or>
        mv_OccurredAt movement < lastTime
     then Inl (errorf ErrConflict ''movement history'')
     else bindR (check_next status (mv_Status movement))
       (\<lambda>_. history_loop reservation (mv_Status movement) (mv_OccurredAt movement) rest))"

definition ValidateMovementHistory :: "Reservation \<Rightarrow> Movement list \<Rightarrow> unit result" where
  "ValidateMovementHistory reservation movements =
    (if r_ID reservation = [] then Inl (errorf ErrInvalid ''reservation'')
     else bindR (history_loop reservation SlotConfirmed (r_StartsAt reservation - 15 * Minute)
         (sort_slice movement_less movements))
       (\<lambda>status. refuse_if (status \<noteq> r_Status reservation)
         (errorf ErrConflict ''history status differs from reservation'')))"

text \<open>The windows of the reservations that count, clipped to the window asked for.\<close>

fun active_windows :: "string \<Rightarrow> TimeWindow \<Rightarrow> Reservation list \<Rightarrow> TimeWindow list result" where
  "active_windows chamberID window [] = Inr []"
| "active_windows chamberID window (r # rs) =
    (if r_ChamberID r \<noteq> chamberID \<or> r_Status r = SlotCancelled then active_windows chamberID window rs
     else bindR (NewTimeWindow (r_StartsAt r) (r_EndsAt r) 0) (\<lambda>current.
       bindR (active_windows chamberID window rs) (\<lambda>rest.
         if Overlaps current window
         then Inr (\<lparr>w_StartsAt = (if w_StartsAt current < w_StartsAt window then w_StartsAt window else w_StartsAt current),
             w_EndsAt = (if w_EndsAt window < w_EndsAt current then w_EndsAt window else w_EndsAt current)\<rparr> # rest)
         else Inr rest)))"

definition occupied_time :: "TimeWindow list \<Rightarrow> Duration" where
  "occupied_time ws = foldl (\<lambda>total w. wrap64 (total + window_Duration w)) 0 ws"

definition ChamberUtilization ::
    "(Duration \<Rightarrow> Duration \<Rightarrow> 'f) \<Rightarrow> string \<Rightarrow> Reservation list \<Rightarrow> TimeWindow \<Rightarrow> 'f result" where
  "ChamberUtilization float_div chamberID reservations window =
    (if chamberID = [] \<or> window_Duration window \<le> 0 then Inl (errorf ErrInvalid ''utilization input'')
     else bindR (active_windows chamberID window reservations) (\<lambda>active.
       bindR (MergeWindows active) (\<lambda>merged.
         Inr (float_div (occupied_time merged) (window_Duration window)))))"

section \<open>Movements of a reservation\<close>

text \<open>The movements recorded so far, oldest first, and the reservation they led to.\<close>

inductive moved :: "Reservation \<Rightarrow> Movement list \<Rightarrow> Reservation \<Rightarrow> bool" where
  moved_none: "r_Status r \<in> {SlotReserved, SlotConfirmed} \<Longrightarrow> moved r [] r"
| moved_step: "moved r ms q \<Longrightarrow> BuildMovement q s t opr txt1 = Inr (m, q') \<Longrightarrow> moved r (ms @ [m]) q'"

lemma BuildMovementD [result_elims]:
  "BuildMovement q s t opr txt1 = Inr (m, q') \<Longrightarrow>
    opr \<noteq> [] \<and> t \<noteq> 0 \<and> m = \<lparr>mv_ReservationID = r_ID q, mv_Status = s, mv_OccurredAt = t,
      mv_OperatorID = opr, mv_Note = txt1\<rparr> \<and> q' = advance q s \<and>
    (s = SlotEntered \<and> r_Status q = SlotConfirmed \<and> r_StartsAt q - 15 * Minute \<le> t \<and> t < r_EndsAt q \<or>
     s = SlotExited \<and> r_Status q = SlotEntered \<and> r_StartsAt q \<le> t \<or>
     s = SlotCancelled \<and> r_Status q \<in> {SlotReserved, SlotConfirmed} \<and> t < r_StartsAt q)"
  by (auto simp: BuildMovement_def bindR_Inr_iff Enter_def Exit_def Cancel_def not_less split: if_splits)

text \<open>What a sequence of movements can be: none, an entry, an entry and an exit, or a cancellation.\<close>

definition movement_shape :: "Reservation \<Rightarrow> Movement list \<Rightarrow> Reservation \<Rightarrow> bool" where
  "movement_shape r ms q \<longleftrightarrow>
    (case ms of
       [] \<Rightarrow> q = r \<and> r_Status r \<in> {SlotReserved, SlotConfirmed}
     | [m] \<Rightarrow> r_Status q = mv_Status m \<and>
         (mv_Status m = SlotEntered \<and> r_StartsAt r - 15 * Minute \<le> mv_OccurredAt m \<or>
          mv_Status m = SlotCancelled \<and> mv_OccurredAt m < r_StartsAt r)
     | [m, n] \<Rightarrow> r_Status q = SlotExited \<and> mv_Status m = SlotEntered \<and> mv_Status n = SlotExited \<and>
         r_StartsAt r - 15 * Minute \<le> mv_OccurredAt m \<and> r_StartsAt r \<le> mv_OccurredAt n
     | _ \<Rightarrow> False)"

lemma moved_same:
  "moved r ms q \<Longrightarrow> r_ID q = r_ID r \<and> r_StartsAt q = r_StartsAt r \<and> r_EndsAt q = r_EndsAt r \<and>
    (\<forall>m\<in>set ms. mv_ReservationID m = r_ID r \<and> mv_OperatorID m \<noteq> [])"
  by (induction rule: moved.induct) (auto dest!: BuildMovementD)

lemma moved_shape: "moved r ms q \<Longrightarrow> movement_shape r ms q"
proof (induction rule: moved.induct)
  case (moved_step r ms q s t opr txt1 m q')
  from moved_same [OF moved_step.hyps(1)] have starts: "r_StartsAt q = r_StartsAt r" by simp
  from BuildMovementD [OF moved_step.hyps(2)] have m: "mv_Status m = s" "mv_OccurredAt m = t" "r_Status q' = s"
    and move: "s = SlotEntered \<and> r_Status q = SlotConfirmed \<and> r_StartsAt q - 15 * Minute \<le> t \<or>
      s = SlotExited \<and> r_Status q = SlotEntered \<and> r_StartsAt q \<le> t \<or>
      s = SlotCancelled \<and> r_Status q \<in> {SlotReserved, SlotConfirmed} \<and> t < r_StartsAt q" by auto
  from moved_step.IH consider "ms = []" "q = r" "r_Status q \<in> {SlotReserved, SlotConfirmed}" | n where "ms = [n]" "r_Status q = mv_Status n"
      "mv_Status n = SlotEntered \<and> r_StartsAt r - 15 * Minute \<le> mv_OccurredAt n \<or> mv_Status n = SlotCancelled"
    | "r_Status q = SlotExited"
    by (auto simp: movement_shape_def split: list.splits)
  then show ?case
  proof cases
    case 1
    with move m starts show ?thesis by (auto simp: movement_shape_def)
  next
    case (2 n)
    with move m starts show ?thesis by (auto simp: movement_shape_def)
  next
    case 3
    with move have False by auto
    then show ?thesis ..
  qed
qed (simp add: movement_shape_def)

section \<open>The history that movements leave\<close>

lemma movement_order:
  assumes "movement_shape r ms q" and "sorted (map mv_OccurredAt ms)" and "mset hs = mset ms"
  shows "sort_slice movement_less hs = ms"
proof -
  have "ordered_by movement_less ms" and inj: "inj_on (\<lambda>m. (mv_OccurredAt m, mv_Status m)) (set ms)"
    using assms(1,2) by (auto simp: movement_shape_def lex2_def inj_on_def split: list.splits)
  then have "sort_slice movement_less ms = ms" by (intro sort_slice_ordered)
  with sort_slice_lex2_perm [OF assms(3) inj] show ?thesis by simp
qed

definition on_time :: "Reservation \<Rightarrow> Movement list \<Rightarrow> bool" where
  "on_time r ms \<longleftrightarrow> sorted (map mv_OccurredAt ms) \<and> list_all (\<lambda>m. r_StartsAt r - 15 * Minute \<le> mv_OccurredAt m) ms"

text \<open>
  C27: The check accepts every history that the operations leave: if a reservation reaches a state
  other than reserved by entering, leaving or being cancelled, its movements, handed over in any
  order, are accepted, provided each movement was recorded no earlier than the one before it and
  than a quarter of an hour before the start.
\<close>

theorem recorded_movements_validate:
  assumes "moved r ms q" and "r_ID r \<noteq> []" and "r_Status q \<noteq> SlotReserved" and "on_time r ms"
    and "mset hs = mset ms"
  shows "ValidateMovementHistory q hs = Inr ()"
proof -
  have shape: "movement_shape r ms q" by (rule moved_shape [OF assms(1)])
  note same = moved_same [OF assms(1)]
  have "sort_slice movement_less hs = ms"
    using shape assms(4,5) by (intro movement_order) (auto simp: on_time_def)
  moreover have "history_loop q SlotConfirmed (r_StartsAt q - 15 * Minute) ms = Inr (r_Status q)"
    using shape same assms(3,4)
    by (auto simp: movement_shape_def on_time_def check_next_def refuse_if_def split: list.splits)
  ultimately show ?thesis using same assms(2) by (simp add: ValidateMovementHistory_def)
qed

definition example_confirmed :: Reservation where
  "example_confirmed = (example_slot ''r1'' Hour (2 * Hour))\<lparr>r_Status := SlotConfirmed\<rparr>"

abbreviation movement_at :: "SlotStatus \<Rightarrow> Time \<Rightarrow> Movement" where
  "movement_at s t \<equiv> \<lparr>mv_ReservationID = ''r1'', mv_Status = s, mv_OccurredAt = t, mv_OperatorID = ''op'', mv_Note = []\<rparr>"

lemma example_build:
  "t \<noteq> 0 \<Longrightarrow> t < Hour \<Longrightarrow> BuildMovement example_confirmed SlotCancelled t ''op'' [] =
    Inr (movement_at SlotCancelled t, advance example_confirmed SlotCancelled)"
  "45 * Minute \<le> t \<Longrightarrow> t < 2 * Hour \<Longrightarrow> BuildMovement example_confirmed SlotEntered t ''op'' [] =
    Inr (movement_at SlotEntered t, advance example_confirmed SlotEntered)"
  "Hour \<le> t \<Longrightarrow> BuildMovement (advance example_confirmed SlotEntered) SlotExited t ''op'' [] =
    Inr (movement_at SlotExited t, advance (advance example_confirmed SlotEntered) SlotExited)"
  by (simp_all add: BuildMovement_def Cancel_def Enter_def Exit_def example_confirmed_def example_slot_def)

lemma example_moved:
  "t \<noteq> 0 \<Longrightarrow> t < Hour \<Longrightarrow> moved example_confirmed [movement_at SlotCancelled t] (advance example_confirmed SlotCancelled)"
  "45 * Minute \<le> t \<Longrightarrow> t < 2 * Hour \<Longrightarrow> Hour \<le> u \<Longrightarrow>
    moved example_confirmed [movement_at SlotEntered t, movement_at SlotExited u]
      (advance (advance example_confirmed SlotEntered) SlotExited)"
proof -
  have start: "moved example_confirmed [] example_confirmed"
    by (rule moved_none) (simp add: example_confirmed_def)
  show "moved example_confirmed [movement_at SlotCancelled t] (advance example_confirmed SlotCancelled)"
    if "t \<noteq> 0" "t < Hour" using moved_step [OF start example_build(1) [OF that]] by simp
  assume t: "45 * Minute \<le> t" "t < 2 * Hour" and u: "Hour \<le> u"
  from moved_step [OF moved_step [OF start example_build(2) [OF t]] example_build(3) [OF u]]
  show "moved example_confirmed [movement_at SlotEntered t, movement_at SlotExited u]
      (advance (advance example_confirmed SlotEntered) SlotExited)" by simp
qed

theorem recorded_movements_validate_witness:
  "ValidateMovementHistory (advance (advance example_confirmed SlotEntered) SlotExited)
    [movement_at SlotExited (90 * Minute), movement_at SlotEntered (50 * Minute)] = Inr ()"
  by (rule recorded_movements_validate [OF example_moved(2) [of "50 * Minute" "90 * Minute"]])
    (simp_all add: example_confirmed_def example_slot_def on_time_def)

text \<open>
  A history the check accepts is, in order of time, empty for a confirmed reservation, one entry
  for an entered one, an entry and an exit for an exited one, or one cancellation for a cancelled one;
  every movement is of this reservation, names its operator and is not too early.
\<close>

theorem ValidateMovementHistory_sound:
  assumes "ValidateMovementHistory r hs = Inr ()"
  shows "(map mv_Status (sort_slice movement_less hs), r_Status r) \<in>
      {([], SlotConfirmed), ([SlotEntered], SlotEntered), ([SlotEntered, SlotExited], SlotExited),
       ([SlotCancelled], SlotCancelled)} \<and>
    (\<forall>m\<in>set hs. mv_ReservationID m = r_ID r \<and> mv_OperatorID m \<noteq> [] \<and>
      r_StartsAt r - 15 * Minute \<le> mv_OccurredAt m)"
proof (rule conjI; (intro allI impI)?)
  let ?ms = "sort_slice movement_less hs" and ?early = "r_StartsAt r - 15 * Minute"
  from assms have ok: "history_loop r SlotConfirmed ?early ?ms = Inr (r_Status r)"
    by (auto simp: ValidateMovementHistory_def bindR_Inr_iff split: if_splits)
  have terminal: "ms = []" if "history_loop r s t ms = Inr u" "s \<noteq> SlotConfirmed" "s \<noteq> SlotEntered" for s t ms u
    using that by (cases ms) (auto simp: check_next_def split: if_splits)
  show "(map mv_Status ?ms, r_Status r) \<in>
      {([], SlotConfirmed), ([SlotEntered], SlotEntered), ([SlotEntered, SlotExited], SlotExited),
       ([SlotCancelled], SlotCancelled)}"
  proof (cases ?ms)
    case (Cons m ms)
    with ok have rest: "history_loop r (mv_Status m) (mv_OccurredAt m) ms = Inr (r_Status r)"
      and first: "mv_Status m = SlotEntered \<or> mv_Status m = SlotCancelled"
      by (auto simp: check_next_def bindR_Inr_iff split: if_splits)
    show ?thesis
    proof (cases ms)
      case Nil
      with first rest Cons show ?thesis by auto
    next
      case (Cons n ns)
      with first rest have "mv_Status m = SlotEntered" "mv_Status n = SlotExited"
          "history_loop r SlotExited (mv_OccurredAt n) ns = Inr (r_Status r)"
        by (auto simp: check_next_def bindR_Inr_iff split: if_splits)
      moreover from this(3) have "ns = []" by (rule terminal) simp_all
      ultimately show ?thesis using Cons \<open>?ms = m # ms\<close> by simp
    qed
  qed (use ok in simp)
  have all: "\<forall>m\<in>set ms. mv_ReservationID m = r_ID r \<and> mv_OperatorID m \<noteq> [] \<and> t \<le> mv_OccurredAt m"
    if "history_loop r s t ms = Inr u" for s t ms u
    using that
  proof (induction ms arbitrary: s t)
    case (Cons m ms)
    then have "history_loop r (mv_Status m) (mv_OccurredAt m) ms = Inr u" "t \<le> mv_OccurredAt m"
        "mv_ReservationID m = r_ID r \<and> mv_OperatorID m \<noteq> []"
      by (auto simp: bindR_Inr_iff split: if_splits)
    with Cons.IH show ?case by fastforce
  qed simp
  from all [OF ok] show "\<forall>m\<in>set hs. mv_ReservationID m = r_ID r \<and> mv_OperatorID m \<noteq> [] \<and>
      r_StartsAt r - 15 * Minute \<le> mv_OccurredAt m" by simp
qed

theorem ValidateMovementHistory_sound_witness:
  "list_all (\<lambda>m. mv_ReservationID m = ''r1'' \<and> mv_OperatorID m \<noteq> [] \<and> 45 * Minute \<le> mv_OccurredAt m)
    [movement_at SlotExited (90 * Minute), movement_at SlotEntered (50 * Minute)]"
proof -
  let ?r = "example_confirmed\<lparr>r_Status := SlotExited\<rparr>"
  have "ValidateMovementHistory ?r [movement_at SlotExited (90 * Minute), movement_at SlotEntered (50 * Minute)] = Inr ()"
    by code_simp
  from ValidateMovementHistory_sound [OF this, THEN conjunct2] show ?thesis
    by (simp add: example_confirmed_def example_slot_def)
qed

text \<open>
  Two histories that the operations leave are refused by the check: a cancellation more than a
  quarter of an hour before the start, which Cancel accepts at any time before it; and an exit that is
  recorded with a time before that of the entry, which Exit does not compare.
\<close>

lemma valid_movements_refused:
  "\<exists>r ms q. moved r ms q \<and> map mv_Status ms = [SlotCancelled] \<and>
    ValidateMovementHistory q ms = Inl (errorf ErrConflict ''movement history'')"
  "\<exists>r ms q. moved r ms q \<and> map mv_Status ms = [SlotEntered, SlotExited] \<and>
    ValidateMovementHistory q ms = Inl (errorf ErrState ''expected entry or cancellation'')"
proof -
  have "moved example_confirmed [movement_at SlotCancelled Minute] (advance example_confirmed SlotCancelled)"
    by (rule example_moved(1)) simp_all
  moreover have "ValidateMovementHistory (advance example_confirmed SlotCancelled) [movement_at SlotCancelled Minute] =
      Inl (errorf ErrConflict ''movement history'')"
    by code_simp
  ultimately show "\<exists>r ms q. moved r ms q \<and> map mv_Status ms = [SlotCancelled] \<and>
      ValidateMovementHistory q ms = Inl (errorf ErrConflict ''movement history'')"
    by (intro exI conjI) simp_all
  have "moved example_confirmed [movement_at SlotEntered (90 * Minute), movement_at SlotExited Hour]
      (advance (advance example_confirmed SlotEntered) SlotExited)"
    by (rule example_moved(2)) simp_all
  moreover have "ValidateMovementHistory (advance (advance example_confirmed SlotEntered) SlotExited)
      [movement_at SlotEntered (90 * Minute), movement_at SlotExited Hour] =
      Inl (errorf ErrState ''expected entry or cancellation'')"
    by code_simp
  ultimately show "\<exists>r ms q. moved r ms q \<and> map mv_Status ms = [SlotEntered, SlotExited] \<and>
      ValidateMovementHistory q ms = Inl (errorf ErrState ''expected entry or cancellation'')"
    by (intro exI conjI) simp_all
qed

section \<open>Utilization\<close>

abbreviation window_length :: "TimeWindow \<Rightarrow> int" where
  "window_length w \<equiv> w_EndsAt w - w_StartsAt w"

lemma covers_Cons_set: "{t. covers (w # ws) t} = {w_StartsAt w..<w_EndsAt w} \<union> {t. covers ws t}"
  by (auto simp: covers_def Contains_def)

lemma finite_covers [simp]: "finite {t. covers ws t}"
proof (induction ws)
  case Nil
  then show ?case by (simp add: covers_def)
next
  case (Cons w ws)
  then show ?case unfolding covers_Cons_set by simp
qed

lemma separated_card:
  "separated ws \<Longrightarrow> \<forall>w\<in>set ws. w_StartsAt w < w_EndsAt w \<Longrightarrow>
    int (card {t. covers ws t}) = sum_list (map window_length ws)"
proof (induction ws)
  case (Cons w ws)
  then have "{w_StartsAt w..<w_EndsAt w} \<inter> {t. covers ws t} = {}"
    by (auto simp: covers_def Contains_def)
  then have "card {t. covers (w # ws) t} = nat (window_length w) + card {t. covers ws t}"
    unfolding covers_Cons_set by (simp add: card_Un_disjoint)
  with Cons show ?case by simp
qed (simp add: covers_def)

lemma foldl_occupied:
  "\<forall>w\<in>set ws. w_StartsAt w < w_EndsAt w \<Longrightarrow> 0 \<le> acc \<Longrightarrow>
    acc + sum_list (map window_length ws) \<le> max_int64 \<Longrightarrow>
    foldl (\<lambda>total w. wrap64 (total + window_Duration w)) acc ws = acc + sum_list (map window_length ws)"
proof (induction ws arbitrary: acc)
  case (Cons w ws)
  have rest: "0 \<le> sum_list (map window_length ws)"
    using Cons.prems(1) by (intro sum_list_nonneg) auto
  with Cons.prems have "window_length w \<le> max_int64" "0 < window_length w" by simp_all
  then have dur: "window_Duration w = window_length w"
    by (simp add: window_Duration_def time_sub_exact in_int64_def min_int64_def)
  from rest Cons.prems have "in_int64 (acc + window_length w)"
    by (simp add: in_int64_def min_int64_def)
  then have step: "wrap64 (acc + window_Duration w) = acc + window_length w" unfolding dur by simp
  from Cons.IH [of "acc + window_length w"] Cons.prems
  have "foldl (\<lambda>total w. wrap64 (total + window_Duration w)) (acc + window_length w) ws =
      acc + window_length w + sum_list (map window_length ws)" by simp
  with step show ?case by simp
qed simp

lemma active_windows_covers:
  "active_windows ch window rs = Inr ws \<Longrightarrow>
    covers ws t \<longleftrightarrow> Contains window t \<and>
      (\<exists>r\<in>set rs. r_ChamberID r = ch \<and> r_Status r \<noteq> SlotCancelled \<and> r_StartsAt r \<le> t \<and> t < r_EndsAt r)"
proof (induction rs arbitrary: ws)
  case (Cons r rs)
  show ?case
  proof (cases "r_ChamberID r \<noteq> ch \<or> r_Status r = SlotCancelled")
    case False
    with Cons.prems obtain us where us: "active_windows ch window rs = Inr us"
      and ws: "ws = (if Overlaps \<lparr>w_StartsAt = r_StartsAt r, w_EndsAt = r_EndsAt r\<rparr> window
          then \<lparr>w_StartsAt = max (r_StartsAt r) (w_StartsAt window), w_EndsAt = min (r_EndsAt r) (w_EndsAt window)\<rparr> # us
          else us)"
      by (auto simp: NewTimeWindow_Inr_iff bindR_Inr_iff max_def min_def not_less split: if_splits)
    with Cons.IH [OF us] False show ?thesis
      by (auto simp: covers_def Contains_def Overlaps_def)
  qed (use Cons in auto)
qed (simp add: covers_def)

text \<open>
  The utilization of a chamber is the quotient of two exact durations: the number of nanoseconds
  of the window at which some reservation of the chamber that is not cancelled holds it (overlapping
  reservations counted once), and the length of the window; so it lies between zero and one.
\<close>

theorem ChamberUtilization_correct:
  assumes "ChamberUtilization float_div ch rs window = Inr u" and "window_length window \<le> max_int64"
  defines "busy \<equiv> {t. Contains window t \<and> (\<exists>r\<in>set rs. r_ChamberID r = ch \<and> r_Status r \<noteq> SlotCancelled \<and>
    r_StartsAt r \<le> t \<and> t < r_EndsAt r)}"
  shows "u = float_div (int (card busy)) (window_length window) \<and>
    int (card busy) \<le> window_length window"
proof (rule conjI; (intro allI impI)?)
  from assms(1) obtain ws ms where active: "active_windows ch window rs = Inr ws"
    and merged: "MergeWindows ws = Inr ms" and "0 < window_Duration window"
    and u: "u = float_div (occupied_time ms) (window_Duration window)"
    by (auto simp: ChamberUtilization_def bindR_Inr_iff split: if_splits)
  then have pos: "0 < window_length window" by (simp add: window_Duration_def)
  note spec = MergeWindows_spec [OF merged]
  have busy: "{t. covers ms t} = busy"
    by (auto simp: busy_def spec(1) active_windows_covers [OF active])
  have valid: "\<forall>m\<in>set ms. w_StartsAt m < w_EndsAt m" using spec(3) by (simp add: valid_window_def)
  from separated_card [OF spec(2) valid] have sum: "sum_list (map window_length ms) = int (card busy)"
    by (simp add: busy)
  have "busy \<subseteq> {w_StartsAt window..<w_EndsAt window}" by (auto simp: busy_def Contains_def)
  then have "card busy \<le> card {w_StartsAt window..<w_EndsAt window}" by (intro card_mono) simp_all
  with pos show le: "int (card busy) \<le> window_length window" by simp
  have "occupied_time ms = int (card busy)"
    unfolding occupied_time_def by (subst foldl_occupied [OF valid]) (use le assms(2) sum in simp_all)
  moreover have "window_Duration window = window_length window"
    using pos assms(2) by (simp add: window_Duration_def time_sub_exact in_int64_def min_int64_def)
  ultimately show "u = float_div (int (card busy)) (window_length window)" by (simp add: u)
qed

theorem ChamberUtilization_correct_witness:
  "int (card {t. Contains \<lparr>w_StartsAt = 10, w_EndsAt = 20\<rparr> t \<and>
      (\<exists>r\<in>set [example_slot ''r1'' 5 12, example_slot ''r2'' 11 15]. r_ChamberID r = ''gatun-a'' \<and>
        r_Status r \<noteq> SlotCancelled \<and> r_StartsAt r \<le> t \<and> t < r_EndsAt r)}) \<le> 20 - 10"
proof -
  have "ChamberUtilization (\<lambda>n d. (n, d)) ''gatun-a'' [example_slot ''r1'' 5 12, example_slot ''r2'' 11 15]
      \<lparr>w_StartsAt = 10, w_EndsAt = 20\<rparr> = Inr (5, 10)" by code_simp
  from ChamberUtilization_correct [OF this, THEN conjunct2] show ?thesis by (simp add: max_int64_def)
qed

end
