(* ===== verification/Auth.thy ===== *)
theory Auth
  imports Sort_Slice Sha256
begin

text \<open>
  \<^verbatim>\<open>internal/auth/model.go\<close>, \<^verbatim>\<open>authorization.go\<close> and
  \<^verbatim>\<open>session_policy.go\<close>: users, sessions, the table of permissions and the limits on
  sessions. The package \<^verbatim>\<open>golang.org/x/crypto/bcrypt\<close> is the pair of arguments
  \<open>generate\<close> and \<open>compare\<close>; what \<^verbatim>\<open>crypto/rand\<close> reads is the pair of results
  \<open>token_bytes\<close> and \<open>id_bytes\<close>, the bytes or the error of the two reads.
\<close>

type_synonym Role = string

abbreviation RoleCarrier :: Role where "RoleCarrier \<equiv> ''carrier_operator''"
abbreviation RoleDispatcher :: Role where "RoleDispatcher \<equiv> ''port_dispatcher''"
abbreviation RoleCustoms :: Role where "RoleCustoms \<equiv> ''customs_officer''"
abbreviation RoleLock :: Role where "RoleLock \<equiv> ''lock_controller''"
abbreviation RoleAuditor :: Role where "RoleAuditor \<equiv> ''compliance_auditor''"

record User =
  u_ID :: string
  u_TenantID :: string
  u_Email :: string
  u_PasswordHash :: string
  u_Role :: Role
  u_Disabled :: bool
  u_Version :: int

record Session =
  s_ID :: string
  s_UserID :: string
  s_TenantID :: string
  s_Role :: Role
  s_TokenHash :: string
  s_ExpiresAt :: Time
  s_RevokedAt :: "Time option"
  s_CreatedAt :: Time

section \<open>Passwords and sessions\<close>

definition HashPassword :: "(string \<Rightarrow> string result) \<Rightarrow> string \<Rightarrow> string result" where
  "HashPassword generate password =
    (if length password < 10 \<or> 128 < length password then Inl (errorf ErrInvalid ''password length'')
     else generate password)"

definition VerifyPassword :: "(string \<Rightarrow> string \<Rightarrow> bool) \<Rightarrow> string \<Rightarrow> string \<Rightarrow> unit result" where
  "VerifyPassword compare hash password = refuse_if (\<not> compare hash password) (Sentinel ErrForbidden)"

definition TokenHash :: "string \<Rightarrow> string" where
  "TokenHash token = sha256_hex token"

definition validRole :: "Role \<Rightarrow> bool" where
  "validRole role \<longleftrightarrow> role \<in> {RoleCarrier, RoleDispatcher, RoleCustoms, RoleLock, RoleAuditor}"

definition NewSession ::
    "User \<Rightarrow> Time \<Rightarrow> Duration \<Rightarrow> string result \<Rightarrow> string result \<Rightarrow> (Session \<times> string) result" where
  "NewSession user now ttl token_bytes id_bytes =
    (if u_ID user = [] \<or> u_TenantID user = [] \<or> u_Disabled user \<or> \<not> validRole (u_Role user) \<or> ttl \<le> 0
     then Inl (Sentinel ErrForbidden)
     else bindR token_bytes (\<lambda>bytes. bindR id_bytes (\<lambda>idBytes.
       let token = hex_encode bytes
       in Inr (\<lparr>s_ID = hex_encode idBytes, s_UserID = u_ID user, s_TenantID = u_TenantID user,
           s_Role = u_Role user, s_TokenHash = TokenHash token, s_ExpiresAt = now + ttl,
           s_RevokedAt = None, s_CreatedAt = now\<rparr>, token))))"

definition Authenticate :: "Session \<Rightarrow> User \<Rightarrow> string \<Rightarrow> Time \<Rightarrow> unit result" where
  "Authenticate session user token now =
    (if s_UserID session \<noteq> u_ID user \<or> s_TenantID session \<noteq> u_TenantID user \<or> u_Disabled user \<or>
        s_RevokedAt session \<noteq> None
     then Inl (Sentinel ErrForbidden)
     else if \<not> now < s_ExpiresAt session then Inl (Sentinel ErrExpired)
     else if s_TokenHash session \<noteq> TokenHash (trim_space token) then Inl (Sentinel ErrForbidden)
     else Inr ())"

definition Revoke :: "Session \<Rightarrow> Time \<Rightarrow> Session" where
  "Revoke session now = (if s_RevokedAt session = None then session\<lparr>s_RevokedAt := Some now\<rparr> else session)"

section \<open>Permissions\<close>

type_synonym Permission = string

abbreviation PermissionVoyageDeclare :: Permission where "PermissionVoyageDeclare \<equiv> ''voyage.declare''"
abbreviation PermissionVoyageRead :: Permission where "PermissionVoyageRead \<equiv> ''voyage.read''"
abbreviation PermissionInspectionManage :: Permission where "PermissionInspectionManage \<equiv> ''inspection.manage''"
abbreviation PermissionPassageReserve :: Permission where "PermissionPassageReserve \<equiv> ''passage.reserve''"
abbreviation PermissionPassageOperate :: Permission where "PermissionPassageOperate \<equiv> ''passage.operate''"
abbreviation PermissionAuditRead :: Permission where "PermissionAuditRead \<equiv> ''audit.read''"
abbreviation PermissionUserManage :: Permission where "PermissionUserManage \<equiv> ''user.manage''"

definition rolePermissions :: "Role \<Rightarrow> Permission list option" where
  "rolePermissions = map_of
    [(RoleCarrier, [PermissionVoyageDeclare, PermissionVoyageRead]),
     (RoleDispatcher, [PermissionVoyageDeclare, PermissionVoyageRead, PermissionPassageReserve]),
     (RoleCustoms, [PermissionVoyageRead, PermissionInspectionManage]),
     (RoleLock, [PermissionVoyageRead, PermissionPassageOperate]),
     (RoleAuditor, [PermissionVoyageRead, PermissionAuditRead])]"

definition Authorize :: "User \<Rightarrow> string \<Rightarrow> Permission \<Rightarrow> unit result" where
  "Authorize user tenantID permission =
    (if u_Disabled user \<or> u_ID user = [] \<or> u_TenantID user = [] then Inl (Sentinel ErrForbidden)
     else if trim_space tenantID = [] \<or> u_TenantID user \<noteq> tenantID
     then Inl (errorf ErrForbidden ''tenant boundary'')
     else case rolePermissions (u_Role user) of
       None \<Rightarrow> Inl (errorf ErrForbidden ''unknown role'')
     | Some permissions \<Rightarrow>
         refuse_if (permission \<notin> set permissions) (errorf ErrForbidden (''permission '' @ permission)))"

definition Permissions :: "Role \<Rightarrow> Permission list" where
  "Permissions role = sort_strings (case rolePermissions role of None \<Rightarrow> [] | Some ps \<Rightarrow> ps)"

definition ParseRole :: "string \<Rightarrow> Role result" where
  "ParseRole value =
    (let role = to_lower (trim_space value)
     in if \<not> validRole role then Inl (errorf ErrInvalid ''role'') else Inr role)"

definition CanAssume :: "Role \<Rightarrow> Role \<Rightarrow> bool" where
  "CanAssume actor requested =
    (if actor = requested then True
     else if actor \<noteq> RoleAuditor then False
     else requested \<in> {RoleCarrier, RoleDispatcher, RoleCustoms, RoleLock})"

section \<open>Limits on sessions\<close>

record SessionPolicy =
  p_TTL :: Duration
  p_AbsoluteLifetime :: Duration
  p_MaximumActive :: int
  p_RefreshBeforeExpiry :: Duration

definition session_policy_Validate :: "SessionPolicy \<Rightarrow> unit result" where
  "session_policy_Validate policy =
    (if p_TTL policy < 5 * Minute \<or> 24 * Hour < p_TTL policy then Inl (errorf ErrInvalid ''session TTL'')
     else if p_AbsoluteLifetime policy < p_TTL policy \<or> 30 * 24 * Hour < p_AbsoluteLifetime policy
     then Inl (errorf ErrInvalid ''absolute session lifetime'')
     else if p_MaximumActive policy < 1 \<or> 20 < p_MaximumActive policy
     then Inl (errorf ErrInvalid ''active session limit'')
     else if p_RefreshBeforeExpiry policy \<le> 0 \<or> p_TTL policy \<le> p_RefreshBeforeExpiry policy
     then Inl (errorf ErrInvalid ''refresh window'')
     else Inr ())"

definition DefaultSessionPolicy :: SessionPolicy where
  "DefaultSessionPolicy = \<lparr>p_TTL = 8 * Hour, p_AbsoluteLifetime = 7 * 24 * Hour, p_MaximumActive = 5,
    p_RefreshBeforeExpiry = 30 * Minute\<rparr>"

definition session_active :: "Time \<Rightarrow> Session \<Rightarrow> bool" where
  "session_active now s \<longleftrightarrow> s_RevokedAt s = None \<and> now < s_ExpiresAt s"

definition SessionsToRevoke :: "Session list \<Rightarrow> SessionPolicy \<Rightarrow> Time \<Rightarrow> Session list result" where
  "SessionsToRevoke sessions policy now =
    bindR (session_policy_Validate policy) (\<lambda>_.
      let active = filter (session_active now) sessions
      in if int (length active) < p_MaximumActive policy then Inr []
         else let ordered = sort_slice (lex2 s_CreatedAt s_ID) active;
                  count = int (length active) - p_MaximumActive policy + 1
              in Inr (take (nat count) ordered))"

definition ShouldRefresh :: "Session \<Rightarrow> SessionPolicy \<Rightarrow> Time \<Rightarrow> bool" where
  "ShouldRefresh session policy now \<longleftrightarrow>
    session_policy_Validate policy = Inr () \<and> s_RevokedAt session = None \<and> now < s_ExpiresAt session \<and>
    \<not> p_AbsoluteLifetime policy \<le> time_sub now (s_CreatedAt session) \<and>
    time_sub (s_ExpiresAt session) now \<le> p_RefreshBeforeExpiry policy"

definition RefreshedExpiry :: "Session \<Rightarrow> SessionPolicy \<Rightarrow> Time \<Rightarrow> Time result" where
  "RefreshedExpiry session policy now =
    (if \<not> ShouldRefresh session policy now then Inl (errorf ErrState ''session is not refreshable'')
     else let candidate = now + p_TTL policy;
              absolute = s_CreatedAt session + p_AbsoluteLifetime policy
          in Inr (if absolute < candidate then absolute else candidate))"

section \<open>Lemmas\<close>

lemma rolePermissions_simps [simp]:
  "rolePermissions RoleCarrier = Some [PermissionVoyageDeclare, PermissionVoyageRead]"
  "rolePermissions RoleDispatcher = Some [PermissionVoyageDeclare, PermissionVoyageRead, PermissionPassageReserve]"
  "rolePermissions RoleCustoms = Some [PermissionVoyageRead, PermissionInspectionManage]"
  "rolePermissions RoleLock = Some [PermissionVoyageRead, PermissionPassageOperate]"
  "rolePermissions RoleAuditor = Some [PermissionVoyageRead, PermissionAuditRead]"
  by (simp_all add: rolePermissions_def)

lemma rolePermissions_Some:
  "rolePermissions role = Some ps \<longleftrightarrow>
    (role, ps) \<in> {(RoleCarrier, [PermissionVoyageDeclare, PermissionVoyageRead]),
      (RoleDispatcher, [PermissionVoyageDeclare, PermissionVoyageRead, PermissionPassageReserve]),
      (RoleCustoms, [PermissionVoyageRead, PermissionInspectionManage]),
      (RoleLock, [PermissionVoyageRead, PermissionPassageOperate]),
      (RoleAuditor, [PermissionVoyageRead, PermissionAuditRead])}"
  by (subst rolePermissions_def, subst map_of_eq_Some_iff) simp_all

lemma Authorize_Inr_iff:
  "Authorize user tenant p = Inr () \<longleftrightarrow>
    \<not> u_Disabled user \<and> u_ID user \<noteq> [] \<and> u_TenantID user = tenant \<and> trim_space tenant \<noteq> [] \<and>
    (\<exists>ps. rolePermissions (u_Role user) = Some ps \<and> p \<in> set ps)"
  by (auto simp: Authorize_def split: option.splits if_splits)

lemma hex_encode_not_space: "c \<in> set (hex_encode s) \<Longrightarrow> \<not> is_space c"
proof -
  have "list_all (\<lambda>c. \<not> is_space c) ''0123456789abcdef''" by code_simp
  then have all: "\<forall>c\<in>set ''0123456789abcdef''. \<not> is_space c" unfolding list_all_iff .
  have "\<not> is_space (hex_digit n)" if "n < 16" for n
  proof (rule bspec [OF all])
    show "hex_digit n \<in> set ''0123456789abcdef''"
      unfolding hex_digit_def by (rule nth_mem) (use that in simp)
  qed
  then show "c \<in> set (hex_encode s) \<Longrightarrow> \<not> is_space c"
    by (auto simp: hex_encode_def hex_byte_def less_mult_imp_div_less)
qed

lemma trim_hex_encode [simp]: "trim_space (hex_encode s) = hex_encode s"
  by (rule trim_space_self) (rule hex_encode_not_space)

section \<open>Properties\<close>

definition example_user :: User where
  "example_user = \<lparr>u_ID = ''user-1'', u_TenantID = ''panama-east'', u_Email = ''ops@example.test'',
    u_PasswordHash = [], u_Role = RoleDispatcher, u_Disabled = False, u_Version = 1\<rparr>"



text \<open>
  A session opens exactly for its own token. The session that NewSession makes is accepted, for
  the same enabled user, with its token (spaces around it ignored) from the moment it is made until
  its expiry; from the expiry on it is refused as expired; another token is refused as forbidden, or
  is a SHA-256 collision with it; and once revoked it is refused forever, whatever the token.
\<close>

theorem session_authentication:
  assumes "NewSession user now ttl token_bytes id_bytes = Inr (session, token)"
  shows "(t < now + ttl \<longrightarrow> Authenticate session user (''  '' @ token @ '' '') t = Inr ()) \<and>
    (now + ttl \<le> t \<longrightarrow> Authenticate session user guess t = Inl (Sentinel ErrExpired)) \<and>
    (t < now + ttl \<longrightarrow> trim_space guess \<noteq> token \<longrightarrow> \<not> sha256_collision (trim_space guess) token \<longrightarrow> Authenticate session user guess t = Inl (Sentinel ErrForbidden)) \<and>
    Authenticate (Revoke session r) user guess t = Inl (Sentinel ErrForbidden)"
proof (rule conj4I; (intro allI impI)?)
  from assms obtain bytes where token: "token = hex_encode bytes"
    and session: "s_UserID session = u_ID user" "s_TenantID session = u_TenantID user" "s_RevokedAt session = None"
      "s_ExpiresAt session = now + ttl" "s_TokenHash session = TokenHash token" and user: "\<not> u_Disabled user"
    by (auto simp: NewSession_def bindR_Inr_iff Let_def split: if_splits)
  have "trim_right (hex_encode bytes @ '' '') = trim_right (hex_encode bytes)"
    by (simp add: trim_right_def is_space_def)
  moreover have "dropWhile is_space (hex_encode bytes @ '' '') = hex_encode bytes @ '' '' \<or> hex_encode bytes = []"
    using hex_encode_not_space [of "hd (hex_encode bytes)" bytes] by (cases "hex_encode bytes") simp_all
  moreover have "trim_right (hex_encode bytes) = hex_encode bytes"
    using hex_encode_not_space by (intro trim_right_eq_self) (metis last_in_set)
  ultimately have trim: "trim_space (''  '' @ token @ '' '') = token"
    unfolding token by (auto simp: trim_space_def is_space_def)
  show "Authenticate session user (''  '' @ token @ '' '') t = Inr ()" if "t < now + ttl"
    using that session user trim by (simp add: Authenticate_def)
  show "Authenticate session user guess t = Inl (Sentinel ErrExpired)" if "now + ttl \<le> t"
    using that session user by (simp add: Authenticate_def)
  show "Authenticate session user guess t = Inl (Sentinel ErrForbidden)"
    if "t < now + ttl" "trim_space guess \<noteq> token" "\<not> sha256_collision (trim_space guess) token"
    using that session user sha256_hex_eqD [of token "trim_space guess"]
    by (auto simp: Authenticate_def TokenHash_def sha256_collision_def)
  show "Authenticate (Revoke session r) user guess t = Inl (Sentinel ErrForbidden)"
    using session by (simp add: Authenticate_def Revoke_def)
qed

theorem session_authentication_witness:
  "\<exists>session token. NewSession example_user 100 Hour (Inr ''0123456789abcdef0123456789abcdef'') (Inr ''0123456789abcdef'') =
      Inr (session, token) \<and> Authenticate session example_user (''  '' @ token @ '' '') 101 = Inr () \<and>
    Authenticate (Revoke session 105) example_user token 106 = Inl (Sentinel ErrForbidden)"
proof -
  obtain session token where new: "NewSession example_user 100 Hour (Inr ''0123456789abcdef0123456789abcdef'')
      (Inr ''0123456789abcdef'') = Inr (session, token)"
    by (simp add: NewSession_def example_user_def validRole_def Let_def)
  from session_authentication [OF new] new show ?thesis by simp
qed

text \<open>
  The limit on sessions: revoking the sessions that SessionsToRevoke returns leaves room for one
  more below the maximum, it returns nothing while there is room, only active sessions, and never a
  session while an older active one is kept.
\<close>

theorem SessionsToRevoke_correct:
  assumes "SessionsToRevoke sessions policy now = Inr out"
  shows "\<exists>kept. mset (filter (session_active now) sessions) = mset out + mset kept \<and>
      int (length kept) < p_MaximumActive policy \<and>
      (\<forall>s\<in>set out. \<forall>k\<in>set kept. (s_CreatedAt s, s_ID s) = (s_CreatedAt k, s_ID k) \<or> lex2 s_CreatedAt s_ID s k) \<and>
      (int (length (filter (session_active now) sessions)) < p_MaximumActive policy \<longrightarrow> out = []) \<and>
      (out \<noteq> [] \<longrightarrow> int (length kept) = p_MaximumActive policy - 1)"
proof -
  let ?active = "filter (session_active now) sessions"
  let ?ordered = "sort_slice (lex2 s_CreatedAt s_ID) ?active"
  let ?n = "nat (int (length ?active) - p_MaximumActive policy + 1)"
  from assms have valid: "1 \<le> p_MaximumActive policy"
    by (auto simp: SessionsToRevoke_def session_policy_Validate_def split: if_splits)
  show ?thesis
  proof (cases "int (length ?active) < p_MaximumActive policy")
    case True
    with assms have "out = []" by (auto simp: SessionsToRevoke_def bindR_Inr_iff)
    with True show ?thesis by (intro exI [of _ ?active]) simp
  next
    case False
    with assms have out: "out = take ?n ?ordered" by (auto simp: SessionsToRevoke_def bindR_Inr_iff Let_def)
    have "ordered_by (lex2 s_CreatedAt s_ID) (take ?n ?ordered @ drop ?n ?ordered)"
      by (simp add: lex2.ordered_sort_slice)
    then have order: "\<forall>s\<in>set (take ?n ?ordered). \<forall>k\<in>set (drop ?n ?ordered). \<not> lex2 s_CreatedAt s_ID k s"
      unfolding sorted_wrt_append by blast
    have "(s_CreatedAt s, s_ID s) = (s_CreatedAt k, s_ID k) \<or> lex2 s_CreatedAt s_ID s k"
      if "\<not> lex2 s_CreatedAt s_ID k s" for s k
      using that by (auto simp: lex2_def split: if_splits)
    with order have "\<forall>s\<in>set (take ?n ?ordered). \<forall>k\<in>set (drop ?n ?ordered).
        (s_CreatedAt s, s_ID s) = (s_CreatedAt k, s_ID k) \<or> lex2 s_CreatedAt s_ID s k" by blast
    moreover have "mset ?active = mset (take ?n ?ordered) + mset (drop ?n ?ordered)"
      by (metis append_take_drop_id mset_append mset_sort_slice)
    moreover have "int (length (drop ?n ?ordered)) = p_MaximumActive policy - 1"
      using False valid by simp
    ultimately show ?thesis
      unfolding out using False by (intro exI [of _ "drop ?n ?ordered"] conjI) linarith+
  qed
qed

definition example_session :: "string \<Rightarrow> Time \<Rightarrow> Session" where
  "example_session sid created = \<lparr>s_ID = sid, s_UserID = ''user-1'', s_TenantID = ''panama-east'', s_Role = RoleDispatcher,
    s_TokenHash = [], s_ExpiresAt = created + 8 * Hour, s_RevokedAt = None, s_CreatedAt = created\<rparr>"

theorem SessionsToRevoke_correct_witness:
  "\<exists>kept. mset (filter (session_active 10) [example_session ''b'' 5, example_session ''a'' 3]) =
      mset [example_session ''a'' 3] + mset kept \<and> int (length kept) < 2"
proof -
  have "SessionsToRevoke [example_session ''b'' 5, example_session ''a'' 3] (DefaultSessionPolicy\<lparr>p_MaximumActive := 2\<rparr>) 10 =
      Inr [example_session ''a'' 3]" by code_simp
  note correct = SessionsToRevoke_correct [OF this]
  have "p_MaximumActive (DefaultSessionPolicy\<lparr>p_MaximumActive := 2\<rparr>) = 2" by simp
  from correct [unfolded this] show ?thesis by blast
qed

text \<open>
  Refreshing moves the expiry of an active session forward, by less than a full lifetime from
  now, and never past the absolute lifetime counted from its creation, so no chain of refreshes keeps
  a session alive for longer than that.
\<close>

theorem RefreshedExpiry_correct:
  assumes "RefreshedExpiry session policy now = Inr t"
  shows "now < t \<and>
    t \<le> now + p_TTL policy \<and>
    t \<le> s_CreatedAt session + p_AbsoluteLifetime policy \<and>
    (s_ExpiresAt session \<le> s_CreatedAt session + p_AbsoluteLifetime policy \<longrightarrow> s_ExpiresAt session \<le> t) \<and>
    (s_RevokedAt session = None \<and> now < s_ExpiresAt session)"
proof (rule conj5I; (intro allI impI)?)
  from assms have refresh: "ShouldRefresh session policy now"
    and t: "t = min (now + p_TTL policy) (s_CreatedAt session + p_AbsoluteLifetime policy)"
    by (auto simp: RefreshedExpiry_def Let_def min_def split: if_splits)
  then have policy: "5 * Minute \<le> p_TTL policy" "p_AbsoluteLifetime policy \<le> 30 * 24 * Hour"
      "p_TTL policy \<le> p_AbsoluteLifetime policy" "p_RefreshBeforeExpiry policy < p_TTL policy" "p_TTL policy \<le> 24 * Hour"
    by (auto simp: ShouldRefresh_def session_policy_Validate_def not_less split: if_splits)
  from refresh policy have young: "now - s_CreatedAt session < p_AbsoluteLifetime policy"
    by (auto simp: ShouldRefresh_def max_int64_def min_int64_def)
  have "\<not> p_TTL policy \<le> time_sub (s_ExpiresAt session) now"
    using refresh policy by (auto simp: ShouldRefresh_def)
  then have late: "s_ExpiresAt session - now < p_TTL policy"
    using policy by (simp add: max_int64_def min_int64_def)
  show "now < t" using t young policy by simp
  show "t \<le> now + p_TTL policy" and "t \<le> s_CreatedAt session + p_AbsoluteLifetime policy" using t by simp_all
  show "s_ExpiresAt session \<le> t" if "s_ExpiresAt session \<le> s_CreatedAt session + p_AbsoluteLifetime policy"
    using t that late by simp
  show "s_RevokedAt session = None \<and> now < s_ExpiresAt session" using refresh by (simp add: ShouldRefresh_def)
qed

theorem RefreshedExpiry_correct_witness:
  "8 * Hour - 1 < (16 * Hour - 1 :: Time) \<and> s_ExpiresAt (example_session ''a'' 0) \<le> 16 * Hour - 1"
proof -
  have "RefreshedExpiry (example_session ''a'' 0) DefaultSessionPolicy (8 * Hour - 1) = Inr (16 * Hour - 1)" by code_simp
  from RefreshedExpiry_correct [OF this] show ?thesis
    by (simp add: DefaultSessionPolicy_def example_session_def)
qed

end
