(* ===== verification/Store.thy ===== *)
theory Store
  imports Audit_Chain Voyage Movement Auth
begin

text \<open>
  \<^verbatim>\<open>internal/store/workflow.go\<close> and \<^verbatim>\<open>passage_operations.go\<close>: the
  transactions of the workflow on the tables of \<^verbatim>\<open>internal/store/migrations\<close>.

  A table is the list of its rows in order of insertion. A transaction is a function from the database
  to an error or to a value and the next database: \<^verbatim>\<open>WithTx\<close> runs it at the serializable
  level and rolls it back on an error, so an error leaves the database as it was; failures of the
  connection, which do the same, are not steps of the model. Primary keys, foreign keys, unique
  constraints and the exclusion constraint of the migrations are checked by the \<open>insert_\<close> functions;
  the error the driver returns for a violated constraint is \<open>db_error\<close> of its name (its text is not
  modelled; it wraps none of the sentinels).

  \<open>stored\<close> is the instant that the column type \<^verbatim>\<open>timestamptz\<close> keeps of an instant the
  driver is given. It is an argument of every transaction: PostgreSQL keeps microseconds, Go counts
  nanoseconds, and the difference matters to the audit chain.
\<close>

section \<open>Tables\<close>

record Job =
  j_ID :: string
  j_TenantID :: string
  j_Topic :: string
  j_Payload :: string
  j_Status :: string
  j_Attempts :: int
  j_AvailableAt :: Time
  j_LockedAt :: "Time option"
  j_LockedBy :: string
  j_LastError :: string
  j_CreatedAt :: Time
  j_UpdatedAt :: Time

record DB =
  t_voyages :: "Voyage list"
  t_manifests :: "Manifest list"
  t_inspections :: "Inspection list"
  t_reservations :: "Reservation list"
  t_movements :: "Movement list"
  t_audit :: "Event list"
  t_jobs :: "Job list"

definition empty_db :: DB where
  "empty_db = \<lparr>t_voyages = [], t_manifests = [], t_inspections = [], t_reservations = [],
    t_movements = [], t_audit = [], t_jobs = []\<rparr>"

definition db_error :: "string \<Rightarrow> error" where
  "db_error constraint = Plain (''violates constraint '' @ constraint)"

definition mapConstraint :: "error \<Rightarrow> error" where
  "mapConstraint e = errorf ErrConflict (error_text e)"

type_synonym 'a tx = "DB \<Rightarrow> ('a \<times> DB) result"

section \<open>Rows in and out\<close>

definition stored_voyage :: "(Time \<Rightarrow> Time) \<Rightarrow> Voyage \<Rightarrow> Voyage" where
  "stored_voyage stored v = v\<lparr>v_ETA := stored (v_ETA v), v_DeclaredAt := map_option stored (v_DeclaredAt v),
    v_ClearedAt := map_option stored (v_ClearedAt v)\<rparr>"

definition stored_inspection :: "(Time \<Rightarrow> Time) \<Rightarrow> Inspection \<Rightarrow> Inspection" where
  "stored_inspection stored i = i\<lparr>i_OpenedAt := stored (i_OpenedAt i), i_ClosedAt := map_option stored (i_ClosedAt i)\<rparr>"

definition stored_reservation :: "(Time \<Rightarrow> Time) \<Rightarrow> Reservation \<Rightarrow> Reservation" where
  "stored_reservation stored r = r\<lparr>r_StartsAt := stored (r_StartsAt r), r_EndsAt := stored (r_EndsAt r)\<rparr>"

definition insert_voyage :: "(Time \<Rightarrow> Time) \<Rightarrow> Voyage \<Rightarrow> DB \<Rightarrow> DB result" where
  "insert_voyage stored v db =
    (if v_ID v \<in> v_ID ` set (t_voyages db) then Inl (db_error ''voyages_pkey'')
     else Inr (db\<lparr>t_voyages := t_voyages db @ [stored_voyage stored v]\<rparr>))"

definition insert_manifest :: "Manifest \<Rightarrow> DB \<Rightarrow> DB result" where
  "insert_manifest m db =
    (if m_VoyageID m \<in> m_VoyageID ` set (t_manifests db) then Inl (db_error ''manifests_pkey'')
     else if m_VoyageID m \<notin> v_ID ` set (t_voyages db) then Inl (db_error ''manifests_voyage_id_fkey'')
     else Inr (db\<lparr>t_manifests := t_manifests db @ [m]\<rparr>))"

definition insert_inspection :: "(Time \<Rightarrow> Time) \<Rightarrow> Inspection \<Rightarrow> DB \<Rightarrow> DB result" where
  "insert_inspection stored i db =
    (if i_ID i \<in> i_ID ` set (t_inspections db) then Inl (db_error ''inspections_pkey'')
     else if i_VoyageID i \<notin> v_ID ` set (t_voyages db) then Inl (db_error ''inspections_voyage_id_fkey'')
     else Inr (db\<lparr>t_inspections := t_inspections db @ [stored_inspection stored i]\<rparr>))"

text \<open>
  The exclusion constraint: equal chambers and overlapping half-open ranges, among rows that are not
  cancelled. An empty range overlaps nothing and one that ends before it starts is an error.
\<close>

definition excluded :: "Reservation \<Rightarrow> Reservation \<Rightarrow> bool" where
  "excluded r q \<longleftrightarrow> r_ChamberID r = r_ChamberID q \<and> r_Status r \<noteq> SlotCancelled \<and> r_Status q \<noteq> SlotCancelled \<and>
    r_StartsAt r < r_EndsAt r \<and> r_StartsAt q < r_EndsAt q \<and>
    overlaps (r_StartsAt r) (r_EndsAt r) (r_StartsAt q) (r_EndsAt q)"

definition insert_reservation :: "(Time \<Rightarrow> Time) \<Rightarrow> Reservation \<Rightarrow> DB \<Rightarrow> DB result" where
  "insert_reservation stored r db =
    (let row = stored_reservation stored r
     in if r_ID row \<in> r_ID ` set (t_reservations db) then Inl (db_error ''passage_reservations_pkey'')
        else if r_VoyageID row \<notin> v_ID ` set (t_voyages db) then Inl (db_error ''passage_reservations_voyage_id_fkey'')
        else if r_Status row \<noteq> SlotCancelled \<and> r_EndsAt row < r_StartsAt row then Inl (db_error ''tstzrange'')
        else if list_ex (excluded row) (t_reservations db) then Inl (db_error ''passage_reservations_excl'')
        else Inr (db\<lparr>t_reservations := t_reservations db @ [row]\<rparr>))"

definition insert_movement :: "(Time \<Rightarrow> Time) \<Rightarrow> Movement \<Rightarrow> DB \<Rightarrow> DB result" where
  "insert_movement stored m db =
    (if mv_Status m \<notin> {SlotEntered, SlotExited, SlotCancelled} then Inl (db_error ''passage_movements_status_check'')
     else if list_ex (\<lambda>q. mv_ReservationID q = mv_ReservationID m \<and> mv_Status q = mv_Status m) (t_movements db)
     then Inl (db_error ''passage_movements_reservation_id_status_key'')
     else if mv_ReservationID m \<notin> r_ID ` set (t_reservations db)
     then Inl (db_error ''passage_movements_reservation_id_fkey'')
     else Inr (db\<lparr>t_movements := t_movements db @ [m\<lparr>mv_OccurredAt := stored (mv_OccurredAt m)\<rparr>]\<rparr>))"

definition insert_audit :: "(Time \<Rightarrow> Time) \<Rightarrow> Event \<Rightarrow> DB \<Rightarrow> DB result" where
  "insert_audit stored e db =
    (if e_ID e \<in> e_ID ` set (t_audit db) then Inl (db_error ''audit_events_pkey'')
     else if e_Hash e \<in> e_Hash ` set (t_audit db) then Inl (db_error ''audit_events_hash_key'')
     else if list_ex (\<lambda>f. e_TenantID f = e_TenantID e \<and> e_Sequence f = e_Sequence e) (t_audit db)
     then Inl (db_error ''audit_events_tenant_id_sequence_key'')
     else Inr (db\<lparr>t_audit := t_audit db @ [e\<lparr>e_OccurredAt := stored (e_OccurredAt e)\<rparr>]\<rparr>))"

definition insert_job :: "(Time \<Rightarrow> Time) \<Rightarrow> string \<Rightarrow> string \<Rightarrow> string \<Rightarrow> string \<Rightarrow> Time \<Rightarrow> DB \<Rightarrow> DB result" where
  "insert_job stored jid tenant topic payload t db =
    (if jid \<in> j_ID ` set (t_jobs db) then Inl (db_error ''outbox_jobs_pkey'')
     else Inr (db\<lparr>t_jobs := t_jobs db @ [\<lparr>j_ID = jid, j_TenantID = tenant, j_Topic = topic, j_Payload = payload,
       j_Status = ''pending'', j_Attempts = 0, j_AvailableAt = stored t, j_LockedAt = None, j_LockedBy = [],
       j_LastError = [], j_CreatedAt = stored t, j_UpdatedAt = stored t\<rparr>]\<rparr>))"

definition map_error :: "(error \<Rightarrow> error) \<Rightarrow> 'a result \<Rightarrow> 'a result" where
  "map_error f r = (case r of Inl e \<Rightarrow> Inl (f e) | Inr x \<Rightarrow> Inr x)"

definition getVoyageTx :: "string \<Rightarrow> string \<Rightarrow> DB \<Rightarrow> Voyage result" where
  "getVoyageTx tenant vid db =
    (case List.find (\<lambda>v. v_TenantID v = tenant \<and> v_ID v = vid) (t_voyages db) of
       None \<Rightarrow> Inl (Sentinel ErrNotFound)
     | Some v \<Rightarrow> Inr v)"

text \<open>The conditional update; its row count is the number of rows with this key and version.\<close>

definition saveVoyageTx :: "(Time \<Rightarrow> Time) \<Rightarrow> Voyage \<Rightarrow> int \<Rightarrow> DB \<Rightarrow> DB result" where
  "saveVoyageTx stored v expected db =
    (let hit = (\<lambda>u. v_ID u = v_ID v \<and> v_Version u = expected)
     in if length (filter hit (t_voyages db)) \<noteq> 1 then Inl (Sentinel ErrConflict)
        else Inr (db\<lparr>t_voyages := map (\<lambda>u. if hit u then u\<lparr>v_Status := v_Status v, v_ManifestHash := v_ManifestHash v,
          v_DeclaredAt := map_option stored (v_DeclaredAt v), v_ClearedAt := map_option stored (v_ClearedAt v),
          v_Version := v_Version v\<rparr> else u) (t_voyages db)\<rparr>))"

definition getInspectionTx :: "string \<Rightarrow> DB \<Rightarrow> Inspection result" where
  "getInspectionTx iid db =
    (case List.find (\<lambda>i. i_ID i = iid) (t_inspections db) of
       None \<Rightarrow> Inl (Sentinel ErrNotFound)
     | Some i \<Rightarrow> Inr i)"

definition update_inspection :: "(Time \<Rightarrow> Time) \<Rightarrow> Inspection \<Rightarrow> DB \<Rightarrow> DB" where
  "update_inspection stored i db = db\<lparr>t_inspections :=
    map (\<lambda>j. if i_ID j = i_ID i then j\<lparr>i_Status := i_Status i, i_Finding := i_Finding i,
      i_ClosedAt := map_option stored (i_ClosedAt i), i_Version := i_Version i\<rparr> else j) (t_inspections db)\<rparr>"

definition listInspectionsTx :: "string \<Rightarrow> DB \<Rightarrow> Inspection list" where
  "listInspectionsTx vid db =
    sort_slice (lex2 i_OpenedAt i_ID) (filter (\<lambda>i. i_VoyageID i = vid) (t_inspections db))"

definition listReservationsTx :: "(Time \<Rightarrow> Time) \<Rightarrow> string \<Rightarrow> Time \<Rightarrow> Time \<Rightarrow> DB \<Rightarrow> Reservation list" where
  "listReservationsTx stored chamber starts ends db =
    filter (\<lambda>r. r_ChamberID r = chamber \<and> r_Status r \<noteq> SlotCancelled \<and> r_StartsAt r < stored ends \<and>
      stored starts < r_EndsAt r) (t_reservations db)"

definition getReservationTx :: "string \<Rightarrow> string \<Rightarrow> DB \<Rightarrow> Reservation result" where
  "getReservationTx tenant rid db =
    (case List.find (\<lambda>r. r_TenantID r = tenant \<and> r_ID r = rid) (t_reservations db) of
       None \<Rightarrow> Inl (Sentinel ErrNotFound)
     | Some r \<Rightarrow> Inr r)"

text \<open>The predecessor: the event of the tenant with the highest sequence number, or the zero event.\<close>

definition last_event :: "string \<Rightarrow> DB \<Rightarrow> Event" where
  "last_event tenant db =
    (case sort_slice (by_key e_Sequence) (filter (\<lambda>e. e_TenantID e = tenant) (t_audit db)) of
       [] \<Rightarrow> zero_event
     | e # es \<Rightarrow> last (e # es))"

definition appendAuditTx :: "(Time \<Rightarrow> Time) \<Rightarrow> Event \<Rightarrow> DB \<Rightarrow> DB result" where
  "appendAuditTx stored candidate db =
    bindR (Append (last_event (e_TenantID candidate) db) candidate) (\<lambda>event. insert_audit stored event db)"

definition audit_entry ::
    "string \<Rightarrow> string \<Rightarrow> string \<Rightarrow> string \<Rightarrow> string \<Rightarrow> string \<Rightarrow> (string \<times> string) list \<Rightarrow> Time \<Rightarrow> Event" where
  "audit_entry eid tenant actor action object_type object_id details t =
    zero_event\<lparr>e_ID := eid, e_TenantID := tenant, e_ActorID := actor, e_Action := action,
      e_ObjectType := object_type, e_ObjectID := object_id, e_Outcome := ''ok'', e_Details := details,
      e_OccurredAt := t\<rparr>"

definition status_payload :: "Voyage \<Rightarrow> string" where
  "status_payload v = json_encode (JObj [(''status'', JStr (v_Status v)), (''voyage_id'', JStr (v_ID v))])"

section \<open>Transactions\<close>

record DeclareRequest =
  dr_ID :: string
  dr_VesselIMO :: string
  dr_VesselName :: string
  dr_OriginPort :: string
  dr_DestinationPort :: string
  dr_ETA :: Time
  dr_Items :: "CargoItem list"
  dr_At :: Time

definition store_DeclareVoyage :: "(Time \<Rightarrow> Time) \<Rightarrow> User \<Rightarrow> DeclareRequest \<Rightarrow> Voyage tx" where
  "store_DeclareVoyage stored actor request db =
    (if u_Role actor \<noteq> RoleCarrier \<and> u_Role actor \<noteq> RoleDispatcher then Inl (Sentinel ErrForbidden)
     else bindR (NewVoyage (dr_ID request) (u_TenantID actor) (dr_VesselIMO request) (dr_VesselName request)
         (dr_OriginPort request) (dr_DestinationPort request) (dr_ETA request)) (\<lambda>draft.
       bindR (BuildManifest (v_ID draft) (dr_Items request)) (\<lambda>manifest.
       bindR (Declare draft manifest (dr_At request) (v_Version draft)) (\<lambda>voyage.
       bindR (map_error mapConstraint (insert_voyage stored voyage db)) (\<lambda>db1.
       bindR (insert_manifest manifest db1) (\<lambda>db2.
       bindR (appendAuditTx stored (audit_entry (''audit-declare-'' @ v_ID voyage) (v_TenantID voyage) (u_ID actor)
         ''voyage.declared'' ''voyage'' (v_ID voyage) [(''manifest_hash'', m_Hash manifest)] (dr_At request)) db2) (\<lambda>db3.
       bindR (insert_job stored (''outbox-declare-'' @ v_ID voyage) (v_TenantID voyage) ''voyage.declared''
         (status_payload voyage) (dr_At request) db3) (\<lambda>db4.
       Inr (voyage, db4)))))))))"

definition store_OpenInspection ::
    "(Time \<Rightarrow> Time) \<Rightarrow> User \<Rightarrow> string \<Rightarrow> string \<Rightarrow> string \<Rightarrow> Time \<Rightarrow> (Inspection \<times> Voyage) tx" where
  "store_OpenInspection stored actor iid voyageID kind t db =
    (if u_Role actor \<noteq> RoleCustoms then Inl (Sentinel ErrForbidden)
     else bindR (getVoyageTx (u_TenantID actor) voyageID db) (\<lambda>voyage.
       bindR (OpenInspection iid voyage (u_ID actor) kind t) (\<lambda>(inspection, updated).
       bindR (map_error mapConstraint (insert_inspection stored inspection db)) (\<lambda>db1.
       bindR (saveVoyageTx stored updated (v_Version voyage) db1) (\<lambda>db2.
       bindR (appendAuditTx stored (audit_entry (''audit-inspection-open-'' @ iid) (u_TenantID actor) (u_ID actor)
         ''inspection.opened'' ''voyage'' voyageID [(''kind'', kind)] t) db2) (\<lambda>db3.
       Inr ((inspection, updated), db3)))))))"

definition PassInspectionAndRelease :: "(Time \<Rightarrow> Time) \<Rightarrow> User \<Rightarrow> string \<Rightarrow> string \<Rightarrow> Time \<Rightarrow> Voyage tx" where
  "PassInspectionAndRelease stored actor inspectionID finding t db =
    (if u_Role actor \<noteq> RoleCustoms then Inl (Sentinel ErrForbidden)
     else bindR (getInspectionTx inspectionID db) (\<lambda>inspection0.
       bindR (getVoyageTx (u_TenantID actor) (i_VoyageID inspection0) db) (\<lambda>voyage.
       bindR (CloseInspection inspection0 finding True t (i_Version inspection0)) (\<lambda>inspection.
       let db1 = update_inspection stored inspection db in
       bindR (Release voyage (listInspectionsTx (v_ID voyage) db1) t (v_Version voyage)) (\<lambda>released.
       bindR (saveVoyageTx stored released (v_Version voyage) db1) (\<lambda>db2.
       bindR (appendAuditTx stored (audit_entry (''audit-release-'' @ v_ID voyage) (u_TenantID actor) (u_ID actor)
         ''voyage.released'' ''voyage'' (v_ID voyage) [(''inspection'', i_ID inspection)] t) db2) (\<lambda>db3.
       bindR (insert_job stored (''outbox-release-'' @ v_ID voyage) (v_TenantID voyage) ''voyage.released''
         (status_payload released) t db3) (\<lambda>db4.
       Inr (released, db4)))))))))"

definition ReservePassage ::
    "(Time \<Rightarrow> Time) \<Rightarrow> User \<Rightarrow> string \<Rightarrow> string \<Rightarrow> Chamber \<Rightarrow> Time \<Rightarrow> Time \<Rightarrow> F64 \<Rightarrow> F64 \<Rightarrow> F64 \<Rightarrow> Time \<Rightarrow>
     Reservation tx" where
  "ReservePassage stored actor reservationID voyageID chamber starts ends len beam draft requestedAt db =
    (if u_Role actor \<noteq> RoleDispatcher then Inl (Sentinel ErrForbidden)
     else if requestedAt = 0 then Inl (Sentinel ErrInvalid)
     else bindR (getVoyageTx (u_TenantID actor) voyageID db) (\<lambda>voyage.
       if v_Status voyage \<noteq> VoyageCleared then Inl (Sentinel ErrState)
       else bindR (Reserve reservationID voyageID (u_TenantID actor) chamber starts ends len beam draft
           (listReservationsTx stored (ch_ID chamber) starts ends db)) (\<lambda>reserved0.
         bindR (Confirm reserved0 True (r_Version reserved0)) (\<lambda>reserved.
         bindR (map_error mapConstraint (insert_reservation stored reserved db)) (\<lambda>db1.
         bindR (Transition voyage VoyageScheduled starts) (\<lambda>scheduled.
         bindR (saveVoyageTx stored scheduled (v_Version voyage) db1) (\<lambda>db2.
         bindR (appendAuditTx stored (audit_entry (''audit-reserve-'' @ reservationID) (u_TenantID actor) (u_ID actor)
           ''passage.reserved'' ''voyage'' voyageID [(''chamber'', ch_ID chamber)] requestedAt) db2) (\<lambda>db3.
         Inr (reserved, db3)))))))))"

definition update_reservation :: "Reservation \<Rightarrow> int \<Rightarrow> DB \<Rightarrow> DB result" where
  "update_reservation r expected db =
    (let hit = (\<lambda>q. r_ID q = r_ID r \<and> r_Version q = expected)
     in if length (filter hit (t_reservations db)) \<noteq> 1 then Inl (Sentinel ErrConflict)
        else Inr (db\<lparr>t_reservations := map (\<lambda>q. if hit q then q\<lparr>r_Status := r_Status r, r_Version := r_Version r\<rparr>
          else q) (t_reservations db)\<rparr>))"

definition MovePassage ::
    "(Time \<Rightarrow> Time) \<Rightarrow> User \<Rightarrow> string \<Rightarrow> SlotStatus \<Rightarrow> Time \<Rightarrow> string \<Rightarrow> Reservation tx" where
  "MovePassage stored actor reservationID next_status occurredAt remark db =
    (if u_Role actor \<noteq> RoleLock then Inl (Sentinel ErrForbidden)
     else bindR (getReservationTx (u_TenantID actor) reservationID db) (\<lambda>reservation.
       bindR (BuildMovement reservation next_status occurredAt (u_ID actor) remark) (\<lambda>(movement, updated).
       bindR (update_reservation updated (r_Version reservation) db) (\<lambda>db1.
       bindR (insert_movement stored movement db1) (\<lambda>db2.
       bindR (appendAuditTx stored (audit_entry (''audit-passage-'' @ next_status @ ''-'' @ r_ID reservation)
         (u_TenantID actor) (u_ID actor) (''passage.'' @ next_status) ''passage_reservation'' (r_ID reservation)
         [(''note'', remark)] occurredAt) db2) (\<lambda>db3.
       Inr (updated, db3)))))))"

end
