(* ===== verification/Store_Inv.thy ===== *)
theory Store_Inv
  imports Store
begin

text \<open>
  What the transactions of the workflow keep true of the database. \<open>db_step\<close> is the step relation: one
  committed transaction, labelled with the user who makes it and the instant its audit event carries; \<open>reach stored P db\<close> are
  the databases that transactions whose instants satisfy \<open>P\<close> can produce from the empty one.

  \<open>keys_inv\<close>, \<open>voyages_inv\<close>, \<open>slots_inv\<close> and \<open>history_inv\<close> are the parts of the invariant; the
  lemmas named after a transaction and \<open>_effect\<close> say what it did when it committed, and the
  invariants are proved from those.
\<close>

section \<open>What a committed transaction did\<close>

lemma map_error_Inr [simp]: "map_error f r = Inr x \<longleftrightarrow> r = Inr x"
  by (cases r) (simp_all add: map_error_def)

lemma find_Some: "List.find P xs = Some x \<Longrightarrow> P x \<and> x \<in> set xs"
  by (induction xs) (auto split: if_splits)

lemma getVoyageTx_D: "getVoyageTx tenant vid db = Inr v \<Longrightarrow> v \<in> set (t_voyages db) \<and> v_TenantID v = tenant \<and> v_ID v = vid"
  by (auto simp: getVoyageTx_def dest!: find_Some split: option.splits)

lemma getInspectionTx_D: "getInspectionTx iid db = Inr i \<Longrightarrow> i \<in> set (t_inspections db) \<and> i_ID i = iid"
  by (auto simp: getInspectionTx_def dest!: find_Some split: option.splits)

lemma getReservationTx_D:
  "getReservationTx tenant rid db = Inr r \<Longrightarrow> r \<in> set (t_reservations db) \<and> r_TenantID r = tenant \<and> r_ID r = rid"
  by (auto simp: getReservationTx_def dest!: find_Some split: option.splits)

lemma appendAuditTx_D:
  "appendAuditTx stored c db = Inr db' \<Longrightarrow> \<exists>e. Append (last_event (e_TenantID c) db) c = Inr e \<and>
    e_ID c \<notin> e_ID ` set (t_audit db) \<and> db' = db\<lparr>t_audit := t_audit db @ [e\<lparr>e_OccurredAt := stored (e_OccurredAt e)\<rparr>]\<rparr>"
proof -
  assume "appendAuditTx stored c db = Inr db'"
  then obtain e where e: "Append (last_event (e_TenantID c) db) c = Inr e" and ins: "insert_audit stored e db = Inr db'"
    by (auto simp: appendAuditTx_def bindR_Inr_iff)
  then have "e_ID e \<notin> e_ID ` set (t_audit db)"
    and "db' = db\<lparr>t_audit := t_audit db @ [e\<lparr>e_OccurredAt := stored (e_OccurredAt e)\<rparr>]\<rparr>"
    by (auto simp: insert_audit_def split: if_splits)
  with e AppendD(4) [OF e] show ?thesis by (intro exI [of _ e]) simp
qed

text \<open>The event that a transaction appends for a candidate, as a relation of the two databases.\<close>

definition audited :: "(Time \<Rightarrow> Time) \<Rightarrow> Event \<Rightarrow> DB \<Rightarrow> DB \<Rightarrow> bool" where
  "audited stored c db db' \<longleftrightarrow> (\<exists>e. Append (last_event (e_TenantID c) db) c = Inr e \<and>
    t_audit db' = t_audit db @ [e\<lparr>e_OccurredAt := stored (e_OccurredAt e)\<rparr>])"

lemma appendAuditTx_audited:
  assumes "appendAuditTx stored c db1 = Inr db2" and "t_audit db1 = t_audit db"
  shows "audited stored c db db2" and "t_voyages db2 = t_voyages db1" and "t_manifests db2 = t_manifests db1"
    and "t_inspections db2 = t_inspections db1" and "t_reservations db2 = t_reservations db1"
    and "t_movements db2 = t_movements db1" and "t_jobs db2 = t_jobs db1"
proof -
  from appendAuditTx_D [OF assms(1)] obtain e where
    e: "Append (last_event (e_TenantID c) db1) c = Inr e"
    and db2: "db2 = db1\<lparr>t_audit := t_audit db1 @ [e\<lparr>e_OccurredAt := stored (e_OccurredAt e)\<rparr>]\<rparr>" by blast
  from assms(2) have "last_event t db1 = last_event t db" for t by (simp add: last_event_def)
  with e db2 assms(2) show "audited stored c db db2" by (auto simp: audited_def)
  from db2 show "t_voyages db2 = t_voyages db1" "t_manifests db2 = t_manifests db1"
    "t_inspections db2 = t_inspections db1" "t_reservations db2 = t_reservations db1"
    "t_movements db2 = t_movements db1" "t_jobs db2 = t_jobs db1" by simp_all
qed

text \<open>With distinct keys the conditional update replaces exactly the row that was read.\<close>

definition voyage_row :: "(Time \<Rightarrow> Time) \<Rightarrow> Voyage \<Rightarrow> Voyage \<Rightarrow> Voyage" where
  "voyage_row stored v u = v\<lparr>v_Status := v_Status u, v_ManifestHash := v_ManifestHash u,
    v_DeclaredAt := map_option stored (v_DeclaredAt u), v_ClearedAt := map_option stored (v_ClearedAt u),
    v_Version := v_Version u\<rparr>"

lemma distinct_key: "distinct (map f xs) \<Longrightarrow> x \<in> set xs \<Longrightarrow> y \<in> set xs \<Longrightarrow> f x = f y \<longleftrightarrow> x = y"
  by (auto simp: distinct_map inj_on_def)

lemma saveVoyageTx_D:
  assumes "saveVoyageTx stored u (v_Version v) db = Inr db'" and "distinct (map v_ID (t_voyages db))"
    and "v \<in> set (t_voyages db)" and "v_ID u = v_ID v"
  shows "db' = db\<lparr>t_voyages := map (\<lambda>x. if v_ID x = v_ID v then voyage_row stored v u else x) (t_voyages db)\<rparr>"
proof -
  have same: "v_ID x = v_ID v \<longleftrightarrow> x = v" if "x \<in> set (t_voyages db)" for x
    using distinct_key [OF assms(2) that assms(3)] .
  from assms(1) have "db' = db\<lparr>t_voyages := map (\<lambda>x. if v_ID x = v_ID u \<and> v_Version x = v_Version v
      then voyage_row stored x u else x) (t_voyages db)\<rparr>"
    by (auto simp: saveVoyageTx_def Let_def voyage_row_def split: if_splits)
  also have "map (\<lambda>x. if v_ID x = v_ID u \<and> v_Version x = v_Version v then voyage_row stored x u else x) (t_voyages db) =
      map (\<lambda>x. if v_ID x = v_ID v then voyage_row stored v u else x) (t_voyages db)"
    using same assms(4) by (intro map_cong) auto
  finally show ?thesis .
qed

lemma DeclareVoyage_effect:
  assumes "store_DeclareVoyage stored actor q db = Inr (v, db')"
  shows "\<exists>m. BuildManifest (v_ID v) (dr_Items q) = Inr m \<and> v_ManifestHash v = m_Hash m \<and> v_Status v = VoyageDeclared \<and>
    v_ID v = dr_ID q \<and> v_TenantID v = u_TenantID actor \<and> v_ID v \<notin> v_ID ` set (t_voyages db) \<and>
    t_voyages db' = t_voyages db @ [stored_voyage stored v] \<and> t_manifests db' = t_manifests db @ [m] \<and>
    t_inspections db' = t_inspections db \<and> t_reservations db' = t_reservations db \<and> t_movements db' = t_movements db \<and>
    (\<exists>j. t_jobs db' = t_jobs db @ [j] \<and> j_ID j = ''outbox-declare-'' @ v_ID v \<and> j_TenantID j = v_TenantID v \<and> j_Topic j = ''voyage.declared'') \<and>
    (\<exists>c. audited stored c db db' \<and> e_TenantID c = u_TenantID actor \<and> e_OccurredAt c = dr_At q \<and> e_ID c \<noteq> [])"
proof -
  let ?c = "audit_entry (''audit-declare-'' @ v_ID v) (v_TenantID v) (u_ID actor) ''voyage.declared'' ''voyage'' (v_ID v)"
  from assms obtain draft m db1 db2 db3 where
    draft: "NewVoyage (dr_ID q) (u_TenantID actor) (dr_VesselIMO q) (dr_VesselName q) (dr_OriginPort q)
      (dr_DestinationPort q) (dr_ETA q) = Inr draft" and
    m: "BuildManifest (v_ID draft) (dr_Items q) = Inr m" and
    v: "Declare draft m (dr_At q) (v_Version draft) = Inr v" and
    db1: "insert_voyage stored v db = Inr db1" and db2: "insert_manifest m db1 = Inr db2" and
    db3: "appendAuditTx stored (?c [(''manifest_hash'', m_Hash m)] (dr_At q)) db2 = Inr db3" and
    db4: "insert_job stored (''outbox-declare-'' @ v_ID v) (v_TenantID v) ''voyage.declared''
      (status_payload v) (dr_At q) db3 = Inr db'"
    by (auto simp: store_DeclareVoyage_def bindR_Inr_iff split: if_splits)
  from draft have "v_ID draft = dr_ID q" "v_TenantID draft = u_TenantID actor"
    by (auto simp: NewVoyage_def split: if_splits)
  with DeclareD [OF v] m have v': "v_ID v = dr_ID q" "v_TenantID v = u_TenantID actor" "v_Status v = VoyageDeclared"
      "v_ManifestHash v = m_Hash m" "BuildManifest (v_ID v) (dr_Items q) = Inr m" by simp_all
  from db1 have 1: "db1 = db\<lparr>t_voyages := t_voyages db @ [stored_voyage stored v]\<rparr>" "v_ID v \<notin> v_ID ` set (t_voyages db)"
    by (auto simp: insert_voyage_def split: if_splits)
  from db2 have 2: "db2 = db1\<lparr>t_manifests := t_manifests db1 @ [m]\<rparr>"
    by (auto simp: insert_manifest_def split: if_splits)
  from 1 2 have "t_audit db2 = t_audit db" by simp
  note 3 = appendAuditTx_audited [OF db3 this]
  from db4 obtain j where 4: "db' = db3\<lparr>t_jobs := t_jobs db3 @ [j]\<rparr>" "j_ID j = ''outbox-declare-'' @ v_ID v" "j_TenantID j = v_TenantID v"
      "j_Topic j = ''voyage.declared''"
    by (auto simp: insert_job_def split: if_splits)
  have "audited stored (?c [(''manifest_hash'', m_Hash m)] (dr_At q)) db db'"
    using 3(1) 4(1) by (auto simp: audited_def)
  then show ?thesis
    using v' 1 2 3(2-7) 4 by (intro exI [of _ m] conjI exI [of _ j] exI [of _ "?c [(''manifest_hash'', m_Hash m)] (dr_At q)"])
      (simp_all add: audit_entry_def)
qed

lemma OpenInspection_effect:
  assumes "store_OpenInspection stored actor iid vid kind t db = Inr (iv, db')"
    and "distinct (map v_ID (t_voyages db))"
  shows "\<exists>v i u. v \<in> set (t_voyages db) \<and> v_TenantID v = u_TenantID actor \<and> v_Status v = VoyageDeclared \<and> v_ID u = v_ID v \<and>
    u = v\<lparr>v_Status := VoyageHeld, v_Version := inc64 (v_Version v)\<rparr> \<and> i_VoyageID i = v_ID v \<and> i_Status i = ''open'' \<and>
    i_ID i \<notin> i_ID ` set (t_inspections db) \<and>
    t_voyages db' = map (\<lambda>x. if v_ID x = v_ID v then voyage_row stored v u else x) (t_voyages db) \<and>
    t_inspections db' = t_inspections db @ [stored_inspection stored i] \<and> t_manifests db' = t_manifests db \<and>
    t_reservations db' = t_reservations db \<and> t_movements db' = t_movements db \<and> t_jobs db' = t_jobs db \<and>
    (\<exists>c. audited stored c db db' \<and> e_TenantID c = u_TenantID actor \<and> e_OccurredAt c = t \<and> e_ID c \<noteq> [])"
proof -
  let ?c = "audit_entry (''audit-inspection-open-'' @ iid) (u_TenantID actor) (u_ID actor) ''inspection.opened''
    ''voyage'' vid [(''kind'', kind)] t"
  from assms(1) obtain v i u db1 db2 where
    v: "getVoyageTx (u_TenantID actor) vid db = Inr v" and
    i: "OpenInspection iid v (u_ID actor) kind t = Inr (i, u)" and
    db1: "insert_inspection stored i db = Inr db1" and
    db2: "saveVoyageTx stored u (v_Version v) db1 = Inr db2" and
    db3: "appendAuditTx stored ?c db2 = Inr db'"
    by (auto simp: store_OpenInspection_def bindR_Inr_iff split: if_splits prod.splits)
  note v' = getVoyageTx_D [OF v] and i' = OpenInspectionD [OF i]
  from db1 have 1: "db1 = db\<lparr>t_inspections := t_inspections db @ [stored_inspection stored i]\<rparr>"
      "i_ID i \<notin> i_ID ` set (t_inspections db)"
    by (auto simp: insert_inspection_def split: if_splits)
  from db2 have 2: "db2 = db1\<lparr>t_voyages := map (\<lambda>x. if v_ID x = v_ID v then voyage_row stored v u else x) (t_voyages db1)\<rparr>"
    using assms(2) v' i' 1 by (intro saveVoyageTx_D) simp_all
  from 1 2 have "t_audit db2 = t_audit db" by simp
  note 3 = appendAuditTx_audited [OF db3 this]
  show ?thesis
    by (rule exI [of _ v], rule exI [of _ i], rule exI [of _ u])
      (use v' i' 1 2 3 in \<open>auto intro!: exI [of _ ?c] simp: audit_entry_def\<close>)
qed

lemma PassInspection_effect:
  assumes "PassInspectionAndRelease stored actor iid finding t db = Inr (w, db')"
    and "distinct (map v_ID (t_voyages db))"
  shows "\<exists>v i j u. v \<in> set (t_voyages db) \<and> v_TenantID v = u_TenantID actor \<and> v_ID u = v_ID v \<and> i \<in> set (t_inspections db) \<and> i_VoyageID i = v_ID v \<and>
    i_ID i = iid \<and> i_ID j = iid \<and> i_Status j = ''passed'' \<and>
    u = v\<lparr>v_Status := VoyageCleared, v_ClearedAt := Some t, v_Version := inc64 (v_Version v)\<rparr> \<and>
    Release v (listInspectionsTx (v_ID v) (update_inspection stored j db)) t (v_Version v) = Inr u \<and>
    t_voyages db' = map (\<lambda>x. if v_ID x = v_ID v then voyage_row stored v u else x) (t_voyages db) \<and>
    t_inspections db' = t_inspections (update_inspection stored j db) \<and> t_manifests db' = t_manifests db \<and>
    t_reservations db' = t_reservations db \<and> t_movements db' = t_movements db \<and>
    (\<exists>job. t_jobs db' = t_jobs db @ [job] \<and> j_ID job = ''outbox-release-'' @ v_ID v \<and> j_TenantID job = v_TenantID v \<and> j_Topic job = ''voyage.released'') \<and>
    (\<exists>c. audited stored c db db' \<and> e_TenantID c = u_TenantID actor \<and> e_OccurredAt c = t \<and> e_ID c \<noteq> [])"
proof -
  from assms(1) obtain i v j u db2 db3 c where
    i: "getInspectionTx iid db = Inr i" and
    v: "getVoyageTx (u_TenantID actor) (i_VoyageID i) db = Inr v" and
    j: "CloseInspection i finding True t (i_Version i) = Inr j" and
    u: "Release v (listInspectionsTx (v_ID v) (update_inspection stored j db)) t (v_Version v) = Inr u" and
    db2: "saveVoyageTx stored u (v_Version v) (update_inspection stored j db) = Inr db2" and
    db3: "appendAuditTx stored c db2 = Inr db3" and
    c: "c = audit_entry (''audit-release-'' @ v_ID v) (u_TenantID actor) (u_ID actor) ''voyage.released'' ''voyage'' (v_ID v)
      [(''inspection'', i_ID j)] t" and
    db4: "insert_job stored (''outbox-release-'' @ v_ID v) (v_TenantID v) ''voyage.released'' (status_payload u) t db3 = Inr db'"
    by (auto simp: PassInspectionAndRelease_def bindR_Inr_iff Let_def split: if_splits)
  note v' = getVoyageTx_D [OF v] and i' = getInspectionTx_D [OF i] and u' = ReleaseD [OF u]
  from j have j': "i_ID j = i_ID i" "i_Status j = ''passed''" by (auto simp: CloseInspection_def split: if_splits)
  let ?db1 = "update_inspection stored j db"
  have same: "t_voyages ?db1 = t_voyages db" "t_manifests ?db1 = t_manifests db" "t_reservations ?db1 = t_reservations db"
      "t_movements ?db1 = t_movements db" "t_jobs ?db1 = t_jobs db" "t_audit ?db1 = t_audit db"
    by (simp_all add: update_inspection_def)
  have "v_ID u = v_ID v" using u' by simp
  with db2 have 2: "db2 = ?db1\<lparr>t_voyages := map (\<lambda>x. if v_ID x = v_ID v then voyage_row stored v u else x) (t_voyages ?db1)\<rparr>"
    using assms(2) v' same by (intro saveVoyageTx_D) simp_all
  then have "t_audit db2 = t_audit db" using same by simp
  note 3 = appendAuditTx_audited [OF db3 this]
  from db4 obtain job where 4: "db' = db3\<lparr>t_jobs := t_jobs db3 @ [job]\<rparr>" "j_ID job = ''outbox-release-'' @ v_ID v"
      "j_TenantID job = v_TenantID v" "j_Topic job = ''voyage.released''"
    by (auto simp: insert_job_def split: if_splits)
  have 5: "audited stored c db db'" using 3(1) 4(1) by (auto simp: audited_def)
  have 6: "e_TenantID c = u_TenantID actor" "e_OccurredAt c = t" "e_ID c \<noteq> []" by (simp_all add: c audit_entry_def)
  have "v \<in> set (t_voyages db)" "v_TenantID v = u_TenantID actor" "i_VoyageID i = v_ID v" "i \<in> set (t_inspections db)" "i_ID i = iid" "i_ID j = iid"
    using v' i' j' by simp_all
  moreover have "u = v\<lparr>v_Status := VoyageCleared, v_ClearedAt := Some t, v_Version := inc64 (v_Version v)\<rparr>"
    using u' by blast
  moreover have "t_voyages db' = map (\<lambda>x. if v_ID x = v_ID v then voyage_row stored v u else x) (t_voyages db)"
    unfolding 4(1) using 2 3(2) same by simp
  moreover have "t_inspections db' = t_inspections ?db1" "t_manifests db' = t_manifests db"
    "t_reservations db' = t_reservations db" "t_movements db' = t_movements db" "t_jobs db' = t_jobs db @ [job]"
    unfolding 4(1) using 2 3(3-7) same by simp_all
  ultimately show ?thesis using \<open>v_ID u = v_ID v\<close> j'(2) u 4(2-4) 5 6 by blast
qed

lemma ReservePassage_effect:
  assumes "ReservePassage stored actor rid vid chamber starts ends len beam draft t db = Inr (r, db')"
    and "distinct (map v_ID (t_voyages db))"
  shows "\<exists>v u. v \<in> set (t_voyages db) \<and> v_TenantID v = u_TenantID actor \<and> v_Status v = VoyageCleared \<and> v_ID u = v_ID v \<and>
    u = v\<lparr>v_Status := VoyageScheduled, v_Version := inc64 (v_Version v)\<rparr> \<and>
    r_VoyageID r = v_ID v \<and> r_TenantID r = v_TenantID v \<and> r_Status r = SlotConfirmed \<and>
    r_ID r \<notin> r_ID ` set (t_reservations db) \<and>
    \<not> list_ex (excluded (stored_reservation stored r)) (t_reservations db) \<and>
    t_voyages db' = map (\<lambda>x. if v_ID x = v_ID v then voyage_row stored v u else x) (t_voyages db) \<and>
    t_reservations db' = t_reservations db @ [stored_reservation stored r] \<and> t_manifests db' = t_manifests db \<and>
    t_inspections db' = t_inspections db \<and> t_movements db' = t_movements db \<and> t_jobs db' = t_jobs db \<and>
    (\<exists>c. audited stored c db db' \<and> e_TenantID c = u_TenantID actor \<and> e_OccurredAt c = t \<and> e_ID c \<noteq> [])"
proof -
  let ?c = "audit_entry (''audit-reserve-'' @ rid) (u_TenantID actor) (u_ID actor) ''passage.reserved'' ''voyage'' vid
    [(''chamber'', ch_ID chamber)] t"
  from assms(1) obtain v r0 db1 u db2 where
    v: "getVoyageTx (u_TenantID actor) vid db = Inr v" and cleared: "v_Status v = VoyageCleared" and
    r0: "Reserve rid vid (u_TenantID actor) chamber starts ends len beam draft
      (listReservationsTx stored (ch_ID chamber) starts ends db) = Inr r0" and
    r: "Confirm r0 True (r_Version r0) = Inr r" and
    db1: "insert_reservation stored r db = Inr db1" and
    u: "Transition v VoyageScheduled starts = Inr u" and
    db2: "saveVoyageTx stored u (v_Version v) db1 = Inr db2" and
    db3: "appendAuditTx stored ?c db2 = Inr db'"
    by (auto simp: ReservePassage_def bindR_Inr_iff split: if_splits)
  note v' = getVoyageTx_D [OF v] and u' = TransitionD [OF u]
  from r0 r have r': "r_VoyageID r = vid" "r_TenantID r = u_TenantID actor" "r_Status r = SlotConfirmed"
    by (auto simp: Reserve_Inr_iff Confirm_def split: if_splits)
  from db1 have 1: "db1 = db\<lparr>t_reservations := t_reservations db @ [stored_reservation stored r]\<rparr>"
      "r_ID r \<notin> r_ID ` set (t_reservations db)" "\<not> list_ex (excluded (stored_reservation stored r)) (t_reservations db)"
    by (auto simp: insert_reservation_def Let_def stored_reservation_def split: if_splits)
  from db2 have 2: "db2 = db1\<lparr>t_voyages := map (\<lambda>x. if v_ID x = v_ID v then voyage_row stored v u else x) (t_voyages db1)\<rparr>"
    using assms(2) v' u' 1 by (intro saveVoyageTx_D) simp_all
  from 1 2 have "t_audit db2 = t_audit db" by simp
  note 3 = appendAuditTx_audited [OF db3 this]
  show ?thesis
    by (rule exI [of _ v], rule exI [of _ u], intro conjI exI [of _ ?c])
      (use v' u' cleared r' 1 2 3 in \<open>simp_all add: audit_entry_def\<close>)
qed

lemma update_reservation_D:
  assumes "update_reservation q (r_Version r) db = Inr db'" and "distinct (map r_ID (t_reservations db))"
    and "r \<in> set (t_reservations db)" and "r_ID q = r_ID r"
  shows "db' = db\<lparr>t_reservations := map (\<lambda>x. if r_ID x = r_ID r
    then r\<lparr>r_Status := r_Status q, r_Version := r_Version q\<rparr> else x) (t_reservations db)\<rparr>"
proof -
  have same: "r_ID x = r_ID r \<longleftrightarrow> x = r" if "x \<in> set (t_reservations db)" for x
    using distinct_key [OF assms(2) that assms(3)] .
  from assms(1) have "db' = db\<lparr>t_reservations := map (\<lambda>x. if r_ID x = r_ID q \<and> r_Version x = r_Version r
      then x\<lparr>r_Status := r_Status q, r_Version := r_Version q\<rparr> else x) (t_reservations db)\<rparr>"
    by (auto simp: update_reservation_def Let_def split: if_splits)
  also have "map (\<lambda>x. if r_ID x = r_ID q \<and> r_Version x = r_Version r
        then x\<lparr>r_Status := r_Status q, r_Version := r_Version q\<rparr> else x) (t_reservations db) =
      map (\<lambda>x. if r_ID x = r_ID r then r\<lparr>r_Status := r_Status q, r_Version := r_Version q\<rparr> else x) (t_reservations db)"
    using same assms(4) by (intro map_cong) auto
  finally show ?thesis .
qed

lemma MovePassage_effect:
  assumes "MovePassage stored actor rid s t remark db = Inr (q, db')" and "distinct (map r_ID (t_reservations db))"
  shows "\<exists>r m. r \<in> set (t_reservations db) \<and> r_TenantID r = u_TenantID actor \<and> BuildMovement r s t (u_ID actor) remark = Inr (m, q) \<and>
    t_reservations db' = map (\<lambda>x. if r_ID x = r_ID r then q else x) (t_reservations db) \<and>
    t_movements db' = t_movements db @ [m\<lparr>mv_OccurredAt := stored (mv_OccurredAt m)\<rparr>] \<and>
    t_voyages db' = t_voyages db \<and> t_manifests db' = t_manifests db \<and> t_inspections db' = t_inspections db \<and>
    t_jobs db' = t_jobs db \<and>
    (\<exists>c. audited stored c db db' \<and> e_TenantID c = u_TenantID actor \<and> e_OccurredAt c = t \<and> e_ID c \<noteq> [])"
proof -
  from assms(1) obtain r m db1 db2 c where
    r: "getReservationTx (u_TenantID actor) rid db = Inr r" and
    m: "BuildMovement r s t (u_ID actor) remark = Inr (m, q)" and
    db1: "update_reservation q (r_Version r) db = Inr db1" and
    db2: "insert_movement stored m db1 = Inr db2" and
    c: "c = audit_entry (''audit-passage-'' @ s @ ''-'' @ r_ID r) (u_TenantID actor) (u_ID actor) (''passage.'' @ s)
      ''passage_reservation'' (r_ID r) [(''note'', remark)] t" and
    db3: "appendAuditTx stored c db2 = Inr db'"
    by (auto simp: MovePassage_def bindR_Inr_iff split: if_splits prod.splits)
  note r' = getReservationTx_D [OF r]
  from BuildMovementD [OF m] have q: "q = advance r s" by simp
  then have "r\<lparr>r_Status := r_Status q, r_Version := r_Version q\<rparr> = q" "r_ID q = r_ID r" by simp_all
  with update_reservation_D [OF db1 assms(2)] r'
  have 1: "db1 = db\<lparr>t_reservations := map (\<lambda>x. if r_ID x = r_ID r then q else x) (t_reservations db)\<rparr>" by simp
  from db2 have 2: "db2 = db1\<lparr>t_movements := t_movements db1 @ [m\<lparr>mv_OccurredAt := stored (mv_OccurredAt m)\<rparr>]\<rparr>"
    by (auto simp: insert_movement_def split: if_splits)
  from 1 2 have "t_audit db2 = t_audit db" by simp
  note 3 = appendAuditTx_audited [OF db3 this]
  have "e_TenantID c = u_TenantID actor" "e_OccurredAt c = t" "e_ID c \<noteq> []" by (simp_all add: c audit_entry_def)
  then show ?thesis
    by (intro exI [of _ r] exI [of _ m] conjI exI [of _ c]) (use r' m 1 2 3 in simp_all)
qed

section \<open>Reachable databases\<close>

inductive db_step :: "(Time \<Rightarrow> Time) \<Rightarrow> User \<Rightarrow> Time \<Rightarrow> DB \<Rightarrow> DB \<Rightarrow> bool" for stored where
  step_declare: "store_DeclareVoyage stored actor q db = Inr (v, db') \<Longrightarrow> db_step stored actor (dr_At q) db db'"
| step_open: "store_OpenInspection stored actor iid vid kind t db = Inr (iv, db') \<Longrightarrow> db_step stored actor t db db'"
| step_release: "PassInspectionAndRelease stored actor iid finding t db = Inr (v, db') \<Longrightarrow> db_step stored actor t db db'"
| step_reserve: "ReservePassage stored actor rid vid ch s e len beam draft t db = Inr (r, db') \<Longrightarrow> db_step stored actor t db db'"
| step_move: "MovePassage stored actor rid st t remark db = Inr (r, db') \<Longrightarrow> db_step stored actor t db db'"

inductive reach :: "(Time \<Rightarrow> Time) \<Rightarrow> (Time \<Rightarrow> bool) \<Rightarrow> DB \<Rightarrow> bool" for stored P where
  reach_empty: "reach stored P empty_db"
| reach_step: "reach stored P db \<Longrightarrow> db_step stored actor t db db' \<Longrightarrow> P t \<Longrightarrow> reach stored P db'"

definition keys_inv :: "DB \<Rightarrow> bool" where
  "keys_inv db \<longleftrightarrow> distinct (map v_ID (t_voyages db)) \<and> distinct (map i_ID (t_inspections db)) \<and>
    distinct (map r_ID (t_reservations db))"

definition has_job :: "DB \<Rightarrow> string \<Rightarrow> string \<Rightarrow> bool" where
  "has_job db jid topic \<longleftrightarrow> (\<exists>j\<in>set (t_jobs db). j_ID j = jid \<and> j_Topic j = topic)"

definition passed_inspections :: "DB \<Rightarrow> string \<Rightarrow> bool" where
  "passed_inspections db vid \<longleftrightarrow> (\<exists>i\<in>set (t_inspections db). i_VoyageID i = vid) \<and>
    (\<forall>i\<in>set (t_inspections db). i_VoyageID i = vid \<longrightarrow> i_Status i = ''passed'')"

definition voyage_inv :: "DB \<Rightarrow> Voyage \<Rightarrow> bool" where
  "voyage_inv db v \<longleftrightarrow> v_Status v \<in> {VoyageDeclared, VoyageHeld, VoyageCleared, VoyageScheduled} \<and>
    (\<exists>m\<in>set (t_manifests db). m_VoyageID m = v_ID v \<and> m_Hash m = v_ManifestHash v) \<and>
    has_job db (''outbox-declare-'' @ v_ID v) ''voyage.declared'' \<and>
    (v_Status v \<in> {VoyageCleared, VoyageScheduled} \<longrightarrow>
      passed_inspections db (v_ID v) \<and> has_job db (''outbox-release-'' @ v_ID v) ''voyage.released'')"

definition slots_inv :: "DB \<Rightarrow> bool" where
  "slots_inv db \<longleftrightarrow> sorted_wrt (\<lambda>r q. \<not> excluded r q) (t_reservations db) \<and> distinct (map r_VoyageID (t_reservations db)) \<and>
    (\<forall>r\<in>set (t_reservations db). \<exists>v\<in>set (t_voyages db). v_ID v = r_VoyageID r \<and> v_TenantID v = r_TenantID r \<and>
      v_Status v = VoyageScheduled)"

section \<open>Keys\<close>

lemma voyage_rows_keys:
  assumes "t_voyages db' = map (\<lambda>x. if v_ID x = v_ID v then voyage_row stored v u else x) (t_voyages db)"
  shows "map v_ID (t_voyages db') = map v_ID (t_voyages db)"
  unfolding assms by (simp add: voyage_row_def)

lemma keys_inv_step:
  assumes "keys_inv db" and "db_step stored actor t db db'"
  shows "keys_inv db'"
  using assms(2)
proof cases
  case (step_declare q v)
  from DeclareVoyage_effect [OF this(2)] assms(1) show ?thesis
    by (auto simp: keys_inv_def stored_voyage_def)
next
  case (step_open iid vid kind iv)
  from assms(1) have "distinct (map v_ID (t_voyages db))" by (simp add: keys_inv_def)
  from OpenInspection_effect [OF step_open this] obtain v i u where
    rows: "t_voyages db' = map (\<lambda>x. if v_ID x = v_ID v then voyage_row stored v u else x) (t_voyages db)"
    and "i_ID i \<notin> i_ID ` set (t_inspections db)" "t_reservations db' = t_reservations db"
    "t_inspections db' = t_inspections db @ [stored_inspection stored i]" by blast
  with voyage_rows_keys [OF rows] assms(1) show ?thesis
    unfolding keys_inv_def by (simp only:) (simp add: stored_inspection_def)
next
  case (step_release iid finding w)
  from assms(1) have "distinct (map v_ID (t_voyages db))" by (simp add: keys_inv_def)
  from PassInspection_effect [OF step_release this] obtain v j u where
    rows: "t_voyages db' = map (\<lambda>x. if v_ID x = v_ID v then voyage_row stored v u else x) (t_voyages db)"
    and rest: "t_inspections db' = t_inspections (update_inspection stored j db)" "t_reservations db' = t_reservations db"
    by blast
  have "map i_ID (t_inspections (update_inspection stored j db)) = map i_ID (t_inspections db)"
    by (simp add: update_inspection_def)
  with voyage_rows_keys [OF rows] rest assms(1) show ?thesis unfolding keys_inv_def by metis
next
  case (step_reserve rid vid ch s e len beam draft r)
  from assms(1) have "distinct (map v_ID (t_voyages db))" by (simp add: keys_inv_def)
  from ReservePassage_effect [OF step_reserve this] obtain v u where
    rows: "t_voyages db' = map (\<lambda>x. if v_ID x = v_ID v then voyage_row stored v u else x) (t_voyages db)"
    and "r_ID r \<notin> r_ID ` set (t_reservations db)" "t_inspections db' = t_inspections db"
    "t_reservations db' = t_reservations db @ [stored_reservation stored r]" by blast
  with voyage_rows_keys [OF rows] assms(1) show ?thesis
    unfolding keys_inv_def by (simp only:) (simp add: stored_reservation_def)
next
  case (step_move rid st remark q)
  from assms(1) have "distinct (map r_ID (t_reservations db))" by (simp add: keys_inv_def)
  from MovePassage_effect [OF step_move this] obtain r m where
    m: "BuildMovement r st t (u_ID actor) remark = Inr (m, q)"
    and db': "t_reservations db' = map (\<lambda>x. if r_ID x = r_ID r then q else x) (t_reservations db)"
      "t_voyages db' = t_voyages db" "t_inspections db' = t_inspections db" by blast
  from BuildMovementD [OF m] have "q = advance r st" by simp
  then have "map r_ID (t_reservations db') = map r_ID (t_reservations db)" unfolding db' by simp
  with db'(2,3) assms(1) show ?thesis unfolding keys_inv_def by metis
qed

lemma reach_keys: "reach stored P db \<Longrightarrow> keys_inv db"
proof (induction rule: reach.induct)
  case reach_empty
  show ?case by (simp add: keys_inv_def empty_db_def)
qed (rule keys_inv_step)

section \<open>Voyages\<close>

lemma has_job_mono: "set (t_jobs db) \<subseteq> set (t_jobs db') \<Longrightarrow> has_job db jid topic \<Longrightarrow> has_job db' jid topic"
  by (auto simp: has_job_def)

text \<open>
  A voyage that a transaction does not touch keeps its invariant, if manifests and jobs only grow and
  its own inspections stay.
\<close>

lemma voyage_inv_frame:
  assumes "voyage_inv db v" and "set (t_manifests db) \<subseteq> set (t_manifests db')" and "set (t_jobs db) \<subseteq> set (t_jobs db')"
    and "passed_inspections db (v_ID v) \<Longrightarrow> v_Status v \<in> {VoyageCleared, VoyageScheduled} \<Longrightarrow>
      passed_inspections db' (v_ID v)"
  shows "voyage_inv db' v"
  using assms has_job_mono [OF assms(3)] unfolding voyage_inv_def by blast

lemma voyage_inv_row:
  assumes "voyage_inv db v" and "v_ID u = v_ID v" and "v_ManifestHash u = v_ManifestHash v"
    and "v_Status u \<in> {VoyageDeclared, VoyageHeld, VoyageCleared, VoyageScheduled}"
    and "set (t_manifests db) \<subseteq> set (t_manifests db')" and "set (t_jobs db) \<subseteq> set (t_jobs db')"
    and "v_Status u \<in> {VoyageCleared, VoyageScheduled} \<Longrightarrow>
      passed_inspections db' (v_ID v) \<and> has_job db' (''outbox-release-'' @ v_ID v) ''voyage.released''"
  shows "voyage_inv db' (voyage_row stored v u)"
proof -
  have row: "v_ID (voyage_row stored v u) = v_ID v" "v_Status (voyage_row stored v u) = v_Status u"
      "v_ManifestHash (voyage_row stored v u) = v_ManifestHash v"
    using assms(3) by (simp_all add: voyage_row_def)
  show ?thesis
    using assms(1,4-7) has_job_mono [OF assms(6)] unfolding voyage_inv_def row by blast
qed

lemma set_replaced_row:
  "x \<in> set (map (\<lambda>y. if f y = k then z else y) ys) \<Longrightarrow> x = z \<or> x \<in> set ys \<and> f x \<noteq> k"
  by (auto split: if_splits)

definition voyages_inv :: "DB \<Rightarrow> bool" where
  "voyages_inv db \<longleftrightarrow> list_all (voyage_inv db) (t_voyages db)"

lemma voyages_invD: "voyages_inv db \<Longrightarrow> v \<in> set (t_voyages db) \<Longrightarrow> voyage_inv db v"
  by (simp add: voyages_inv_def list_all_iff)

lemma listInspectionsTx_set: "set (listInspectionsTx vid db) = {i \<in> set (t_inspections db). i_VoyageID i = vid}"
  by (auto simp: listInspectionsTx_def)

lemma voyages_inv_step:
  assumes inv: "voyages_inv db" and keys: "keys_inv db" and step: "db_step stored actor t db db'"
  shows "voyages_inv db'"
  unfolding voyages_inv_def list_all_iff
proof
  have distinct: "distinct (map v_ID (t_voyages db))" "distinct (map r_ID (t_reservations db))"
    "distinct (map i_ID (t_inspections db))" using keys by (simp_all add: keys_inv_def)
  fix x assume x: "x \<in> set (t_voyages db')"
  from step show "voyage_inv db' x"
  proof cases
    case (step_declare q v)
    from DeclareVoyage_effect [OF this(2)] obtain m j where m: "BuildManifest (v_ID v) (dr_Items q) = Inr m"
        "v_ManifestHash v = m_Hash m" "v_Status v = VoyageDeclared"
      and db': "t_voyages db' = t_voyages db @ [stored_voyage stored v]" "t_manifests db' = t_manifests db @ [m]"
        "t_inspections db' = t_inspections db" "t_jobs db' = t_jobs db @ [j]"
      and j: "j_ID j = ''outbox-declare-'' @ v_ID v" "j_Topic j = ''voyage.declared''" by blast
    show ?thesis
    proof (cases "x \<in> set (t_voyages db)")
      case True
      show ?thesis
        by (rule voyage_inv_frame [OF voyages_invD [OF inv True]]) (auto simp: db' passed_inspections_def)
    next
      case False
      with x db' have "x = stored_voyage stored v" by simp
      moreover from m have "m_VoyageID m = v_ID v" by (simp add: BuildManifest_Inr_iff)
      ultimately show ?thesis using m j db' by (simp add: voyage_inv_def stored_voyage_def has_job_def)
    qed
  next
    case (step_open iid vid kind iv)
    from OpenInspection_effect [OF this distinct(1)] obtain v i u where
      v: "v \<in> set (t_voyages db)" "v_Status v = VoyageDeclared" "v_ID u = v_ID v" and
      u: "u = v\<lparr>v_Status := VoyageHeld, v_Version := inc64 (v_Version v)\<rparr>" and i: "i_VoyageID i = v_ID v" and
      rows: "t_voyages db' = map (\<lambda>x. if v_ID x = v_ID v then voyage_row stored v u else x) (t_voyages db)" and
      db': "t_inspections db' = t_inspections db @ [stored_inspection stored i]" "t_manifests db' = t_manifests db"
        "t_jobs db' = t_jobs db" by blast
    from set_replaced_row [OF x [unfolded rows]] show ?thesis
    proof
      assume "x = voyage_row stored v u"
      moreover have "voyage_inv db' (voyage_row stored v u)"
        by (rule voyage_inv_row [OF voyages_invD [OF inv v(1)]]) (simp_all add: u db')
      ultimately show ?thesis by simp
    next
      assume other: "x \<in> set (t_voyages db) \<and> v_ID x \<noteq> v_ID v"
      show ?thesis
        by (rule voyage_inv_frame [OF voyages_invD [OF inv conjunct1 [OF other]]])
          (use other i in \<open>auto simp: db' passed_inspections_def stored_inspection_def\<close>)
    qed
  next
    case (step_release iid finding w)
    from PassInspection_effect [OF this distinct(1)] obtain v i k u job where
      v: "v \<in> set (t_voyages db)" "v_ID u = v_ID v" and
      i: "i \<in> set (t_inspections db)" "i_VoyageID i = v_ID v" "i_ID i = iid" "i_ID k = iid" "i_Status k = ''passed''" and
      u: "u = v\<lparr>v_Status := VoyageCleared, v_ClearedAt := Some t, v_Version := inc64 (v_Version v)\<rparr>" and
      release: "Release v (listInspectionsTx (v_ID v) (update_inspection stored k db)) t (v_Version v) = Inr u" and
      rows: "t_voyages db' = map (\<lambda>x. if v_ID x = v_ID v then voyage_row stored v u else x) (t_voyages db)" and
      db': "t_inspections db' = t_inspections (update_inspection stored k db)" "t_manifests db' = t_manifests db"
        "t_jobs db' = t_jobs db @ [job]" and
      job: "j_ID job = ''outbox-release-'' @ v_ID v" "j_Topic job = ''voyage.released''" by blast
    have listed: "set (listInspectionsTx (v_ID v) (update_inspection stored k db)) =
        {i \<in> set (t_inspections db'). i_VoyageID i = v_ID v}"
      by (simp add: listInspectionsTx_set db')
    have "set (listInspectionsTx (v_ID v) (update_inspection stored k db)) \<noteq> {}"
      and "\<forall>i\<in>set (listInspectionsTx (v_ID v) (update_inspection stored k db)). i_Status i = ''passed''"
      using ReleaseD [OF release] by auto
    then have passed: "passed_inspections db' (v_ID v)" unfolding listed passed_inspections_def by blast
    from set_replaced_row [OF x [unfolded rows]] show ?thesis
    proof
      assume "x = voyage_row stored v u"
      moreover have "voyage_inv db' (voyage_row stored v u)"
        by (rule voyage_inv_row [OF voyages_invD [OF inv v(1)]])
          (use passed job in \<open>auto simp: u db' has_job_def\<close>)
      ultimately show ?thesis by simp
    next
      assume other: "x \<in> set (t_voyages db) \<and> v_ID x \<noteq> v_ID v"
      have "i_VoyageID j = v_ID v" if "j \<in> set (t_inspections db)" "i_ID j = iid" for j
        using distinct_key [OF distinct(3) that(1) i(1)] that(2) i(2,3) by simp
      then have "passed_inspections db' (v_ID x)" if "passed_inspections db (v_ID x)"
        using that other i(4) by (auto simp: passed_inspections_def db' update_inspection_def)
      then show ?thesis
        by (intro voyage_inv_frame [OF voyages_invD [OF inv conjunct1 [OF other]]]) (auto simp: db')
    qed
  next
    case (step_reserve rid vid ch s e len beam draft r)
    from ReservePassage_effect [OF this distinct(1)] obtain v u where
      v: "v \<in> set (t_voyages db)" "v_Status v = VoyageCleared" "v_ID u = v_ID v" and
      u: "u = v\<lparr>v_Status := VoyageScheduled, v_Version := inc64 (v_Version v)\<rparr>" and
      rows: "t_voyages db' = map (\<lambda>x. if v_ID x = v_ID v then voyage_row stored v u else x) (t_voyages db)" and
      db': "t_inspections db' = t_inspections db" "t_manifests db' = t_manifests db" "t_jobs db' = t_jobs db" by blast
    from set_replaced_row [OF x [unfolded rows]] show ?thesis
    proof
      assume "x = voyage_row stored v u"
      moreover have "voyage_inv db' (voyage_row stored v u)"
        by (rule voyage_inv_row [OF voyages_invD [OF inv v(1)]])
          (use voyages_invD [OF inv v(1)] v in \<open>auto simp: u db' voyage_inv_def passed_inspections_def has_job_def\<close>)
      ultimately show ?thesis by simp
    next
      assume other: "x \<in> set (t_voyages db) \<and> v_ID x \<noteq> v_ID v"
      show ?thesis
        by (rule voyage_inv_frame [OF voyages_invD [OF inv conjunct1 [OF other]]])
          (auto simp: db' passed_inspections_def)
    qed
  next
    case (step_move rid st remark q)
    from MovePassage_effect [OF this distinct(2)]
    have db': "t_voyages db' = t_voyages db" "t_inspections db' = t_inspections db" "t_manifests db' = t_manifests db"
      "t_jobs db' = t_jobs db" by blast+
    with x have "x \<in> set (t_voyages db)" by simp
    from voyages_invD [OF inv this] show ?thesis
      by (rule voyage_inv_frame) (auto simp: db' passed_inspections_def)
  qed
qed

section \<open>Slots\<close>

text \<open>Rows that a transaction changes only in their status and their version.\<close>

lemma slots_voyages_frame:
  assumes "slots_inv db" and "t_reservations db' = t_reservations db"
    and "\<And>v. v \<in> set (t_voyages db) \<Longrightarrow> v_Status v = VoyageScheduled \<Longrightarrow> v \<in> set (t_voyages db')"
  shows "slots_inv db'"
  using assms unfolding slots_inv_def by (simp only:) blast

lemma kept_row:
  "y \<in> set ys \<Longrightarrow> f y \<noteq> k \<Longrightarrow> y \<in> set (map (\<lambda>y. if f y = k then z else y) ys)"
  by force

lemma excluded_sym: "excluded r q \<longleftrightarrow> excluded q r"
  by (auto simp: excluded_def overlaps_def)

lemma slots_inv_step:
  assumes inv: "slots_inv db" and keys: "keys_inv db" and step: "db_step stored actor t db db'"
  shows "slots_inv db'"
proof -
  have distinct: "distinct (map v_ID (t_voyages db))" "distinct (map r_ID (t_reservations db))"
    using keys by (simp_all add: keys_inv_def)
  from step show ?thesis
  proof cases
    case (step_declare q v)
    from DeclareVoyage_effect [OF this(2)]
    have "t_reservations db' = t_reservations db" "t_voyages db' = t_voyages db @ [stored_voyage stored v]" by blast+
    then show ?thesis by (intro slots_voyages_frame [OF inv]) simp_all
  next
    case (step_open iid vid kind iv)
    from OpenInspection_effect [OF this distinct(1)] obtain v u where
      v: "v \<in> set (t_voyages db)" "v_Status v = VoyageDeclared" and
      rows: "t_voyages db' = map (\<lambda>x. if v_ID x = v_ID v then voyage_row stored v u else x) (t_voyages db)" and
      db': "t_reservations db' = t_reservations db" by blast
    show ?thesis
    proof (rule slots_voyages_frame [OF inv db'])
      fix x assume "x \<in> set (t_voyages db)" "v_Status x = VoyageScheduled"
      with v distinct_key [OF distinct(1), of x v] show "x \<in> set (t_voyages db')"
        unfolding rows by (intro kept_row) auto
    qed
  next
    case (step_release iid finding w)
    from PassInspection_effect [OF this distinct(1)] obtain v k u where
      v: "v \<in> set (t_voyages db)" and
      release: "Release v (listInspectionsTx (v_ID v) (update_inspection stored k db)) t (v_Version v) = Inr u" and
      rows: "t_voyages db' = map (\<lambda>x. if v_ID x = v_ID v then voyage_row stored v u else x) (t_voyages db)" and
      db': "t_reservations db' = t_reservations db" by blast
    show ?thesis
    proof (rule slots_voyages_frame [OF inv db'])
      fix x assume "x \<in> set (t_voyages db)" "v_Status x = VoyageScheduled"
      with v ReleaseD [OF release] distinct_key [OF distinct(1), of x v] show "x \<in> set (t_voyages db')"
        unfolding rows by (intro kept_row) auto
    qed
  next
    case (step_reserve rid vid ch s e len beam draft r)
    from ReservePassage_effect [OF this distinct(1)] obtain v u where
      v: "v \<in> set (t_voyages db)" "v_Status v = VoyageCleared" and
      u: "u = v\<lparr>v_Status := VoyageScheduled, v_Version := inc64 (v_Version v)\<rparr>" and
      r: "r_VoyageID r = v_ID v" "r_TenantID r = v_TenantID v" and
      free: "\<not> list_ex (excluded (stored_reservation stored r)) (t_reservations db)" and
      rows: "t_voyages db' = map (\<lambda>x. if v_ID x = v_ID v then voyage_row stored v u else x) (t_voyages db)" and
      db': "t_reservations db' = t_reservations db @ [stored_reservation stored r]" by blast
    have row: "r_VoyageID (stored_reservation stored r) = v_ID v" "r_TenantID (stored_reservation stored r) = v_TenantID v"
      using r by (simp_all add: stored_reservation_def)
    have other: "r_VoyageID q \<noteq> v_ID v" if q: "q \<in> set (t_reservations db)" for q
    proof
      assume same: "r_VoyageID q = v_ID v"
      from inv q obtain x where "x \<in> set (t_voyages db)" "v_ID x = r_VoyageID q" "v_Status x = VoyageScheduled"
        unfolding slots_inv_def by blast
      with same v distinct_key [OF distinct(1), of x v] show False by auto
    qed
    have "voyage_row stored v u \<in> set (t_voyages db')" unfolding rows using v(1) by force
    moreover have "v_ID (voyage_row stored v u) = v_ID v" "v_TenantID (voyage_row stored v u) = v_TenantID v"
        "v_Status (voyage_row stored v u) = VoyageScheduled"
      by (simp_all add: voyage_row_def u)
    ultimately have new: "\<exists>x\<in>set (t_voyages db'). v_ID x = v_ID v \<and> v_TenantID x = v_TenantID v \<and> v_Status x = VoyageScheduled"
      by blast
    have old: "\<exists>x\<in>set (t_voyages db'). v_ID x = r_VoyageID q \<and> v_TenantID x = r_TenantID q \<and> v_Status x = VoyageScheduled"
      if q: "q \<in> set (t_reservations db)" for q
    proof -
      from inv q obtain x where x: "x \<in> set (t_voyages db)" "v_ID x = r_VoyageID q" "v_TenantID x = r_TenantID q"
          "v_Status x = VoyageScheduled"
        unfolding slots_inv_def by blast
      with other [OF q] have "x \<in> set (t_voyages db')" unfolding rows by (intro kept_row) simp_all
      with x show ?thesis by blast
    qed
    have "\<not> excluded q (stored_reservation stored r)" if "q \<in> set (t_reservations db)" for q
      using free that excluded_sym [of q] by (simp add: list_ex_iff)
    with inv have "sorted_wrt (\<lambda>r q. \<not> excluded r q) (t_reservations db')"
      by (simp add: slots_inv_def db' sorted_wrt_append)
    moreover have "v_ID v \<notin> r_VoyageID ` set (t_reservations db)" using other by (metis imageE)
    with inv have "distinct (map r_VoyageID (t_reservations db'))"
      by (simp add: slots_inv_def db' row)
    ultimately show ?thesis unfolding slots_inv_def using new old row by (simp add: db')
  next
    case (step_move rid st remark q)
    from MovePassage_effect [OF this distinct(2)] obtain r m where r: "r \<in> set (t_reservations db)" and
      m: "BuildMovement r st t (u_ID actor) remark = Inr (m, q)" and
      rows: "t_reservations db' = map (\<lambda>x. if r_ID x = r_ID r then q else x) (t_reservations db)" and
      db': "t_voyages db' = t_voyages db" by blast
    from BuildMovementD [OF m] have q: "q = advance r st" and live: "r_Status r \<noteq> SlotCancelled" by auto
    have rows: "t_reservations db' = map (\<lambda>x. if x = r then q else x) (t_reservations db)"
      unfolding rows using distinct_key [OF distinct(2) _ r] by (intro map_cong) auto
    have weaker: "excluded (if x = r then q else x) (if y = r then q else y) \<Longrightarrow> excluded x y" for x y
      using live by (auto simp: excluded_def q split: if_splits)
    have "sorted_wrt (\<lambda>x y. \<not> excluded x y) (t_reservations db)" using inv by (simp add: slots_inv_def)
    then have "sorted_wrt (\<lambda>x y. \<not> excluded (if x = r then q else x) (if y = r then q else y)) (t_reservations db)"
      by (rule sorted_wrt_mono_rel [rotated]) (use weaker in blast)
    then have "sorted_wrt (\<lambda>r q. \<not> excluded r q) (t_reservations db')"
      unfolding rows sorted_wrt_map .
    moreover have "map r_VoyageID (t_reservations db') = map r_VoyageID (t_reservations db)"
      unfolding rows by (simp add: q)
    moreover have "\<exists>v\<in>set (t_voyages db'). v_ID v = r_VoyageID x \<and> v_TenantID v = r_TenantID x \<and> v_Status v = VoyageScheduled"
      if "x \<in> set (t_reservations db')" for x
    proof -
      from that obtain y where "y \<in> set (t_reservations db)" "r_VoyageID x = r_VoyageID y" "r_TenantID x = r_TenantID y"
        unfolding rows by (auto simp: q split: if_splits)
      with inv show ?thesis unfolding slots_inv_def db' by metis
    qed
    ultimately show ?thesis using inv unfolding slots_inv_def by metis
  qed
qed

lemma reach_inv: "reach stored P db \<Longrightarrow> keys_inv db \<and> voyages_inv db \<and> slots_inv db"
proof (induction rule: reach.induct)
  case reach_empty
  show ?case by (simp add: keys_inv_def voyages_inv_def slots_inv_def empty_db_def)
next
  case (reach_step db actor t db')
  then show ?case using keys_inv_step voyages_inv_step slots_inv_step by blast
qed

end
