(* ===== verification/Store_Query.thy ===== *)
theory Store_Query
  imports Store
begin

text \<open>
  \<^verbatim>\<open>internal/store/query.go\<close>: the reads of single voyages, their inspections and
  reservations, and the verification of a tenant's audit chain. A join is a comprehension over the two
  tables and \<^verbatim>\<open>ORDER BY\<close> a sort by the listed columns. The paged and filtered lists are not
  modelled yet.
\<close>

definition GetVoyage :: "string \<Rightarrow> string \<Rightarrow> DB \<Rightarrow> Voyage result" where
  "GetVoyage tenant vid db =
    (case List.find (\<lambda>v. v_TenantID v = tenant \<and> v_ID v = vid) (t_voyages db) of
       None \<Rightarrow> Inl (Sentinel ErrNotFound)
     | Some v \<Rightarrow> Inr v)"

definition FindVoyage :: "string \<Rightarrow> string \<Rightarrow> DB \<Rightarrow> Voyage result" where
  "FindVoyage tenantID voyageID db = GetVoyage tenantID voyageID db"

definition ListInspections :: "string \<Rightarrow> string \<Rightarrow> DB \<Rightarrow> Inspection list" where
  "ListInspections tenantID voyageID db =
    sort_slice (lex2 i_OpenedAt i_ID)
      (concat (map (\<lambda>i. concat (map (\<lambda>v. if v_ID v = i_VoyageID i \<and> v_TenantID v = tenantID \<and> i_VoyageID i = voyageID
        then [i] else []) (t_voyages db))) (t_inspections db)))"

definition ListReservations :: "string \<Rightarrow> string \<Rightarrow> DB \<Rightarrow> Reservation list" where
  "ListReservations tenantID voyageID db =
    sort_slice (lex2 r_StartsAt r_ID)
      (filter (\<lambda>r. r_TenantID r = tenantID \<and> r_VoyageID r = voyageID) (t_reservations db))"

definition VerifyAuditChain :: "string \<Rightarrow> DB \<Rightarrow> unit result" where
  "VerifyAuditChain tenantID db =
    Verify (sort_slice (lex2 e_Sequence e_ID) (filter (\<lambda>e. e_TenantID e = tenantID) (t_audit db)))"

lemma set_ListInspections:
  "set (ListInspections tenant vid db) =
    {i \<in> set (t_inspections db). i_VoyageID i = vid \<and> (\<exists>v\<in>set (t_voyages db). v_ID v = vid \<and> v_TenantID v = tenant)}"
  by (auto simp: ListInspections_def split: if_splits)

lemma set_ListReservations:
  "set (ListReservations tenant vid db) = {r \<in> set (t_reservations db). r_TenantID r = tenant \<and> r_VoyageID r = vid}"
  by (auto simp: ListReservations_def)

end
