(* ===== verification/Workflow_Properties.thy ===== *)
theory Workflow_Properties
  imports Store_Inv Store_Query
begin

text \<open>
  The properties of the workflow as a whole: what holds of every database that committed transactions
  can produce. They rest on the invariants of \<^verbatim>\<open>Store_Inv\<close>, on the audit chain of
  \<^verbatim>\<open>Audit_Chain\<close> and on the movements of \<^verbatim>\<open>Movement\<close>.
\<close>

section \<open>The audit trail\<close>

definition tenant_events :: "string \<Rightarrow> DB \<Rightarrow> Event list" where
  "tenant_events tenant db = filter (\<lambda>e. e_TenantID e = tenant) (t_audit db)"

lemma db_step_audited:
  assumes "db_step stored actor t db db'" and "keys_inv db"
  shows "\<exists>c. audited stored c db db' \<and> e_OccurredAt c = t"
proof -
  have keys: "distinct (map v_ID (t_voyages db))" "distinct (map r_ID (t_reservations db))"
    using assms(2) by (simp_all add: keys_inv_def)
  from assms(1) show ?thesis
  proof cases
    case (step_declare q v)
    from DeclareVoyage_effect [OF this(2)] show ?thesis unfolding step_declare(1) by blast
  next
    case (step_open iid vid kind iv)
    from OpenInspection_effect [OF this keys(1)] show ?thesis by blast
  next
    case (step_release iid finding v)
    from PassInspection_effect [OF this keys(1)] show ?thesis by blast
  next
    case (step_reserve rid vid ch s e len beam draft r)
    from ReservePassage_effect [OF this keys(1)] show ?thesis by blast
  next
    case (step_move rid st remark r)
    from MovePassage_effect [OF this keys(2)] show ?thesis by blast
  qed
qed

lemma last_event_linked:
  assumes "linked [] 0 (tenant_events tenant db)"
  shows "last_event tenant db = (if tenant_events tenant db = [] then zero_event else last (tenant_events tenant db))"
  using linked_sort [OF assms] unfolding last_event_def tenant_events_def by (simp split: list.splits)

lemma audited_linked:
  assumes "audited stored c db db'" and "stored (e_OccurredAt c) = e_OccurredAt c"
    and "\<And>tenant. linked [] 0 (tenant_events tenant db)" and "int (length (t_audit db)) < max_int64"
  shows "linked [] 0 (tenant_events tenant db')"
proof -
  from assms(1) obtain e where e: "Append (last_event (e_TenantID c) db) c = Inr e"
    and db': "t_audit db' = t_audit db @ [e\<lparr>e_OccurredAt := stored (e_OccurredAt e)\<rparr>]"
    by (auto simp: audited_def)
  have same: "e\<lparr>e_OccurredAt := stored (e_OccurredAt e)\<rparr> = e"
    using AppendD(6) [OF e] assms(2) by simp
  show ?thesis
  proof (cases "tenant = e_TenantID c")
    case True
    have "length (tenant_events tenant db) \<le> length (t_audit db)" by (simp add: tenant_events_def)
    with assms(4) have "int (length (tenant_events tenant db)) < max_int64" by linarith
    moreover have "Append (if tenant_events tenant db = [] then zero_event else last (tenant_events tenant db)) c = Inr e"
      using e unfolding last_event_linked [OF assms(3)] True .
    ultimately have "linked [] 0 (tenant_events tenant db @ [e])" by (rule Append_extends [OF assms(3)])
    moreover have "tenant_events tenant db' = tenant_events tenant db @ [e]"
      using AppendD(5) [OF e] True by (simp add: tenant_events_def db' same)
    ultimately show ?thesis by simp
  next
    case False
    then have "tenant_events tenant db' = tenant_events tenant db"
      using AppendD(5) [OF e] by (simp add: tenant_events_def db' same)
    with assms(3) show ?thesis by simp
  qed
qed

lemma reach_linked:
  "reach stored P db \<Longrightarrow> (\<And>t. P t \<Longrightarrow> stored t = t) \<Longrightarrow> int (length (t_audit db)) \<le> max_int64 \<Longrightarrow>
    linked [] 0 (tenant_events tenant db)"
proof (induction arbitrary: tenant rule: reach.induct)
  case reach_empty
  then show ?case by (simp add: tenant_events_def empty_db_def)
next
  case (reach_step db actor t db')
  from reach_inv [OF reach_step.hyps(1)] have "keys_inv db" by simp
  from db_step_audited [OF reach_step.hyps(2) this] obtain c where
    c: "audited stored c db db'" "e_OccurredAt c = t" by blast
  then have "int (length (t_audit db)) < max_int64" using reach_step.prems(2) by (auto simp: audited_def)
  then have small: "int (length (t_audit db)) < max_int64" .
  show ?case
  proof (rule audited_linked [OF c(1) _ _ small])
    show "stored (e_OccurredAt c) = e_OccurredAt c" unfolding c(2) by (rule reach_step.prems(1) [OF reach_step.hyps(3)])
    show "linked [] 0 (tenant_events tenant db)" for tenant
      by (rule reach_step.IH [OF reach_step.prems(1)]) (use small in simp_all)
  qed
qed

section \<open>Movements\<close>

definition movement_statuses :: "DB \<Rightarrow> string \<Rightarrow> SlotStatus list" where
  "movement_statuses db rid = map mv_Status (filter (\<lambda>m. mv_ReservationID m = rid) (t_movements db))"

definition history_ok :: "SlotStatus list \<Rightarrow> SlotStatus \<Rightarrow> bool" where
  "history_ok h s \<longleftrightarrow> (h, s) \<in> {([], SlotConfirmed), ([SlotEntered], SlotEntered),
    ([SlotEntered, SlotExited], SlotExited), ([SlotCancelled], SlotCancelled)}"

definition history_inv :: "DB \<Rightarrow> bool" where
  "history_inv db \<longleftrightarrow> (\<forall>m\<in>set (t_movements db). mv_ReservationID m \<in> r_ID ` set (t_reservations db)) \<and>
    (\<forall>r\<in>set (t_reservations db). history_ok (movement_statuses db (r_ID r)) (r_Status r))"

lemma history_inv_frame:
  "history_inv db \<Longrightarrow> t_reservations db' = t_reservations db \<Longrightarrow> t_movements db' = t_movements db \<Longrightarrow> history_inv db'"
  by (simp add: history_inv_def movement_statuses_def)

lemma history_inv_step:
  assumes inv: "history_inv db" and keys: "keys_inv db" and step: "db_step stored actor t db db'"
  shows "history_inv db'"
proof -
  have distinct: "distinct (map v_ID (t_voyages db))" "distinct (map r_ID (t_reservations db))"
    using keys by (simp_all add: keys_inv_def)
  from step show ?thesis
  proof cases
    case (step_declare q v)
    from DeclareVoyage_effect [OF this(2)] show ?thesis by (intro history_inv_frame [OF inv]) blast+
  next
    case (step_open iid vid kind iv)
    from OpenInspection_effect [OF this distinct(1)] show ?thesis by (intro history_inv_frame [OF inv]) blast+
  next
    case (step_release iid finding v)
    from PassInspection_effect [OF this distinct(1)] show ?thesis by (intro history_inv_frame [OF inv]) blast+
  next
    case (step_reserve rid vid ch s e len beam draft r)
    from ReservePassage_effect [OF this distinct(1)] have
      r: "r_Status r = SlotConfirmed" "r_ID r \<notin> r_ID ` set (t_reservations db)" and
      db': "t_reservations db' = t_reservations db @ [stored_reservation stored r]" "t_movements db' = t_movements db"
      by blast+
    have "movement_statuses db (r_ID r) = []"
      using inv r(2) unfolding history_inv_def movement_statuses_def by (simp add: filter_empty_conv) metis
    moreover have "movement_statuses db' x = movement_statuses db x" for x
      by (simp add: movement_statuses_def db')
    ultimately show ?thesis
      using inv r by (auto simp: history_inv_def db' stored_reservation_def history_ok_def)
  next
    case (step_move rid st remark q)
    from MovePassage_effect [OF this distinct(2)] obtain r m where r: "r \<in> set (t_reservations db)" and
      m: "BuildMovement r st t (u_ID actor) remark = Inr (m, q)" and
      rows: "t_reservations db' = map (\<lambda>x. if r_ID x = r_ID r then q else x) (t_reservations db)" and
      moves: "t_movements db' = t_movements db @ [m\<lparr>mv_OccurredAt := stored (mv_OccurredAt m)\<rparr>]" by blast
    note move = BuildMovementD [OF m]
    then have ids: "r_ID q = r_ID r" "mv_ReservationID m = r_ID r" "mv_Status m = st" "r_Status q = st" by simp_all
    have key_set: "r_ID ` set (t_reservations db') = r_ID ` set (t_reservations db)"
    proof -
      have "map r_ID (t_reservations db') = map r_ID (t_reservations db)" unfolding rows by (simp add: ids)
      then show ?thesis by (metis list.set_map)
    qed
    have statuses: "movement_statuses db' x = movement_statuses db x @ (if x = r_ID r then [st] else [])" for x
      by (simp add: movement_statuses_def moves ids)
    have "history_ok (movement_statuses db (r_ID r)) (r_Status r)" using inv r by (simp add: history_inv_def)
    moreover have "st \<in> {SlotEntered, SlotCancelled} \<and> r_Status r = SlotConfirmed \<or> st = SlotExited \<and> r_Status r = SlotEntered
        \<or> r_Status r = SlotReserved" using move by blast
    ultimately have new: "history_ok (movement_statuses db (r_ID r) @ [st]) st"
      by (elim disjE) (auto simp: history_ok_def)
    have "history_ok (movement_statuses db' (r_ID x)) (r_Status x)" if "x \<in> set (t_reservations db')" for x
      using set_replaced_row [OF that [unfolded rows]]
    proof
      assume "x = q"
      then show ?thesis using new statuses [of "r_ID r"] by (simp add: ids)
    next
      assume "x \<in> set (t_reservations db) \<and> r_ID x \<noteq> r_ID r"
      then show ?thesis using inv statuses [of "r_ID x"] by (simp add: history_inv_def)
    qed
    moreover have "\<forall>x\<in>set (t_movements db'). mv_ReservationID x \<in> r_ID ` set (t_reservations db')"
      unfolding key_set moves using inv r by (auto simp: history_inv_def ids)
    ultimately show ?thesis unfolding history_inv_def by blast
  qed
qed

lemma reach_history: "reach stored P db \<Longrightarrow> history_inv db"
proof (induction rule: reach.induct)
  case reach_empty
  show ?case by (simp add: history_inv_def empty_db_def)
next
  case (reach_step db actor t db')
  then show ?case using history_inv_step reach_inv by blast
qed

section \<open>A run\<close>

definition example_request :: DeclareRequest where
  "example_request = \<lparr>dr_ID = ''voyage-1'', dr_VesselIMO = ''IMO9321483'', dr_VesselName = ''Azul'',
    dr_OriginPort = ''CNSHA'', dr_DestinationPort = ''PABLB'', dr_ETA = 5000, dr_Items = example_cargo, dr_At = 1000\<rparr>"

lemma declare_on_empty:
  assumes "NewVoyage (dr_ID q) (u_TenantID actor) (dr_VesselIMO q) (dr_VesselName q) (dr_OriginPort q)
      (dr_DestinationPort q) (dr_ETA q) = Inr draft"
    and "valid_items (dr_Items q)" and "dr_At q \<noteq> 0" and "u_Role actor = RoleCarrier \<or> u_Role actor = RoleDispatcher"
    and "u_ID actor \<noteq> []"
  shows "\<exists>v db. store_DeclareVoyage stored actor q empty_db = Inr (v, db)"
proof -
  from assms(1) have draft: "v_ID draft = dr_ID q" "v_TenantID draft = u_TenantID actor" "v_Status draft = VoyageDraft"
      "dr_ID q \<noteq> []" "u_TenantID actor \<noteq> []"
    by (auto simp: NewVoyage_def split: if_splits)
  with assms(2) obtain m where m: "BuildManifest (v_ID draft) (dr_Items q) = Inr m" and m': "m_VoyageID m = v_ID draft"
      "length (m_Hash m) = 64"
    by (simp add: BuildManifest_Inr_iff)
  with draft assms(3) obtain v where v: "Declare draft m (dr_At q) (v_Version draft) = Inr v"
      and v': "v_ID v = v_ID draft" "v_TenantID v = v_TenantID draft"
    by (simp add: Declare_def)
  let ?db1 = "empty_db\<lparr>t_voyages := [stored_voyage stored v]\<rparr>"
  let ?db2 = "?db1\<lparr>t_manifests := [m]\<rparr>"
  let ?c = "audit_entry (''audit-declare-'' @ v_ID v) (v_TenantID v) (u_ID actor) ''voyage.declared'' ''voyage'' (v_ID v)
    [(''manifest_hash'', m_Hash m)] (dr_At q)"
  have 1: "insert_voyage stored v empty_db = Inr ?db1" by (simp add: insert_voyage_def empty_db_def)
  have 2: "insert_manifest m ?db1 = Inr ?db2"
    using m'(1) v'(1) by (simp add: insert_manifest_def empty_db_def stored_voyage_def)
  have "e_ID ?c \<noteq> []" "e_TenantID ?c \<noteq> []" "e_ActorID ?c \<noteq> []" "e_Action ?c \<noteq> []" "e_ObjectType ?c \<noteq> []"
      "e_ObjectID ?c \<noteq> []" "e_Outcome ?c \<noteq> []" "e_OccurredAt ?c \<noteq> 0"
    using assms(3,5) draft v' by (simp_all add: audit_entry_def)
  moreover have "last_event (e_TenantID ?c) ?db2 = zero_event" "e_ID zero_event = []"
    by (simp_all add: last_event_def empty_db_def zero_event_def)
  ultimately obtain e where "Append (last_event (e_TenantID ?c) ?db2) ?c = Inr e"
    unfolding Append_def by (simp add: Let_def)
  then obtain db3 where 3: "appendAuditTx stored ?c ?db2 = Inr db3" and jobs: "t_jobs db3 = []"
    by (simp add: appendAuditTx_def insert_audit_def empty_db_def)
  from jobs obtain db4 where 4: "insert_job stored (''outbox-declare-'' @ v_ID v) (v_TenantID v) ''voyage.declared''
      (status_payload v) (dr_At q) db3 = Inr db4"
    by (simp add: insert_job_def)
  have "store_DeclareVoyage stored actor q empty_db = Inr (v, db4)"
    unfolding store_DeclareVoyage_def using assms(1,4) m v 1 2 3 4 by (auto simp: map_error_def)
  then show ?thesis by blast
qed

lemma example_run: "\<exists>v db. store_DeclareVoyage stored example_user example_request empty_db = Inr (v, db)"
proof (rule declare_on_empty)
  show "NewVoyage (dr_ID example_request) (u_TenantID example_user) (dr_VesselIMO example_request)
      (dr_VesselName example_request) (dr_OriginPort example_request) (dr_DestinationPort example_request)
      (dr_ETA example_request) = Inr example_voyage"
    by code_simp
  show "valid_items (dr_Items example_request)" by code_simp
qed (simp_all add: example_request_def example_user_def)

lemma example_reach:
  assumes "P (1000 :: Time)"
  obtains v db where "reach stored P db" and "store_DeclareVoyage stored example_user example_request empty_db = Inr (v, db)"
    and "v \<in> set (t_voyages db) \<or> stored 5000 \<noteq> 5000 \<or> stored 1000 \<noteq> 1000" and "length (t_audit db) = 1"
proof -
  obtain v db where run: "store_DeclareVoyage stored example_user example_request empty_db = Inr (v, db)"
    using example_run by blast
  have "dr_At example_request = 1000" by (simp add: example_request_def)
  with db_step.step_declare [OF run] assms have "reach stored P db"
    by (intro reach_step [OF reach_empty]) simp_all
  moreover have "stored_voyage stored v = v" if "stored 5000 = 5000" "stored 1000 = 1000"
  proof -
    from run have "v_ETA v = 5000" "v_DeclaredAt v = Some 1000" "v_ClearedAt v = None"
      by (auto simp: store_DeclareVoyage_def bindR_Inr_iff NewVoyage_def Declare_def example_request_def split: if_splits)
    with that show ?thesis by (simp add: stored_voyage_def)
  qed
  moreover from DeclareVoyage_effect [OF run] have "t_voyages db = [stored_voyage stored v]" "length (t_audit db) = 1"
    by (auto simp: audited_def empty_db_def)
  moreover from calculation have "v \<in> set (t_voyages db) \<or> stored 5000 \<noteq> 5000 \<or> stored 1000 \<noteq> 1000"
    by (metis list.set_intros(1))
  ultimately show thesis using that [OF _ run] by blast
qed

section \<open>Consistency of the timetable\<close>

definition timetable_inv :: "DB \<Rightarrow> bool" where
  "timetable_inv db \<longleftrightarrow> keys_inv db \<and> slots_inv db \<and> history_inv db"

lemma reach_timetable: "reach stored P db \<Longrightarrow> timetable_inv db"
  using reach_inv reach_history unfolding timetable_inv_def by blast

lemma slots_inv_pair:
  assumes "slots_inv db" and "r \<in> set (t_reservations db)" and "q \<in> set (t_reservations db)" and "q \<noteq> r"
  shows "\<not> excluded q r \<and> r_VoyageID q \<noteq> r_VoyageID r"
proof
  from assms(2-4) obtain i j where ij: "i < length (t_reservations db)" "j < length (t_reservations db)" "i \<noteq> j"
      "q = t_reservations db ! i" "r = t_reservations db ! j"
    by (metis in_set_conv_nth)
  have wrt: "\<not> excluded (t_reservations db ! k) (t_reservations db ! l)" if "k < l" "l < length (t_reservations db)" for k l
    using assms(1) that unfolding slots_inv_def sorted_wrt_iff_nth_less by blast
  show "\<not> excluded q r"
    using wrt [of i j] wrt [of j i] ij excluded_sym [of q r] by (cases "i < j") auto
  show "r_VoyageID q \<noteq> r_VoyageID r"
    using assms distinct_key [of r_VoyageID "t_reservations db" q r] unfolding slots_inv_def by blast
qed

section \<open>Isolation of tenants\<close>

definition others :: "string \<Rightarrow> ('a \<Rightarrow> string) \<Rightarrow> 'a list \<Rightarrow> 'a list" where
  "others tenant f xs = filter (\<lambda>x. f x \<noteq> tenant) xs"

definition outside :: "('a \<Rightarrow> string) \<Rightarrow> string list \<Rightarrow> 'a list \<Rightarrow> 'a list" where
  "outside f keys xs = filter (\<lambda>x. f x \<notin> set keys) xs"

definition own_voyages :: "string \<Rightarrow> DB \<Rightarrow> string list" where
  "own_voyages tenant db = map v_ID (filter (\<lambda>v. v_TenantID v = tenant) (t_voyages db))"

definition own_reservations :: "string \<Rightarrow> DB \<Rightarrow> string list" where
  "own_reservations tenant db = map r_ID (filter (\<lambda>r. r_TenantID r = tenant) (t_reservations db))"

lemma filter_replaced:
  "(\<And>x. x \<in> set xs \<Longrightarrow> Q x \<Longrightarrow> \<not> P x \<and> \<not> P (g x)) \<Longrightarrow> filter P (map (\<lambda>x. if Q x then g x else x) xs) = filter P xs"
  by (induction xs) auto

definition isolated :: "string \<Rightarrow> DB \<Rightarrow> DB \<Rightarrow> bool" where
  "isolated tenant db db' \<longleftrightarrow>
    others tenant v_TenantID (t_voyages db') = others tenant v_TenantID (t_voyages db) \<and>
    outside m_VoyageID (own_voyages tenant db') (t_manifests db') = outside m_VoyageID (own_voyages tenant db') (t_manifests db) \<and>
    outside i_VoyageID (own_voyages tenant db') (t_inspections db') = outside i_VoyageID (own_voyages tenant db') (t_inspections db) \<and>
    others tenant r_TenantID (t_reservations db') = others tenant r_TenantID (t_reservations db) \<and>
    outside mv_ReservationID (own_reservations tenant db') (t_movements db') =
      outside mv_ReservationID (own_reservations tenant db') (t_movements db) \<and>
    others tenant j_TenantID (t_jobs db') = others tenant j_TenantID (t_jobs db) \<and>
    (\<exists>e. t_audit db' = t_audit db @ [e] \<and> e_TenantID e = tenant)"

lemma audited_tenant:
  "audited stored c db db' \<Longrightarrow> e_TenantID c = tenant \<Longrightarrow> \<exists>e. t_audit db' = t_audit db @ [e] \<and> e_TenantID e = tenant"
  by (auto simp: audited_def dest: AppendD(5))

lemma voyage_rows_isolated:
  assumes "t_voyages db' = map (\<lambda>x. if v_ID x = v_ID v then voyage_row stored v u else x) (t_voyages db)"
    and "v \<in> set (t_voyages db)" and "v_TenantID v = tenant" and "distinct (map v_ID (t_voyages db))"
  shows "others tenant v_TenantID (t_voyages db') = others tenant v_TenantID (t_voyages db)"
    and "v_ID v \<in> set (own_voyages tenant db')"
proof -
  show "others tenant v_TenantID (t_voyages db') = others tenant v_TenantID (t_voyages db)"
    unfolding others_def assms(1)
    by (intro filter_replaced) (use distinct_key [OF assms(4) _ assms(2)] assms(3) in \<open>auto simp: voyage_row_def\<close>)
  have "voyage_row stored v u \<in> set (t_voyages db')" unfolding assms(1) using assms(2) by force
  moreover have "v_TenantID (voyage_row stored v u) = tenant" "v_ID (voyage_row stored v u) = v_ID v"
    using assms(3) by (simp_all add: voyage_row_def)
  ultimately show "v_ID v \<in> set (own_voyages tenant db')"
    unfolding own_voyages_def set_map set_filter by (intro image_eqI [of _ v_ID "voyage_row stored v u"]) simp_all
qed

lemma isolated_step:
  assumes "keys_inv db" and "db_step stored actor t db db'"
  shows "isolated (u_TenantID actor) db db'"
proof -
  have distinct: "distinct (map v_ID (t_voyages db))" "distinct (map i_ID (t_inspections db))"
      "distinct (map r_ID (t_reservations db))"
    using assms(1) by (simp_all add: keys_inv_def)
  from assms(2) show ?thesis
  proof cases
    case (step_declare q v)
    from DeclareVoyage_effect [OF this(2)] obtain m j c where
      built: "BuildManifest (v_ID v) (dr_Items q) = Inr m" and tenant: "v_TenantID v = u_TenantID actor" and
      db': "t_voyages db' = t_voyages db @ [stored_voyage stored v]" "t_manifests db' = t_manifests db @ [m]"
        "t_inspections db' = t_inspections db" "t_reservations db' = t_reservations db" "t_movements db' = t_movements db"
        "t_jobs db' = t_jobs db @ [j]" and
      j: "j_TenantID j = v_TenantID v" and c: "audited stored c db db'" "e_TenantID c = u_TenantID actor"
      by blast
    from built have "m_VoyageID m = v_ID v" by (simp add: BuildManifest_Inr_iff)
    with audited_tenant [OF c] tenant j show ?thesis
      by (simp add: isolated_def db' others_def outside_def own_voyages_def stored_voyage_def)
  next
    case (step_open iid vid kind iv)
    from OpenInspection_effect [OF this distinct(1)] obtain v i u c where
      v: "v \<in> set (t_voyages db)" "v_TenantID v = u_TenantID actor" and i: "i_VoyageID i = v_ID v" and
      rows: "t_voyages db' = map (\<lambda>x. if v_ID x = v_ID v then voyage_row stored v u else x) (t_voyages db)" and
      db': "t_inspections db' = t_inspections db @ [stored_inspection stored i]" "t_manifests db' = t_manifests db"
        "t_reservations db' = t_reservations db" "t_movements db' = t_movements db" "t_jobs db' = t_jobs db" and
      c: "audited stored c db db'" "e_TenantID c = u_TenantID actor" by blast
    from voyage_rows_isolated [OF rows v distinct(1)] audited_tenant [OF c] i show ?thesis
      by (simp add: isolated_def db' outside_def stored_inspection_def)
  next
    case (step_release iid finding w)
    from PassInspection_effect [OF this distinct(1)] obtain v i k u job c where
      v: "v \<in> set (t_voyages db)" "v_TenantID v = u_TenantID actor" and
      i: "i \<in> set (t_inspections db)" "i_VoyageID i = v_ID v" "i_ID i = iid" "i_ID k = iid" and
      rows: "t_voyages db' = map (\<lambda>x. if v_ID x = v_ID v then voyage_row stored v u else x) (t_voyages db)" and
      db': "t_inspections db' = t_inspections (update_inspection stored k db)" "t_manifests db' = t_manifests db"
        "t_reservations db' = t_reservations db" "t_movements db' = t_movements db" "t_jobs db' = t_jobs db @ [job]" and
      job: "j_TenantID job = v_TenantID v" and c: "audited stored c db db'" "e_TenantID c = u_TenantID actor" by blast
    note voyages = voyage_rows_isolated [OF rows v distinct(1)]
    have "x = i" if "x \<in> set (t_inspections db)" "i_ID x = iid" for x
      using distinct_key [OF distinct(2) that(1) i(1)] that(2) i(3) by simp
    then have "outside i_VoyageID (own_voyages (u_TenantID actor) db') (t_inspections db') =
        outside i_VoyageID (own_voyages (u_TenantID actor) db') (t_inspections db)"
      unfolding outside_def db'(1)
      by (simp add: update_inspection_def, intro filter_replaced) (use i voyages(2) in auto)
    with voyages(1) audited_tenant [OF c] job v show ?thesis
      by (simp add: isolated_def db'(2-) others_def)
  next
    case (step_reserve rid vid ch s e len beam draft r)
    from ReservePassage_effect [OF this distinct(1)] obtain v u c where
      v: "v \<in> set (t_voyages db)" "v_TenantID v = u_TenantID actor" and r: "r_TenantID r = v_TenantID v" and
      rows: "t_voyages db' = map (\<lambda>x. if v_ID x = v_ID v then voyage_row stored v u else x) (t_voyages db)" and
      db': "t_reservations db' = t_reservations db @ [stored_reservation stored r]" "t_inspections db' = t_inspections db"
        "t_manifests db' = t_manifests db" "t_movements db' = t_movements db" "t_jobs db' = t_jobs db" and
      c: "audited stored c db db'" "e_TenantID c = u_TenantID actor" by blast
    from voyage_rows_isolated(1) [OF rows v distinct(1)] audited_tenant [OF c] r v(2) show ?thesis
      by (simp add: isolated_def db' others_def stored_reservation_def)
  next
    case (step_move rid st remark q)
    from MovePassage_effect [OF this distinct(3)] obtain r m c where
      r: "r \<in> set (t_reservations db)" "r_TenantID r = u_TenantID actor" and
      m: "BuildMovement r st t (u_ID actor) remark = Inr (m, q)" and
      rows: "t_reservations db' = map (\<lambda>x. if r_ID x = r_ID r then q else x) (t_reservations db)" and
      db': "t_movements db' = t_movements db @ [m\<lparr>mv_OccurredAt := stored (mv_OccurredAt m)\<rparr>]" "t_voyages db' = t_voyages db"
        "t_manifests db' = t_manifests db" "t_inspections db' = t_inspections db" "t_jobs db' = t_jobs db" and
      c: "audited stored c db db'" "e_TenantID c = u_TenantID actor" by blast
    from BuildMovementD [OF m] have q: "r_ID q = r_ID r" "r_TenantID q = r_TenantID r" "mv_ReservationID m = r_ID r" by simp_all
    have "others (u_TenantID actor) r_TenantID (t_reservations db') = others (u_TenantID actor) r_TenantID (t_reservations db)"
      unfolding others_def rows
      by (intro filter_replaced) (use distinct_key [OF distinct(3) _ r(1)] r(2) q in auto)
    moreover have "q \<in> set (t_reservations db')" unfolding rows using r(1) by force
    then have "r_ID r \<in> set (own_reservations (u_TenantID actor) db')"
      using q r(2) unfolding own_reservations_def set_map set_filter
      by (intro image_eqI [of _ r_ID q]) simp_all
    ultimately show ?thesis
      using audited_tenant [OF c] q(3) by (simp add: isolated_def db' outside_def)
  qed
qed

text \<open>A consistent database with a reservation of each of two tenants, and the lock master of one.\<close>

definition example_operator :: User where
  "example_operator = example_user\<lparr>u_Role := RoleLock\<rparr>"

definition example_booked :: Reservation where
  "example_booked = \<lparr>r_ID = ''reservation-1'', r_VoyageID = ''voyage-1'', r_TenantID = ''panama-east'',
    r_ChamberID = ''gatun-1'', r_StartsAt = 9000, r_EndsAt = 9500,
    r_LengthM = Fin 200, r_BeamM = Fin 30, r_DraftM = Fin 10, r_Status = SlotConfirmed, r_Version = 2\<rparr>"

definition example_foreign :: Reservation where
  "example_foreign = example_booked\<lparr>r_ID := ''reservation-2'', r_VoyageID := ''voyage-2'', r_TenantID := ''panama-west'',
    r_StartsAt := 9500, r_EndsAt := 9900\<rparr>"

definition example_timetable :: DB where
  "example_timetable = empty_db\<lparr>t_voyages := [example_voyage\<lparr>v_Status := VoyageScheduled\<rparr>,
      example_voyage\<lparr>v_ID := ''voyage-2'', v_TenantID := ''panama-west'', v_Status := VoyageScheduled\<rparr>],
    t_reservations := [example_booked, example_foreign]\<rparr>"

lemma example_timetable_inv: "timetable_inv example_timetable"
proof -
  have "keys_inv example_timetable" unfolding keys_inv_def by code_simp
  moreover have "slots_inv example_timetable" unfolding slots_inv_def by code_simp
  moreover have "history_inv example_timetable"
    by (auto simp: history_inv_def history_ok_def movement_statuses_def example_timetable_def empty_db_def
      example_booked_def example_foreign_def)
  ultimately show ?thesis by (simp add: timetable_inv_def)
qed

lemma example_move:
  "\<exists>q db'. MovePassage (\<lambda>t. t) example_operator ''reservation-1'' SlotEntered 9000 ''in'' example_timetable = Inr (q, db') \<and>
    r_Status q = SlotEntered"
proof -
  let ?db = example_timetable and ?q = "advance example_booked SlotEntered"
  let ?m = "\<lparr>mv_ReservationID = ''reservation-1'', mv_Status = SlotEntered, mv_OccurredAt = 9000, mv_OperatorID = ''user-1'',
    mv_Note = ''in''\<rparr>"
  have 1: "getReservationTx (u_TenantID example_operator) ''reservation-1'' ?db = Inr example_booked" by code_simp
  have 2: "BuildMovement example_booked SlotEntered 9000 (u_ID example_operator) ''in'' = Inr (?m, ?q)" by code_simp
  have "\<exists>db1. update_reservation ?q (r_Version example_booked) ?db = Inr db1 \<and> t_movements db1 = [] \<and> t_audit db1 = [] \<and>
      ''reservation-1'' \<in> r_ID ` set (t_reservations db1)"
    by (simp add: update_reservation_def example_timetable_def empty_db_def example_booked_def example_foreign_def)
  then obtain db1 where 3: "update_reservation ?q (r_Version example_booked) ?db = Inr db1"
      and db1: "t_movements db1 = []" "t_audit db1 = []" "''reservation-1'' \<in> r_ID ` set (t_reservations db1)" by blast
  then obtain db2 where 4: "insert_movement (\<lambda>t. t) ?m db1 = Inr db2" and db2: "t_audit db2 = []"
    by (simp add: insert_movement_def)
  have "last_event tenant db2 = zero_event" for tenant by (simp add: last_event_def db2)
  then have "\<exists>e. Append (last_event tenant db2) (audit_entry (''audit-passage-'' @ SlotEntered @ ''-'' @ r_ID example_booked)
      (u_TenantID example_operator) (u_ID example_operator) (''passage.'' @ SlotEntered) ''passage_reservation''
      (r_ID example_booked) [(''note'', ''in'')] 9000) = Inr e" for tenant
    by (simp add: Append_def Let_def audit_entry_def zero_event_def example_operator_def example_user_def example_booked_def)
  then obtain db3 where 5: "appendAuditTx (\<lambda>t. t) (audit_entry (''audit-passage-'' @ SlotEntered @ ''-'' @ r_ID example_booked)
      (u_TenantID example_operator) (u_ID example_operator) (''passage.'' @ SlotEntered) ''passage_reservation''
      (r_ID example_booked) [(''note'', ''in'')] 9000) db2 = Inr db3"
    by (auto simp: appendAuditTx_def insert_audit_def db2) (metis bindR.simps(2))
  have "u_Role example_operator = RoleLock" by (simp add: example_operator_def)
  then show ?thesis unfolding MovePassage_def using 1 2 3 4 5 by (auto simp: example_booked_def)
qed

section \<open>Properties\<close>

lemma linked_verifies:
  assumes "linked [] 0 (tenant_events tenant db)" and "int (length (t_audit db)) \<le> max_int64"
  shows "VerifyAuditChain tenant db = Inr ()"
proof -
  have "sort_slice (lex2 e_Sequence e_ID) (tenant_events tenant db) = tenant_events tenant db"
  proof (intro sort_slice_ordered)
    have "ordered_by (by_key e_Sequence) (tenant_events tenant db)" "distinct (map e_Sequence (tenant_events tenant db))"
      using assms(1) linked_ordered linked_distinct by blast+
    then show "ordered_by (lex2 e_Sequence e_ID) (tenant_events tenant db)"
      by (auto simp: sorted_wrt_iff_nth_less by_key_def lex2_def distinct_conv_nth)
  qed
  moreover have "length (tenant_events tenant db) \<le> length (t_audit db)" by (simp add: tenant_events_def)
  then have "int (length (tenant_events tenant db)) \<le> max_int64" using assms(2) by linarith
  ultimately show ?thesis using Verify_linked [OF _ assms(1)] unfolding VerifyAuditChain_def tenant_events_def by simp
qed



text \<open>
  C2: Clearance is earned and recorded: in every database that committed transactions produce, a
  cleared or scheduled voyage has at least one inspection and only passed ones, its manifest is stored
  under the hash it carries, and the outbox holds both its declaration and its release; a voyage that
  is only declared or held has its manifest and the message of its declaration.
\<close>

theorem cleared_voyages_were_inspected:
  assumes "reach stored P db" and "v \<in> set (t_voyages db)"
  shows "v_Status v \<in> {VoyageDeclared, VoyageHeld, VoyageCleared, VoyageScheduled} \<and>
    (\<exists>m\<in>set (t_manifests db). m_VoyageID m = v_ID v \<and> m_Hash m = v_ManifestHash v) \<and>
    has_job db (''outbox-declare-'' @ v_ID v) ''voyage.declared'' \<and>
    (v_Status v \<in> {VoyageCleared, VoyageScheduled} \<longrightarrow> passed_inspections db (v_ID v) \<and>
      has_job db (''outbox-release-'' @ v_ID v) ''voyage.released'')"
  using reach_inv [OF assms(1)] voyages_invD [OF _ assms(2)] unfolding voyage_inv_def by blast+

theorem cleared_voyages_were_inspected_witness:
  "\<exists>v db. store_DeclareVoyage (\<lambda>t. t) example_user example_request empty_db = Inr (v, db) \<and>
    has_job db (''outbox-declare-'' @ v_ID v) ''voyage.declared''"
proof -
  obtain v db where db: "reach (\<lambda>t. t) (\<lambda>_. True) db" "store_DeclareVoyage (\<lambda>t. t) example_user example_request empty_db = Inr (v, db)"
      "v \<in> set (t_voyages db)"
    by (rule example_reach [of "\<lambda>_. True" "\<lambda>t. t"]) (simp, blast)
  from cleared_voyages_were_inspected [OF db(1,3), THEN conjunct2, THEN conjunct2, THEN conjunct1] db(2) show ?thesis by blast
qed

text \<open>
  C3: The timetable in the database stays consistent. Every transaction that commits on a consistent
  database leaves a consistent one, and the empty database is consistent; and in a consistent database no
  two reservations of a chamber that are not cancelled overlap, a voyage has at most one reservation,
  which belongs to its tenant and whose voyage is scheduled, and the movements recorded for a
  reservation are exactly those its state implies: none, an entry, an entry and an exit, or a
  cancellation.
\<close>

theorem stored_timetable_is_consistent:
  assumes "timetable_inv db" and "db_step stored actor t db db'"
  shows "timetable_inv empty_db \<and>
    timetable_inv db' \<and>
    (\<forall>r q. r \<in> set (t_reservations db') \<longrightarrow> q \<in> set (t_reservations db') \<longrightarrow> q \<noteq> r \<longrightarrow> \<not> excluded q r \<and> r_VoyageID q \<noteq> r_VoyageID r) \<and>
    (\<forall>r. r \<in> set (t_reservations db') \<longrightarrow>
      (\<exists>v\<in>set (t_voyages db'). v_ID v = r_VoyageID r \<and> v_TenantID v = r_TenantID r \<and> v_Status v = VoyageScheduled)) \<and>
    (\<forall>r. r \<in> set (t_reservations db') \<longrightarrow> history_ok (movement_statuses db' (r_ID r)) (r_Status r))"
proof (rule conj5I; (intro allI impI)?)
  show "timetable_inv empty_db"
    by (simp add: timetable_inv_def keys_inv_def slots_inv_def history_inv_def empty_db_def)
  show "timetable_inv db'"
    using assms keys_inv_step slots_inv_step history_inv_step unfolding timetable_inv_def by blast
  then have inv: "slots_inv db'" "history_inv db'" by (simp_all add: timetable_inv_def)
  fix r assume r: "r \<in> set (t_reservations db')"
  then show "\<exists>v\<in>set (t_voyages db'). v_ID v = r_VoyageID r \<and> v_TenantID v = r_TenantID r \<and> v_Status v = VoyageScheduled"
    using inv(1) unfolding slots_inv_def by blast
  from r inv(2) show "history_ok (movement_statuses db' (r_ID r)) (r_Status r)" unfolding history_inv_def by blast
  fix q assume "q \<in> set (t_reservations db')" "q \<noteq> r"
  with r inv(1) show "\<not> excluded q r \<and> r_VoyageID q \<noteq> r_VoyageID r" by (intro slots_inv_pair)
qed

theorem stored_timetable_is_consistent_witness:
  "\<exists>q db'. MovePassage (\<lambda>t. t) example_operator ''reservation-1'' SlotEntered 9000 ''in'' example_timetable = Inr (q, db') \<and>
    movement_statuses example_timetable ''reservation-1'' = [] \<and> r_Status q = SlotEntered \<and> timetable_inv db'"
proof -
  obtain q db' where run: "MovePassage (\<lambda>t. t) example_operator ''reservation-1'' SlotEntered 9000 ''in'' example_timetable
      = Inr (q, db')" "r_Status q = SlotEntered"
    using example_move by blast
  from stored_timetable_is_consistent [OF example_timetable_inv db_step.step_move [OF run(1)]] run show ?thesis
    by (auto simp: movement_statuses_def example_timetable_def empty_db_def)
qed

text \<open>
  C4: Tenants are isolated: a transaction that commits leaves every row of another tenant as it was,
  voyages with their manifests and inspections, reservations with their movements, audit events and
  outbox messages, and it adds exactly one audit event, of the tenant of the user who made it.
\<close>

theorem tenant_isolation:
  assumes "keys_inv db" and "db_step stored actor t db db'"
  shows "others (u_TenantID actor) v_TenantID (t_voyages db') = others (u_TenantID actor) v_TenantID (t_voyages db) \<and>
    outside m_VoyageID (own_voyages (u_TenantID actor) db') (t_manifests db') =
      outside m_VoyageID (own_voyages (u_TenantID actor) db') (t_manifests db) \<and>
    outside i_VoyageID (own_voyages (u_TenantID actor) db') (t_inspections db') =
      outside i_VoyageID (own_voyages (u_TenantID actor) db') (t_inspections db) \<and>
    others (u_TenantID actor) r_TenantID (t_reservations db') = others (u_TenantID actor) r_TenantID (t_reservations db) \<and>
    outside mv_ReservationID (own_reservations (u_TenantID actor) db') (t_movements db') =
      outside mv_ReservationID (own_reservations (u_TenantID actor) db') (t_movements db) \<and>
    others (u_TenantID actor) j_TenantID (t_jobs db') = others (u_TenantID actor) j_TenantID (t_jobs db) \<and>
    (\<exists>e. t_audit db' = t_audit db @ [e] \<and> e_TenantID e = u_TenantID actor)"
  using isolated_step [OF assms] unfolding isolated_def by blast+

theorem tenant_isolation_witness:
  "\<exists>q db'. MovePassage (\<lambda>t. t) example_operator ''reservation-1'' SlotEntered 9000 ''in'' example_timetable = Inr (q, db') \<and>
    others ''panama-east'' r_TenantID (t_reservations db') = [example_foreign] \<and> length (t_audit db') = 1"
proof -
  obtain q db' where run: "MovePassage (\<lambda>t. t) example_operator ''reservation-1'' SlotEntered 9000 ''in'' example_timetable
      = Inr (q, db')"
    using example_move by blast
  have "keys_inv example_timetable" using example_timetable_inv by (simp add: timetable_inv_def)
  note step = tenant_isolation [OF this db_step.step_move [OF run]]
  have "others ''panama-east'' r_TenantID (t_reservations example_timetable) = [example_foreign]"
    by code_simp
  with step run show ?thesis
    by (auto simp: example_operator_def example_user_def example_timetable_def empty_db_def)
qed

end
