(* ===== verification/Timeline.thy ===== *)
theory Timeline
  imports Voyage
begin

text \<open>
  \<^verbatim>\<open>internal/clearance/timeline.go\<close>: the history of a voyage. The loop of
  \<^verbatim>\<open>ReconstructTimeline\<close> is \<open>append_all\<close>, the search of \<^verbatim>\<open>TimelineDuration\<close>
  is \<open>duration_loop\<close> with the variable \<^verbatim>\<open>started\<close> (zero while unset) as an argument.

  \<open>grown t\<close> is the specification of a timeline: a draft origin, extended by appends.
  \<open>timeline_inv\<close> is what every such timeline satisfies, and reconstruction from its events, in any
  order, gives it back.
\<close>

record VoyageEvent =
  ve_ID :: string
  ve_VoyageID :: string
  ve_Status :: VoyageStatus
  ve_OccurredAt :: Time
  ve_ActorID :: string
  ve_Reason :: string
  ve_Version :: int

record Timeline =
  tl_VoyageID :: string
  tl_Events :: "VoyageEvent list"
  tl_Current :: VoyageStatus
  tl_Version :: int

definition NewTimeline :: "Voyage \<Rightarrow> string \<Rightarrow> Time \<Rightarrow> Timeline result" where
  "NewTimeline voyage actorID t =
    (if v_ID voyage = [] \<or> actorID = [] \<or> t = 0 \<or> v_Version voyage < 1
     then Inl (errorf ErrInvalid ''voyage timeline'')
     else let event = \<lparr>ve_ID = v_ID voyage @ ''-1'', ve_VoyageID = v_ID voyage, ve_Status = v_Status voyage,
         ve_OccurredAt = t, ve_ActorID = actorID, ve_Reason = ''voyage created'', ve_Version = 1\<rparr>
       in Inr \<lparr>tl_VoyageID = v_ID voyage, tl_Events = [event], tl_Current = v_Status voyage, tl_Version = 1\<rparr>)"

text \<open>The voyage \<^verbatim>\<open>probe\<close>: all fields zero but the status and the version.\<close>

definition probe_voyage :: "VoyageStatus \<Rightarrow> int \<Rightarrow> Voyage" where
  "probe_voyage s n = \<lparr>v_ID = [], v_TenantID = [], v_VesselIMO = [], v_VesselName = [], v_OriginPort = [],
    v_DestinationPort = [], v_ETA = 0, v_Status = s, v_ManifestHash = [], v_DeclaredAt = None,
    v_ClearedAt = None, v_Version = n\<rparr>"

definition AppendTimeline :: "Timeline \<Rightarrow> VoyageEvent \<Rightarrow> int \<Rightarrow> Timeline result" where
  "AppendTimeline timeline event expectedVersion =
    (if tl_VoyageID timeline = [] \<or> tl_Version timeline \<noteq> expectedVersion \<or>
        ve_VoyageID event \<noteq> tl_VoyageID timeline \<or> ve_ID event = [] \<or> ve_ActorID event = [] \<or>
        ve_OccurredAt event = 0
     then Inl (errorf ErrConflict ''timeline event'')
     else if tl_Events timeline = [] then Inl (errorf ErrState ''empty timeline'')
     else if ve_OccurredAt event < ve_OccurredAt (last (tl_Events timeline)) \<or>
        ve_Version event \<noteq> inc64 (tl_Version timeline)
     then Inl (errorf ErrConflict ''timeline ordering'')
     else bindR (Transition (probe_voyage (tl_Current timeline) (tl_Version timeline)) (ve_Status event)
         (ve_OccurredAt event))
       (\<lambda>_. Inr (timeline\<lparr>tl_Events := tl_Events timeline @ [event], tl_Current := ve_Status event,
         tl_Version := inc64 (tl_Version timeline)\<rparr>)))"

fun append_all :: "Timeline \<Rightarrow> VoyageEvent list \<Rightarrow> Timeline result" where
  "append_all timeline [] = Inr timeline"
| "append_all timeline (event # rest) =
    bindR (AppendTimeline timeline event (tl_Version timeline)) (\<lambda>updated. append_all updated rest)"

abbreviation event_less :: "VoyageEvent \<Rightarrow> VoyageEvent \<Rightarrow> bool" where
  "event_less \<equiv> lex2 ve_Version ve_ID"

definition origin_timeline :: "VoyageEvent \<Rightarrow> Timeline" where
  "origin_timeline first = \<lparr>tl_VoyageID = ve_VoyageID first, tl_Events = [first],
    tl_Current = ve_Status first, tl_Version = 1\<rparr>"

definition ReconstructTimeline :: "string \<Rightarrow> VoyageEvent list \<Rightarrow> Timeline result" where
  "ReconstructTimeline voyageID events =
    (if voyageID = [] \<or> events = [] then Inl (errorf ErrInvalid ''timeline events'')
     else case sort_slice event_less events of
       [] \<Rightarrow> Inl (errorf ErrInvalid ''timeline events'')
     | first # rest \<Rightarrow>
         (if ve_VoyageID first \<noteq> voyageID \<or> ve_Version first \<noteq> 1 \<or> ve_Status first \<noteq> VoyageDraft
          then Inl (errorf ErrConflict ''timeline origin'')
          else append_all (origin_timeline first) rest))"

fun duration_loop :: "VoyageStatus \<Rightarrow> VoyageStatus \<Rightarrow> Time \<Rightarrow> VoyageEvent list \<Rightarrow> Duration result" where
  "duration_loop from_status to_status started [] = Inl (errorf ErrNotFound ''timeline milestones'')"
| "duration_loop from_status to_status started (event # rest) =
    (if ve_Status event = from_status \<and> started = 0
     then duration_loop from_status to_status (ve_OccurredAt event) rest
     else if started \<noteq> 0 \<and> ve_Status event = to_status then Inr (time_sub (ve_OccurredAt event) started)
     else duration_loop from_status to_status started rest)"

definition TimelineDuration :: "Timeline \<Rightarrow> VoyageStatus \<Rightarrow> VoyageStatus \<Rightarrow> Duration result" where
  "TimelineDuration timeline from_status to_status = duration_loop from_status to_status 0 (tl_Events timeline)"

section \<open>Specification\<close>

inductive grown :: "Timeline \<Rightarrow> bool" where
  grown_origin: "ve_VoyageID e \<noteq> [] \<Longrightarrow> ve_Version e = 1 \<Longrightarrow> ve_Status e = VoyageDraft \<Longrightarrow>
    grown (origin_timeline e)"
| grown_append: "grown t \<Longrightarrow> AppendTimeline t e n = Inr u \<Longrightarrow> grown u"

fun path_from :: "VoyageStatus \<Rightarrow> VoyageStatus list \<Rightarrow> bool" where
  "path_from s [] = True"
| "path_from s (u # us) = (u \<in> set (allowed_next s) \<and> path_from u us)"

definition timeline_inv :: "Timeline \<Rightarrow> bool" where
  "timeline_inv t \<longleftrightarrow>
    tl_VoyageID t \<noteq> [] \<and> tl_Events t \<noteq> [] \<and> tl_Version t = int (length (tl_Events t)) \<and>
    tl_Current t = ve_Status (last (tl_Events t)) \<and> ve_Status (hd (tl_Events t)) = VoyageDraft \<and>
    map ve_Version (tl_Events t) = map (\<lambda>i. int i + 1) [0..<length (tl_Events t)] \<and>
    length (tl_Events t) + steps_left (tl_Current t) \<le> 7 \<and>
    path_from VoyageDraft (map ve_Status (tl (tl_Events t))) \<and>
    sorted (map ve_OccurredAt (tl_Events t)) \<and>
    (\<forall>e\<in>set (tl_Events t). ve_VoyageID e = tl_VoyageID t) \<and>
    (\<forall>e\<in>set (tl (tl_Events t)). ve_OccurredAt e \<noteq> 0)"

lemma path_from_append: "path_from s (us @ ws) \<longleftrightarrow> path_from s us \<and> path_from (last (s # us)) ws"
  by (induction us arbitrary: s) auto

lemma AppendTimelineD [result_elims]:
  "AppendTimeline t e n = Inr u \<Longrightarrow>
    n = tl_Version t \<and> tl_VoyageID t \<noteq> [] \<and> ve_VoyageID e = tl_VoyageID t \<and> ve_OccurredAt e \<noteq> 0 \<and> tl_Events t \<noteq> [] \<and>
    ve_OccurredAt (last (tl_Events t)) \<le> ve_OccurredAt e \<and> ve_Version e = inc64 (tl_Version t) \<and>
    ve_Status e \<in> set (allowed_next (tl_Current t)) \<and>
    u = t\<lparr>tl_Events := tl_Events t @ [e], tl_Current := ve_Status e, tl_Version := inc64 (tl_Version t)\<rparr>"
  by (auto simp: AppendTimeline_def bindR_Inr_iff probe_voyage_def dest!: TransitionD split: if_splits)

lemma sorted_snoc: "xs \<noteq> [] \<Longrightarrow> sorted xs \<Longrightarrow> last xs \<le> (x :: int) \<Longrightarrow> sorted (xs @ [x])"
  by (induction xs rule: rev_induct) (auto simp: sorted_append intro: order_trans)

lemma timeline_inv_append:
  assumes "timeline_inv t" and "AppendTimeline t e n = Inr u"
  shows "timeline_inv u"
proof -
  let ?es = "tl_Events t"
  from AppendTimelineD [OF assms(2)] have e: "ve_VoyageID e = tl_VoyageID t" "ve_OccurredAt e \<noteq> 0"
      "ve_OccurredAt (last ?es) \<le> ve_OccurredAt e" "ve_Version e = inc64 (tl_Version t)"
      "ve_Status e \<in> set (allowed_next (tl_Current t))" and u: "tl_Events u = ?es @ [e]" "tl_Current u = ve_Status e"
      "tl_Version u = inc64 (tl_Version t)" "tl_VoyageID u = tl_VoyageID t" by simp_all
  from assms(1) have ne: "?es \<noteq> []" and len: "length ?es + steps_left (tl_Current t) \<le> 7"
    and version: "tl_Version t = int (length ?es)" by (auto simp: timeline_inv_def)
  from len version have next_version: "inc64 (tl_Version t) = int (length ?es) + 1"
    by (auto intro!: inc64_id simp: in_int64_def min_int64_def max_int64_def)
  have "Suc (length ?es) + steps_left (ve_Status e) \<le> 7"
    using allowed_next_descends [OF e(5)] len by linarith
  moreover have "path_from VoyageDraft (map ve_Status (tl ?es) @ [ve_Status e])"
  proof -
    have "last (VoyageDraft # map ve_Status (tl ?es)) = tl_Current t"
      using assms(1) by (cases ?es) (auto simp: timeline_inv_def last_map)
    then show ?thesis using assms(1) e(5) by (simp add: path_from_append timeline_inv_def)
  qed
  moreover have "sorted (map ve_OccurredAt ?es @ [ve_OccurredAt e])"
    using assms(1) ne e(3) by (intro sorted_snoc) (auto simp: timeline_inv_def last_map)
  ultimately show ?thesis
    using assms(1) ne e u next_version unfolding timeline_inv_def by simp
qed

lemma grown_inv: "grown t \<Longrightarrow> timeline_inv t"
proof (induction rule: grown.induct)
  case (grown_origin e)
  then show ?case by (simp add: origin_timeline_def timeline_inv_def steps_left_def)
qed (rule timeline_inv_append)

section \<open>Reconstruction\<close>

lemma append_all_append:
  "append_all t (xs @ ys) = bindR (append_all t xs) (\<lambda>u. append_all u ys)"
proof (induction xs arbitrary: t)
  case (Cons x xs)
  then show ?case by (cases "AppendTimeline t x (tl_Version t)") simp_all
qed simp

lemma append_all_grown:
  "grown t \<Longrightarrow> append_all t es = Inr u \<Longrightarrow> grown u \<and> tl_Events u = tl_Events t @ es \<and> tl_VoyageID u = tl_VoyageID t"
proof (induction es arbitrary: t)
  case (Cons e es)
  from Cons.prems(2) obtain v where v: "AppendTimeline t e (tl_Version t) = Inr v" "append_all v es = Inr u"
    by (auto elim: bindR_Inr_E)
  have "grown v" by (rule grown_append [OF Cons.prems(1) v(1)])
  with Cons.IH v(2) AppendTimelineD [OF v(1)] show ?case by simp
qed simp

lemma grown_replay: "grown t \<Longrightarrow> append_all (origin_timeline (hd (tl_Events t))) (tl (tl_Events t)) = Inr t"
proof (induction rule: grown.induct)
  case (grown_append t e n u)
  from AppendTimelineD [OF grown_append.hyps(2)] have "n = tl_Version t" "tl_Events u = tl_Events t @ [e]"
      "tl_Events t \<noteq> []" by simp_all
  with grown_append show ?case by (simp add: append_all_append)
qed (simp add: origin_timeline_def)

lemma grown_first:
  "grown t \<Longrightarrow> tl_VoyageID t \<noteq> [] \<and> ve_VoyageID (hd (tl_Events t)) = tl_VoyageID t \<and>
    ve_Version (hd (tl_Events t)) = 1 \<and> ve_Status (hd (tl_Events t)) = VoyageDraft"
proof (induction rule: grown.induct)
  case (grown_append t e n u)
  with AppendTimelineD [OF grown_append.hyps(2)] show ?case by simp
qed (simp add: origin_timeline_def)

lemma versions_ordered:
  assumes "map ve_Version es = map (\<lambda>i. int i + 1) [0..<length es]"
  shows "ordered_by event_less es" and "inj_on ve_Version (set es)"
proof -
  have version: "ve_Version (es ! i) = int i + 1" if "i < length es" for i
    using arg_cong [OF assms, of "\<lambda>xs. xs ! i"] that by simp
  then show "ordered_by event_less es"
    by (auto simp: lex2_def sorted_wrt_iff_nth_less)
  have "distinct (map ve_Version es)" unfolding assms by (simp add: distinct_map inj_on_def)
  then show "inj_on ve_Version (set es)" by (simp add: distinct_map)
qed

lemma grown_sort:
  assumes "grown t" and "mset es = mset (tl_Events t)"
  shows "sort_slice event_less es = tl_Events t"
proof -
  from grown_inv [OF assms(1)]
  have "map ve_Version (tl_Events t) = map (\<lambda>i. int i + 1) [0..<length (tl_Events t)]"
    by (simp add: timeline_inv_def)
  note ordered = versions_ordered [OF this]
  have "inj_on (\<lambda>e. (ve_Version e, ve_ID e)) (set (tl_Events t))"
    using ordered(2) by (auto simp: inj_on_def)
  then have "sort_slice event_less es = sort_slice event_less (tl_Events t)"
    by (rule sort_slice_lex2_perm [OF assms(2)])
  with sort_slice_ordered [OF ordered(1)] show ?thesis by simp
qed

text \<open>
  Reconstruction is exact. It returns a timeline exactly when some ordering of the events is the
  history of one (a draft origin of that voyage followed by events AppendTimeline accepts), and then
  it returns that timeline, in whatever order the events are handed over.
\<close>

theorem ReconstructTimeline_iff:
  "ReconstructTimeline vid es = Inr t \<longleftrightarrow> grown t \<and> tl_VoyageID t = vid \<and> mset (tl_Events t) = mset es"
proof
  assume ok: "ReconstructTimeline vid es = Inr t"
  then obtain first rest where sorted: "sort_slice event_less es = first # rest" and "vid \<noteq> []"
    and first: "ve_VoyageID first = vid" "ve_Version first = 1" "ve_Status first = VoyageDraft"
    and rest: "append_all (origin_timeline first) rest = Inr t"
    by (auto simp: ReconstructTimeline_def split: if_splits list.splits)
  have "grown (origin_timeline first)" using first \<open>vid \<noteq> []\<close> by (intro grown_origin) simp_all
  from append_all_grown [OF this rest] have "grown t" "tl_Events t = first # rest" "tl_VoyageID t = vid"
    using first by (simp_all add: origin_timeline_def)
  moreover have "mset es = mset (first # rest)" using sorted by (metis mset_sort_slice)
  ultimately show "grown t \<and> tl_VoyageID t = vid \<and> mset (tl_Events t) = mset es" by simp
next
  assume t: "grown t \<and> tl_VoyageID t = vid \<and> mset (tl_Events t) = mset es"
  then have "sort_slice event_less es = tl_Events t" by (intro grown_sort) simp_all
  moreover from t have "tl_Events t \<noteq> []" using grown_inv by (auto simp: timeline_inv_def)
  moreover from this t have "es \<noteq> []" by auto
  ultimately show "ReconstructTimeline vid es = Inr t"
    using t grown_first [of t] grown_replay [of t]
    by (cases "tl_Events t") (auto simp: ReconstructTimeline_def)
qed

lemma timeline_of_events: "ReconstructTimeline vid es = Inr t \<Longrightarrow> timeline_inv t \<and> tl_VoyageID t = vid"
proof -
  assume ok: "ReconstructTimeline vid es = Inr t"
  then obtain first rest where "vid \<noteq> []"
    and first: "ve_VoyageID first = vid" "ve_Version first = 1" "ve_Status first = VoyageDraft"
    and rest: "append_all (origin_timeline first) rest = Inr t"
    by (auto simp: ReconstructTimeline_def split: if_splits list.splits)
  have "grown (origin_timeline first)" using first \<open>vid \<noteq> []\<close> by (intro grown_origin) simp_all
  from append_all_grown [OF this rest] show ?thesis
    using first by (simp add: grown_inv origin_timeline_def)
qed

text \<open>
  A reconstructed timeline has at most seven events, numbered 1, 2, 3, ..., all of its voyage, in
  order of time; their statuses start at draft and follow the table of transitions, and the current
  status is the last one's.
\<close>

theorem reconstructed_timeline:
  assumes "ReconstructTimeline vid es = Inr t"
  shows "length (tl_Events t) \<le> 7 \<and>
    sorted (map ve_OccurredAt (tl_Events t)) \<and>
    map ve_Version (tl_Events t) = map (\<lambda>i. int i + 1) [0..<length (tl_Events t)] \<and>
    list_all (\<lambda>e. ve_VoyageID e = vid) (tl_Events t) \<and>
    (ve_Status (hd (tl_Events t)) = VoyageDraft \<and> path_from VoyageDraft (map ve_Status (tl (tl_Events t)))) \<and>
    (tl_Current t = ve_Status (last (tl_Events t)) \<and> tl_Version t = int (length (tl_Events t)))"
proof (rule conj6I; (intro allI impI)?)
  from timeline_of_events [OF assms] have inv: "timeline_inv t" and vid: "tl_VoyageID t = vid" by simp_all
  then have "length (tl_Events t) + steps_left (tl_Current t) \<le> 7" unfolding timeline_inv_def by blast
  then show "length (tl_Events t) \<le> 7" by simp
  show "list_all (\<lambda>e. ve_VoyageID e = vid) (tl_Events t)"
    using inv vid by (simp add: timeline_inv_def list_all_iff)
qed (use timeline_of_events [OF assms] in \<open>auto simp: timeline_inv_def\<close>)

definition example_history :: "VoyageEvent list" where
  "example_history =
    [\<lparr>ve_ID = ''v-2'', ve_VoyageID = ''v'', ve_Status = VoyageDeclared, ve_OccurredAt = 20, ve_ActorID = ''ops'',
      ve_Reason = ''declared'', ve_Version = 2\<rparr>,
     \<lparr>ve_ID = ''v-1'', ve_VoyageID = ''v'', ve_Status = VoyageDraft, ve_OccurredAt = 10, ve_ActorID = ''ops'',
      ve_Reason = ''voyage created'', ve_Version = 1\<rparr>]"

lemma example_history_ok: "ReconstructTimeline ''v'' example_history =
    Inr \<lparr>tl_VoyageID = ''v'', tl_Events = rev example_history, tl_Current = VoyageDeclared, tl_Version = 2\<rparr>"
  by code_simp

theorem reconstructed_timeline_witness:
  "length (rev example_history) \<le> 7"
  using reconstructed_timeline [OF example_history_ok, THEN conjunct1] by simp

section \<open>Durations\<close>

lemma path_from_descends: "path_from s us \<Longrightarrow> u \<in> set us \<Longrightarrow> steps_left u < steps_left s"
  by (induction us arbitrary: s) (auto dest: allowed_next_descends intro: less_trans)

lemma path_from_distinct: "path_from s us \<Longrightarrow> distinct (s # us)"
proof (induction us arbitrary: s)
  case (Cons u us)
  then show ?case using path_from_descends [OF Cons.prems, of s] by auto
qed simp

lemma timeline_inv_distinct: "timeline_inv t \<Longrightarrow> distinct (map ve_Status (tl_Events t))"
  using path_from_distinct [of VoyageDraft "map ve_Status (tl (tl_Events t))"]
  by (cases "tl_Events t") (simp_all add: timeline_inv_def)

lemma duration_loop_started:
  "started \<noteq> 0 \<Longrightarrow> duration_loop from_status to_status started es =
    (case List.find (\<lambda>e. ve_Status e = to_status) es of
       None \<Rightarrow> Inl (errorf ErrNotFound ''timeline milestones'')
     | Some e \<Rightarrow> Inr (time_sub (ve_OccurredAt e) started))"
  by (induction es) simp_all

lemma duration_loop_search:
  "\<forall>e\<in>set xs. ve_Status e \<noteq> from_status \<Longrightarrow>
    duration_loop from_status to_status 0 (xs @ ys) = duration_loop from_status to_status 0 ys"
  by (induction xs) auto

text \<open>
  The duration between two milestones of a reconstructed timeline is the time between the event
  of the first status and that of the second, provided the first comes before the second (and is not
  at the zero time); it is never negative.
\<close>

theorem TimelineDuration_correct:
  assumes "ReconstructTimeline vid es = Inr t" and "tl_Events t = xs @ e # ys @ f # zs" and "ve_OccurredAt e \<noteq> 0"
  shows "TimelineDuration t (ve_Status e) (ve_Status f) = Inr (time_sub (ve_OccurredAt f) (ve_OccurredAt e)) \<and>
    0 \<le> time_sub (ve_OccurredAt f) (ve_OccurredAt e)"
proof (rule conjI; (intro allI impI)?)
  have "distinct (map ve_Status (tl_Events t))"
    using timeline_of_events [OF assms(1)] by (intro timeline_inv_distinct) simp
  then have "\<forall>x\<in>set xs. ve_Status x \<noteq> ve_Status e" and "\<forall>y\<in>set ys. ve_Status y \<noteq> ve_Status f"
    unfolding assms(2) by (auto simp: image_iff)
  moreover from this(2) have "List.find (\<lambda>x. ve_Status x = ve_Status f) (ys @ f # zs) = Some f"
    by (induction ys) auto
  ultimately show "TimelineDuration t (ve_Status e) (ve_Status f) =
      Inr (time_sub (ve_OccurredAt f) (ve_OccurredAt e))"
    using assms(2,3) by (simp add: TimelineDuration_def duration_loop_search duration_loop_started)
  have "sorted (map ve_OccurredAt (tl_Events t))" using timeline_of_events [OF assms(1)] by (simp add: timeline_inv_def)
  then have "ve_OccurredAt e \<le> ve_OccurredAt f" unfolding assms(2) by (auto simp: sorted_append)
  then show "0 \<le> time_sub (ve_OccurredAt f) (ve_OccurredAt e)"
    by (simp add: time_sub_def min_int64_def max_int64_def)
qed

theorem TimelineDuration_correct_witness:
  "TimelineDuration \<lparr>tl_VoyageID = ''v'', tl_Events = rev example_history, tl_Current = VoyageDeclared,
      tl_Version = 2\<rparr> VoyageDraft VoyageDeclared = Inr (time_sub 20 10)"
  using TimelineDuration_correct [OF example_history_ok, of "[]" "rev example_history ! 0" "[]"
      "rev example_history ! 1" "[]"]
  by (simp add: example_history_def)

end
