(* ===== verification/Passage_Queue.thy ===== *)
theory Passage_Queue
  imports Reservation "HOL-Library.Product_Lexorder"
begin

text \<open>
  \<^verbatim>\<open>internal/passage/queue.go\<close>: the queue in front of a lock. \<open>entry_less\<close> is the
  comparator of \<^verbatim>\<open>OrderQueue\<close>. On entries that \<^verbatim>\<open>ValidateQueueEntry\<close>
  accepts it is the order of \<open>queue_key\<close>, a tuple compared lexicographically, which is how the
  ordering is specified; the locale of comparators is interpreted on it for those entries.
\<close>

type_synonym Priority = string

abbreviation PriorityEmergency :: Priority where "PriorityEmergency \<equiv> ''emergency''"
abbreviation PriorityPerishable :: Priority where "PriorityPerishable \<equiv> ''perishable''"
abbreviation PriorityScheduled :: Priority where "PriorityScheduled \<equiv> ''scheduled''"
abbreviation PriorityStandby :: Priority where "PriorityStandby \<equiv> ''standby''"

record QueueEntry =
  q_Reservation :: Reservation
  q_Priority :: Priority
  q_RequestedAt :: Time
  q_Deadline :: "Time option"
  q_Reason :: string

definition ValidateQueueEntry :: "QueueEntry \<Rightarrow> unit result" where
  "ValidateQueueEntry e =
    (if r_ID (q_Reservation e) = [] \<or> q_RequestedAt e = 0 \<or> r_Status (q_Reservation e) \<noteq> SlotConfirmed
     then Inl (errorf ErrInvalid ''passage queue entry'')
     else if q_Priority e = PriorityEmergency
     then refuse_if (q_Reason e = []) (errorf ErrInvalid ''emergency reason'')
     else if q_Priority e = PriorityPerishable
     then refuse_if (case q_Deadline e of None \<Rightarrow> True | Some d \<Rightarrow> \<not> q_RequestedAt e < d)
       (errorf ErrInvalid ''perishable deadline'')
     else if q_Priority e = PriorityScheduled \<or> q_Priority e = PriorityStandby then Inr ()
     else Inl (errorf ErrInvalid ''queue priority''))"

text \<open>The table \<^verbatim>\<open>rank\<close>; a missing key reads as zero.\<close>

definition priority_rank :: "Priority \<Rightarrow> int" where
  "priority_rank p =
    (if p = PriorityEmergency then 0 else if p = PriorityPerishable then 1
     else if p = PriorityScheduled then 2 else if p = PriorityStandby then 3 else 0)"

definition entry_less :: "QueueEntry \<Rightarrow> QueueEntry \<Rightarrow> bool" where
  "entry_less a b =
    (if priority_rank (q_Priority a) \<noteq> priority_rank (q_Priority b)
     then priority_rank (q_Priority a) < priority_rank (q_Priority b)
     else if q_Priority a = PriorityPerishable \<and> q_Deadline a \<noteq> None \<and> q_Deadline b \<noteq> None \<and>
        q_Deadline a \<noteq> q_Deadline b
     then the (q_Deadline a) < the (q_Deadline b)
     else if r_StartsAt (q_Reservation a) \<noteq> r_StartsAt (q_Reservation b)
     then r_StartsAt (q_Reservation a) < r_StartsAt (q_Reservation b)
     else if q_RequestedAt a \<noteq> q_RequestedAt b then q_RequestedAt a < q_RequestedAt b
     else r_ID (q_Reservation a) < r_ID (q_Reservation b))"

definition OrderQueue :: "QueueEntry list \<Rightarrow> Time \<Rightarrow> QueueEntry list result" where
  "OrderQueue entries now =
    (if now = 0 then Inl (errorf ErrInvalid ''queue time'')
     else bindR (check_all ValidateQueueEntry entries) (\<lambda>_. Inr (sort_slice entry_less entries)))"

text \<open>The loop that promotes the first eligible entry and returns.\<close>

fun promote_loop :: "Time \<Rightarrow> QueueEntry list \<Rightarrow> (QueueEntry list \<times> QueueEntry) option" where
  "promote_loop now [] = None"
| "promote_loop now (e # es) =
    (if q_Priority e \<noteq> PriorityStandby \<or> r_StartsAt (q_Reservation e) < now
     then map_option (\<lambda>(rest, promoted). (e # rest, promoted)) (promote_loop now es)
     else let promoted = e\<lparr>q_Priority := PriorityScheduled\<rparr> in Some (promoted # es, promoted))"

definition PromoteStandby ::
    "QueueEntry list \<Rightarrow> string \<Rightarrow> Time \<Rightarrow> (QueueEntry list \<times> QueueEntry) result" where
  "PromoteStandby entries cancelledReservationID now =
    (if cancelledReservationID = [] \<or> now = 0 then Inl (errorf ErrInvalid ''standby promotion'')
     else
       let remaining = filter (\<lambda>e. r_ID (q_Reservation e) \<noteq> cancelledReservationID) entries
       in if \<not> list_ex (\<lambda>e. r_ID (q_Reservation e) = cancelledReservationID) entries then Inl (errorf ErrNotFound ''cancelled reservation'')
          else bindR (OrderQueue remaining now) (\<lambda>ordered.
            case promote_loop now ordered of
              None \<Rightarrow> Inl (errorf ErrNotFound ''eligible standby'')
            | Some result \<Rightarrow> Inr result))"

section \<open>The order as a key\<close>

definition queue_key :: "QueueEntry \<Rightarrow> int \<times> int \<times> int \<times> int \<times> string" where
  "queue_key e =
    (priority_rank (q_Priority e),
     if q_Priority e = PriorityPerishable then the (q_Deadline e) else 0,
     r_StartsAt (q_Reservation e), q_RequestedAt e, r_ID (q_Reservation e))"

definition valid_entry :: "QueueEntry \<Rightarrow> bool" where
  "valid_entry e \<longleftrightarrow> ValidateQueueEntry e = Inr ()"

lemma valid_entry_facts:
  assumes "valid_entry e"
  shows "q_Priority e \<in> {PriorityEmergency, PriorityPerishable, PriorityScheduled, PriorityStandby}"
    and "q_Priority e = PriorityPerishable \<Longrightarrow> \<exists>d. q_Deadline e = Some d"
  using assms by (auto simp: valid_entry_def ValidateQueueEntry_def split: if_splits option.splits)

lemma priority_rank_inj:
  "valid_entry a \<Longrightarrow> valid_entry b \<Longrightarrow>
    priority_rank (q_Priority a) = priority_rank (q_Priority b) \<longleftrightarrow> q_Priority a = q_Priority b"
  by (drule valid_entry_facts(1))+ (auto simp: priority_rank_def)

lemma entry_less_key:
  assumes "valid_entry a" and "valid_entry b"
  shows "entry_less a b \<longleftrightarrow> queue_key a < queue_key b"
proof (cases "q_Priority a = q_Priority b")
  case False
  with priority_rank_inj [OF assms] have "priority_rank (q_Priority a) \<noteq> priority_rank (q_Priority b)" by simp
  then show ?thesis by (auto simp: entry_less_def queue_key_def less_prod_def)
next
  case True
  show ?thesis
  proof (cases "q_Priority a = PriorityPerishable")
    case perishable: True
    with True assms obtain c d where "q_Deadline a = Some c" "q_Deadline b = Some d"
      using valid_entry_facts(2) by metis
    with True perishable show ?thesis by (auto simp: entry_less_def queue_key_def less_prod_def)
  next
    case False
    with True show ?thesis by (auto simp: entry_less_def queue_key_def less_prod_def)
  qed
qed

interpretation entries: comparator entry_less valid_entry
  by unfold_locales (auto simp: entry_less_key)

lemma sort_entries: "\<forall>e\<in>set es. valid_entry e \<Longrightarrow> sort_slice entry_less es = sort_key queue_key es"
proof (induction es)
  case (Cons e es)
  have "insert_by entry_less e xs = insort_key queue_key e xs" if "\<forall>x\<in>set xs. valid_entry x" for xs
    using that Cons.prems by (induction xs) (auto simp: entry_less_key not_less)
  with Cons show ?case by simp
qed simp

lemma OrderQueue_Inr_iff:
  "OrderQueue entries now = Inr out \<longleftrightarrow>
    now \<noteq> 0 \<and> (\<forall>e\<in>set entries. valid_entry e) \<and> out = sort_key queue_key entries"
  by (auto simp: OrderQueue_def bindR_Inr_iff valid_entry_def [symmetric] sort_entries)

section \<open>Properties\<close>

definition example_entry :: "string \<Rightarrow> Priority \<Rightarrow> Time \<Rightarrow> Time \<Rightarrow> QueueEntry" where
  "example_entry rid p starts requested =
    \<lparr>q_Reservation = (example_slot rid starts (starts + Hour))\<lparr>r_Status := SlotConfirmed\<rparr>, q_Priority = p,
     q_RequestedAt = requested, q_Deadline = Some (requested + Hour), q_Reason = ''medical''\<rparr>"

definition example_queue :: "QueueEntry list" where
  "example_queue = [example_entry ''r1'' PriorityStandby 50 10, example_entry ''r2'' PriorityScheduled 90 30,
    example_entry ''r3'' PriorityEmergency 70 20]"

text \<open>
  The queue is ordered by priority, then by deadline among perishables, then by the start of the
  slot, the time of the request and the identifier of the reservation; an entry that is not valid is
  refused. When the identifiers are distinct the order does not depend on how the queue was given.
\<close>

theorem OrderQueue_correct:
  assumes "mset entries' = mset entries" and "inj_on (\<lambda>e. r_ID (q_Reservation e)) (set entries)"
  shows "(OrderQueue entries now = Inr out \<longleftrightarrow>
      now \<noteq> 0 \<and> list_all valid_entry entries \<and> out = sort_key queue_key entries) \<and>
    (OrderQueue entries now = Inr out \<longrightarrow> OrderQueue entries' now = Inr out)"
proof (rule conjI; (intro allI impI)?)
  show iff: "OrderQueue entries now = Inr out \<longleftrightarrow>
      now \<noteq> 0 \<and> list_all valid_entry entries \<and> out = sort_key queue_key entries" for entries out
    by (simp add: OrderQueue_Inr_iff list_all_iff)
  have "inj_on queue_key (set entries)"
    using assms(2) by (auto simp: inj_on_def queue_key_def)
  then have "sort_key queue_key entries' = sort_key queue_key entries"
    using sort_slice_by_key_perm [OF assms(1)] by (simp add: sort_slice_by_key)
  moreover have "set entries' = set entries" using assms(1) by (metis set_mset_mset)
  ultimately show "OrderQueue entries now = Inr out \<Longrightarrow> OrderQueue entries' now = Inr out"
    by (simp add: OrderQueue_Inr_iff)
qed

theorem OrderQueue_correct_witness:
  "OrderQueue (rev example_queue) 5 = Inr [example_queue ! 2, example_queue ! 1, example_queue ! 0]"
proof -
  have "OrderQueue example_queue 5 = Inr [example_queue ! 2, example_queue ! 1, example_queue ! 0]" by code_simp
  moreover have "inj_on (\<lambda>e. r_ID (q_Reservation e)) (set example_queue)"
    by (simp add: example_queue_def example_entry_def example_slot_def)
  ultimately show ?thesis using OrderQueue_correct [of "rev example_queue" example_queue 5, THEN conjunct2] by simp
qed

lemma promote_loop_Some:
  "promote_loop now es = Some (out, p) \<Longrightarrow>
    \<exists>xs e ys. es = xs @ e # ys \<and> out = xs @ p # ys \<and> p = e\<lparr>q_Priority := PriorityScheduled\<rparr> \<and>
      q_Priority e = PriorityStandby \<and> now \<le> r_StartsAt (q_Reservation e) \<and>
      list_all (\<lambda>x. q_Priority x \<noteq> PriorityStandby \<or> r_StartsAt (q_Reservation x) < now) xs"
proof (induction es arbitrary: out)
  case (Cons e es)
  show ?case
  proof (cases "q_Priority e \<noteq> PriorityStandby \<or> r_StartsAt (q_Reservation e) < now")
    case True
    with Cons.prems obtain us where us: "promote_loop now es = Some (us, p)" "out = e # us" by auto
    from Cons.IH [OF us(1)] obtain xs f ys where "es = xs @ f # ys" "us = xs @ p # ys"
        "p = f\<lparr>q_Priority := PriorityScheduled\<rparr>" "q_Priority f = PriorityStandby"
        "now \<le> r_StartsAt (q_Reservation f)"
        "list_all (\<lambda>x. q_Priority x \<noteq> PriorityStandby \<or> r_StartsAt (q_Reservation x) < now) xs" by blast
    with True us(2) show ?thesis by (intro exI [of _ "e # xs"]) auto
  next
    case False
    with Cons.prems show ?thesis by (intro exI [of _ "[]"]) (auto simp: Let_def)
  qed
qed simp

text \<open>
  Promoting a standby removes the cancelled reservation, which must be in the queue, and turns
  exactly one entry of the ordered rest into a scheduled one: the first standby whose slot has not
  started. Every entry before it is not standby or has started, and no other entry changes.
\<close>

theorem PromoteStandby_correct:
  assumes "PromoteStandby entries rid now = Inr (out, p)"
  shows "(\<exists>xs e ys. sort_key queue_key (filter (\<lambda>x. r_ID (q_Reservation x) \<noteq> rid) entries) = xs @ e # ys \<and>
      out = xs @ p # ys \<and> p = e\<lparr>q_Priority := PriorityScheduled\<rparr> \<and> q_Priority e = PriorityStandby \<and>
      now \<le> r_StartsAt (q_Reservation e) \<and>
      list_all (\<lambda>x. q_Priority x \<noteq> PriorityStandby \<or> r_StartsAt (q_Reservation x) < now) xs) \<and>
    (\<exists>x\<in>set entries. r_ID (q_Reservation x) = rid)"
proof (rule conjI; (intro allI impI)?)
  let ?rest = "filter (\<lambda>x. r_ID (q_Reservation x) \<noteq> rid) entries"
  from assms obtain ordered where "OrderQueue ?rest now = Inr ordered" "promote_loop now ordered = Some (out, p)"
    and "\<exists>x\<in>set entries. r_ID (q_Reservation x) = rid"
    by (auto simp: PromoteStandby_def Let_def list_ex_iff bindR_Inr_iff split: if_splits option.splits)
  with promote_loop_Some [of now ordered out p]
  show "\<exists>xs e ys. sort_key queue_key ?rest = xs @ e # ys \<and> out = xs @ p # ys \<and>
      p = e\<lparr>q_Priority := PriorityScheduled\<rparr> \<and> q_Priority e = PriorityStandby \<and>
      now \<le> r_StartsAt (q_Reservation e) \<and>
      list_all (\<lambda>x. q_Priority x \<noteq> PriorityStandby \<or> r_StartsAt (q_Reservation x) < now) xs"
    and "\<exists>x\<in>set entries. r_ID (q_Reservation x) = rid"
    by (auto simp: OrderQueue_Inr_iff)
qed

theorem PromoteStandby_correct_witness:
  "\<exists>x\<in>set example_queue. r_ID (q_Reservation x) = ''r3''"
proof -
  let ?p = "(example_queue ! 0)\<lparr>q_Priority := PriorityScheduled\<rparr>"
  have "PromoteStandby example_queue ''r3'' 40 = Inr ([example_queue ! 1, ?p], ?p)" by code_simp
  from PromoteStandby_correct [OF this, THEN conjunct2] show ?thesis .
qed

text \<open>
  The promoted entry keeps its place behind the entries that were scheduled before it, so the
  queue that is returned need not be in the order of OrderQueue: here the promoted slot starts first.
\<close>

lemma promoted_queue_not_ordered:
  "\<exists>entries out p. PromoteStandby entries ''r3'' 40 = Inr (out, p) \<and> OrderQueue out 40 = Inr (rev out) \<and> rev out \<noteq> out"
proof (intro exI conjI)
  let ?p = "(example_queue ! 0)\<lparr>q_Priority := PriorityScheduled\<rparr>"
  show "PromoteStandby example_queue ''r3'' 40 = Inr ([example_queue ! 1, ?p], ?p)" by code_simp
  show "OrderQueue [example_queue ! 1, ?p] 40 = Inr (rev [example_queue ! 1, ?p])" by code_simp
  show "rev [example_queue ! 1, ?p] \<noteq> [example_queue ! 1, ?p]"
    by (simp add: example_queue_def example_entry_def example_slot_def)
qed

end
