(* ===== verification/Schedule.thy ===== *)
theory Schedule
  imports Reservation
begin

text \<open>
  \<^verbatim>\<open>internal/passage/schedule.go\<close>: the free windows of a chamber's day and the ranking of
  candidate slots. The time zone database is not part of the repository: a \<^verbatim>\<open>*time.Location\<close>
  is a pair of functions, the offset of local time at an instant and the instant that
  \<^verbatim>\<open>time.Date\<close> gives a local time (nanoseconds of local civil time since year 1); a nil
  location is \<open>None\<close>. \<^verbatim>\<open>time.Now()\<close> is the argument \<open>now\<close>. The loops over windows, days
  and chambers are \<open>first_fit\<close>, \<open>day_loop\<close> and \<open>chamber_loop\<close>.
\<close>

record Location =
  zone_offset :: "Time \<Rightarrow> Duration"
  zone_instant :: "int \<Rightarrow> Time"

definition UTC_location :: Location where
  "UTC_location = \<lparr>zone_offset = (\<lambda>_. 0), zone_instant = (\<lambda>t. t)\<rparr>"

record SchedulePolicy =
  sp_OperatingFrom :: Duration
  sp_OperatingTo :: Duration
  sp_Buffer :: Duration
  sp_MinimumNotice :: Duration
  sp_MaximumAhead :: Duration
  sp_Location :: "Location option"

record SlotCandidate =
  sc_ChamberID :: string
  sc_StartsAt :: Time
  sc_EndsAt :: Time
  sc_Wait :: Duration

definition DefaultSchedulePolicy :: "Location option \<Rightarrow> SchedulePolicy" where
  "DefaultSchedulePolicy location =
    \<lparr>sp_OperatingFrom = 6 * Hour, sp_OperatingTo = 22 * Hour, sp_Buffer = 15 * Minute,
     sp_MinimumNotice = 30 * Minute, sp_MaximumAhead = 30 * 24 * Hour,
     sp_Location = (if location = None then Some UTC_location else location)\<rparr>"

definition policy_Validate :: "SchedulePolicy \<Rightarrow> unit result" where
  "policy_Validate policy =
    (if sp_Location policy = None \<or> sp_OperatingFrom policy < 0 \<or> 24 * Hour < sp_OperatingTo policy \<or>
        sp_OperatingTo policy \<le> sp_OperatingFrom policy
     then Inl (errorf ErrInvalid ''operating hours'')
     else if sp_Buffer policy < 0 \<or> sp_MinimumNotice policy < 0 \<or>
        sp_MaximumAhead policy \<le> sp_MinimumNotice policy
     then Inl (errorf ErrInvalid ''scheduling policy'')
     else Inr ())"

text \<open>
  The local midnight of a day, and the same local time some days later
  (\<^verbatim>\<open>AddDate(0, 0, n)\<close>).
\<close>

definition local_midnight :: "Location \<Rightarrow> Time \<Rightarrow> Time" where
  "local_midnight loc day = (let local = day + zone_offset loc day
     in zone_instant loc (local - local mod (24 * Hour)))"

definition add_days :: "Location \<Rightarrow> Time \<Rightarrow> nat \<Rightarrow> Time" where
  "add_days loc t n = zone_instant loc (t + zone_offset loc t + int n * (24 * Hour))"

definition DailyOperatingWindow :: "Time \<Rightarrow> SchedulePolicy \<Rightarrow> TimeWindow result" where
  "DailyOperatingWindow day policy = bindR (policy_Validate policy) (\<lambda>_.
    let midnight = local_midnight (the (sp_Location policy)) day
    in NewTimeWindow (midnight + sp_OperatingFrom policy) (midnight + sp_OperatingTo policy) (24 * Hour))"

fun blocked_windows :: "string \<Rightarrow> Duration \<Rightarrow> Reservation list \<Rightarrow> TimeWindow list result" where
  "blocked_windows chamberID buffer [] = Inr []"
| "blocked_windows chamberID buffer (r # rs) =
    (if r_ChamberID r \<noteq> chamberID \<or> r_Status r = SlotCancelled then blocked_windows chamberID buffer rs
     else bindR (NewTimeWindow (r_StartsAt r - buffer) (r_EndsAt r + buffer) 0)
       (\<lambda>window. bindR (blocked_windows chamberID buffer rs) (\<lambda>rest. Inr (window # rest))))"

definition maintenance_windows :: "Chamber \<Rightarrow> TimeWindow list result" where
  "maintenance_windows chamber =
    (case (ch_MaintenanceFrom chamber, ch_MaintenanceTo chamber) of
       (Some f, Some t) \<Rightarrow>
         (case NewTimeWindow f t 0 of
            Inl _ \<Rightarrow> Inl (errorf ErrInvalid ''chamber maintenance'')
          | Inr window \<Rightarrow> Inr [window])
     | _ \<Rightarrow> Inr [])"

definition AvailableWindows ::
    "Chamber \<Rightarrow> Reservation list \<Rightarrow> Time \<Rightarrow> Duration \<Rightarrow> SchedulePolicy \<Rightarrow> TimeWindow list result" where
  "AvailableWindows chamber reservations day duration policy =
    bindR (DailyOperatingWindow day policy) (\<lambda>base.
      if duration \<le> 0 \<or> 3 * Hour < duration then Inl (errorf ErrInvalid ''passage duration'')
      else bindR (blocked_windows (ch_ID chamber) (sp_Buffer policy) reservations) (\<lambda>blocked.
        bindR (maintenance_windows chamber) (\<lambda>maintenance.
          SubtractWindows base (blocked @ maintenance) duration)))"

text \<open>The inner loop: at most one candidate, from the first window it fits.\<close>

fun first_fit :: "string \<Rightarrow> Time \<Rightarrow> Duration \<Rightarrow> TimeWindow list \<Rightarrow> SlotCandidate list" where
  "first_fit chamberID earliest duration [] = []"
| "first_fit chamberID earliest duration (w # ws) =
    (let starts = (if w_StartsAt w < earliest then earliest else w_StartsAt w)
     in if \<not> w_EndsAt w < starts + duration
        then [\<lparr>sc_ChamberID = chamberID, sc_StartsAt = starts, sc_EndsAt = starts + duration,
          sc_Wait = time_sub starts earliest\<rparr>]
        else first_fit chamberID earliest duration ws)"

fun day_loop ::
    "Chamber \<Rightarrow> Reservation list \<Rightarrow> Time \<Rightarrow> Duration \<Rightarrow> SchedulePolicy \<Rightarrow> nat list \<Rightarrow> SlotCandidate list \<Rightarrow>
     SlotCandidate list result" where
  "day_loop chamber reservations earliest duration policy [] found = Inr found"
| "day_loop chamber reservations earliest duration policy (n # ns) found =
    bindR (AvailableWindows chamber reservations (add_days (the (sp_Location policy)) earliest n) duration policy)
      (\<lambda>windows.
        let found1 = found @ first_fit (ch_ID chamber) earliest duration windows
        in if found1 \<noteq> [] \<and> sc_ChamberID (last found1) = ch_ID chamber then Inr found1
           else day_loop chamber reservations earliest duration policy ns found1)"

fun chamber_loop ::
    "Reservation list \<Rightarrow> Time \<Rightarrow> Duration \<Rightarrow> F64 \<Rightarrow> F64 \<Rightarrow> F64 \<Rightarrow> SchedulePolicy \<Rightarrow> Chamber list \<Rightarrow>
     SlotCandidate list \<Rightarrow> SlotCandidate list result" where
  "chamber_loop reservations earliest duration len beam draft policy [] found = Inr found"
| "chamber_loop reservations earliest duration len beam draft policy (c # cs) found =
    (if f64_less (ch_MaxLengthM c) len \<or> f64_less (ch_MaxBeamM c) beam \<or> f64_less (ch_MaxDraftM c) draft
     then chamber_loop reservations earliest duration len beam draft policy cs found
     else bindR (day_loop c reservations earliest duration policy [0..<31] found)
       (chamber_loop reservations earliest duration len beam draft policy cs))"

definition RankSlotCandidates ::
    "Time \<Rightarrow> Chamber list \<Rightarrow> Reservation list \<Rightarrow> Time \<Rightarrow> Duration \<Rightarrow> F64 \<Rightarrow> F64 \<Rightarrow> F64 \<Rightarrow> SchedulePolicy \<Rightarrow>
     SlotCandidate list result" where
  "RankSlotCandidates now chambers reservations earliest duration len beam draft policy =
    bindR (policy_Validate policy) (\<lambda>_.
      if earliest < now + sp_MinimumNotice policy \<or> now + sp_MaximumAhead policy < earliest
      then Inl (errorf ErrInvalid ''requested planning horizon'')
      else bindR (chamber_loop reservations earliest duration len beam draft policy chambers [])
        (\<lambda>found. Inr (sort_slice (lex2 sc_StartsAt sc_ChamberID) found)))"

section \<open>Free windows\<close>

lemma blocked_windows_covers:
  assumes "blocked_windows ch buffer rs = Inr ws" and "r \<in> set rs" and "r_ChamberID r = ch"
    and "r_Status r \<noteq> SlotCancelled" and "r_StartsAt r - buffer \<le> t" and "t < r_EndsAt r + buffer"
  shows "covers ws t"
  using assms
proof (induction rs arbitrary: ws)
  case (Cons q rs)
  then show ?case
    by (auto simp: bindR_Inr_iff NewTimeWindow_Inr_iff covers_def Contains_def split: if_splits)
qed simp

lemma blocked_windows_valid:
  "blocked_windows ch buffer rs = Inr ws \<Longrightarrow> r \<in> set rs \<Longrightarrow> r_ChamberID r = ch \<Longrightarrow> r_Status r \<noteq> SlotCancelled \<Longrightarrow>
    r_StartsAt r - buffer < r_EndsAt r + buffer"
  by (induction rs arbitrary: ws) (auto simp: bindR_Inr_iff NewTimeWindow_Inr_iff split: if_splits)

lemma maintenance_windows_covers:
  assumes "maintenance_windows c = Inr ws" and "in_maintenance c s e" and "s < e"
  shows "\<exists>t. s \<le> t \<and> t < e \<and> covers ws t"
proof -
  from assms(2) obtain f u where "ch_MaintenanceFrom c = Some f" "ch_MaintenanceTo c = Some u"
      and o: "overlaps s e f u"
    by (auto simp: in_maintenance_def split: option.splits)
  with assms(1) have "ws = [\<lparr>w_StartsAt = f, w_EndsAt = u\<rparr>]" "f < u"
    by (auto simp: maintenance_windows_def NewTimeWindow_Inr_iff split: sum.splits)
  with o assms(3) show ?thesis
    by (intro exI [of _ "max s f"]) (auto simp: covers_def Contains_def overlaps_def)
qed

lemma policy_ValidateD: "policy_Validate p = Inr u \<Longrightarrow> 0 \<le> sp_Buffer p \<and> sp_Location p \<noteq> None"
  by (auto simp: policy_Validate_def split: if_splits)

text \<open>A slot inside a free window can be reserved.\<close>

lemma AvailableWindows_free:
  assumes "AvailableWindows c rs day d policy = Inr ws" and "w \<in> set ws"
    and "w_StartsAt w \<le> s" and "e \<le> w_EndsAt w" and "s < e"
  shows "\<not> in_maintenance c s e" and "\<not> list_ex (blocks (ch_ID c) s e) rs"
proof -
  from assms(1) obtain base blocked maintenance where
    base: "DailyOperatingWindow day policy = Inr base" and d: "0 < d" "d \<le> 3 * Hour" and
    blocked: "blocked_windows (ch_ID c) (sp_Buffer policy) rs = Inr blocked" and
    maintenance: "maintenance_windows c = Inr maintenance" and
    free: "SubtractWindows base (blocked @ maintenance) d = Inr ws"
    by (auto simp: AvailableWindows_def bindR_Inr_iff not_le not_less split: if_splits)
  from d have "in_int64 d" by (simp add: in_int64_def min_int64_def max_int64_def)
  then have clear: "\<not> covers blocked t \<and> \<not> covers maintenance t" if "s \<le> t" "t < e" for t
  proof -
    from that assms(3,4) have "Contains w t" by (simp add: Contains_def)
    with SubtractWindows_spec(1) [OF free \<open>in_int64 d\<close>] assms(2)
    have "\<not> covers (blocked @ maintenance) t" by blast
    then show ?thesis by (auto simp: covers_def)
  qed
  show "\<not> in_maintenance c s e"
    using maintenance_windows_covers [OF maintenance _ assms(5)] clear by blast
  from base have "0 \<le> sp_Buffer policy"
    by (auto simp: DailyOperatingWindow_def bindR_Inr_iff dest: policy_ValidateD)
  have "\<not> blocks (ch_ID c) s e r" if "r \<in> set rs" for r
  proof
    assume r: "blocks (ch_ID c) s e r"
    let ?t = "max s (r_StartsAt r - sp_Buffer policy)"
    have "r_StartsAt r - sp_Buffer policy < r_EndsAt r + sp_Buffer policy"
      using blocked_windows_valid [OF blocked that] r by (simp add: blocks_def)
    with r \<open>0 \<le> sp_Buffer policy\<close> assms(5) have "?t < e" "?t < r_EndsAt r + sp_Buffer policy"
      by (auto simp: blocks_def overlaps_def)
    with clear [of ?t] blocked_windows_covers [OF blocked that, of ?t] r show False
      by (simp add: blocks_def)
  qed
  then show "\<not> list_ex (blocks (ch_ID c) s e) rs" by (simp add: list_ex_iff)
qed

section \<open>Candidates\<close>

text \<open>What a candidate promises: a chamber that fits, and a slot of the given length that is free.\<close>

definition good_candidate ::
    "Chamber list \<Rightarrow> Reservation list \<Rightarrow> Time \<Rightarrow> Duration \<Rightarrow> F64 \<Rightarrow> F64 \<Rightarrow> F64 \<Rightarrow> SlotCandidate \<Rightarrow> bool" where
  "good_candidate chambers rs earliest d len beam draft k \<longleftrightarrow>
    earliest \<le> sc_StartsAt k \<and> sc_EndsAt k = sc_StartsAt k + d \<and> 0 < d \<and> d \<le> 3 * Hour \<and>
    sc_Wait k = time_sub (sc_StartsAt k) earliest \<and>
    list_ex (\<lambda>c. ch_ID c = sc_ChamberID k \<and> \<not> f64_less (ch_MaxLengthM c) len \<and>
      \<not> f64_less (ch_MaxBeamM c) beam \<and> \<not> f64_less (ch_MaxDraftM c) draft \<and>
      \<not> in_maintenance c (sc_StartsAt k) (sc_EndsAt k)) chambers \<and>
    \<not> list_ex (blocks (sc_ChamberID k) (sc_StartsAt k) (sc_EndsAt k)) rs"

lemma first_fit_sound:
  "k \<in> set (first_fit ch earliest d ws) \<Longrightarrow>
    \<exists>w\<in>set ws. sc_ChamberID k = ch \<and> w_StartsAt w \<le> sc_StartsAt k \<and> earliest \<le> sc_StartsAt k \<and>
      sc_EndsAt k = sc_StartsAt k + d \<and> sc_EndsAt k \<le> w_EndsAt w \<and> sc_Wait k = time_sub (sc_StartsAt k) earliest"
  by (induction ws) (auto simp: Let_def not_less split: if_splits)

lemma AvailableWindows_duration: "AvailableWindows c rs day d p = Inr ws \<Longrightarrow> 0 < d \<and> d \<le> 3 * Hour"
  by (auto simp: AvailableWindows_def bindR_Inr_iff split: if_splits)

lemma day_loop_sound:
  assumes "day_loop c rs earliest d p ns found = Inr out" and "k \<in> set out" and "k \<notin> set found"
    and "\<not> f64_less (ch_MaxLengthM c) len \<and> \<not> f64_less (ch_MaxBeamM c) beam \<and> \<not> f64_less (ch_MaxDraftM c) draft"
    and "c \<in> set chambers"
  shows "good_candidate chambers rs earliest d len beam draft k"
  using assms(1-3)
proof (induction ns arbitrary: found)
  case (Cons n ns)
  from Cons.prems(1) obtain ws where ws: "AvailableWindows c rs (add_days (the (sp_Location p)) earliest n) d p = Inr ws"
    and rest: "out = found @ first_fit (ch_ID c) earliest d ws \<or>
      day_loop c rs earliest d p ns (found @ first_fit (ch_ID c) earliest d ws) = Inr out"
    by (auto simp: bindR_Inr_iff Let_def split: if_splits)
  show ?case
  proof (cases "k \<in> set (first_fit (ch_ID c) earliest d ws)")
    case True
    from first_fit_sound [OF True] obtain w where w: "w \<in> set ws" "w_StartsAt w \<le> sc_StartsAt k"
        "sc_EndsAt k \<le> w_EndsAt w" and k: "sc_ChamberID k = ch_ID c" "earliest \<le> sc_StartsAt k"
        "sc_EndsAt k = sc_StartsAt k + d" "sc_Wait k = time_sub (sc_StartsAt k) earliest" by blast
    from AvailableWindows_duration [OF ws] k have "sc_StartsAt k < sc_EndsAt k" by simp
    from AvailableWindows_free [OF ws w this] AvailableWindows_duration [OF ws] k assms(4,5)
    show ?thesis by (auto simp: good_candidate_def list_ex_iff)
  next
    case False
    with rest Cons.prems Cons.IH [of "found @ first_fit (ch_ID c) earliest d ws"] show ?thesis by auto
  qed
qed simp

lemma chamber_loop_sound:
  assumes "chamber_loop rs earliest d len beam draft p cs found = Inr out" and "set cs \<subseteq> set chambers"
    and "\<forall>k\<in>set found. good_candidate chambers rs earliest d len beam draft k"
  shows "\<forall>k\<in>set out. good_candidate chambers rs earliest d len beam draft k"
  using assms
proof (induction cs arbitrary: found)
  case (Cons c cs)
  show ?case
  proof (cases "f64_less (ch_MaxLengthM c) len \<or> f64_less (ch_MaxBeamM c) beam \<or> f64_less (ch_MaxDraftM c) draft")
    case False
    with Cons.prems(1) obtain mid where "day_loop c rs earliest d p [0..<31] found = Inr mid"
      and rest: "chamber_loop rs earliest d len beam draft p cs mid = Inr out"
      by (auto simp: bindR_Inr_iff simp del: upt.simps)
    with day_loop_sound [of c rs earliest d p "[0..<31]" found mid] False Cons.prems(2,3)
    have "\<forall>k\<in>set mid. good_candidate chambers rs earliest d len beam draft k" by (meson list.set_intros(1) subsetD)
    with Cons.IH [OF rest] Cons.prems(2) show ?thesis by simp
  qed (use Cons in simp)
qed simp

lemma RankSlotCandidates_good:
  assumes "RankSlotCandidates now cs rs earliest d len beam draft p = Inr ks"
  shows "\<forall>k\<in>set ks. good_candidate cs rs earliest d len beam draft k"
proof -
  from assms obtain found where "chamber_loop rs earliest d len beam draft p cs [] = Inr found"
    and "ks = sort_slice (lex2 sc_StartsAt sc_ChamberID) found"
    by (auto simp: RankSlotCandidates_def bindR_Inr_iff split: if_splits)
  with chamber_loop_sound [of rs earliest d len beam draft p cs "[]" found cs] show ?thesis by simp
qed

section \<open>Properties\<close>

definition example_policy :: SchedulePolicy where
  "example_policy = DefaultSchedulePolicy None"

text \<open>
  Every free window of a day lies inside the operating hours, is at least as long as the passage,
  and a slot inside it meets neither the maintenance of the chamber nor one of its reservations, not
  even within the buffer kept before and after each of them.
\<close>

theorem AvailableWindows_correct:
  assumes "AvailableWindows c rs day d policy = Inr ws" and "w \<in> set ws"
  shows "(\<exists>base. DailyOperatingWindow day policy = Inr base \<and> w_StartsAt base \<le> w_StartsAt w \<and> w_EndsAt w \<le> w_EndsAt base) \<and>
    d \<le> w_EndsAt w - w_StartsAt w \<and>
    (\<forall>s e. w_StartsAt w \<le> s \<longrightarrow> s < e \<longrightarrow> e \<le> w_EndsAt w \<longrightarrow> \<not> in_maintenance c s e) \<and>
    (\<forall>r t. r \<in> set rs \<longrightarrow> r_ChamberID r = ch_ID c \<longrightarrow> r_Status r \<noteq> SlotCancelled \<longrightarrow> Contains w t \<longrightarrow> t < r_StartsAt r - sp_Buffer policy \<or> r_EndsAt r + sp_Buffer policy \<le> t)"
proof (rule conj4I; (intro allI impI)?)
  from assms(1) obtain base blocked maintenance where
    base: "DailyOperatingWindow day policy = Inr base" and
    blocked: "blocked_windows (ch_ID c) (sp_Buffer policy) rs = Inr blocked" and
    free: "SubtractWindows base (blocked @ maintenance) d = Inr ws"
    by (auto simp: AvailableWindows_def bindR_Inr_iff split: if_splits)
  have "in_int64 d" using AvailableWindows_duration [OF assms(1)] by (simp add: in_int64_def min_int64_def max_int64_def)
  note spec = bspec [OF SubtractWindows_spec(1) [OF free this] assms(2)]
  from spec base show "\<exists>base. DailyOperatingWindow day policy = Inr base \<and> w_StartsAt base \<le> w_StartsAt w \<and>
      w_EndsAt w \<le> w_EndsAt base" by blast
  from spec show "d \<le> w_EndsAt w - w_StartsAt w" by blast
  show "\<not> in_maintenance c s e" if "w_StartsAt w \<le> s" "s < e" "e \<le> w_EndsAt w" for s e
    using AvailableWindows_free(1) [OF assms(1,2) that(1,3,2)] .
  fix r t assume r: "r \<in> set rs" "r_ChamberID r = ch_ID c" "r_Status r \<noteq> SlotCancelled" and t: "Contains w t"
  from spec t have "\<not> covers blocked t" by (auto simp: covers_def)
  with blocked_windows_covers [OF blocked r, of t]
  show "t < r_StartsAt r - sp_Buffer policy \<or> r_EndsAt r + sp_Buffer policy \<le> t" by linarith
qed

definition day_one :: Time where "day_one = 1000 * (24 * Hour)"

theorem AvailableWindows_correct_witness:
  "\<not> in_maintenance example_chamber (day_one + 12 * Hour) (day_one + 13 * Hour)"
proof -
  have "AvailableWindows example_chamber [example_slot ''r1'' (day_one + 6 * Hour) (day_one + 8 * Hour)] day_one Hour
      example_policy = Inr [\<lparr>w_StartsAt = day_one + 495 * Minute, w_EndsAt = day_one + 22 * Hour\<rparr>]" by code_simp
  from AvailableWindows_correct [OF this, THEN conjunct2, THEN conjunct2, THEN conjunct1] show ?thesis by simp
qed

text \<open>
  C28: Every candidate that is ranked can be reserved: its chamber is one of those given and fits the
  vessel, its slot has the length asked for, starts no earlier than asked for, and Reserve accepts it
  against the same reservations (for named parties and positive dimensions). The candidates come in
  order of their start.
\<close>

theorem ranked_candidates_can_be_reserved:
  assumes "RankSlotCandidates now chambers rs earliest d len beam draft policy = Inr ks" and "k \<in> set ks"
    and "rid \<noteq> [] \<and> vid \<noteq> [] \<and> ten \<noteq> [] \<and> sc_ChamberID k \<noteq> []"
    and "\<not> f64_le len (Fin 0) \<and> \<not> f64_le beam (Fin 0) \<and> \<not> f64_le draft (Fin 0)"
  shows "(\<exists>c\<in>set chambers. ch_ID c = sc_ChamberID k \<and>
      is_ok (Reserve rid vid ten c (sc_StartsAt k) (sc_EndsAt k) len beam draft rs)) \<and>
    (earliest \<le> sc_StartsAt k \<and> sc_EndsAt k = sc_StartsAt k + d) \<and>
    sorted (map sc_StartsAt ks)"
proof (rule conj3I; (intro allI impI)?)
  have good: "good_candidate chambers rs earliest d len beam draft k"
    using RankSlotCandidates_good [OF assms(1)] assms(2) by blast
  then show "\<exists>c\<in>set chambers. ch_ID c = sc_ChamberID k \<and>
      is_ok (Reserve rid vid ten c (sc_StartsAt k) (sc_EndsAt k) len beam draft rs)"
    using assms(3,4) by (auto simp: good_candidate_def list_ex_iff is_ok_iff Reserve_Inr_iff)
  show "earliest \<le> sc_StartsAt k \<and> sc_EndsAt k = sc_StartsAt k + d"
    using good by (simp add: good_candidate_def)
  from assms(1) obtain found where "ks = sort_slice (lex2 sc_StartsAt sc_ChamberID) found"
    by (auto simp: RankSlotCandidates_def bindR_Inr_iff split: if_splits)
  then have "ordered_by (lex2 sc_StartsAt sc_ChamberID) ks" by (simp add: lex2.ordered_sort_slice)
  then show "sorted (map sc_StartsAt ks)"
    by (auto simp: sorted_map lex2_def not_less elim!: sorted_wrt_mono_rel [rotated] split: if_splits)
qed

theorem ranked_candidates_can_be_reserved_witness:
  "is_ok (Reserve ''r2'' ''voyage-2'' ''panama-east'' example_chamber (day_one + 495 * Minute) (day_one + 555 * Minute)
    (Fin 200) (Fin 32) (Fin 12) [example_slot ''r1'' (day_one + 6 * Hour) (day_one + 8 * Hour)])"
proof -
  let ?k = "\<lparr>sc_ChamberID = ''gatun-a'', sc_StartsAt = day_one + 495 * Minute, sc_EndsAt = day_one + 555 * Minute,
    sc_Wait = 75 * Minute\<rparr>"
  have run: "RankSlotCandidates (day_one + 6 * Hour) [example_chamber] [example_slot ''r1'' (day_one + 6 * Hour) (day_one + 8 * Hour)]
      (day_one + 7 * Hour) Hour (Fin 200) (Fin 32) (Fin 12) example_policy = Inr [?k]" by code_simp
  have "\<not> f64_le (Fin 200) (Fin 0) \<and> \<not> f64_le (Fin 32) (Fin 0) \<and> \<not> f64_le (Fin 12) (Fin 0)"
    by (simp add: f64_le_def)
  from ranked_candidates_can_be_reserved [OF run _ _ this, of ?k "''r2''" "''voyage-2''" "''panama-east''"]
  show ?thesis by simp
qed

end
