(* ===== verification/Manifest_Ops.thy ===== *)
theory Manifest_Ops
  imports Voyage "HOL-Library.AList"
begin

text \<open>
  \<^verbatim>\<open>internal/clearance/manifest.go\<close>: totals, amendment, comparison and risk of a manifest.
  The Go map of items by container is an association list with distinct keys
  (\<^verbatim>\<open>AList.update\<close>, \<^verbatim>\<open>AList.delete\<close>); its iteration order is not
  observable, because \<open>BuildManifest\<close> sorts the items. Sums are taken at 64 bits. A set of codes
  (\<^verbatim>\<open>map[string]struct{}\<close>) is a list read by membership.

  The main result is \<open>amend_compare\<close>: amending a manifest by the changes that comparing it with
  another one gives yields the other one.
\<close>

record ManifestTotals =
  mt_Containers :: int
  mt_Packages :: int
  mt_GrossKg :: int
  mt_HazardousUnits :: int
  mt_DistinctHSCodes :: int

record ManifestChange =
  mc_ContainerNo :: string
  mc_Remove :: bool
  mc_Replacement :: "CargoItem option"

type_synonym RiskBand = string

abbreviation RiskRoutine :: RiskBand where "RiskRoutine \<equiv> ''routine''"
abbreviation RiskElevated :: RiskBand where "RiskElevated \<equiv> ''elevated''"
abbreviation RiskCritical :: RiskBand where "RiskCritical \<equiv> ''critical''"

record ManifestRisk =
  mr_Band :: RiskBand
  mr_Score :: int
  mr_Reasons :: "string list"

section \<open>Totals and risk\<close>

text \<open>The summing loop; the set of codes seen is a list without repetition.\<close>

fun summarize_loop :: "CargoItem list \<Rightarrow> int \<Rightarrow> int \<Rightarrow> int \<Rightarrow> string list \<Rightarrow> (int \<times> int \<times> int \<times> string list) result" where
  "summarize_loop [] packages gross hazardous codes = Inr (packages, gross, hazardous, codes)"
| "summarize_loop (c # cs) packages gross hazardous codes =
    (if c_ContainerNo c = [] \<or> c_HSCode c = [] \<or> c_GrossKg c \<le> 0 \<or> c_Packages c \<le> 0
     then Inl (errorf ErrInvalid ''cargo item'')
     else summarize_loop cs (wrap64 (packages + c_Packages c)) (wrap64 (gross + c_GrossKg c))
       (if c_Hazardous c then inc64 hazardous else hazardous) (List.insert (c_HSCode c) codes))"

definition SummarizeManifest :: "Manifest \<Rightarrow> ManifestTotals result" where
  "SummarizeManifest manifest =
    (if m_VoyageID manifest = [] \<or> m_Items manifest = [] then Inl (errorf ErrInvalid ''empty manifest'')
     else bindR (summarize_loop (m_Items manifest) 0 0 0 []) (\<lambda>(packages, gross, hazardous, codes).
       Inr \<lparr>mt_Containers = int (length (m_Items manifest)), mt_Packages = packages, mt_GrossKg = gross,
         mt_HazardousUnits = hazardous, mt_DistinctHSCodes = int (length codes)\<rparr>))"

definition risk_factors :: "ManifestTotals \<Rightarrow> CargoItem list \<Rightarrow> string list \<Rightarrow> (int \<times> string) list" where
  "risk_factors totals items highRiskHSCodes =
    (if 500000 < mt_GrossKg totals then [(25, ''high gross weight'')] else []) @
    (if 100 < mt_Containers totals then [(20, ''large container count'')] else []) @
    (if 0 < mt_HazardousUnits totals then [(35, ''hazardous cargo'')] else []) @
    (if list_ex (\<lambda>c. c_HSCode c \<in> set highRiskHSCodes) items then [(15, ''controlled HS code'')] else [])"

definition AssessManifestRisk :: "Manifest \<Rightarrow> string list \<Rightarrow> ManifestRisk result" where
  "AssessManifestRisk manifest highRiskHSCodes =
    bindR (SummarizeManifest manifest) (\<lambda>totals.
      let factors = risk_factors totals (m_Items manifest) highRiskHSCodes;
          score = sum_list (map fst factors)
      in Inr \<lparr>mr_Band = (if 60 \<le> score then RiskCritical else if 25 \<le> score then RiskElevated else RiskRoutine),
           mr_Score = score, mr_Reasons = map snd factors\<rparr>)"

section \<open>Amendment and comparison\<close>

type_synonym item_map = "(string \<times> CargoItem) list"

definition items_by_container :: "CargoItem list \<Rightarrow> item_map" where
  "items_by_container items = foldl (\<lambda>m c. AList.update (c_ContainerNo c) c m) [] items"

text \<open>One round of the loop over the changes, for a container not changed before.\<close>

definition apply_change :: "string \<Rightarrow> ManifestChange \<Rightarrow> item_map \<Rightarrow> item_map result" where
  "apply_change container change items =
    (if mc_Remove change
     then if map_of items container = None \<or> mc_Replacement change \<noteq> None
       then Inl (errorf ErrConflict ''removal target'')
       else Inr (AList.delete container items)
     else case mc_Replacement change of
       Some replacement \<Rightarrow> Inr (AList.update container (replacement\<lparr>c_ContainerNo := container\<rparr>) items)
     | None \<Rightarrow> Inl (errorf ErrInvalid ''empty manifest change''))"

fun amend_loop :: "ManifestChange list \<Rightarrow> string list \<Rightarrow> item_map \<Rightarrow> item_map result" where
  "amend_loop [] seen items = Inr items"
| "amend_loop (change # rest) seen items =
    (let container = to_upper (trim_space (mc_ContainerNo change))
     in if container = [] then Inl (errorf ErrInvalid ''change container'')
        else if container \<in> set seen then Inl (errorf ErrConflict ''repeated manifest change'')
        else bindR (apply_change container change items) (amend_loop rest (container # seen)))"

definition AmendManifest :: "Manifest \<Rightarrow> ManifestChange list \<Rightarrow> Manifest result" where
  "AmendManifest current changes =
    (if changes = [] then Inl (errorf ErrInvalid ''manifest changes'')
     else bindR (amend_loop changes [] (items_by_container (m_Items current))) (\<lambda>items.
       if items = [] then Inl (errorf ErrState ''manifest cannot be empty'')
       else BuildManifest (m_VoyageID current) (map snd items)))"

definition change_at :: "item_map \<Rightarrow> item_map \<Rightarrow> string \<Rightarrow> ManifestChange list" where
  "change_at left right container =
    (case (map_of left container, map_of right container) of
       (Some _, None) \<Rightarrow> [\<lparr>mc_ContainerNo = container, mc_Remove = True, mc_Replacement = None\<rparr>]
     | (None, Some afterItem) \<Rightarrow>
         [\<lparr>mc_ContainerNo = container, mc_Remove = False, mc_Replacement = Some afterItem\<rparr>]
     | (Some beforeItem, Some afterItem) \<Rightarrow>
         (if beforeItem \<noteq> afterItem
          then [\<lparr>mc_ContainerNo = container, mc_Remove = False, mc_Replacement = Some afterItem\<rparr>] else [])
     | (None, None) \<Rightarrow> [])"

definition CompareManifests :: "Manifest \<Rightarrow> Manifest \<Rightarrow> ManifestChange list result" where
  "CompareManifests before after =
    (if m_VoyageID before = [] \<or> m_VoyageID before \<noteq> m_VoyageID after
     then Inl (errorf ErrInvalid ''manifest voyage mismatch'')
     else
       let left = items_by_container (m_Items before); right = items_by_container (m_Items after);
           ordered = sort_strings (remdups (map fst left @ map fst right))
       in Inr (concat (map (change_at left right) ordered)))"

section \<open>Item maps\<close>

lemma map_of_foldl_update:
  "map_of (foldl (\<lambda>m c. AList.update (c_ContainerNo c) c m) m cs) =
    foldl (\<lambda>f c. f(c_ContainerNo c \<mapsto> c)) (map_of m) cs"
  by (induction cs arbitrary: m) (simp_all add: update_conv')

lemma distinct_foldl_update:
  "distinct (map fst m) \<Longrightarrow> distinct (map fst (foldl (\<lambda>m c. AList.update (c_ContainerNo c) c m) m cs))"
  by (induction cs arbitrary: m) (simp_all add: distinct_update)

lemma foldl_map_upd:
  "distinct (map c_ContainerNo cs) \<Longrightarrow>
    foldl (\<lambda>f c. f(c_ContainerNo c \<mapsto> c)) g cs k =
      (case List.find (\<lambda>c. c_ContainerNo c = k) cs of None \<Rightarrow> g k | Some c \<Rightarrow> Some c)"
proof (induction cs arbitrary: g)
  case (Cons c cs)
  have "List.find (\<lambda>x. c_ContainerNo x = k) cs = None" if "c_ContainerNo c = k"
    using Cons.prems that by (auto simp: find_None_iff image_iff)
  with Cons show ?case by (auto split: option.splits)
qed simp

lemma items_by_container_Some:
  assumes "distinct (map c_ContainerNo cs)"
  shows "map_of (items_by_container cs) k = Some c \<longleftrightarrow> c \<in> set cs \<and> c_ContainerNo c = k"
proof -
  have "List.find (\<lambda>c. c_ContainerNo c = k) cs = Some c \<longleftrightarrow> c \<in> set cs \<and> c_ContainerNo c = k"
    using assms by (induction cs) auto
  with assms show ?thesis
    by (auto simp: items_by_container_def map_of_foldl_update foldl_map_upd split: option.splits)
qed

lemma distinct_items_by_container: "distinct (map fst (items_by_container cs))"
  by (simp add: items_by_container_def distinct_foldl_update)

text \<open>An item map with the contents of a list of items holds these items.\<close>

lemma item_map_values:
  assumes "distinct (map fst m)" and "distinct (map c_ContainerNo cs)"
    and "map_of m = map_of (items_by_container cs)"
  shows "mset (map snd m) = mset cs"
proof -
  have pairs: "(k, c) \<in> set m \<longleftrightarrow> c \<in> set cs \<and> c_ContainerNo c = k" for k c
    using assms(1,3) items_by_container_Some [OF assms(2), of k c] by (simp add: map_of_eq_Some_iff [symmetric])
  then have vals: "set (map snd m) = set cs" by (auto simp: image_iff) (metis pairs snd_conv)
  have "map fst m = map c_ContainerNo (map snd m)"
    using pairs by (auto intro!: map_cong)
  with assms(1) have "distinct (map snd m)" by (metis distinct_map)
  moreover from assms(2) have "distinct cs" by (simp add: distinct_map)
  ultimately show ?thesis using vals by (metis set_eq_iff_mset_eq_distinct)
qed

section \<open>Amending by a comparison\<close>

lemma apply_change_at:
  assumes "change_at left right k = [ch]" and "map_of m k = map_of left k"
    and "\<And>c. map_of right k = Some c \<Longrightarrow> c_ContainerNo c = k"
  shows "\<exists>m'. apply_change k ch m = Inr m' \<and> map_of m' = (map_of m)(k := map_of right k) \<and>
    (distinct (map fst m) \<longrightarrow> distinct (map fst m'))"
proof (cases "map_of right k")
  case None
  with assms have "apply_change k ch m = Inr (AList.delete k m)"
    by (auto simp: change_at_def apply_change_def split: option.splits)
  with None show ?thesis by (simp add: delete_conv' distinct_delete)
next
  case (Some c)
  with assms(3) have "c\<lparr>c_ContainerNo := k\<rparr> = c" by (auto intro: CargoItem.equality)
  with assms(1) Some have "apply_change k ch m = Inr (AList.update k c m)"
    by (auto simp: change_at_def apply_change_def split: option.splits if_splits)
  with Some show ?thesis by (simp add: update_conv' distinct_update)
qed

lemma change_at_shape:
  "change_at left right k = [] \<and> map_of left k = map_of right k \<or>
    (\<exists>ch. change_at left right k = [ch] \<and> mc_ContainerNo ch = k)"
  by (cases "map_of left k"; cases "map_of right k") (simp_all add: change_at_def)

lemma change_at_cases:
  obtains "change_at left right k = []" and "map_of left k = map_of right k"
  | ch where "change_at left right k = [ch]" and "mc_ContainerNo ch = k"
  using change_at_shape [of left right k] by blast

abbreviation normalized :: "string \<Rightarrow> bool" where
  "normalized k \<equiv> k \<noteq> [] \<and> to_upper (trim_space k) = k"

lemma amend_changes:
  assumes "distinct ks" and "set ks \<inter> set seen = {}" and "\<forall>k\<in>set ks. normalized k"
    and "\<forall>k\<in>set ks. map_of m k = map_of left k"
    and "\<And>k c. map_of right k = Some c \<Longrightarrow> c_ContainerNo c = k"
    and "distinct (map fst m)"
  shows "\<exists>m'. amend_loop (concat (map (change_at left right) ks)) seen m = Inr m' \<and> distinct (map fst m') \<and>
    map_of m' = (\<lambda>k. if k \<in> set ks then map_of right k else map_of m k)"
  using assms(1-4,6)
proof (induction ks arbitrary: seen m)
  case (Cons k ks)
  show ?case
  proof (cases rule: change_at_cases [of left right k])
    case 1
    with Cons.IH [of seen m] Cons.prems show ?thesis by (auto simp: fun_eq_iff)
  next
    case (2 ch)
    with Cons.prems assms(5) obtain m1 where m1: "apply_change k ch m = Inr m1"
        "map_of m1 = (map_of m)(k := map_of right k)" "distinct (map fst m1)"
      using apply_change_at [of left right k ch m] by auto
    with Cons.prems have "\<forall>j\<in>set ks. map_of m1 j = map_of left j" by auto
    with Cons.IH [of "k # seen" m1] Cons.prems m1(3)
    obtain m' where "amend_loop (concat (map (change_at left right) ks)) (k # seen) m1 = Inr m'"
      "distinct (map fst m')" "map_of m' = (\<lambda>j. if j \<in> set ks then map_of right j else map_of m1 j)" by auto
    with 2 m1 Cons.prems show ?thesis by (auto simp: Let_def fun_eq_iff)
  qed
qed simp

lemma amend_compare:
  assumes "BuildManifest vid xs = Inr before" and "BuildManifest vid ys = Inr after"
    and "CompareManifests before after = Inr changes" and "changes \<noteq> []"
    and "\<forall>c\<in>set xs \<union> set ys. normalized (c_ContainerNo c)"
  shows "AmendManifest before changes = Inr after"
proof -
  let ?left = "items_by_container (m_Items before)" and ?right = "items_by_container (m_Items after)"
  let ?keys = "sort_strings (remdups (map fst ?left @ map fst ?right))"
  from assms(1,2) have before: "valid_items xs" "mset (m_Items before) = mset xs" "m_VoyageID before = vid"
    and after: "valid_items ys" "mset (m_Items after) = mset ys" "m_VoyageID after = vid" "vid \<noteq> []"
    by (auto simp: BuildManifest_Inr_iff)
  have distinct: "distinct (map c_ContainerNo (m_Items before))" "distinct (map c_ContainerNo (m_Items after))"
    using valid_items_perm [OF before(2)] valid_items_perm [OF after(2)] before(1) after(1)
    by (simp_all add: valid_items_def)
  have sets: "set (m_Items before) = set xs" "set (m_Items after) = set ys"
    using before(2) after(2) by (metis set_mset_mset)+
  have left: "map_of ?left k = Some c \<longleftrightarrow> c \<in> set xs \<and> c_ContainerNo c = k" for k c
    using items_by_container_Some [OF distinct(1)] sets by simp
  have right: "map_of ?right k = Some c \<longleftrightarrow> c \<in> set ys \<and> c_ContainerNo c = k" for k c
    using items_by_container_Some [OF distinct(2)] sets by simp
  have keys: "set ?keys = dom (map_of ?left) \<union> dom (map_of ?right)"
    by (simp add: dom_map_of_conv_image_fst)
  have "\<exists>m'. amend_loop (concat (map (change_at ?left ?right) ?keys)) [] ?left = Inr m' \<and> distinct (map fst m') \<and>
      map_of m' = (\<lambda>k. if k \<in> set ?keys then map_of ?right k else map_of ?left k)"
  proof (rule amend_changes)
    have "normalized k" if "map_of ?left k = Some c \<or> map_of ?right k = Some c" for k c
      using that left [of k c] right [of k c] assms(5) by blast
    then show "\<forall>k\<in>set ?keys. normalized k" unfolding keys by (auto simp only: dom_def Un_iff mem_Collect_eq ball_Un)
  qed (use right distinct_items_by_container in simp_all)
  then obtain m' where m': "amend_loop (concat (map (change_at ?left ?right) ?keys)) [] ?left = Inr m'"
      "distinct (map fst m')" "map_of m' = (\<lambda>k. if k \<in> set ?keys then map_of ?right k else map_of ?left k)"
    by blast
  from m'(3) keys have "map_of m' = map_of ?right" by (auto simp: fun_eq_iff domIff)
  from item_map_values [OF m'(2) distinct(2) this] after(2) have vals: "mset (map snd m') = mset ys" by simp
  then have "BuildManifest vid (map snd m') = Inr after"
    using assms(2) after(1) valid_items_perm [OF vals] sort_items_perm [OF vals]
    by (auto simp: BuildManifest_Inr_iff)
  moreover from vals after(1) have "m' \<noteq> []" by (auto simp: valid_items_def)
  moreover from assms(3) have "changes = concat (map (change_at ?left ?right) ?keys)"
    by (simp add: CompareManifests_def Let_def split: if_splits)
  ultimately show ?thesis using m'(1) assms(4) before(3) by (simp add: AmendManifest_def)
qed

lemma compare_empty_iff:
  assumes "BuildManifest vid xs = Inr before" and "BuildManifest vid ys = Inr after"
  shows "CompareManifests before after = Inr [] \<longleftrightarrow> before = after"
proof
  let ?left = "items_by_container (m_Items before)" and ?right = "items_by_container (m_Items after)"
  from assms have before: "valid_items xs" "mset (m_Items before) = mset xs"
    and after: "valid_items ys" "mset (m_Items after) = mset ys"
    by (auto simp: BuildManifest_Inr_iff)
  have distinct: "distinct (map c_ContainerNo (m_Items before))" "distinct (map c_ContainerNo (m_Items after))"
    using valid_items_perm [OF before(2)] valid_items_perm [OF after(2)] before(1) after(1)
    by (simp_all add: valid_items_def)
  assume "CompareManifests before after = Inr []"
  then have "\<forall>k\<in>set (map fst ?left @ map fst ?right). change_at ?left ?right k = []"
    by (simp add: CompareManifests_def Let_def split: if_splits)
  then have "map_of ?left k = map_of ?right k" if "k \<in> set (map fst ?left @ map fst ?right)" for k
    using that change_at_shape [of ?left ?right k] by auto
  moreover have "map_of ?left k = map_of ?right k" if "k \<notin> set (map fst ?left @ map fst ?right)" for k
    using that map_of_eq_None_iff [of ?left k] map_of_eq_None_iff [of ?right k] by simp
  ultimately have same: "map_of ?left = map_of ?right" by blast
  have "mset (m_Items before) = mset (m_Items after)"
    using item_map_values [OF distinct_items_by_container distinct(1) refl]
      item_map_values [OF distinct_items_by_container distinct(2) same] by simp
  with before(2) after(2) have "mset xs = mset ys" by simp
  from sort_items_perm [OF this before(1)] assms show "before = after"
    by (auto simp: BuildManifest_Inr_iff)
next
  have none: "change_at m m k = []" for m k by (cases "map_of m k") (simp_all add: change_at_def)
  assume "before = after"
  with assms show "CompareManifests before after = Inr []"
    by (simp add: CompareManifests_def Let_def none BuildManifest_Inr_iff)
qed

section \<open>Exact totals\<close>

lemma summarize_loop_exact:
  assumes "\<forall>c\<in>set cs. valid_cargo c" and "0 \<le> p" and "0 \<le> g" and "0 \<le> h"
    and "p + sum_list (map c_Packages cs) \<le> max_int64" and "g + sum_list (map c_GrossKg cs) \<le> max_int64"
    and "h + int (length cs) \<le> max_int64"
  shows "\<exists>codes'. summarize_loop cs p g h codes =
      Inr (p + sum_list (map c_Packages cs), g + sum_list (map c_GrossKg cs),
        h + int (length (filter c_Hazardous cs)), codes') \<and>
    set codes' = set codes \<union> c_HSCode ` set cs \<and> (distinct codes \<longrightarrow> distinct codes')"
  using assms
proof (induction cs arbitrary: p g h codes)
  case (Cons c cs)
  from Cons.prems(1) have c: "0 < c_GrossKg c" "0 < c_Packages c" "c_ContainerNo c \<noteq> []" "c_HSCode c \<noteq> []"
    and cs: "\<forall>c\<in>set cs. valid_cargo c" by (simp_all add: valid_cargo_def)
  from cs have rest: "0 \<le> sum_list (map c_Packages cs)" "0 \<le> sum_list (map c_GrossKg cs)"
    by (auto intro!: sum_list_nonneg simp: valid_cargo_def less_imp_le)
  let ?h = "if c_Hazardous c then h + 1 else h"
  from Cons.prems c rest have range: "in_int64 (p + c_Packages c)" "in_int64 (g + c_GrossKg c)"
      "in_int64 h" "h < max_int64"
    by (simp_all add: in_int64_def min_int64_def)
  then have step: "summarize_loop (c # cs) p g h codes =
      summarize_loop cs (p + c_Packages c) (g + c_GrossKg c) ?h (List.insert (c_HSCode c) codes)"
    using c by (simp add: inc64_id)
  have h: "0 \<le> ?h" "?h + int (length cs) \<le> max_int64" using Cons.prems by simp_all
  have pg: "0 \<le> p + c_Packages c" "0 \<le> g + c_GrossKg c"
      "p + c_Packages c + sum_list (map c_Packages cs) \<le> max_int64"
      "g + c_GrossKg c + sum_list (map c_GrossKg cs) \<le> max_int64" using Cons.prems c by simp_all
  from Cons.IH [OF cs pg(1,2) h(1) pg(3,4) h(2), of "List.insert (c_HSCode c) codes"]
  obtain codes' where "summarize_loop cs (p + c_Packages c) (g + c_GrossKg c) ?h (List.insert (c_HSCode c) codes) =
      Inr (p + c_Packages c + sum_list (map c_Packages cs), g + c_GrossKg c + sum_list (map c_GrossKg cs),
        ?h + int (length (filter c_Hazardous cs)), codes')"
    "set codes' = set (List.insert (c_HSCode c) codes) \<union> c_HSCode ` set cs"
    "distinct (List.insert (c_HSCode c) codes) \<longrightarrow> distinct codes'" by blast
  then show ?case unfolding step by auto
qed simp

text \<open>The sums of a manifest fit 64 bits.\<close>

definition sums_fit :: "CargoItem list \<Rightarrow> bool" where
  "sums_fit items \<longleftrightarrow> sum_list (map c_Packages items) \<le> max_int64 \<and> sum_list (map c_GrossKg items) \<le> max_int64 \<and>
    int (length items) \<le> max_int64"

lemma SummarizeManifest_built:
  assumes "BuildManifest vid items = Inr m" and "sums_fit items"
  shows "SummarizeManifest m = Inr
    \<lparr>mt_Containers = int (length items), mt_Packages = sum_list (map c_Packages items),
     mt_GrossKg = sum_list (map c_GrossKg items), mt_HazardousUnits = int (length (filter c_Hazardous items)),
     mt_DistinctHSCodes = int (card (c_HSCode ` set items))\<rparr>"
proof -
  from assms(1) have m: "mset (m_Items m) = mset items" "m_VoyageID m \<noteq> []" and ok: "valid_items items"
    by (auto simp: BuildManifest_Inr_iff)
  then have set: "set (m_Items m) = set items" and len: "length (m_Items m) = length items"
    by (metis set_mset_mset, metis size_mset)
  have sums: "sum_list (map f (m_Items m)) = sum_list (map f items)" for f :: "CargoItem \<Rightarrow> int"
    using m(1) by (metis mset_map sum_mset_sum_list)
  have hazardous: "length (filter c_Hazardous (m_Items m)) = length (filter c_Hazardous items)"
    using m(1) by (metis mset_filter size_mset)
  from ok set have "\<forall>c\<in>set (m_Items m). valid_cargo c" and ne: "m_Items m \<noteq> []"
    using len by (auto simp: valid_items_def)
  from summarize_loop_exact [OF this(1), of 0 0 0 "[]"] assms(2)
  obtain codes where "summarize_loop (m_Items m) 0 0 0 [] = Inr (sum_list (map c_Packages items),
      sum_list (map c_GrossKg items), int (length (filter c_Hazardous items)), codes)"
    and "set codes = c_HSCode ` set items" and "distinct codes"
    by (auto simp: sums_fit_def sums len set hazardous)
  moreover from this(2,3) have "length codes = card (c_HSCode ` set items)" by (metis distinct_card)
  ultimately show ?thesis using m(2) ne len by (simp add: SummarizeManifest_def)
qed

section \<open>Properties\<close>

text \<open>
  C29: Comparing and amending are inverse: two manifests of one voyage compare without changes exactly
  when they are equal; otherwise amending the first by the changes gives the second, hash included,
  when the container numbers are in the upper-case form that AmendManifest puts them in.
\<close>

theorem compare_amend_roundtrip:
  assumes "BuildManifest vid xs = Inr before" and "BuildManifest vid ys = Inr after"
    and "\<forall>c\<in>set xs \<union> set ys. to_upper (trim_space (c_ContainerNo c)) = c_ContainerNo c"
  shows "\<exists>changes. CompareManifests before after = Inr changes \<and> (changes = [] \<longleftrightarrow> before = after) \<and>
    (before \<noteq> after \<longrightarrow> AmendManifest before changes = Inr after)"
proof -
  from assms(1,2) obtain changes where changes: "CompareManifests before after = Inr changes"
    by (auto simp: CompareManifests_def BuildManifest_Inr_iff Let_def)
  with compare_empty_iff [OF assms(1,2)] have empty: "changes = [] \<longleftrightarrow> before = after" by simp
  have "\<forall>c\<in>set xs \<union> set ys. normalized (c_ContainerNo c)"
    using assms by (auto simp: BuildManifest_Inr_iff valid_items_def valid_cargo_def)
  with amend_compare [OF assms(1,2) changes] changes empty show ?thesis by blast
qed

theorem compare_amend_roundtrip_witness:
  "\<exists>before after changes. BuildManifest ''v1'' example_cargo = Inr before \<and>
    BuildManifest ''v1'' (tl example_cargo) = Inr after \<and> CompareManifests before after = Inr changes \<and>
    AmendManifest before changes = Inr after"
proof -
  have "valid_items example_cargo" and "valid_items (tl example_cargo)" by code_simp+
  then obtain before after where built: "BuildManifest ''v1'' example_cargo = Inr before"
      "BuildManifest ''v1'' (tl example_cargo) = Inr after" by (simp add: BuildManifest_Inr_iff)
  then have "length (m_Items before) = 2" "length (m_Items after) = 1"
    by (auto simp: BuildManifest_Inr_iff example_cargo_def)
  then have "before \<noteq> after" by auto
  have "list_all (\<lambda>c. to_upper (trim_space (c_ContainerNo c)) = c_ContainerNo c) example_cargo" by code_simp
  then have "\<forall>c\<in>set example_cargo \<union> set (tl example_cargo). to_upper (trim_space (c_ContainerNo c)) = c_ContainerNo c"
    by (auto simp: list_all_iff example_cargo_def)
  from compare_amend_roundtrip [OF built this] built \<open>before \<noteq> after\<close> show ?thesis by blast
qed

text \<open>
  The risk band of a manifest, by its four factors (weight above 500 t, more than 100 containers,
  hazardous cargo, a controlled code): critical exactly for hazardous and heavy, hazardous, many and
  controlled, or heavy, many and controlled; routine exactly without weight, without hazard and not
  both many and controlled. It needs the sums of the items to fit 64 bits.
\<close>

theorem AssessManifestRisk_bands:
  fixes codes :: "string list"
  assumes "BuildManifest vid items = Inr m" and "sums_fit items"
  defines "heavy \<equiv> 500000 < sum_list (map c_GrossKg items)" and "many \<equiv> 100 < length items"
    and "hazardous \<equiv> list_ex c_Hazardous items" and "controlled \<equiv> list_ex (\<lambda>c. c_HSCode c \<in> set codes) items"
  shows "\<exists>r. AssessManifestRisk m codes = Inr r \<and>
    (mr_Band r = RiskCritical \<longleftrightarrow> hazardous \<and> heavy \<or> (hazardous \<or> heavy) \<and> many \<and> controlled) \<and>
    (mr_Band r = RiskRoutine \<longleftrightarrow> \<not> heavy \<and> \<not> hazardous \<and> \<not> (many \<and> controlled)) \<and>
    (''hazardous cargo'' \<in> set (mr_Reasons r) \<longleftrightarrow> hazardous)"
proof -
  from assms(1) have "mset (m_Items m) = mset items" by (auto simp: BuildManifest_Inr_iff)
  then have set: "set (m_Items m) = set items" by (metis set_mset_mset)
  have "0 < int (length (filter c_Hazardous items)) \<longleftrightarrow> hazardous"
    by (auto simp: hazardous_def list_ex_iff filter_empty_conv)
  moreover have "list_ex (\<lambda>c. c_HSCode c \<in> set codes) (m_Items m) \<longleftrightarrow> controlled"
    by (simp add: controlled_def list_ex_iff set)
  moreover have "100 < int (length items) \<longleftrightarrow> many" by (simp add: many_def)
  ultimately show ?thesis
    by (cases heavy; cases many; cases hazardous; cases controlled)
      (simp_all add: AssessManifestRisk_def SummarizeManifest_built [OF assms(1,2)] risk_factors_def
        heavy_def [symmetric] Let_def)
qed

theorem AssessManifestRisk_bands_witness:
  "\<exists>m r. BuildManifest ''v1'' example_cargo = Inr m \<and> AssessManifestRisk m [''8471''] = Inr r \<and>
    mr_Band r \<noteq> RiskCritical \<and> mr_Band r \<noteq> RiskRoutine"
proof -
  have "valid_items example_cargo" by code_simp
  then obtain m where m: "BuildManifest ''v1'' example_cargo = Inr m" by (simp add: BuildManifest_Inr_iff)
  have "sums_fit example_cargo" by (simp add: sums_fit_def example_cargo_def max_int64_def)
  from AssessManifestRisk_bands [OF m this, of "[''8471'']"] m show ?thesis
    by (auto simp: example_cargo_def)
qed

text \<open>
  The gross weight is summed at 64 bits: two items of 2^62 kg each sum to a negative total, so a
  manifest of that weight is routine.
\<close>

lemma gross_weight_wraps:
  "\<exists>m r. BuildManifest ''v1'' (map (\<lambda>c. c\<lparr>c_GrossKg := 2 ^ 62, c_Hazardous := False\<rparr>) example_cargo) = Inr m \<and>
    AssessManifestRisk m [] = Inr r \<and> mr_Band r = RiskRoutine"
proof -
  let ?items = "map (\<lambda>c. c\<lparr>c_GrossKg := 2 ^ 62, c_Hazardous := False\<rparr>) example_cargo"
  have "valid_items ?items" by code_simp
  then obtain m where m: "BuildManifest ''v1'' ?items = Inr m"
      and items: "m_Items m = sort_slice (by_key c_ContainerNo) ?items" and "m_VoyageID m = ''v1''"
    by (simp add: BuildManifest_Inr_iff)
  have sorted: "sort_slice (by_key c_ContainerNo) ?items = rev ?items" by code_simp
  have "summarize_loop (rev ?items) 0 0 0 [] = Inr (5, - (2 ^ 63), 0, [''8471'', ''2710''])" by code_simp
  then have "SummarizeManifest m = Inr \<lparr>mt_Containers = 2, mt_Packages = 5, mt_GrossKg = - (2 ^ 63),
      mt_HazardousUnits = 0, mt_DistinctHSCodes = 2\<rparr>"
    using items \<open>m_VoyageID m = ''v1''\<close> unfolding sorted by (simp add: SummarizeManifest_def example_cargo_def)
  then have "\<exists>r. AssessManifestRisk m [] = Inr r \<and> mr_Band r = RiskRoutine"
    by (simp add: AssessManifestRisk_def risk_factors_def Let_def)
  with m show ?thesis by blast
qed

text \<open>
  A manifest may hold a container number in lower case; AmendManifest, which changes the number of
  a change to upper case but not the ones it looks them up among, then cannot remove that item.
\<close>

lemma lower_case_container_cannot_be_removed:
  "\<exists>m. BuildManifest ''v1'' [(hd example_cargo)\<lparr>c_ContainerNo := ''mscu2''\<rparr>, hd (tl example_cargo)] = Inr m \<and>
    AmendManifest m [\<lparr>mc_ContainerNo = ''mscu2'', mc_Remove = True, mc_Replacement = None\<rparr>] =
      Inl (errorf ErrConflict ''removal target'')"
proof -
  let ?items = "[(hd example_cargo)\<lparr>c_ContainerNo := ''mscu2''\<rparr>, hd (tl example_cargo)]"
  let ?change = "\<lparr>mc_ContainerNo = ''mscu2'', mc_Remove = True, mc_Replacement = None\<rparr>"
  have "valid_items ?items" by code_simp
  then obtain m where m: "BuildManifest ''v1'' ?items = Inr m"
      and items: "m_Items m = sort_slice (by_key c_ContainerNo) ?items"
    by (simp add: BuildManifest_Inr_iff)
  have "amend_loop [?change] [] (items_by_container (sort_slice (by_key c_ContainerNo) ?items)) =
      Inl (errorf ErrConflict ''removal target'')" by code_simp
  then have "AmendManifest m [?change] = Inl (errorf ErrConflict ''removal target'')"
    unfolding AmendManifest_def items by (simp del: amend_loop.simps)
  with m show ?thesis by blast
qed

end
