(* ===== verification/Idempotency.thy ===== *)
theory Idempotency
  imports Sha256
begin

text \<open>
  \<^verbatim>\<open>internal/idempotency/record.go\<close>: the records that make a request take effect once. A
  \<^verbatim>\<open>*Record\<close> argument is an option; the copies made by \<^verbatim>\<open>clone\<close> are plain
  values here. \<open>record_step\<close> is the step relation of the three operations on a record and
  \<open>record_run n\<close> a run of \<open>n\<close> of them; the lemmas say that a completed record takes no further
  step and that a version seen before a step is refused after it.
\<close>

type_synonym Status = string

abbreviation StatusProcessing :: Status where "StatusProcessing \<equiv> ''processing''"
abbreviation StatusCompleted :: Status where "StatusCompleted \<equiv> ''completed''"
abbreviation StatusFailed :: Status where "StatusFailed \<equiv> ''failed''"

record Record =
  k_TenantID :: string
  k_Key :: string
  k_Operation :: string
  k_RequestHash :: string
  k_Status :: Status
  k_ResponseCode :: int
  k_ResponseBody :: string
  k_FailureMessage :: string
  k_CreatedAt :: Time
  k_UpdatedAt :: Time
  k_ExpiresAt :: Time
  k_Version :: int

type_synonym Decision = string

abbreviation DecisionStart :: Decision where "DecisionStart \<equiv> ''start''"
abbreviation DecisionReplay :: Decision where "DecisionReplay \<equiv> ''replay''"
abbreviation DecisionConflict :: Decision where "DecisionConflict \<equiv> ''conflict''"
abbreviation DecisionBusy :: Decision where "DecisionBusy \<equiv> ''busy''"

definition Fingerprint :: "string \<Rightarrow> string \<Rightarrow> string \<Rightarrow> string" where
  "Fingerprint method path body =
    sha256_hex (to_upper (trim_space method) @ [CHR 0x0A] @ trim_space path @ [CHR 0x0A] @ body)"

definition NewRecord :: "string \<Rightarrow> string \<Rightarrow> string \<Rightarrow> string \<Rightarrow> Time \<Rightarrow> Duration \<Rightarrow> Record result" where
  "NewRecord tenantID key operation requestHash now ttl =
    (let tenantID = trim_space tenantID; key = trim_space key; operation = trim_space operation;
         requestHash = trim_space requestHash
     in if tenantID = [] \<or> length key < 8 \<or> 128 < length key \<or> operation = [] \<or> length requestHash \<noteq> 64 \<or>
          now = 0 \<or> ttl \<le> 0
        then Inl (errorf ErrInvalid ''idempotency record'')
        else Inr \<lparr>k_TenantID = tenantID, k_Key = key, k_Operation = operation, k_RequestHash = requestHash,
          k_Status = StatusProcessing, k_ResponseCode = 0, k_ResponseBody = [], k_FailureMessage = [],
          k_CreatedAt = now, k_UpdatedAt = now, k_ExpiresAt = now + ttl, k_Version = 1\<rparr>)"

definition Decide :: "Record option \<Rightarrow> string \<Rightarrow> Time \<Rightarrow> Duration \<Rightarrow> Decision" where
  "Decide existing requestHash now staleAfter =
    (case existing of
       None \<Rightarrow> DecisionStart
     | Some r \<Rightarrow>
         if \<not> now < k_ExpiresAt r then DecisionStart
         else if k_RequestHash r \<noteq> requestHash then DecisionConflict
         else if k_Status r = StatusCompleted then DecisionReplay
         else if k_Status r = StatusProcessing
         then if 0 < staleAfter \<and> \<not> now < k_UpdatedAt r + staleAfter then DecisionStart else DecisionBusy
         else if k_Status r = StatusFailed then DecisionStart
         else DecisionConflict)"

definition Complete :: "Record \<Rightarrow> int \<Rightarrow> string \<Rightarrow> Time \<Rightarrow> int \<Rightarrow> Record result" where
  "Complete record1 statusCode body now expectedVersion =
    (if k_Status record1 \<noteq> StatusProcessing \<or> k_Version record1 \<noteq> expectedVersion \<or> statusCode < 200 \<or>
        300 \<le> statusCode \<or> now < k_UpdatedAt record1
     then Inl (errorf ErrConflict ''idempotency completion'')
     else Inr (record1\<lparr>k_Status := StatusCompleted, k_ResponseCode := statusCode, k_ResponseBody := body,
       k_FailureMessage := [], k_UpdatedAt := now, k_Version := inc64 (k_Version record1)\<rparr>))"

definition Fail :: "Record \<Rightarrow> string \<Rightarrow> Time \<Rightarrow> int \<Rightarrow> Record result" where
  "Fail record1 message now expectedVersion =
    (let message = trim_space message
     in if k_Status record1 \<noteq> StatusProcessing \<or> k_Version record1 \<noteq> expectedVersion \<or> message = [] \<or>
          now < k_UpdatedAt record1
        then Inl (errorf ErrConflict ''idempotency failure'')
        else Inr (record1\<lparr>k_Status := StatusFailed, k_ResponseCode := 0, k_ResponseBody := [],
          k_FailureMessage := message, k_UpdatedAt := now, k_Version := inc64 (k_Version record1)\<rparr>))"

definition Restart :: "Record \<Rightarrow> Time \<Rightarrow> int \<Rightarrow> Record result" where
  "Restart record1 now expectedVersion =
    (if k_Version record1 \<noteq> expectedVersion \<or> k_Status record1 = StatusCompleted \<or> \<not> now < k_ExpiresAt record1
     then Inl (errorf ErrConflict ''idempotency restart'')
     else Inr (record1\<lparr>k_Status := StatusProcessing, k_ResponseCode := 0, k_ResponseBody := [],
       k_FailureMessage := [], k_UpdatedAt := now, k_Version := inc64 (k_Version record1)\<rparr>))"

section \<open>The life of a record\<close>

inductive record_step :: "Record \<Rightarrow> Record \<Rightarrow> bool" where
  complete_step: "Complete r code body now n = Inr r' \<Longrightarrow> record_step r r'"
| fail_step: "Fail r message now n = Inr r' \<Longrightarrow> record_step r r'"
| restart_step: "Restart r now n = Inr r' \<Longrightarrow> record_step r r'"

inductive_cases record_stepE: "record_step r r'"

inductive record_run :: "nat \<Rightarrow> Record \<Rightarrow> Record \<Rightarrow> bool" where
  record_none: "record_run 0 r r"
| record_more: "record_run n r q \<Longrightarrow> record_step q q' \<Longrightarrow> record_run (Suc n) r q'"

definition record_identity :: "Record \<Rightarrow> string \<times> string \<times> string \<times> string \<times> Time \<times> Time" where
  "record_identity r = (k_TenantID r, k_Key r, k_Operation r, k_RequestHash r, k_CreatedAt r, k_ExpiresAt r)"

lemma record_step_facts:
  assumes "record_step r r'"
  shows "k_Status r \<noteq> StatusCompleted" and "k_Version r' = inc64 (k_Version r)"
    and "record_identity r' = record_identity r"
    and "k_Status r' \<in> {StatusProcessing, StatusCompleted, StatusFailed}"
  using assms
  by (auto elim!: record_stepE simp: Complete_def Fail_def Restart_def Let_def record_identity_def
      split: if_splits)

lemma record_run_facts:
  "record_run n r q \<Longrightarrow> in_int64 (k_Version r) \<Longrightarrow> k_Version r + int n \<le> max_int64 \<Longrightarrow>
    k_Version q = k_Version r + int n \<and> record_identity q = record_identity r"
proof (induction rule: record_run.induct)
  case (record_more n r q q')
  then have q: "k_Version q = k_Version r + int n" "record_identity q = record_identity r" by simp_all
  with record_more.prems have "inc64 (k_Version q) = k_Version q + 1"
    by (intro inc64_id) (simp_all add: in_int64_def)
  with q record_step_facts(2,3) [OF record_more.hyps(2)] show ?case by simp
qed simp

lemma record_run_completed: "record_run n r q \<Longrightarrow> k_Status r = StatusCompleted \<Longrightarrow> q = r"
  by (induction rule: record_run.induct) (auto dest: record_step_facts(1))

definition example_record :: Record where
  "example_record = \<lparr>k_TenantID = ''panama-east'', k_Key = ''key-00001'', k_Operation = ''voyage.declare'',
    k_RequestHash = ''h'', k_Status = StatusProcessing, k_ResponseCode = 0, k_ResponseBody = [],
    k_FailureMessage = [], k_CreatedAt = 10, k_UpdatedAt = 10, k_ExpiresAt = 100, k_Version = 1\<rparr>"

lemma example_restart: "record_step example_record (example_record\<lparr>k_UpdatedAt := 50, k_Version := 2\<rparr>)"
proof (rule restart_step)
  show "Restart example_record 50 1 = Inr (example_record\<lparr>k_UpdatedAt := 50, k_Version := 2\<rparr>)" by code_simp
qed

text \<open>
  A completed response is final: no run of completions, failures and restarts changes a completed
  record, and Decide answers its request with a replay until it expires. So a request that took
  effect once is never started again while its record lives.
\<close>

theorem completed_record_is_final:
  assumes "Complete r code body t n = Inr c" and "record_run m c q"
  shows "q = c \<and>
    (k_ResponseCode q = code \<and> k_ResponseBody q = body \<and> 200 \<le> code \<and> code < 300) \<and>
    (now < k_ExpiresAt r \<longrightarrow> Decide (Some q) (k_RequestHash r) now stale = DecisionReplay) \<and>
    (now < k_ExpiresAt r \<longrightarrow> h \<noteq> k_RequestHash r \<longrightarrow> Decide (Some q) h now stale = DecisionConflict)"
proof (rule conj4I; (intro allI impI)?)
  from assms(1) have c: "k_Status c = StatusCompleted" "k_ResponseCode c = code" "k_ResponseBody c = body"
      "k_ExpiresAt c = k_ExpiresAt r" "k_RequestHash c = k_RequestHash r" "200 \<le> code \<and> code < 300"
    by (auto simp: Complete_def split: if_splits)
  show q: "q = c" by (rule record_run_completed [OF assms(2) c(1)])
  with c show "k_ResponseCode q = code \<and> k_ResponseBody q = body \<and> 200 \<le> code \<and> code < 300" by simp
  show "Decide (Some q) (k_RequestHash r) now stale = DecisionReplay" if "now < k_ExpiresAt r"
    using c q that by (simp add: Decide_def)
  show "Decide (Some q) h now stale = DecisionConflict" if "now < k_ExpiresAt r" "h \<noteq> k_RequestHash r"
    using c q that by (simp add: Decide_def)
qed

theorem completed_record_is_final_witness:
  "\<exists>c. Complete example_record 201 ''ok'' 20 1 = Inr c \<and> Decide (Some c) ''h'' 50 Minute = DecisionReplay"
proof -
  obtain c where c: "Complete example_record 201 ''ok'' 20 1 = Inr c"
    by (simp add: Complete_def example_record_def)
  from completed_record_is_final [OF c record_none, of 50 Minute] c show ?thesis
    by (simp add: example_record_def)
qed

text \<open>
  Versions fence off stale workers: once a record has taken any steps since a worker read it
  (another worker restarted it, for instance), completing, failing or restarting it with the version
  that was read is refused with ErrConflict, whatever the record has become.
\<close>

theorem stale_worker_is_fenced:
  assumes "record_run n r q" and "0 < n" and "in_int64 (k_Version r)" and "k_Version r + int n \<le> max_int64"
  shows "Complete q code body now (k_Version r) = Inl (errorf ErrConflict ''idempotency completion'') \<and>
    Fail q message now (k_Version r) = Inl (errorf ErrConflict ''idempotency failure'') \<and>
    Restart q now (k_Version r) = Inl (errorf ErrConflict ''idempotency restart'')"
proof (rule conj3I; (intro allI impI)?)
  from record_run_facts [OF assms(1,3,4)] assms(2) have "k_Version q \<noteq> k_Version r" by simp
  then show "Complete q code body now (k_Version r) = Inl (errorf ErrConflict ''idempotency completion'')"
    and "Fail q message now (k_Version r) = Inl (errorf ErrConflict ''idempotency failure'')"
    and "Restart q now (k_Version r) = Inl (errorf ErrConflict ''idempotency restart'')"
    by (simp_all add: Complete_def Fail_def Restart_def Let_def)
qed

theorem stale_worker_is_fenced_witness:
  "Complete (example_record\<lparr>k_UpdatedAt := 50, k_Version := 2\<rparr>) 200 ''late'' 60 1 =
    Inl (errorf ErrConflict ''idempotency completion'')"
  using stale_worker_is_fenced [OF record_more [OF record_none example_restart], of 200 "''late''" 60]
  by (simp add: example_record_def in_int64_def min_int64_def max_int64_def)

text \<open>
  Decide starts a request exactly when there is no live record of it, when the recorded attempt
  with the same fingerprint failed, or when it has been processing for longer than the limit; it
  replays exactly a completed one, is busy exactly while a fresh attempt runs, and answers a different
  fingerprint under the same key with a conflict.
\<close>

theorem Decide_correct:
  "Decide None h now stale = DecisionStart \<and>
    (\<forall>r. k_Status r \<in> {StatusProcessing, StatusCompleted, StatusFailed} \<longrightarrow>
    (Decide (Some r) h now stale = DecisionStart \<longleftrightarrow> k_ExpiresAt r \<le> now \<or> k_RequestHash r = h \<and>
      (k_Status r = StatusFailed \<or> k_Status r = StatusProcessing \<and> 0 < stale \<and> k_UpdatedAt r + stale \<le> now)) \<and>
    (Decide (Some r) h now stale = DecisionReplay \<longleftrightarrow>
      now < k_ExpiresAt r \<and> k_RequestHash r = h \<and> k_Status r = StatusCompleted) \<and>
    (Decide (Some r) h now stale = DecisionBusy \<longleftrightarrow> now < k_ExpiresAt r \<and> k_RequestHash r = h \<and>
      k_Status r = StatusProcessing \<and> (stale \<le> 0 \<or> now < k_UpdatedAt r + stale)) \<and>
    (Decide (Some r) h now stale = DecisionConflict \<longleftrightarrow> now < k_ExpiresAt r \<and> k_RequestHash r \<noteq> h))"
  by (rule conjI, simp add: Decide_def, intro allI impI, elim insertE emptyE) (auto simp: Decide_def not_less not_le)

theorem Decide_correct_witness:
  "Decide (Some example_record) ''h'' 50 20 = DecisionStart"
  using Decide_correct [of "''h''" 50 20, THEN conjunct2, THEN spec, of example_record]
  by (simp add: example_record_def)

end
