(* ===== verification/Customs_Gateway.thy ===== *)
theory Customs_Gateway
  imports Prelude
begin

text \<open>
  \<^verbatim>\<open>internal/customs/client.go\<close> and \<^verbatim>\<open>retry.go\<close>: declarations to the
  customs service, the checks on what goes out and comes back, and the gateway that retries. The
  interface \<^verbatim>\<open>Gateway\<close> is a function from the state of the world to a decision or an
  error and the next state, and so is the \<^verbatim>\<open>Sleep\<close> function; a nil gateway is \<open>None\<close>.
  What \<^verbatim>\<open>HTTPClient.Submit\<close> does with the status and the decoded body of a response is
  \<open>response_decision\<close>; the HTTP exchange around it (URL, headers, body) is in \<open>Customs_Client\<close>.

  The loop of attempts is \<open>attempts_loop\<close>, by recursion on the attempts that are left.
\<close>

type_synonym DecisionStatus = string

abbreviation DecisionAccepted :: DecisionStatus where "DecisionAccepted \<equiv> ''accepted''"
abbreviation DecisionReview :: DecisionStatus where "DecisionReview \<equiv> ''review''"
abbreviation DecisionRejected :: DecisionStatus where "DecisionRejected \<equiv> ''rejected''"

record Declaration =
  d_TenantID :: string
  d_VoyageID :: string
  d_ManifestHash :: string
  d_OriginPort :: string
  d_SubmittedAt :: Time

record CustomsDecision =
  cd_Reference :: string
  cd_Status :: DecisionStatus
  cd_Reason :: string
  cd_DecidedAt :: Time

definition validateDeclaration :: "Declaration \<Rightarrow> unit result" where
  "validateDeclaration d = refuse_if
    (d_TenantID d = [] \<or> d_VoyageID d = [] \<or> length (d_ManifestHash d) \<noteq> 64 \<or> d_OriginPort d = [] \<or>
     d_SubmittedAt d = 0) (errorf ErrInvalid ''customs declaration'')"

definition validateDecision :: "CustomsDecision \<Rightarrow> unit result" where
  "validateDecision d =
    (if cd_Reference d = [] \<or> cd_DecidedAt d = 0 then Inl (errorf ErrInvalid ''customs decision'')
     else if cd_Status d = DecisionAccepted \<or> cd_Status d = DecisionReview then Inr ()
     else if cd_Status d = DecisionRejected
     then refuse_if (trim_space (cd_Reason d) = []) (errorf ErrInvalid ''rejection reason'')
     else Inl (errorf ErrInvalid ''customs decision status''))"

text \<open>
  From the status of a response: \<open>decoded\<close> is the body as \<^verbatim>\<open>json.Unmarshal\<close> reads it and
  \<open>status_text\<close> prints a status in decimal.
\<close>

definition response_decision ::
    "(int \<Rightarrow> string) \<Rightarrow> int \<Rightarrow> CustomsDecision result \<Rightarrow> CustomsDecision result" where
  "response_decision status_text status decoded =
    (if status = 409 then Inl (Sentinel ErrConflict)
     else if status = 401 \<or> status = 403 then Inl (Sentinel ErrForbidden)
     else if status < 200 \<or> 300 \<le> status
     then Inl (Plain (''customs gateway status '' @ status_text status))
     else case decoded of
       Inl e \<Rightarrow> Inl (Wrapped ''decode customs response: '' e [])
     | Inr decision \<Rightarrow> bindR (validateDecision decision) (\<lambda>_. Inr decision))"

section \<open>Retrying\<close>

record RetryPolicy =
  rp_Attempts :: int
  rp_Backoff :: Duration
  rp_Maximum :: Duration

type_synonym 'w gateway = "'w \<Rightarrow> Declaration \<Rightarrow> CustomsDecision result \<times> 'w"
type_synonym 'w sleeper = "'w \<Rightarrow> Duration \<Rightarrow> unit result \<times> 'w"

definition default_policy :: "RetryPolicy \<Rightarrow> RetryPolicy" where
  "default_policy p0 =
    (let p1 = (if rp_Attempts p0 \<le> 0 then p0\<lparr>rp_Attempts := 3\<rparr> else p0);
         p2 = (if rp_Backoff p1 \<le> 0 then p1\<lparr>rp_Backoff := 100 * Millisecond\<rparr> else p1)
     in if rp_Maximum p2 < rp_Backoff p2 then p2\<lparr>rp_Maximum := 2 * Second\<rparr> else p2)"

definition retryable :: "error \<Rightarrow> bool" where
  "retryable e \<longleftrightarrow> \<not> (errors_is e ContextCanceled \<or> errors_is e ContextDeadlineExceeded \<or>
    is_sentinel e ErrForbidden \<or> is_sentinel e ErrInvalid \<or> is_sentinel e ErrConflict)"

text \<open>The pause after an attempt: a left shift at 64 bits, then the maximum.\<close>

definition retry_backoff :: "RetryPolicy \<Rightarrow> nat \<Rightarrow> Duration" where
  "retry_backoff p attempt =
    (let backoff = wrap64 (rp_Backoff p * 2 ^ (attempt - 1))
     in if rp_Maximum p < backoff then rp_Maximum p else backoff)"

abbreviation submission_failed :: "error \<Rightarrow> error" where
  "submission_failed e \<equiv> Wrapped ''customs submission failed: '' e []"

fun attempts_loop ::
    "'w gateway \<Rightarrow> 'w sleeper \<Rightarrow> RetryPolicy \<Rightarrow> Declaration \<Rightarrow> nat \<Rightarrow> nat \<Rightarrow> error \<Rightarrow> 'w \<Rightarrow>
     CustomsDecision result \<times> 'w" where
  "attempts_loop submit slp p d attempt 0 lastErr w = (Inl (submission_failed lastErr), w)"
| "attempts_loop submit slp p d attempt (Suc remaining) lastErr w =
    (case submit w d of
       (Inr decision, w1) \<Rightarrow> (Inr decision, w1)
     | (Inl e, w1) \<Rightarrow>
         if \<not> retryable e \<or> remaining = 0 then (Inl (submission_failed e), w1)
         else case slp w1 (retry_backoff p attempt) of
           (Inl e1, w2) \<Rightarrow> (Inl e1, w2)
         | (Inr _, w2) \<Rightarrow> attempts_loop submit slp p d (Suc attempt) remaining e w2)"

definition retrying_Submit ::
    "'w gateway option \<Rightarrow> 'w sleeper \<Rightarrow> RetryPolicy \<Rightarrow> Declaration \<Rightarrow> 'w \<Rightarrow> CustomsDecision result \<times> 'w" where
  "retrying_Submit next_gateway slp policy d w =
    (case next_gateway of
       None \<Rightarrow> (Inl (errorf ErrInvalid ''customs gateway''), w)
     | Some submit \<Rightarrow>
         let p = default_policy policy
         in attempts_loop submit slp p d 1 (nat (rp_Attempts p)) (Plain []) w)"

section \<open>What a scripted gateway sees\<close>

text \<open>
  A world that records the calls made and the pauses taken; the gateway answers its n-th call by
  \<open>script n\<close> and a pause always completes.
\<close>

type_synonym call_log = "nat \<times> Duration list"

definition scripted :: "(nat \<Rightarrow> CustomsDecision result) \<Rightarrow> call_log gateway" where
  "scripted script w d = (script (fst w), (Suc (fst w), snd w))"

definition sleeps :: "call_log sleeper" where
  "sleeps w pause = (Inr (), (fst w, snd w @ [pause]))"

text \<open>The call at which the loop stops: a decision, an error that is not retried, or the last attempt.\<close>

fun stop_call :: "(nat \<Rightarrow> CustomsDecision result) \<Rightarrow> nat \<Rightarrow> nat \<Rightarrow> nat" where
  "stop_call script n 0 = n"
| "stop_call script n (Suc k) =
    (case script n of Inr _ \<Rightarrow> n | Inl e \<Rightarrow> if retryable e then stop_call script (Suc n) k else n)"

lemma stop_call_bounds: "n \<le> stop_call script n k \<and> stop_call script n k \<le> n + k"
proof (induction k arbitrary: n)
  case (Suc k)
  from Suc.IH [of "Suc n"] show ?case by (auto split: sum.splits)
qed simp

lemma stop_call_stops:
  "n \<le> i \<Longrightarrow> i < stop_call script n k \<Longrightarrow> \<exists>e. script i = Inl e \<and> retryable e"
proof (induction k arbitrary: n)
  case (Suc k)
  from Suc.IH [of "Suc n"] Suc.prems show ?case by (cases "i = n") (auto split: sum.splits if_splits)
qed simp

lemma attempts_loop_scripted:
  "attempts_loop (scripted script) sleeps p d (Suc n) (Suc k) lastErr (n, pauses) =
    (let stop = stop_call script n k
     in ((case script stop of Inr x \<Rightarrow> Inr x | Inl e \<Rightarrow> Inl (submission_failed e)),
         (Suc stop, pauses @ map (\<lambda>i. retry_backoff p (Suc i)) [n..<stop])))"
proof (induction k arbitrary: n pauses lastErr)
  case 0
  then show ?case by (auto simp: scripted_def split: sum.splits)
next
  case (Suc k)
  show ?case
  proof (cases "\<exists>e. script n = Inl e \<and> retryable e")
    case True
    then obtain e where e: "script n = Inl e" "retryable e" by blast
    have "n < stop_call script (Suc n) k" using stop_call_bounds [of "Suc n" script k] by simp
    then have pauses: "[n..<stop_call script (Suc n) k] = n # [Suc n..<stop_call script (Suc n) k]"
      by (simp add: upt_conv_Cons)
    have "attempts_loop (scripted script) sleeps p d (Suc n) (Suc (Suc k)) lastErr (n, pauses) =
        attempts_loop (scripted script) sleeps p d (Suc (Suc n)) (Suc k) e (Suc n, pauses @ [retry_backoff p (Suc n)])"
      by (subst attempts_loop.simps(2)) (simp add: scripted_def sleeps_def e del: attempts_loop.simps)
    with Suc.IH [of "Suc n" e "pauses @ [retry_backoff p (Suc n)]"] pauses e show ?thesis
      by (simp add: Let_def del: attempts_loop.simps)
  next
    case False
    then show ?thesis by (auto simp: scripted_def split: sum.splits)
  qed
qed

lemma default_policy_pos:
  "1 \<le> rp_Attempts (default_policy p)" "0 < rp_Backoff (default_policy p)" "0 < rp_Maximum (default_policy p)"
  by (auto simp: default_policy_def Let_def)

lemma retry_backoff_exact:
  assumes "0 < rp_Backoff p" and "rp_Backoff p * 2 ^ n \<le> max_int64"
  shows "retry_backoff p (Suc n) = min (rp_Maximum p) (rp_Backoff p * 2 ^ n)"
proof -
  have "0 \<le> rp_Backoff p * 2 ^ n" using assms(1) by simp
  with assms(2) have "in_int64 (rp_Backoff p * 2 ^ n)" by (simp add: in_int64_def min_int64_def)
  then show ?thesis by (simp add: retry_backoff_def Let_def)
qed

section \<open>Properties\<close>

text \<open>
  A submission makes at most the configured number of attempts (at least one), one after another,
  stopping at the first decision or the first error that is not retried; every call before the last
  one failed with an error that may be retried. The result is the decision of the last call, or its
  error wrapped; and between two calls it pauses for the backoff doubled every time, cut off at the
  maximum, as long as the doubled backoff fits 64 bits.
\<close>

theorem retrying_Submit_correct:
  assumes "retrying_Submit (Some (scripted script)) sleeps policy d (0, []) = (out, (calls, pauses))"
  defines "p \<equiv> default_policy policy"
  shows "(1 \<le> calls \<and> int calls \<le> rp_Attempts p) \<and>
    (\<forall>i. Suc i < calls \<longrightarrow> (\<exists>e. script i = Inl e \<and> retryable e)) \<and>
    out = (case script (calls - 1) of Inr x \<Rightarrow> Inr x | Inl e \<Rightarrow> Inl (submission_failed e)) \<and>
    (int calls < rp_Attempts p \<longrightarrow> script (calls - 1) = Inl e \<longrightarrow> \<not> retryable e) \<and>
    (rp_Backoff p * 2 ^ calls \<le> max_int64 \<longrightarrow> pauses = map (\<lambda>i. min (rp_Maximum p) (rp_Backoff p * 2 ^ i)) [0..<calls - 1])"
proof (rule conj5I; (intro allI impI)?)
  obtain k where k: "nat (rp_Attempts p) = Suc k"
    using default_policy_pos(1) [of policy] by (cases "nat (rp_Attempts p)") (auto simp: p_def)
  let ?stop = "stop_call script 0 k"
  from assms(1) k attempts_loop_scripted [of script p d 0 k "Plain []" "[]"]
  have run: "out = (case script ?stop of Inr x \<Rightarrow> Inr x | Inl e \<Rightarrow> Inl (submission_failed e))" "calls = Suc ?stop"
      "pauses = map (\<lambda>i. retry_backoff p (Suc i)) [0..<?stop]"
    by (simp_all add: retrying_Submit_def p_def Let_def)
  from k default_policy_pos(1) [of policy] have attempts: "rp_Attempts p = int (Suc k)" by (simp add: p_def)
  with run(2) stop_call_bounds [of 0 script k] show "1 \<le> calls \<and> int calls \<le> rp_Attempts p" by simp
  show "\<exists>e. script i = Inl e \<and> retryable e" if "Suc i < calls" for i
    using stop_call_stops [of 0 i script k] that run(2) by simp
  from run show "out = (case script (calls - 1) of Inr x \<Rightarrow> Inr x | Inl e \<Rightarrow> Inl (submission_failed e))" by simp
  have early: "\<not> retryable e" if "stop_call script n j < n + j" "script (stop_call script n j) = Inl e" for n j e
    using that
  proof (induction j arbitrary: n)
    case (Suc j)
    from Suc.IH [of "Suc n"] Suc.prems show ?case by (auto split: sum.splits if_splits)
  qed simp
  show "\<not> retryable e" if "int calls < rp_Attempts p" "script (calls - 1) = Inl e"
    using early [of 0 k e] that run(2) attempts by simp
  assume fits: "rp_Backoff p * 2 ^ calls \<le> max_int64"
  have pos: "0 < rp_Backoff p" using default_policy_pos(2) by (simp add: p_def)
  have "rp_Backoff p * 2 ^ i \<le> max_int64" if "i < calls" for i
  proof -
    have "rp_Backoff p * 2 ^ i \<le> rp_Backoff p * 2 ^ calls" using pos that by (intro mult_left_mono) simp_all
    with fits show ?thesis by simp
  qed
  then have "\<forall>i<calls. retry_backoff p (Suc i) = min (rp_Maximum p) (rp_Backoff p * 2 ^ i)"
    using retry_backoff_exact [OF pos] by blast
  then show "pauses = map (\<lambda>i. min (rp_Maximum p) (rp_Backoff p * 2 ^ i)) [0..<calls - 1]"
    unfolding run(3) using run(2) by simp
qed

definition example_decision :: CustomsDecision where
  "example_decision = \<lparr>cd_Reference = ''ref-1'', cd_Status = DecisionAccepted, cd_Reason = [], cd_DecidedAt = 5\<rparr>"

definition example_declaration :: Declaration where
  "example_declaration = \<lparr>d_TenantID = ''panama-east'', d_VoyageID = ''voyage-1'', d_ManifestHash = ''h'',
    d_OriginPort = ''CNSHA'', d_SubmittedAt = 4\<rparr>"

theorem retrying_Submit_correct_witness:
  "[100 * Millisecond, 200 * Millisecond] =
    map (\<lambda>i. min (2 * Second) (100 * Millisecond * 2 ^ i)) [0..<3 - 1]"
proof -
  let ?script = "\<lambda>n :: nat. if n < 2 then Inl (Plain ''503'') else Inr example_decision"
  let ?policy = "\<lparr>rp_Attempts = 5, rp_Backoff = 0, rp_Maximum = 0\<rparr>"
  have run: "retrying_Submit (Some (scripted ?script)) sleeps ?policy example_declaration (0, []) =
      (Inr example_decision, (3, [100 * Millisecond, 200 * Millisecond]))" by code_simp
  have "default_policy ?policy = \<lparr>rp_Attempts = 5, rp_Backoff = 100 * Millisecond, rp_Maximum = 2 * Second\<rparr>"
    by code_simp
  with retrying_Submit_correct [OF run] show ?thesis by (simp add: max_int64_def)
qed

text \<open>
  The doubled backoff overflows: with the default backoff of 100 ms the pause after the 38th attempt is
  negative, and from the 58th on it is zero, so the gateway is called without any pause; the maximum
  does not catch it, as it is compared after the shift.
\<close>

lemma backoff_overflows:
  "retry_backoff (default_policy \<lparr>rp_Attempts = 100, rp_Backoff = 0, rp_Maximum = 0\<rparr>) 37 = 2 * Second"
  "retry_backoff (default_policy \<lparr>rp_Attempts = 100, rp_Backoff = 0, rp_Maximum = 0\<rparr>) 38 < 0"
  "retry_backoff (default_policy \<lparr>rp_Attempts = 100, rp_Backoff = 0, rp_Maximum = 0\<rparr>) 58 = 0"
  by code_simp+

text \<open>
  What comes back from customs is either a decision that is complete (a reference, a time, a known
  status, a reason if it rejects) from a response of the 2xx range, or an error; conflicts and refused
  credentials become the errors that are not retried, every other status one that is.
\<close>

theorem response_decision_correct:
  "(response_decision txt status decoded = Inr x \<longleftrightarrow>
    200 \<le> status \<and> status < 300 \<and> decoded = Inr x \<and> cd_Reference x \<noteq> [] \<and> cd_DecidedAt x \<noteq> 0 \<and>
    (cd_Status x \<in> {DecisionAccepted, DecisionReview} \<or>
     cd_Status x = DecisionRejected \<and> trim_space (cd_Reason x) \<noteq> [])) \<and>
    (\<forall>e. (status < 200 \<or> 300 \<le> status) \<and> response_decision txt status decoded = Inl e \<longrightarrow>
    (retryable e \<longleftrightarrow> status \<notin> {401, 403, 409}))"
proof
  show "response_decision txt status decoded = Inr x \<longleftrightarrow>
    200 \<le> status \<and> status < 300 \<and> decoded = Inr x \<and> cd_Reference x \<noteq> [] \<and> cd_DecidedAt x \<noteq> 0 \<and>
    (cd_Status x \<in> {DecisionAccepted, DecisionReview} \<or>
     cd_Status x = DecisionRejected \<and> trim_space (cd_Reason x) \<noteq> [])"
    by (cases decoded) (auto simp: response_decision_def validateDecision_def bindR_Inr_iff)
  show "\<forall>e. (status < 200 \<or> 300 \<le> status) \<and> response_decision txt status decoded = Inl e \<longrightarrow>
      (retryable e \<longleftrightarrow> status \<notin> {401, 403, 409})"
    by (auto simp: response_decision_def retryable_def split: if_splits)
qed

theorem response_decision_correct_witness:
  "retryable (Plain ''customs gateway status 503'')"
  using response_decision_correct [of "\<lambda>_. ''503''" 503 "Inl (Plain [])"]
  by (simp add: response_decision_def)

end
