(* ===== verification/Json_Parse.thy ===== *)
theory Json_Parse
  imports Json
begin

text \<open>
  What the code uses of the decoder of \<^verbatim>\<open>encoding/json\<close>: the syntax of JSON texts, with
  numbers kept as their text as \<^verbatim>\<open>UseNumber\<close> does and
  strings with their text both between the quotes and unescaped, since a \<^verbatim>\<open>time.Time\<close> is read
  from the former. As in the encoder, bytes above 127 pass
  unchanged. The recursion on values takes fuel; twice the length of the text is enough for every text
  that has a value at all. The theorem is that an encoded value is read back.
\<close>

datatype jvalue =
  VNull | VBool bool | VNum string | VStr string string | VArr "jvalue list" | VObj "(string \<times> jvalue) list"

section \<open>Tokens\<close>

definition json_space :: "char \<Rightarrow> bool" where
  "json_space c \<longleftrightarrow> c = CHR '' '' \<or> c = CHR 0x09 \<or> c = CHR 0x0A \<or> c = CHR 0x0D"

definition skip_ws :: "string \<Rightarrow> string" where
  "skip_ws s = dropWhile json_space s"

definition utf8 :: "nat \<Rightarrow> string" where
  "utf8 n =
    (if n < 0x80 then [char_of n]
     else if n < 0x800 then [char_of (0xC0 + n div 64), char_of (0x80 + n mod 64)]
     else if n < 0x10000 then [char_of (0xE0 + n div 4096), char_of (0x80 + n div 64 mod 64), char_of (0x80 + n mod 64)]
     else [char_of (0xF0 + n div 262144), char_of (0x80 + n div 4096 mod 64), char_of (0x80 + n div 64 mod 64),
       char_of (0x80 + n mod 64)])"

definition is_hex :: "char \<Rightarrow> bool" where
  "is_hex c \<longleftrightarrow> is_digit c \<or> CHR ''a'' \<le> c \<and> c \<le> CHR ''f'' \<or> CHR ''A'' \<le> c \<and> c \<le> CHR ''F''"

definition hex_digit_value :: "char \<Rightarrow> nat" where
  "hex_digit_value c = (if is_digit c then of_char c - 48 else if CHR ''a'' \<le> c then of_char c - 87 else of_char c - 55)"

definition read_hex4 :: "string \<Rightarrow> (nat \<times> string) option" where
  "read_hex4 s =
    (if length s < 4 \<or> \<not> list_all is_hex (take 4 s) then None
     else Some (foldl (\<lambda>a c. 16 * a + hex_digit_value c) 0 (take 4 s), drop 4 s))"

definition surrogate_pair :: "nat \<Rightarrow> string \<Rightarrow> (nat \<times> string) option" where
  "surrogate_pair n s =
    (case s of
       c # d # q \<Rightarrow>
         if n < 0xDC00 \<and> c = CHR 0x5C \<and> d = CHR ''u''
         then (case read_hex4 q of
             None \<Rightarrow> None
           | Some (m, q1) \<Rightarrow>
               if 0xDC00 \<le> m \<and> m < 0xE000 then Some (0x10000 + (n - 0xD800) * 1024 + (m - 0xDC00), q1) else None)
         else None
     | _ \<Rightarrow> None)"

text \<open>The bytes of an escape sequence, after its backslash, and the rest of the text.\<close>

definition read_escape :: "string \<Rightarrow> (string \<times> string) option" where
  "read_escape r =
    (case r of
       [] \<Rightarrow> None
     | d # q \<Rightarrow>
         if d = CHR 0x22 \<or> d = CHR 0x5C \<or> d = CHR ''/'' then Some ([d], q)
         else if d = CHR ''b'' then Some ([CHR 0x08], q)
         else if d = CHR ''f'' then Some ([CHR 0x0C], q)
         else if d = CHR ''n'' then Some ([CHR 0x0A], q)
         else if d = CHR ''r'' then Some ([CHR 0x0D], q)
         else if d = CHR ''t'' then Some ([CHR 0x09], q)
         else if d \<noteq> CHR ''u'' then None
         else (case read_hex4 q of
             None \<Rightarrow> None
           | Some (n, q1) \<Rightarrow>
               if n < 0xD800 \<or> 0xE000 \<le> n then Some (utf8 n, q1)
               else (case surrogate_pair n q1 of
                   None \<Rightarrow> Some (utf8 0xFFFD, q1)
                 | Some (m, q2) \<Rightarrow> Some (utf8 m, q2))))"

lemma read_hex4_shorter: "read_hex4 s = Some (n, r) \<Longrightarrow> length r < length s"
  by (auto simp: read_hex4_def split: if_splits)

lemma read_escape_shorter: "read_escape s = Some (b, r) \<Longrightarrow> length r < length s"
  by (auto simp: read_escape_def surrogate_pair_def split: list.splits if_splits option.splits dest!: read_hex4_shorter)

text \<open>The characters of a string up to its closing quote.\<close>

function parse_chars :: "string \<Rightarrow> (string \<times> string) option" where
  "parse_chars s =
    (case s of
       [] \<Rightarrow> None
     | c # r \<Rightarrow>
         if c = CHR 0x22 then Some ([], r)
         else if c = CHR 0x5C
         then (case read_escape r of
             None \<Rightarrow> None
           | Some (b, q) \<Rightarrow> map_option (\<lambda>(t, z). (b @ t, z)) (parse_chars q))
         else if c < CHR 0x20 then None
         else map_option (\<lambda>(t, z). (c # t, z)) (parse_chars r))"
  by pat_completeness auto
termination
  by (relation "measure length") (auto dest: read_escape_shorter)

declare parse_chars.simps [simp del]

definition parse_fraction :: "string \<Rightarrow> (string \<times> string) option" where
  "parse_fraction s =
    (case s of
       c # r \<Rightarrow>
         if c = CHR ''.''
         then (if takeWhile is_digit r = [] then None else Some (c # takeWhile is_digit r, dropWhile is_digit r))
         else Some ([], s)
     | [] \<Rightarrow> Some ([], []))"

definition parse_exponent :: "string \<Rightarrow> (string \<times> string) option" where
  "parse_exponent s =
    (case s of
       c # r \<Rightarrow>
         if c = CHR ''e'' \<or> c = CHR ''E''
         then
           let (sign, r1) = (case r of d # q \<Rightarrow> if d = CHR ''+'' \<or> d = CHR ''-'' then ([d], q) else ([], r) | [] \<Rightarrow> ([], []))
           in if takeWhile is_digit r1 = [] then None else Some (c # sign @ takeWhile is_digit r1, dropWhile is_digit r1)
         else Some ([], s)
     | [] \<Rightarrow> Some ([], []))"

definition int_digits :: "string \<Rightarrow> string" where
  "int_digits s = (if s \<noteq> [] \<and> hd s = CHR ''0'' then [CHR ''0''] else takeWhile is_digit s)"

definition parse_number :: "string \<Rightarrow> (string \<times> string) option" where
  "parse_number s =
    (let (sign, s1) = (case s of c # r \<Rightarrow> if c = CHR ''-'' then ([c], r) else ([], s) | [] \<Rightarrow> ([], []));
         digits = int_digits s1
     in if digits = [] then None
        else (case parse_fraction (drop (length digits) s1) of
            None \<Rightarrow> None
          | Some (fraction, s2) \<Rightarrow>
              map_option (\<lambda>(exponent, s3). (sign @ digits @ fraction @ exponent, s3)) (parse_exponent s2)))"

definition parse_word :: "string \<Rightarrow> 'a \<Rightarrow> string \<Rightarrow> ('a \<times> string) option" where
  "parse_word w v s = (if take (length w) s = w then Some (v, drop (length w) s) else None)"

section \<open>Values\<close>

fun parse_value :: "nat \<Rightarrow> string \<Rightarrow> (jvalue \<times> string) option"
and parse_elements :: "nat \<Rightarrow> string \<Rightarrow> (jvalue list \<times> string) option"
and parse_members :: "nat \<Rightarrow> string \<Rightarrow> ((string \<times> jvalue) list \<times> string) option" where
  "parse_value 0 s = None"
| "parse_value (Suc n) s =
    (case skip_ws s of
       [] \<Rightarrow> None
     | c # r \<Rightarrow>
         if c = CHR 0x22 then map_option (\<lambda>(t, q). (VStr (take (length r - length q - 1) r) t, q)) (parse_chars r)
         else if c = CHR ''{''
         then (case skip_ws r of
             [] \<Rightarrow> None
           | d # q \<Rightarrow> if d = CHR ''}'' then Some (VObj [], q)
               else map_option (\<lambda>(fs, z). (VObj fs, z)) (parse_members n (d # q)))
         else if c = CHR ''[''
         then (case skip_ws r of
             [] \<Rightarrow> None
           | d # q \<Rightarrow> if d = CHR '']'' then Some (VArr [], q)
               else map_option (\<lambda>(vs, z). (VArr vs, z)) (parse_elements n (d # q)))
         else if c = CHR ''t'' then parse_word ''true'' (VBool True) (c # r)
         else if c = CHR ''f'' then parse_word ''false'' (VBool False) (c # r)
         else if c = CHR ''n'' then parse_word ''null'' VNull (c # r)
         else map_option (\<lambda>(t, q). (VNum t, q)) (parse_number (c # r)))"
| "parse_elements 0 s = None"
| "parse_elements (Suc n) s =
    (case parse_value n s of
       None \<Rightarrow> None
     | Some (v, r) \<Rightarrow>
         (case skip_ws r of
            [] \<Rightarrow> None
          | c # q \<Rightarrow> if c = CHR '','' then map_option (\<lambda>(vs, z). (v # vs, z)) (parse_elements n q)
              else if c = CHR '']'' then Some ([v], q) else None))"
| "parse_members 0 s = None"
| "parse_members (Suc n) s =
    (case skip_ws s of
       [] \<Rightarrow> None
     | c # r \<Rightarrow>
         if c \<noteq> CHR 0x22 then None
         else (case parse_chars r of
             None \<Rightarrow> None
           | Some (k, r1) \<Rightarrow>
               (case skip_ws r1 of
                  [] \<Rightarrow> None
                | d # r2 \<Rightarrow>
                    if d \<noteq> CHR '':'' then None
                    else (case parse_value n r2 of
                        None \<Rightarrow> None
                      | Some (v, r3) \<Rightarrow>
                          (case skip_ws r3 of
                             [] \<Rightarrow> None
                           | e # q \<Rightarrow> if e = CHR '','' then map_option (\<lambda>(fs, z). ((k, v) # fs, z)) (parse_members n q)
                               else if e = CHR ''}'' then Some ([(k, v)], q) else None)))))"

definition json_value :: "string \<Rightarrow> (jvalue \<times> string) option" where
  "json_value s = parse_value (2 * length s) s"

text \<open>A whole document: one value with nothing but space after it.\<close>

definition json_document :: "string \<Rightarrow> jvalue option" where
  "json_document s = (case json_value s of None \<Rightarrow> None | Some (v, r) \<Rightarrow> if skip_ws r = [] then Some v else None)"

section \<open>The fuel is enough\<close>

lemma skip_ws_le: "length (skip_ws s) \<le> length s"
  by (simp add: skip_ws_def length_dropWhile_le)

lemma skip_ws_Cons: "skip_ws s = c # r \<Longrightarrow> length r < length s"
  using skip_ws_le [of s] by simp

lemma parse_chars_shorter: "parse_chars s = Some (t, r) \<Longrightarrow> length r < length s"
proof (induction s arbitrary: t r rule: parse_chars.induct)
  case (1 s)
  show ?case
  proof (cases s)
    case (Cons c q)
    have "parse_chars (c # q) = Some (t, r)" using "1.prems" Cons by simp
    then consider "c = CHR 0x22" "r = q"
      | b q1 u where "c \<noteq> CHR 0x22" "c = CHR 0x5C" "read_escape q = Some (b, q1)" "parse_chars q1 = Some (u, r)"
      | u where "c \<noteq> CHR 0x22" "c \<noteq> CHR 0x5C" "\<not> c < CHR 0x20" "parse_chars q = Some (u, r)"
      unfolding parse_chars.simps [of "c # q"] by (auto split: if_splits option.splits)
    then show ?thesis
    proof cases
      case 1
      then show ?thesis using Cons by simp
    next
      case (2 b q1 u)
      then have "length r < length q1" using "1.IH"(1) [OF Cons] by blast
      with read_escape_shorter [OF 2(3)] Cons show ?thesis by simp
    next
      case (3 u)
      then have "length r < length q" using "1.IH"(2) [OF Cons] by blast
      with Cons show ?thesis by simp
    qed
  qed (use "1.prems" in \<open>simp add: parse_chars.simps\<close>)
qed

lemma parse_fraction_le: "parse_fraction s = Some (t, r) \<Longrightarrow> length r \<le> length s"
  by (auto simp: parse_fraction_def length_dropWhile_le le_SucI split: list.splits if_splits)

lemma parse_exponent_le: "parse_exponent s = Some (t, r) \<Longrightarrow> length r \<le> length s"
  by (auto simp: parse_exponent_def Let_def length_dropWhile_le le_SucI split: list.splits if_splits)

lemma parse_number_shorter:
  assumes "parse_number s = Some (t, r)"
  shows "length r < length s"
proof -
  define s1 where "s1 = (case s of c # r \<Rightarrow> if c = CHR ''-'' then r else s | [] \<Rightarrow> [])"
  define ds where "ds = int_digits s1"
  have "length s1 \<le> length s" by (auto simp: s1_def split: list.splits)
  from assms obtain f s2 e where "ds \<noteq> []" and f: "parse_fraction (drop (length ds) s1) = Some (f, s2)" and e: "parse_exponent s2 = Some (e, r)"
    by (cases s) (auto simp: parse_number_def Let_def s1_def ds_def split: if_splits option.splits)
  then have "s1 \<noteq> []" by (auto simp: ds_def int_digits_def split: if_splits)
  moreover have "length r \<le> length (drop (length ds) s1)" using parse_fraction_le [OF f] parse_exponent_le [OF e] by simp
  moreover have "length s1 - length ds < length s1" using \<open>ds \<noteq> []\<close> \<open>s1 \<noteq> []\<close> by (intro diff_less) simp_all
  ultimately have "length r < length s1" by simp
  with \<open>length s1 \<le> length s\<close> show ?thesis by simp
qed

lemma parse_word_shorter: "parse_word w v s = Some (u, r) \<Longrightarrow> w \<noteq> [] \<Longrightarrow> length r < length s"
  by (cases w; cases s) (auto simp: parse_word_def split: if_splits)

lemma parse_enough_fuel:
  "parse_value n s = Some (v, r) \<Longrightarrow> length r < length s \<and> (\<forall>k. 2 * (length s - length r) \<le> k \<longrightarrow> parse_value k s = Some (v, r))"
  "parse_elements n s = Some (vs, r) \<Longrightarrow> length r < length s \<and> (\<forall>k. 2 * (length s - length r) + 1 \<le> k \<longrightarrow> parse_elements k s = Some (vs, r))"
  "parse_members n s = Some (fs, r) \<Longrightarrow> length r < length s \<and> (\<forall>k. 2 * (length s - length r) + 1 \<le> k \<longrightarrow> parse_members k s = Some (fs, r))"
proof (induction n s and n s and n s arbitrary: v r and vs r and fs r rule: parse_value_parse_elements_parse_members.induct)
  case (4 n s)
  from "4.prems" obtain v q where v: "parse_value n s = Some (v, q)" by (auto split: option.splits)
  then obtain c z where z: "skip_ws q = c # z" using "4.prems" by (auto split: list.splits)
  note V = "4.IH"(1) [OF v]
  have q: "length z < length q" by (rule skip_ws_Cons [OF z])
  consider ws where "c = CHR '',''" "parse_elements n z = Some (ws, r)" "vs = v # ws" | "c \<noteq> CHR '',''" "c = CHR '']''" "vs = [v]" "r = z"
    using "4.prems" v z by (auto split: if_splits)
  then show ?case
  proof cases
    case 1
    have E: "length r < length z \<and> (\<forall>k. 2 * (length z - length r) + 1 \<le> k \<longrightarrow> parse_elements k z = Some (ws, r))"
      using "4.IH"(2) [OF v refl z 1(1,2)] .
    show ?thesis
    proof (intro conjI allI impI)
      show "length r < length s" using V E q by simp
      fix k assume k: "2 * (length s - length r) + 1 \<le> k"
      then obtain m where m: "k = Suc m" by (cases k) auto
      with k V E q have "2 * (length s - length q) \<le> m" "2 * (length z - length r) + 1 \<le> m" by auto
      with V E z 1 m show "parse_elements k s = Some (vs, r)" by simp
    qed
  next
    case 2
    show ?thesis
    proof (intro conjI allI impI)
      show "length r < length s" using V q 2 by simp
      fix k assume k: "2 * (length s - length r) + 1 \<le> k"
      then obtain m where m: "k = Suc m" by (cases k) auto
      with k V q 2 have "2 * (length s - length q) \<le> m" by auto
      with V z 2 m show "parse_elements k s = Some (vs, r)" by simp
    qed
  qed
next
  case (6 n s)
  from "6.prems" obtain r0 where r0: "skip_ws s = CHR 0x22 # r0" by (auto split: list.splits if_splits)
  then obtain key r1 where key: "parse_chars r0 = Some (key, r1)" using "6.prems" by (auto split: option.splits)
  then obtain r2 where r2: "skip_ws r1 = CHR '':'' # r2" using "6.prems" r0 by (auto split: list.splits if_splits)
  then obtain v q where v: "parse_value n r2 = Some (v, q)" using "6.prems" r0 key by (auto split: option.splits)
  then obtain c z where z: "skip_ws q = c # z" using "6.prems" r0 key r2 by (auto split: list.splits)
  have V: "length q < length r2 \<and> (\<forall>k. 2 * (length r2 - length q) \<le> k \<longrightarrow> parse_value k r2 = Some (v, q))"
    by (rule "6.IH"(1) [OF r0 _ key refl r2 _ v]) simp_all
  have q: "length z < length q" "length r2 < length s"
    using skip_ws_Cons [OF z] skip_ws_Cons [OF r0] parse_chars_shorter [OF key] skip_ws_Cons [OF r2] by simp_all
  consider ws where "c = CHR '',''" "parse_members n z = Some (ws, r)" "fs = (key, v) # ws" | "c \<noteq> CHR '',''" "c = CHR ''}''" "fs = [(key, v)]" "r = z"
    using "6.prems" r0 key r2 v z by (auto split: if_splits)
  then show ?case
  proof cases
    case 1
    have E: "length r < length z \<and> (\<forall>k. 2 * (length z - length r) + 1 \<le> k \<longrightarrow> parse_members k z = Some (ws, r))"
      by (rule "6.IH"(2) [OF r0 _ key refl r2 _ v refl z 1(1,2)]) simp_all
    show ?thesis
    proof (intro conjI allI impI)
      show "length r < length s" using V E q by simp
      fix k assume k: "2 * (length s - length r) + 1 \<le> k"
      then obtain m where m: "k = Suc m" by (cases k) auto
      with k V E q have "2 * (length r2 - length q) \<le> m" "2 * (length z - length r) + 1 \<le> m" by auto
      with V E r0 key r2 z 1 m show "parse_members k s = Some (fs, r)" by simp
    qed
  next
    case 2
    show ?thesis
    proof (intro conjI allI impI)
      show "length r < length s" using V q 2 by simp
      fix k assume k: "2 * (length s - length r) + 1 \<le> k"
      then obtain m where m: "k = Suc m" by (cases k) auto
      with k V q 2 have "2 * (length r2 - length q) \<le> m" by auto
      with V r0 key r2 z 2 m show "parse_members k s = Some (fs, r)" by simp
    qed
  qed
next
  case (2 n s)
  from "2.prems" obtain c t where t: "skip_ws s = c # t" by (auto split: list.splits)
  have len: "length t < length s" "length (c # t) \<le> length s" using skip_ws_Cons [OF t] skip_ws_le [of s] t by simp_all
  have leaf: ?case if "length r < length s" "\<And>m. parse_value (Suc m) s = Some (v, r)"
  proof (intro conjI allI impI)
    fix k assume "2 * (length s - length r) \<le> k"
    with that(1) obtain m where "k = Suc m" by (cases k) auto
    with that(2) show "parse_value k s = Some (v, r)" by simp
  qed (rule that(1))
  have nested: ?case
    if q: "length r < length q" "\<And>k. 2 * (length q - length r) + 1 \<le> k \<Longrightarrow> parse_value (Suc k) s = Some (v, r)" "skip_ws t = q" for q
  proof (intro conjI allI impI)
    have le: "length q \<le> length t" using skip_ws_le [of t] that(3) by simp
    then show "length r < length s" using that(1) len by simp
    fix k assume k: "2 * (length s - length r) \<le> k"
    then obtain m where m: "k = Suc m" using q(1) le len by (cases k) auto
    with k le len have "2 * (length q - length r) + 1 \<le> m" using that(1) by linarith
    with that(2) m show "parse_value k s = Some (v, r)" by simp
  qed
  consider "c = CHR 0x22" | "c = CHR ''{''" | "c = CHR ''[''" | "c \<notin> {CHR 0x22, CHR ''{'', CHR ''[''}" by auto
  then show ?case
  proof cases
    case 1
    with "2.prems" t obtain u where u: "parse_chars t = Some (u, r)" "v = VStr (take (length t - length r - 1) t) u" by auto
    show ?thesis
    proof (rule leaf)
      show "length r < length s" using parse_chars_shorter [OF u(1)] len by simp
      show "parse_value (Suc m) s = Some (v, r)" for m using t 1 u by simp
    qed
  next
    case 2
    with "2.prems" t obtain d q where q: "skip_ws t = d # q" by (auto split: list.splits)
    show ?thesis
    proof (cases "d = CHR ''}''")
      case True
      with "2.prems" t 2 q have vr: "v = VObj []" "r = q" by auto
      show ?thesis
      proof (rule leaf)
        show "length r < length s" using skip_ws_Cons [OF q] len vr by simp
        show "parse_value (Suc m) s = Some (v, r)" for m using t 2 q True vr by simp
      qed
    next
      case False
      with "2.prems" t 2 q obtain ws where ws: "parse_members n (d # q) = Some (ws, r)" "v = VObj ws" by auto
      have E: "length r < length (d # q) \<and> (\<forall>k. 2 * (length (d # q) - length r) + 1 \<le> k \<longrightarrow> parse_members k (d # q) = Some (ws, r))"
        by (rule "2.IH"(1) [OF t _ 2 q False ws(1)]) (simp add: 2)
      show ?thesis
      proof (rule nested [OF _ _ q])
        show "length r < length (d # q)" using E by blast
        show "parse_value (Suc k) s = Some (v, r)" if "2 * (length (d # q) - length r) + 1 \<le> k" for k
          using E that t 2 q False ws by simp
      qed
    qed
  next
    case 3
    with "2.prems" t obtain d q where q: "skip_ws t = d # q" by (auto split: list.splits)
    show ?thesis
    proof (cases "d = CHR '']''")
      case True
      with "2.prems" t 3 q have vr: "v = VArr []" "r = q" by auto
      show ?thesis
      proof (rule leaf)
        show "length r < length s" using skip_ws_Cons [OF q] len vr by simp
        show "parse_value (Suc m) s = Some (v, r)" for m using t 3 q True vr by simp
      qed
    next
      case False
      with "2.prems" t 3 q obtain ws where ws: "parse_elements n (d # q) = Some (ws, r)" "v = VArr ws" by auto
      have E: "length r < length (d # q) \<and> (\<forall>k. 2 * (length (d # q) - length r) + 1 \<le> k \<longrightarrow> parse_elements k (d # q) = Some (ws, r))"
        by (rule "2.IH"(2) [OF t _ _ 3 q False ws(1)]) (simp_all add: 3)
      show ?thesis
      proof (rule nested [OF _ _ q])
        show "length r < length (d # q)" using E by blast
        show "parse_value (Suc k) s = Some (v, r)" if "2 * (length (d # q) - length r) + 1 \<le> k" for k
          using E that t 3 q False ws by simp
      qed
    qed
  next
    case 4
    have same: "parse_value (Suc m) s = parse_value (Suc n) s" for m using 4 t by simp
    show ?thesis
    proof (rule leaf)
      have "length r < length (c # t)"
        using "2.prems" t 4 by (auto split: if_splits dest: parse_word_shorter parse_number_shorter)
      then show "length r < length s" using len by simp
      show "parse_value (Suc m) s = Some (v, r)" for m using same [of m] "2.prems" by simp
    qed
  qed
qed simp_all

text \<open>Twice the length is enough: a text with a value for some fuel has it for that of \<open>json_value\<close>.\<close>

lemma json_value_complete: "parse_value n s = Some (v, r) \<Longrightarrow> json_value s = Some (v, r)"
  using parse_enough_fuel(1) [of n s v r] by (simp add: json_value_def)

section \<open>Reading an encoded value back\<close>

fun embed :: "json \<Rightarrow> jvalue" where
  "embed JNull = VNull"
| "embed (JBool b) = VBool b"
| "embed (JInt i) = VNum (dec_int i)"
| "embed (JStr s) = VStr (concat (map escape_char s)) s"
| "embed (JArr vs) = VArr (map embed vs)"
| "embed (JObj fs) = VObj (map (\<lambda>(k, v). (k, embed v)) fs)"

lemma hex_digit_read: "n < 16 \<Longrightarrow> is_hex (hex_digit n) \<and> hex_digit_value (hex_digit n) = n"
proof -
  assume "n < 16"
  then have "n \<in> set [0..<16]" by simp
  moreover have "list_all (\<lambda>n. is_hex (hex_digit n) \<and> hex_digit_value (hex_digit n) = n) [0..<16]" by code_simp
  ultimately show ?thesis by (simp add: list_all_iff)
qed

lemma read_hex4_byte: "read_hex4 (CHR ''0'' # CHR ''0'' # hex_byte c @ r) = Some (of_char c, r)"
proof -
  have zero: "is_hex CHR ''0''" "hex_digit_value CHR ''0'' = 0" by code_simp+
  have "(of_char c :: nat) div 16 < 16" by (simp add: less_mult_imp_div_less)
  then show ?thesis
    using hex_digit_read [of "of_char c div 16"] hex_digit_read [of "of_char c mod 16"] zero
    by (simp add: read_hex4_def hex_byte_def)
qed

lemma escaped_low: "c < CHR 0x20 \<or> c = CHR ''<'' \<or> c = CHR ''>'' \<or> c = CHR ''&'' \<Longrightarrow> (of_char c :: nat) < 128 \<and> utf8 (of_char c) = [c]"
  by (auto simp: utf8_def less_char_def)

lemma parse_chars_backslash:
  "read_escape q = Some (b, r) \<Longrightarrow> parse_chars (CHR 0x5C # q) = map_option (\<lambda>(t, z). (b @ t, z)) (parse_chars r)"
  by (subst parse_chars.simps) simp

lemma parse_chars_plain:
  "c \<noteq> CHR 0x22 \<Longrightarrow> c \<noteq> CHR 0x5C \<Longrightarrow> \<not> c < CHR 0x20 \<Longrightarrow>
    parse_chars (c # r) = map_option (\<lambda>(t, z). (c # t, z)) (parse_chars r)"
  by (subst parse_chars.simps) simp

lemma parse_chars_escape:
  "parse_chars (escape_char c @ r) = map_option (\<lambda>(t, z). (c # t, z)) (parse_chars r)"
proof (cases "c \<in> {CHR 0x22, CHR 0x5C, CHR 0x08, CHR 0x0C, CHR 0x0A, CHR 0x0D, CHR 0x09}")
  case True
  then obtain d where "escape_char c = [CHR 0x5C, d]" "read_escape (d # r) = Some ([c], r)"
    by (elim insertE emptyE) (simp_all add: escape_char_def read_escape_def)
  then show ?thesis using parse_chars_backslash [of "d # r" "[c]" r] by simp
next
  case False
  show ?thesis
  proof (cases "c < CHR 0x20 \<or> c = CHR ''<'' \<or> c = CHR ''>'' \<or> c = CHR ''&''")
    case True
    with False have "escape_char c = [CHR 0x5C, CHR ''u'', CHR ''0'', CHR ''0''] @ hex_byte c" by (simp add: escape_char_def)
    moreover have "read_escape (CHR ''u'' # CHR ''0'' # CHR ''0'' # hex_byte c @ r) = Some ([c], r)"
      using read_hex4_byte [of c r] escaped_low [OF True] by (simp add: read_escape_def)
    ultimately show ?thesis using parse_chars_backslash by simp
  next
    case no: False
    with False have "escape_char c = [c]" by (simp add: escape_char_def)
    with no False show ?thesis using parse_chars_plain [of c r] by simp
  qed
qed

lemma parse_chars_json: "parse_chars (concat (map escape_char s) @ CHR 0x22 # r) = Some (s, r)"
proof (induction s)
  case Nil
  show ?case by (subst parse_chars.simps) simp
next
  case (Cons c s)
  then show ?case by (simp add: parse_chars_escape)
qed

lemma takeWhile_dec_nat: "r = [] \<or> \<not> is_digit (hd r) \<Longrightarrow> takeWhile is_digit (dec_nat n @ r) = dec_nat n"
  using dec_nat_digits [of n] by (cases r) (auto simp: takeWhile_append2)

lemma dec_nat_zero: "hd (dec_nat n) = CHR ''0'' \<Longrightarrow> n = 0"
proof (induction n rule: dec_nat.induct)
  case (1 n)
  show ?case
  proof (cases "n < 10")
    case True
    then have "n \<in> set [0..<10]" by simp
    moreover have "list_all (\<lambda>n. digit_char n = CHR ''0'' \<longrightarrow> n = 0) [0..<10]" by code_simp
    ultimately show ?thesis using "1.prems" True by (subst (asm) dec_nat.simps) (auto simp: list_all_iff)
  next
    case False
    then have "hd (dec_nat (n div 10)) = CHR ''0''" using "1.prems" by (subst (asm) dec_nat.simps) simp
    with 1(1) False show ?thesis by fastforce
  qed
qed

lemma parse_number_nat:
  assumes "json_end r"
  shows "parse_number (dec_nat n @ r) = Some (dec_nat n, r)" and "parse_number (CHR ''-'' # dec_nat n @ r) = Some (CHR ''-'' # dec_nat n, r)"
proof -
  have stop: "r = [] \<or> \<not> is_digit (hd r)" by (rule json_end_not_digit [OF assms])
  have tail: "parse_fraction r = Some ([], r)" "parse_exponent r = Some ([], r)"
    using assms by (auto simp: parse_fraction_def parse_exponent_def json_end_def split: list.splits)
  have hd: "hd (dec_nat n @ r) \<noteq> CHR ''-''" by (metis dec_nat_hd_digit dec_nat_neq_Nil hd_append2 not_digit_minus)
  have digits: "int_digits (dec_nat n @ r) = dec_nat n"
  proof (cases "hd (dec_nat n) = CHR ''0''")
    case True
    then have "n = 0" by (rule dec_nat_zero)
    moreover have "dec_nat 0 = [CHR ''0'']" by code_simp
    ultimately show ?thesis by (simp add: int_digits_def)
  next
    case False
    then show ?thesis using takeWhile_dec_nat [OF stop] by (simp add: int_digits_def)
  qed
  have sign: "(case dec_nat n @ r of c # q \<Rightarrow> if c = CHR ''-'' then ([c], q) else ([], dec_nat n @ r) | [] \<Rightarrow> ([], [])) = ([], dec_nat n @ r)"
    using hd by (cases "dec_nat n @ r") auto
  show "parse_number (dec_nat n @ r) = Some (dec_nat n, r)"
    using digits tail unfolding parse_number_def sign Let_def by simp
  show "parse_number (CHR ''-'' # dec_nat n @ r) = Some (CHR ''-'' # dec_nat n, r)"
    using digits tail unfolding parse_number_def Let_def by simp
qed

lemma parse_number_int: "json_end r \<Longrightarrow> parse_number (dec_int i @ r) = Some (dec_int i, r)"
  using parse_number_nat [of r] by (auto simp: dec_int_def)

lemma fuel_value: "parse_value n s = Some (v, r) \<Longrightarrow> 2 * length s \<le> k \<Longrightarrow> parse_value k s = Some (v, r)"
  using parse_enough_fuel(1) [of n s v r] by simp

lemma fuel_elements: "parse_elements n s = Some (vs, r) \<Longrightarrow> 2 * length s + 1 \<le> k \<Longrightarrow> parse_elements k s = Some (vs, r)"
  using parse_enough_fuel(2) [of n s vs r] by simp

lemma fuel_members: "parse_members n s = Some (fs, r) \<Longrightarrow> 2 * length s + 1 \<le> k \<Longrightarrow> parse_members k s = Some (fs, r)"
  using parse_enough_fuel(3) [of n s fs r] by simp

definition reads :: "json \<Rightarrow> bool" where
  "reads v \<longleftrightarrow> (\<forall>r. json_end r \<longrightarrow> (\<exists>n. parse_value n (json_encode v @ r) = Some (embed v, r)))"

lemma not_space_token [simp]:
  "\<not> json_space CHR 0x22" "\<not> json_space CHR '',''" "\<not> json_space CHR '']''" "\<not> json_space CHR ''}''" "\<not> json_space CHR '':''"
  "\<not> json_space CHR ''{''" "\<not> json_space CHR ''[''" "\<not> json_space CHR ''n''" "\<not> json_space CHR ''t''" "\<not> json_space CHR ''f''"
  "\<not> json_space CHR ''-''"
  by code_simp+

lemma digit_not_space: "is_digit c \<Longrightarrow> \<not> json_space c"
  by (auto simp: is_digit_def json_space_def)

lemma hd_json_not_space: "\<not> json_space (hd (json_encode v))"
proof (cases v)
  case (JInt i)
  then show ?thesis using hd_dec_int [of i] digit_not_space by auto
qed (auto simp: json_string_def)

lemma skip_ws_Cons_token: "\<not> json_space c \<Longrightarrow> skip_ws (c # s) = c # s"
  by (simp add: skip_ws_def)

lemma skip_ws_json: "skip_ws (json_encode v @ r) = json_encode v @ r"
  using hd_json_not_space [of v] json_encode_neq_Nil [of v] by (cases "json_encode v") (auto simp: skip_ws_Cons_token)

lemma parse_elements_json:
  "\<forall>v\<in>set (v # vs). reads v \<Longrightarrow>
    \<exists>n. parse_elements n (commas (map json_encode (v # vs)) @ CHR '']'' # r) = Some (map embed (v # vs), r)"
proof (induction vs arbitrary: v)
  case Nil
  then obtain n where "parse_value n (json_encode v @ CHR '']'' # r) = Some (embed v, CHR '']'' # r)"
    by (fastforce simp: reads_def)
  then have "parse_elements (Suc n) (json_encode v @ CHR '']'' # r) = Some ([embed v], r)" by (simp add: skip_ws_Cons_token)
  then show ?case by (intro exI [of _ "Suc n"]) simp
next
  case (Cons w vs)
  let ?tail = "commas (map json_encode (w # vs)) @ CHR '']'' # r"
  let ?s = "json_encode v @ CHR '','' # ?tail"
  obtain n where "parse_value n ?s = Some (embed v, CHR '','' # ?tail)"
    using Cons.prems by (fastforce simp: reads_def)
  then have v: "parse_value (2 * length ?s) ?s = Some (embed v, CHR '','' # ?tail)" by (rule fuel_value) simp
  obtain m where "parse_elements m ?tail = Some (map embed (w # vs), r)" using Cons.IH [of w] Cons.prems by auto
  then have t: "parse_elements (2 * length ?s) ?tail = Some (map embed (w # vs), r)" by (rule fuel_elements) simp
  have "parse_elements (Suc (2 * length ?s)) ?s = Some (map embed (v # w # vs), r)"
    unfolding parse_elements.simps v using t by (simp add: skip_ws_Cons_token)
  moreover have "commas (map json_encode (v # w # vs)) @ CHR '']'' # r = ?s" by simp
  ultimately show ?case by metis
qed

definition member_text :: "string \<times> json \<Rightarrow> string" where
  "member_text = (\<lambda>(k, v). json_string k @ CHR '':'' # json_encode v)"

lemma parse_members_json:
  "\<forall>f\<in>set (f # fs). reads (snd f) \<Longrightarrow>
    \<exists>n. parse_members n (commas (map member_text (f # fs)) @ CHR ''}'' # r) = Some (map (\<lambda>(k, v). (k, embed v)) (f # fs), r)"
proof (induction fs arbitrary: f)
  case Nil
  obtain k v where f: "f = (k, v)" by fastforce
  with Nil obtain n where "parse_value n (json_encode v @ CHR ''}'' # r) = Some (embed v, CHR ''}'' # r)"
    by (fastforce simp: reads_def)
  then have "parse_members (Suc n) (member_text f @ CHR ''}'' # r) = Some ([(k, embed v)], r)"
    by (simp add: f member_text_def json_string_def skip_ws_Cons_token parse_chars_json)
  then show ?case by (intro exI [of _ "Suc n"]) (simp add: f)
next
  case (Cons g fs)
  obtain k v where f: "f = (k, v)" by fastforce
  let ?tail = "commas (map member_text (g # fs)) @ CHR ''}'' # r"
  let ?s = "member_text f @ CHR '','' # ?tail"
  let ?v = "json_encode v @ CHR '','' # ?tail"
  obtain n where "parse_value n ?v = Some (embed v, CHR '','' # ?tail)"
    using Cons.prems f by (fastforce simp: reads_def)
  then have v: "parse_value (2 * length ?s) ?v = Some (embed v, CHR '','' # ?tail)"
    by (rule fuel_value) (simp add: f member_text_def)
  obtain m where "parse_members m ?tail = Some (map (\<lambda>(k, v). (k, embed v)) (g # fs), r)" using Cons.IH [of g] Cons.prems by auto
  then have t: "parse_members (2 * length ?s) ?tail = Some (map (\<lambda>(k, v). (k, embed v)) (g # fs), r)"
    by (rule fuel_members) simp
  have s: "?s = CHR 0x22 # concat (map escape_char k) @ CHR 0x22 # CHR '':'' # ?v"
    by (simp add: f member_text_def json_string_def)
  have "parse_members (Suc (2 * length ?s)) ?s = Some (map (\<lambda>(k, v). (k, embed v)) (f # g # fs), r)"
    using v t unfolding parse_members.simps s by (simp add: f skip_ws_Cons_token parse_chars_json)
  moreover have "commas (map member_text (f # g # fs)) @ CHR ''}'' # r = ?s" by simp
  ultimately show ?case by metis
qed

lemma json_reads: "reads v"
proof (induction v)
  case (JInt i)
  have "parse_value (Suc 0) (dec_int i @ r) = Some (VNum (dec_int i), r)" if "json_end r" for r
  proof -
    obtain c t where t: "dec_int i = c # t" "c = CHR ''-'' \<or> is_digit c"
      using hd_dec_int [of i] by (cases "dec_int i") auto
    then have "skip_ws (dec_int i @ r) = c # t @ r" using digit_not_space by (auto simp: skip_ws_Cons_token)
    moreover have "c \<notin> {CHR 0x22, CHR ''{'', CHR ''['', CHR ''t'', CHR ''f'', CHR ''n''}" using t(2) by (auto simp: is_digit_def)
    ultimately show ?thesis using parse_number_int [OF that, of i] t(1) by simp
  qed
  then show ?case unfolding reads_def json_encode.simps embed.simps by (intro allI impI exI [of _ "Suc 0"])
next
  case (JArr vs)
  have "\<exists>n. parse_value n (json_encode (JArr vs) @ r) = Some (embed (JArr vs), r)" for r
  proof (cases vs)
    case Nil
    have "parse_value (Suc 0) (json_encode (JArr vs) @ r) = Some (embed (JArr vs), r)" by (simp add: Nil skip_ws_Cons_token)
    then show ?thesis ..
  next
    case (Cons v ws)
    let ?t = "commas (map json_encode vs) @ CHR '']'' # r"
    obtain n where n: "parse_elements n ?t = Some (map embed vs, r)" using parse_elements_json [of v ws r] JArr Cons by blast
    obtain c t where t: "json_encode v = c # t" "c \<noteq> CHR '']''" "\<not> json_space c"
      using hd_json_encode_not_close [of v] hd_json_not_space [of v] json_encode_neq_Nil [of v] by (cases "json_encode v") auto
    then have "\<exists>q. ?t = c # q" unfolding Cons by (simp add: commas_Cons)
    then obtain q where q: "?t = c # q" ..
    with n t have "parse_value (Suc n) (CHR ''['' # ?t) = Some (embed (JArr vs), r)" by (simp add: skip_ws_Cons_token)
    then show ?thesis by (intro exI [of _ "Suc n"]) simp
  qed
  then show ?case unfolding reads_def by blast
next
  case (JObj fs)
  have fs: "json_encode (JObj fs) @ r = CHR ''{'' # commas (map member_text fs) @ CHR ''}'' # r" for r by (simp add: member_text_def)
  have "\<exists>n. parse_value n (json_encode (JObj fs) @ r) = Some (embed (JObj fs), r)" for r
  proof (cases fs)
    case Nil
    have "parse_value (Suc 0) (json_encode (JObj fs) @ r) = Some (embed (JObj fs), r)" by (simp add: Nil skip_ws_Cons_token)
    then show ?thesis ..
  next
    case (Cons f gs)
    let ?t = "commas (map member_text fs) @ CHR ''}'' # r"
    obtain n where n: "parse_members n ?t = Some (map (\<lambda>(k, v). (k, embed v)) fs, r)"
      using parse_members_json [of f gs r] JObj Cons by (metis snds.intros surjective_pairing)
    obtain q where "?t = CHR 0x22 # q" unfolding Cons by (cases f) (simp add: commas_Cons member_text_def json_string_def)
    with n have "parse_value (Suc n) (CHR ''{'' # ?t) = Some (embed (JObj fs), r)" by (simp add: skip_ws_Cons_token)
    then show ?thesis unfolding fs ..
  qed
  then show ?case unfolding reads_def by blast
qed (auto simp: reads_def json_string_def skip_ws_Cons_token parse_chars_json parse_word_def intro!: exI [of _ "Suc 0"])

theorem json_document_encode: "json_document (json_encode v) = Some (embed v)"
proof -
  obtain n where "parse_value n (json_encode v @ []) = Some (embed v, [])" using json_reads [of v] unfolding reads_def by (metis json_end_simps(1))
  from json_value_complete [OF this] show ?thesis by (simp add: json_document_def skip_ws_def)
qed

end
