(* ===== verification/Url.thy ===== *)
theory Url
  imports Json_Parse
begin

text \<open>
  \<^verbatim>\<open>url.Parse\<close> as far as scheme, host and path, which the validation of the configuration
  and the client of the customs gateway rely on, and the lemma that a path put behind a URL that parses, without the
  slashes at its end, leaves it one that parses, with the same scheme and host.
\<close>

section \<open>Parsing\<close>

text \<open>The text before the last colon and the one after it.\<close>

definition last_colon :: "string \<Rightarrow> string \<times> string" where
  "last_colon s = (rev (tl (dropWhile (\<lambda>c. c \<noteq> CHR '':'') (rev s))), rev (takeWhile (\<lambda>c. c \<noteq> CHR '':'') (rev s)))"

text \<open>The characters a host may have unescaped, and the checks of \<^verbatim>\<open>unescape\<close> on a host and elsewhere.\<close>

definition is_alnum :: "char \<Rightarrow> bool" where
  "is_alnum c \<longleftrightarrow> is_lower c \<or> is_upper c \<or> is_digit c"

definition host_char :: "char \<Rightarrow> bool" where
  "host_char c \<longleftrightarrow> is_alnum c \<or> CHR 0x7F < c \<or> c \<in> set ''-_.~!$&()*+,;=:[]<>'' \<or> c = CHR 0x27 \<or> c = CHR 0x22"

fun unescape_ok :: "string \<Rightarrow> bool" where
  "unescape_ok [] = True"
| "unescape_ok (c # s) =
    (if c = CHR ''%''
     then (case s of h # l # r \<Rightarrow> is_hex h \<and> is_hex l \<and> unescape_ok r | _ \<Rightarrow> False)
     else unescape_ok s)"

text \<open>In a host only bytes above 127 may be escaped, and the percent sign; in the zone of an address, also characters of hosts and spaces.\<close>

fun unescape_host_ok :: "bool \<Rightarrow> string \<Rightarrow> bool" where
  "unescape_host_ok zone [] = True"
| "unescape_host_ok zone (c # s) =
    (if c = CHR ''%''
     then (case s of
         h # l # r \<Rightarrow>
           let b = char_of (16 * hex_digit_value h + hex_digit_value l) :: char
           in is_hex h \<and> is_hex l \<and>
             (h = CHR ''2'' \<and> l = CHR ''5'' \<or> (if zone then b = CHR '' '' \<or> host_char b \<and> b \<le> CHR 0x7F else 8 \<le> hex_digit_value h)) \<and>
             unescape_host_ok zone r
       | _ \<Rightarrow> False)
     else host_char c \<and> unescape_host_ok zone s)"

definition valid_optional_port :: "string \<Rightarrow> bool" where
  "valid_optional_port s \<longleftrightarrow> (case s of [] \<Rightarrow> True | c # r \<Rightarrow> c = CHR '':'' \<and> list_all is_digit r)"

definition parse_host_ok :: "string \<Rightarrow> bool" where
  "parse_host_ok host =
    (if host \<noteq> [] \<and> hd host = CHR ''[''
     then
       let back = takeWhile (\<lambda>c. c \<noteq> CHR '']'') (rev host); address = take (length host - length back - 1) host
       in CHR '']'' \<in> set host \<and> valid_optional_port (rev back) \<and>
         (if contains_str address ''%25''
          then (\<exists>i\<in>set [0..<length address]. take 3 (drop i address) = ''%25'' \<and> \<not> contains_str (take (i + 2) address) ''%25'' \<and>
            unescape_host_ok False (take i host) \<and> unescape_host_ok True (drop i address) \<and>
            unescape_host_ok False (drop (length address) host))
          else unescape_host_ok False host)
     else (CHR '':'' \<in> set host \<longrightarrow> valid_optional_port (CHR '':'' # snd (last_colon host))) \<and> unescape_host_ok False host)"

definition userinfo_ok :: "string \<Rightarrow> bool" where
  "userinfo_ok s \<longleftrightarrow> list_all (\<lambda>c. is_alnum c \<or> c \<in> set ''-._:~!$&()*+,;=%@'' \<or> c = CHR 0x27) s \<and>
    unescape_ok (takeWhile (\<lambda>c. c \<noteq> CHR '':'') s) \<and> unescape_ok (tl (dropWhile (\<lambda>c. c \<noteq> CHR '':'') s))"

text \<open>The scheme ends at the first colon, if only its characters come before.\<close>

definition url_scheme :: "string \<Rightarrow> (string \<times> string) option" where
  "url_scheme s =
    (let p = takeWhile (\<lambda>c. c \<noteq> CHR '':'') s
     in if CHR '':'' \<notin> set s \<or> p = [] \<or> \<not> (is_lower (hd p) \<or> is_upper (hd p)) \<or>
           \<not> list_all (\<lambda>c. is_alnum c \<or> c \<in> set ''+-.'') p then None
        else Some (p, drop (length p + 1) s))"

text \<open>
  Scheme, host and path as they are written, of a URL that has a scheme and an authority and parses; both
  callers refuse every other text, whether \<^verbatim>\<open>url.Parse\<close> does or not.
\<close>

definition url_Parse :: "string \<Rightarrow> (string \<times> string \<times> string) option" where
  "url_Parse s =
    (let u = takeWhile (\<lambda>c. c \<noteq> CHR ''#'') s; fragment = tl (dropWhile (\<lambda>c. c \<noteq> CHR ''#'') s)
     in if list_ex (\<lambda>c. c < CHR '' '' \<or> c = CHR 0x7F) u \<or> \<not> unescape_ok fragment then None
        else (case url_scheme u of
            None \<Rightarrow> None
          | Some (scheme, rest0) \<Rightarrow>
              (let rest = takeWhile (\<lambda>c. c \<noteq> CHR ''?'') rest0
               in if take 2 rest \<noteq> ''//'' then None
                  else
                    let authority = takeWhile (\<lambda>c. c \<noteq> CHR ''/'') (drop 2 rest); path = dropWhile (\<lambda>c. c \<noteq> CHR ''/'') (drop 2 rest);
                        host = rev (takeWhile (\<lambda>c. c \<noteq> CHR ''@'') (rev authority));
                        userinfo = take (length authority - length host - 1) authority
                    in if \<not> parse_host_ok host \<or> \<not> userinfo_ok userinfo \<or> \<not> unescape_ok path then None
                       else Some (to_lower scheme, host, path))))"

section \<open>A path behind a URL\<close>

text \<open>\<^verbatim>\<open>strings.TrimRight(s, "/")\<close>\<close>

definition trim_slashes :: "string \<Rightarrow> string" where
  "trim_slashes s = rev (dropWhile (\<lambda>c. c = CHR ''/'') (rev s))"

text \<open>What a path may consist of that is put behind a URL without changing how the rest of it parses.\<close>

definition path_text :: "string \<Rightarrow> bool" where
  "path_text p \<longleftrightarrow> p \<noteq> [] \<and> hd p = CHR ''/'' \<and> list_all (\<lambda>c. is_lower c \<or> is_digit c \<or> c = CHR ''/'') p"

text \<open>
  A text \<open>s\<close> whose slashes at the end may be replaced: it is \<open>a\<close> with slashes behind it, and
  \<open>t\<close> is \<open>a\<close> with the path instead.
\<close>

definition repathed :: "string \<Rightarrow> string \<Rightarrow> string \<Rightarrow> bool" where
  "repathed p s t \<longleftrightarrow> (\<exists>a n. s = a @ replicate n CHR ''/'' \<and> t = a @ p)"

lemma repathed_trim: "repathed p s (trim_slashes s @ p)"
proof -
  let ?w = "takeWhile (\<lambda>c. c = CHR ''/'') (rev s)"
  have "s = trim_slashes s @ rev ?w"
    unfolding trim_slashes_def by (metis rev_append rev_rev_ident takeWhile_dropWhile_id)
  moreover have "?w = replicate (length ?w) CHR ''/''"
    by (intro replicate_eqI) (auto dest: set_takeWhileD)
  then have "rev ?w = replicate (length ?w) CHR ''/''" by (metis rev_replicate)
  ultimately show ?thesis unfolding repathed_def by metis
qed

lemma path_text_chars:
  assumes "path_text p" and "c \<in> set p" shows "c \<notin> {CHR ''#'', CHR ''?'', CHR '':'', CHR ''%''}" and "\<not> (c < CHR '' '' \<or> c = CHR 0x7F)"
proof -
  from assms consider "is_lower c" | "is_digit c" | "c = CHR ''/''" by (auto simp: path_text_def list_all_iff)
  then show "c \<notin> {CHR ''#'', CHR ''?'', CHR '':'', CHR ''%''}"
    by cases (auto simp: is_lower_def is_digit_def)
  from assms consider "CHR ''a'' \<le> c" "c \<le> CHR ''z''" | "CHR ''0'' \<le> c" "c \<le> CHR ''9''" | "c = CHR ''/''"
    by (auto simp: path_text_def list_all_iff is_lower_def is_digit_def)
  then show "\<not> (c < CHR '' '' \<or> c = CHR 0x7F)"
  proof cases
    case 1
    then have "CHR '' '' < c" by (intro less_le_trans [OF _ 1(1)]) simp
    with 1 show ?thesis by auto
  next
    case 2
    then have "CHR '' '' < c" by (intro less_le_trans [OF _ 2(1)]) simp
    with 2 show ?thesis by auto
  qed simp
qed

text \<open>Cutting both at a character that is no slash: either it comes before and all is as it was, or it does not occur.\<close>

lemma repathed_cut:
  assumes "repathed p s t" and "c \<noteq> CHR ''/''" and "c \<notin> set p"
  shows "c \<in> set s \<and> c \<in> set t \<and> takeWhile (\<lambda>d. d \<noteq> c) t = takeWhile (\<lambda>d. d \<noteq> c) s \<and>
      repathed p (tl (dropWhile (\<lambda>d. d \<noteq> c) s)) (tl (dropWhile (\<lambda>d. d \<noteq> c) t)) \<or>
    c \<notin> set s \<and> c \<notin> set t"
proof -
  obtain a n where st: "s = a @ replicate n CHR ''/''" "t = a @ p" using assms(1) by (auto simp: repathed_def)
  show ?thesis
  proof (cases "c \<in> set a")
    case True
    then have "dropWhile (\<lambda>d. d \<noteq> c) a \<noteq> []" by (auto simp: dropWhile_eq_Nil_conv)
    then have "tl (dropWhile (\<lambda>d. d \<noteq> c) (a @ r)) = tl (dropWhile (\<lambda>d. d \<noteq> c) a) @ r" for r
      using True by (simp add: dropWhile_append1)
    with True show ?thesis by (auto simp: st repathed_def takeWhile_append1)
  next
    case False
    with assms(2,3) show ?thesis by (auto simp: st)
  qed
qed

lemma unescape_ok_repathed:
  assumes "path_text p" and "repathed p s t" and "unescape_ok s"
  shows "unescape_ok t"
proof -
  have plain: "unescape_ok q" if "CHR ''%'' \<notin> set q" for q
    using that by (induction q) auto
  have "\<not> is_hex CHR ''/''" by code_simp
  then have "unescape_ok (a @ replicate n CHR ''/'') \<Longrightarrow> unescape_ok (a @ p)" for a n
  proof (induction a rule: unescape_ok.induct)
    case 1
    then show ?case using plain path_text_chars(1) [OF assms(1), of "CHR ''%''"] by auto
  next
    case (2 c a)
    show ?case
    proof (cases "c = CHR ''%''")
      case False
      with 2 show ?thesis by simp
    next
      case True
      then show ?thesis using 2 \<open>\<not> is_hex CHR ''/''\<close> by (cases a; cases "tl a"; cases n; cases "n - 1") simp_all
    qed
  qed
  with assms(2,3) show ?thesis by (auto simp: repathed_def)
qed

text \<open>The path of what comes after the scheme, and its authority, which is not empty.\<close>

lemma repathed_authority:
  assumes "repathed p s t" and "path_text p" and "take 2 s = ''//''" and "takeWhile (\<lambda>c. c \<noteq> CHR ''/'') (drop 2 s) \<noteq> []"
  shows "take 2 t = ''//'' \<and> takeWhile (\<lambda>c. c \<noteq> CHR ''/'') (drop 2 t) = takeWhile (\<lambda>c. c \<noteq> CHR ''/'') (drop 2 s) \<and>
    repathed p (dropWhile (\<lambda>c. c \<noteq> CHR ''/'') (drop 2 s)) (dropWhile (\<lambda>c. c \<noteq> CHR ''/'') (drop 2 t))"
proof -
  obtain a n where st: "s = a @ replicate n CHR ''/''" "t = a @ p" using assms(1) by (auto simp: repathed_def)
  have p: "takeWhile (\<lambda>c. c \<noteq> CHR ''/'') p = []" "dropWhile (\<lambda>c. c \<noteq> CHR ''/'') p = p"
    using assms(2) by (cases p; simp add: path_text_def)+
  have r: "takeWhile (\<lambda>c. c \<noteq> CHR ''/'') (replicate k CHR ''/'') = []"
    "dropWhile (\<lambda>c. c \<noteq> CHR ''/'') (replicate k CHR ''/'') = replicate k CHR ''/''" for k
    by (cases k; simp)+
  have "2 \<le> length a"
  proof (rule ccontr)
    assume "\<not> 2 \<le> length a"
    then have "drop 2 s = replicate (n - (2 - length a)) CHR ''/''" by (simp add: st)
    with assms(4) r show False by simp
  qed
  then obtain b where a: "a = ''//'' @ b"
    using assms(3) append_take_drop_id [of 2 a] that [of "drop 2 a"] by (simp add: st)
  show ?thesis
  proof (cases "CHR ''/'' \<in> set b")
    case True
    then show ?thesis by (auto simp: st a repathed_def takeWhile_append1 dropWhile_append1 intro!: exI [of _ n])
  next
    case False
    then have "takeWhile (\<lambda>c. c \<noteq> CHR ''/'') (b @ q) = b @ takeWhile (\<lambda>c. c \<noteq> CHR ''/'') q"
      "dropWhile (\<lambda>c. c \<noteq> CHR ''/'') (b @ q) = dropWhile (\<lambda>c. c \<noteq> CHR ''/'') q" for q
      by (induction b) auto
    then show ?thesis using p r by (auto simp: st a repathed_def intro!: exI [of _ "[]"])
  qed
qed

text \<open>With the cuts at the characters \<open>#\<close>, \<open>:\<close> and \<open>?\<close>, the whole URL.\<close>

lemma repathed_before:
  assumes "repathed p s t" and "c \<noteq> CHR ''/''" and "c \<notin> set p"
  shows "repathed p (takeWhile (\<lambda>d. d \<noteq> c) s) (takeWhile (\<lambda>d. d \<noteq> c) t) \<or> takeWhile (\<lambda>d. d \<noteq> c) t = takeWhile (\<lambda>d. d \<noteq> c) s"
proof -
  have "takeWhile (\<lambda>d. d \<noteq> c) u = u" if "c \<notin> set u" for u
    using that by (auto simp: takeWhile_eq_all_conv)
  then show ?thesis using repathed_cut [OF assms] assms(1) by metis
qed

lemma url_scheme_repathed:
  assumes "repathed p u v \<or> v = u" and "path_text p" and "url_scheme u = Some (scheme, rest)"
  shows "\<exists>rest1. url_scheme v = Some (scheme, rest1) \<and> (repathed p rest rest1 \<or> rest1 = rest)"
  using assms(1)
proof
  assume rp: "repathed p u v"
  have colon: "CHR '':'' \<in> set u" using assms(3) by (auto simp: url_scheme_def Let_def split: if_splits)
  have cut: "takeWhile (\<lambda>d. d \<noteq> CHR '':'') v = takeWhile (\<lambda>d. d \<noteq> CHR '':'') u" "CHR '':'' \<in> set v"
    "repathed p (tl (dropWhile (\<lambda>d. d \<noteq> CHR '':'') u)) (tl (dropWhile (\<lambda>d. d \<noteq> CHR '':'') v))"
    using repathed_cut [OF rp, of "CHR '':''"] path_text_chars(1) [OF assms(2)] colon by auto
  have "drop (length (takeWhile (\<lambda>d. d \<noteq> CHR '':'') x) + 1) x = tl (dropWhile (\<lambda>d. d \<noteq> CHR '':'') x)" for x
    by (simp add: dropWhile_eq_drop drop_Suc tl_drop)
  with assms(3) cut show ?thesis by (auto simp: url_scheme_def Let_def split: if_splits)
qed (use assms(3) in auto)

lemma no_control_repathed:
  assumes "repathed p s t" and "path_text p" and "\<not> list_ex (\<lambda>c. c < CHR '' '' \<or> c = CHR 0x7F) s"
  shows "\<not> list_ex (\<lambda>c. c < CHR '' '' \<or> c = CHR 0x7F) t"
proof -
  let ?control = "\<lambda>c :: char. c < CHR '' '' \<or> c = CHR 0x7F"
  obtain a n where st: "s = a @ replicate n CHR ''/''" "t = a @ p" using assms(1) by (auto simp: repathed_def)
  have "\<not> list_ex ?control p" unfolding list_ex_iff using path_text_chars(2) [OF assms(2)] by blast
  moreover have "\<not> list_ex ?control a" using assms(3) unfolding st list_ex_append by blast
  ultimately show ?thesis unfolding st list_ex_append by blast
qed

lemma fragment_repathed:
  assumes "repathed p s t" and "path_text p" and "unescape_ok (tl (dropWhile (\<lambda>c. c \<noteq> CHR ''#'') s))"
  shows "unescape_ok (tl (dropWhile (\<lambda>c. c \<noteq> CHR ''#'') t))"
proof (cases "CHR ''#'' \<in> set t")
  case True
  moreover have "CHR ''#'' \<notin> set p" using path_text_chars(1) [OF assms(2), of "CHR ''#''"] by blast
  moreover have "CHR ''#'' \<noteq> CHR ''/''" by simp
  ultimately have "repathed p (tl (dropWhile (\<lambda>d. d \<noteq> CHR ''#'') s)) (tl (dropWhile (\<lambda>d. d \<noteq> CHR ''#'') t))"
    using repathed_cut [OF assms(1)] by blast
  from unescape_ok_repathed [OF assms(2) this assms(3)] show ?thesis .
next
  case False
  then have "\<forall>c\<in>set t. c \<noteq> CHR ''#''" by blast
  then have "dropWhile (\<lambda>c. c \<noteq> CHR ''#'') t = []" unfolding dropWhile_eq_Nil_conv .
  then show ?thesis by (simp only: list.sel(2) unescape_ok.simps(1))
qed

lemma url_Parse_repathed:
  assumes "repathed p s t" and "path_text p" and "url_Parse s = Some (scheme, host, path)" and "host \<noteq> []"
  shows "\<exists>path1. url_Parse t = Some (scheme, host, path1)"
proof -
  note chars = path_text_chars [OF assms(2)]
  let ?cut = "takeWhile (\<lambda>c. c \<noteq> CHR ''#'')" and ?frag = "\<lambda>s. tl (dropWhile (\<lambda>c. c \<noteq> CHR ''#'') s)"
    and ?query = "takeWhile (\<lambda>c. c \<noteq> CHR ''?'')" and ?slash = "takeWhile (\<lambda>c. c \<noteq> CHR ''/'')" and ?path = "dropWhile (\<lambda>c. c \<noteq> CHR ''/'')"
  have "url_scheme (?cut s) \<noteq> None"
  proof
    assume none: "url_scheme (?cut s) = None"
    show False using assms(3) unfolding url_Parse_def Let_def none option.case by (simp split: if_splits)
  qed
  then obtain sch rest0 where sch: "url_scheme (?cut s) = Some (sch, rest0)" by (metis option.exhaust prod.exhaust)
  define auth where "auth = ?slash (drop 2 (?query rest0))"
  define tail_part where "tail_part = takeWhile (\<lambda>c. c \<noteq> CHR ''@'') (rev auth)"
  have parts: "\<not> list_ex (\<lambda>c. c < CHR '' '' \<or> c = CHR 0x7F) (?cut s)" "unescape_ok (?frag s)" "take 2 (?query rest0) = ''//''"
    "scheme = to_lower sch" "host = rev tail_part" "parse_host_ok (rev tail_part)"
    "userinfo_ok (take (length auth - length tail_part - 1) auth)" "unescape_ok (?path (drop 2 (?query rest0)))"
    using assms(3) unfolding url_Parse_def Let_def sch option.case prod.case auth_def [symmetric] tail_part_def [symmetric] by (simp_all split: if_splits)
  have before: "repathed p (?cut s) (?cut t) \<or> ?cut t = ?cut s" 
    by (rule repathed_before [OF assms(1)]) (use chars(1) [of "CHR ''#''"] in blast)+
  obtain rest1 where sch1: "url_scheme (?cut t) = Some (sch, rest1)" and rest: "repathed p rest0 rest1 \<or> rest1 = rest0"
    using url_scheme_repathed [OF before assms(2) sch] by blast
  have query: "repathed p (?query rest0) (?query rest1) \<or> ?query rest1 = ?query rest0"
    using rest
  proof
    assume "repathed p rest0 rest1"
    then show ?thesis by (rule repathed_before) (use chars(1) [of "CHR ''?''"] in blast)+
  qed simp
  have auth: "auth \<noteq> []" using parts(5) assms(4) by (auto simp: tail_part_def)
  have all: "take 2 (?query rest1) = ''//'' \<and> ?slash (drop 2 (?query rest1)) = auth \<and> unescape_ok (?path (drop 2 (?query rest1)))"
    using query
  proof
    assume "repathed p (?query rest0) (?query rest1)"
    note authority = repathed_authority [OF this assms(2) parts(3) auth [unfolded auth_def]]
    have "unescape_ok (?path (drop 2 (?query rest1)))"
      using authority by (intro unescape_ok_repathed [OF assms(2) _ parts(8)]) (elim conjE)
    with authority show ?thesis unfolding auth_def by (elim conjE) (intro conjI)
  qed (simp only: parts(3,8) auth_def simp_thms)
  note same = conjunct1 [OF all] conjunct1 [OF conjunct2 [OF all]] conjunct2 [OF conjunct2 [OF all]]
  have "\<not> list_ex (\<lambda>c. c < CHR '' '' \<or> c = CHR 0x7F) (?cut t)"
    using before
  proof
    assume "repathed p (?cut s) (?cut t)"
    from no_control_repathed [OF this assms(2) parts(1)] show ?thesis .
  qed (simp only: parts(1) not_False_eq_True)
  moreover have "unescape_ok (?frag t)" using fragment_repathed [OF assms(1,2) parts(2)] .
  ultimately show ?thesis using parts(4-7) unfolding url_Parse_def Let_def sch1 option.case prod.case same(2) tail_part_def [symmetric]
    by (simp add: same)
qed

lemma url_Parse_join:
  assumes "url_Parse s = Some (scheme, host, path)" and "host \<noteq> []" and "path_text p"
  shows "\<exists>path1. url_Parse (trim_slashes s @ p) = Some (scheme, host, path1)"
  by (rule url_Parse_repathed [OF repathed_trim assms(3,1,2)])

end
