(* ===== verification/Base64.thy ===== *)
theory Base64
  imports Prelude
begin

text \<open>
  What the code uses of \<^verbatim>\<open>encoding/base64\<close>: \<^verbatim>\<open>RawURLEncoding\<close>, the URL alphabet
  without padding. The decoder skips line breaks and ignores the bits left over in the last character,
  as Go's does. The theorem is that decoding undoes encoding.
\<close>

definition alphabet :: string where
  "alphabet = ''ABCDEFGHIJKLMNOPQRSTUVWXYZabcdefghijklmnopqrstuvwxyz0123456789-_''"

definition sextet_char :: "nat \<Rightarrow> char" where
  "sextet_char n = alphabet ! n"

definition char_sextet :: "char \<Rightarrow> nat option" where
  "char_sextet c = (let n = length (takeWhile (\<lambda>d. d \<noteq> c) alphabet) in if n < 64 then Some n else None)"

fun sextets :: "nat list \<Rightarrow> nat list" where
  "sextets [] = []"
| "sextets [a] = [a div 4, a mod 4 * 16]"
| "sextets [a, b] = [a div 4, a mod 4 * 16 + b div 16, b mod 16 * 4]"
| "sextets (a # b # c # r) = a div 4 # (a mod 4 * 16 + b div 16) # (b mod 16 * 4 + c div 64) # c mod 64 # sextets r"

fun bytes :: "nat list \<Rightarrow> nat list option" where
  "bytes [] = Some []"
| "bytes [x] = None"
| "bytes [x, y] = Some [x * 4 + y div 16]"
| "bytes [x, y, z] = Some [x * 4 + y div 16, y mod 16 * 16 + z div 4]"
| "bytes (x # y # z # w # r) =
    map_option (\<lambda>bs. (x * 4 + y div 16) # (y mod 16 * 16 + z div 4) # (z mod 4 * 64 + w) # bs) (bytes r)"

definition base64_encode :: "string \<Rightarrow> string" where
  "base64_encode s = map sextet_char (sextets (map of_char s))"

fun read_sextets :: "string \<Rightarrow> nat list option" where
  "read_sextets [] = Some []"
| "read_sextets (c # r) =
    (if c = CHR 0x0A \<or> c = CHR 0x0D then read_sextets r
     else (case char_sextet c of None \<Rightarrow> None | Some n \<Rightarrow> map_option ((#) n) (read_sextets r)))"

definition base64_decode :: "string \<Rightarrow> string option" where
  "base64_decode t =
    (case read_sextets t of None \<Rightarrow> None | Some ns \<Rightarrow> map_option (map char_of) (bytes ns))"

lemma sextet_char_facts:
  assumes "n < 64"
  shows "char_sextet (sextet_char n) = Some n" and "sextet_char n \<noteq> CHR 0x0A" and "sextet_char n \<noteq> CHR 0x0D"
    and "\<not> is_space (sextet_char n)"
proof -
  have "n \<in> set [0..<64]" using assms by simp
  moreover have "list_all (\<lambda>n. char_sextet (sextet_char n) = Some n \<and> sextet_char n \<noteq> CHR 0x0A \<and> sextet_char n \<noteq> CHR 0x0D \<and>
      \<not> is_space (sextet_char n)) [0..<64]" by code_simp
  ultimately show "char_sextet (sextet_char n) = Some n" and "sextet_char n \<noteq> CHR 0x0A" and "sextet_char n \<noteq> CHR 0x0D"
    and "\<not> is_space (sextet_char n)" by (simp_all add: list_all_iff)
qed

lemma read_sextets_chars: "\<forall>n\<in>set ns. n < 64 \<Longrightarrow> read_sextets (map sextet_char ns) = Some ns"
  by (induction ns) (auto simp: sextet_char_facts)

lemma sextets_bound: "\<forall>a\<in>set as. a < 256 \<Longrightarrow> \<forall>n\<in>set (sextets as). n < 64"
proof (induction "as" rule: sextets.induct)
  case (4 a b c r)
  then have "a div 4 < 64" "b div 16 < 16" "c div 64 < 4" by (simp_all add: less_mult_imp_div_less)
  moreover have "a mod 4 < 4" "b mod 16 < 16" "c mod 64 < 64" by simp_all
  ultimately have "a mod 4 * 16 + b div 16 < 64" "b mod 16 * 4 + c div 64 < 64" by linarith+
  with 4 \<open>a div 4 < 64\<close> show ?case by simp
next
  case (3 a b)
  then have "a div 4 < 64" "b div 16 < 16" by (simp_all add: less_mult_imp_div_less)
  moreover have "a mod 4 < 4" "b mod 16 < 16" by simp_all
  ultimately have "a mod 4 * 16 + b div 16 < 64" "b mod 16 * 4 < 64" by linarith+
  with \<open>a div 4 < 64\<close> show ?case by simp
next
  case (2 a)
  then have "a div 4 < 64" by (simp add: less_mult_imp_div_less)
  moreover have "a mod 4 < 4" by simp
  then have "a mod 4 * 16 < 64" by linarith
  ultimately show ?case by simp
qed simp

lemma bytes_sextets: "\<forall>a\<in>set as. a < 256 \<Longrightarrow> bytes (sextets as) = Some as"
proof (induction "as" rule: sextets.induct)
  case (4 a b c r)
  then have "b div 16 < 16" "c div 64 < 4" by (simp_all add: less_mult_imp_div_less)
  with 4 show ?case by simp
next
  case (3 a b)
  then have "b div 16 < 16" by (simp add: less_mult_imp_div_less)
  then show ?case by simp
qed simp_all

theorem base64_decode_encode: "base64_decode (base64_encode s) = Some s"
proof -
  have small: "\<forall>a\<in>set (map of_char s). a < (256 :: nat)" by auto
  from read_sextets_chars [OF sextets_bound [OF small]] bytes_sextets [OF small]
  show ?thesis by (simp add: base64_decode_def base64_encode_def o_def)
qed

lemma base64_no_space: "c \<in> set (base64_encode s) \<Longrightarrow> \<not> is_space c"
proof -
  have small: "\<forall>a\<in>set (map of_char s). a < (256 :: nat)" by auto
  from sextets_bound [OF small] show "c \<in> set (base64_encode s) \<Longrightarrow> \<not> is_space c"
    by (auto simp: base64_encode_def sextet_char_facts)
qed

end
