(* ===== verification/Rfc3339_Parse.thy ===== *)
theory Rfc3339_Parse
  imports Rfc3339
begin

text \<open>
  How \<^verbatim>\<open>time.Time.UnmarshalJSON\<close> reads an instant, following Go's
  \<^verbatim>\<open>parseRFC3339\<close>: date, clock, an optional fraction of any length, of which nine digits
  count, and \<^verbatim>\<open>Z\<close> or an offset. The laxer forms for which Go falls back on the layout
  parser (an hour of one digit, a decimal comma, an offset of 24 hours) are refused here. The theorem is
  that the text of an instant is read back as that instant.
\<close>

definition days_in :: "int \<Rightarrow> int \<Rightarrow> int" where
  "days_in y m = (if m = 2 \<and> leap_year y then 29 else days_before ! nat m - days_before ! nat (m - 1))"

definition date_days :: "int \<Rightarrow> int \<Rightarrow> int \<Rightarrow> int" where
  "date_days y m d = 365 * (y - 1) + (y - 1) div 4 - (y - 1) div 100 + (y - 1) div 400 + yday_of (leap_year y) (m, d)"

text \<open>A number of a fixed field, between two bounds.\<close>

definition parse_uint :: "string \<Rightarrow> int \<Rightarrow> int \<Rightarrow> int option" where
  "parse_uint s lower upper =
    (if list_all is_digit s \<and> lower \<le> int (read_nat s) \<and> int (read_nat s) \<le> upper then Some (int (read_nat s)) else None)"

definition field :: "nat \<Rightarrow> nat \<Rightarrow> string \<Rightarrow> string" where
  "field a b s = take (b - a) (drop a s)"

definition parse_date :: "string \<Rightarrow> int option" where
  "parse_date s =
    (case (parse_uint (field 0 4 s) 0 9999, parse_uint (field 5 7 s) 1 12) of
       (Some year, Some month) \<Rightarrow> map_option (date_days year month) (parse_uint (field 8 10 s) 1 (days_in year month))
     | _ \<Rightarrow> None)"

definition parse_clock :: "string \<Rightarrow> int option" where
  "parse_clock s =
    (case (parse_uint (field 11 13 s) 0 23, parse_uint (field 14 16 s) 0 59, parse_uint (field 17 19 s) 0 59) of
       (Some hour, Some minute, Some sec) \<Rightarrow> Some (3600 * hour + 60 * minute + sec)
     | _ \<Rightarrow> None)"

definition parse_nanoseconds :: "string \<Rightarrow> int \<times> string" where
  "parse_nanoseconds s =
    (case s of
       c # r \<Rightarrow>
         if c = CHR ''.'' \<and> takeWhile is_digit r \<noteq> []
         then let digits = take 9 (takeWhile is_digit r)
           in (int (read_nat digits) * 10 ^ (9 - length digits), dropWhile is_digit r)
         else (0, s)
     | [] \<Rightarrow> (0, []))"

definition parse_zone :: "string \<Rightarrow> int option" where
  "parse_zone s =
    (if s = ''Z'' then Some 0
     else if length s \<noteq> 6 \<or> s ! 0 \<notin> {CHR ''-'', CHR ''+''} \<or> s ! 3 \<noteq> CHR '':'' then None
     else (case (parse_uint (field 1 3 s) 0 23, parse_uint (field 4 6 s) 0 59) of
         (Some hour, Some minute) \<Rightarrow>
           Some (if s ! 0 = CHR ''-'' then - (60 * (60 * hour + minute)) else 60 * (60 * hour + minute))
       | _ \<Rightarrow> None))"

definition parse_rfc3339 :: "string \<Rightarrow> Time option" where
  "parse_rfc3339 s =
    (if length s < 19 \<or> s ! 4 \<noteq> CHR ''-'' \<or> s ! 7 \<noteq> CHR ''-'' \<or> s ! 10 \<noteq> CHR ''T'' \<or> s ! 13 \<noteq> CHR '':'' \<or> s ! 16 \<noteq> CHR '':''
     then None
     else
       let (nanoseconds, zone) = parse_nanoseconds (drop 19 s)
       in case (parse_date s, parse_clock s, parse_zone zone) of
            (Some days, Some seconds, Some offset) \<Rightarrow> Some (24 * Hour * days + Second * (seconds - offset) + nanoseconds)
          | _ \<Rightarrow> None)"

section \<open>Reading a text back\<close>

lemma date_days_year_yday:
  assumes "year_yday d = (y, yd)" and "month_day (leap_year y) yd = (m, md)"
  shows "date_days y m md = d"
proof -
  obtain q a b c where cyc: "year_cycles q a b c y yd d" and yd: "0 \<le> yd" "yd < (if leap_year y then 366 else 365)"
    using year_yday_cycles [OF assms(1)] by metis
  then have bounds: "0 \<le> a" "a \<le> 3" "0 \<le> b" "b \<le> 24" "0 \<le> c" "c \<le> 3"
    and y: "y - 1 = 400 * q + 100 * a + 4 * b + c" and d: "d = 146097 * q + 36524 * a + 1461 * b + 365 * c + yd"
    by (simp_all add: year_cycles_def)
  have "(y - 1) div 4 = 100 * q + 25 * a + b" using y bounds by (intro int_div_pos_eq [where r = c]) auto
  moreover have "(y - 1) div 100 = 4 * q + a" using y bounds by (intro int_div_pos_eq [where r = "4 * b + c"]) auto
  moreover have "(y - 1) div 400 = q" using y bounds by (intro int_div_pos_eq [where r = "100 * a + 4 * b + c"]) auto
  ultimately show ?thesis
    using yday_of_month_day [OF yd] assms(2) y d by (simp add: date_days_def)
qed

lemma month_day_in_month:
  assumes "0 \<le> yd" and "yd < (if leap then 366 else 365)"
  shows "snd (month_day leap yd) \<le> (if fst (month_day leap yd) = 2 \<and> leap then 29
    else days_before ! nat (fst (month_day leap yd)) - days_before ! nat (fst (month_day leap yd) - 1))"
proof -
  let ?ok = "\<lambda>leap y. snd (month_day leap y) \<le> (if fst (month_day leap y) = 2 \<and> leap then 29
    else days_before ! nat (fst (month_day leap y)) - days_before ! nat (fst (month_day leap y) - 1))"
  have yes: "list_all (?ok True) [0..365]" by code_simp
  have no: "list_all (?ok False) [0..364]" by code_simp
  show ?thesis
  proof (cases leap)
    case True
    with assms have "yd \<in> set [0..365]" by simp
    with yes have "?ok True yd" unfolding list_all_iff by (rule bspec)
    with True show ?thesis by (simp split: if_split_asm)
  next
    case False
    with assms have "yd \<in> set [0..364]" by simp
    with no have "?ok False yd" unfolding list_all_iff by (rule bspec)
    with False show ?thesis by (simp split: if_split_asm)
  qed
qed

lemma parse_uint_pad:
  assumes "n < 10 ^ w" and "lower \<le> int n" and "int n \<le> upper"
  shows "parse_uint (pad_nat w n) lower upper = Some (int n)"
  using assms pad_nat_digits [of w n] read_pad_nat [OF assms(1)] by (simp add: parse_uint_def list_all_iff)

lemma field_append:
  "length a = i \<Longrightarrow> length b = j - i \<Longrightarrow> i \<le> j \<Longrightarrow> field i j (a @ b @ r) = b"
  by (simp add: field_def)

lemma parse_date_text:
  assumes "0 \<le> fst (year_yday d)" and "fst (year_yday d) < 10000"
  shows "length (date_text d) = 10" and "date_text d ! 4 = CHR ''-''" and "date_text d ! 7 = CHR ''-''"
    and "parse_date (date_text d @ r) = Some d"
proof -
  obtain y yd where yd: "year_yday d = (y, yd)" by fastforce
  obtain m md where md: "month_day (leap_year y) yd = (m, md)" by fastforce
  from yd have bounds: "0 \<le> yd" "yd < (if leap_year y then 366 else 365)" by (metis year_yday_cycles)+
  from yday_of_month_day [OF this] md have m: "1 \<le> m" "m \<le> 12" "1 \<le> md" "md \<le> 31" by auto
  have days: "md \<le> days_in y m" using month_day_in_month [OF bounds, unfolded md] by (auto simp: days_in_def split: if_split_asm)
  let ?y = "pad_nat 4 (nat y)" and ?m = "pad_nat 2 (nat m)" and ?d = "pad_nat 2 (nat md)"
  have shape: "date_text d = ?y @ CHR ''-'' # ?m @ CHR ''-'' # ?d" by (simp add: date_text_def yd md)
  then show "length (date_text d) = 10" by simp
  show "date_text d ! 4 = CHR ''-''" and "date_text d ! 7 = CHR ''-''" unfolding shape by (simp_all add: nth_append)
  have "field 0 4 (date_text d @ r) = ?y" "field 5 7 (date_text d @ r) = ?m" "field 8 10 (date_text d @ r) = ?d"
    using field_append [of "[]" 0 ?y 4 "CHR ''-'' # ?m @ CHR ''-'' # ?d @ r"]
      field_append [of "?y @ ''-''" 5 ?m 7 "CHR ''-'' # ?d @ r"]
      field_append [of "?y @ CHR ''-'' # ?m @ ''-''" 8 ?d 10 r] by (simp_all add: shape)
  moreover have "parse_uint ?y 0 9999 = Some y" "parse_uint ?m 1 12 = Some m" "parse_uint ?d 1 (days_in y m) = Some md"
    using parse_uint_pad [of "nat y" 4 0 9999] parse_uint_pad [of "nat m" 2 1 12] parse_uint_pad [of "nat md" 2 1 "days_in y m"]
      assms yd m days by auto
  ultimately show "parse_date (date_text d @ r) = Some d"
    using date_days_year_yday [OF yd md] by (simp add: parse_date_def)
qed

lemma parse_clock_text:
  assumes "n < 86400" and "length a = 11"
  shows "length (clock_text n) = 8" and "clock_text n ! 2 = CHR '':''" and "clock_text n ! 5 = CHR '':''"
    and "parse_clock (a @ clock_text n @ r) = Some (int n)"
proof -
  let ?h = "pad_nat 2 (n div 3600)" and ?m = "pad_nat 2 (n div 60 mod 60)" and ?s = "pad_nat 2 (n mod 60)"
  have shape: "clock_text n = ?h @ CHR '':'' # ?m @ CHR '':'' # ?s" by (simp add: clock_text_def)
  then show "length (clock_text n) = 8" by simp
  show "clock_text n ! 2 = CHR '':''" and "clock_text n ! 5 = CHR '':''" unfolding shape by (simp_all add: nth_append)
  have "n div 3600 < 24" using assms(1) by (simp add: less_mult_imp_div_less)
  then have "parse_uint ?h 0 23 = Some (int (n div 3600))" by (intro parse_uint_pad) simp_all
  moreover have "parse_uint (pad_nat 2 (k mod 60)) 0 59 = Some (int (k mod 60))" for k
  proof (rule parse_uint_pad)
    have "k mod 60 < 60" by simp
    then show "k mod 60 < 10 ^ 2" by simp
    from \<open>k mod 60 < 60\<close> show "int (k mod 60) \<le> 59" by linarith
  qed simp
  then have "parse_uint ?m 0 59 = Some (int (n div 60 mod 60))" "parse_uint ?s 0 59 = Some (int (n mod 60))"
    by blast+
  moreover have "field 11 13 (a @ clock_text n @ r) = ?h" "field 14 16 (a @ clock_text n @ r) = ?m" "field 17 19 (a @ clock_text n @ r) = ?s"
    using field_append [of a 11 ?h 13 "CHR '':'' # ?m @ CHR '':'' # ?s @ r"]
      field_append [of "a @ ?h @ '':''" 14 ?m 16 "CHR '':'' # ?s @ r"]
      field_append [of "a @ ?h @ CHR '':'' # ?m @ '':''" 17 ?s 19 r] assms(2) by (simp_all add: shape)
  moreover have "3600 * int (n div 3600) + 60 * int (n div 60 mod 60) + int (n mod 60) = int n"
    using arg_cong [OF hms [of n], of int] by linarith
  ultimately show "parse_clock (a @ clock_text n @ r) = Some (int n)" by (simp add: parse_clock_def)
qed

lemma read_nat_append_zeros: "read_nat (s @ replicate k CHR ''0'') = read_nat s * 10 ^ k"
proof (induction k)
  case (Suc k)
  have "replicate (Suc k) CHR ''0'' = replicate k CHR ''0'' @ [CHR ''0'']" by (simp add: replicate_append_same)
  then have "read_nat (s @ replicate (Suc k) CHR ''0'') = 10 * read_nat (s @ replicate k CHR ''0'') + digit_value CHR ''0''"
    by (metis append_assoc read_nat_snoc)
  with Suc show ?case by (simp add: digit_value_def)
qed simp

lemma parse_nanosecond_text:
  assumes "n < 10 ^ 9"
  shows "parse_nanoseconds (nanosecond_text n @ ''Z'') = (int n, ''Z'')"
proof (cases "n = 0")
  case True
  then show ?thesis by (simp add: nanosecond_text_def parse_nanoseconds_def)
next
  case False
  define t where "t = rev (dropWhile (\<lambda>c. c = CHR ''0'') (rev (pad_nat 9 n)))"
  have split: "pad_nat 9 n = t @ rev (takeWhile (\<lambda>c. c = CHR ''0'') (rev (pad_nat 9 n)))"
    unfolding t_def by (metis rev_append rev_rev_ident takeWhile_dropWhile_id)
  moreover have zeros: "rev (takeWhile (\<lambda>c. c = CHR ''0'') (rev (pad_nat 9 n))) = replicate (9 - length t) CHR ''0''"
  proof (rule replicate_eqI)
    show "length (rev (takeWhile (\<lambda>c. c = CHR ''0'') (rev (pad_nat 9 n)))) = 9 - length t"
      using arg_cong [OF split, of length] by simp
  qed (auto dest: set_takeWhileD)
  ultimately have pad: "pad_nat 9 n = t @ replicate (9 - length t) CHR ''0''" by simp
  then have amount: "n = read_nat t * 10 ^ (9 - length t)" using read_pad_nat [OF assms] read_nat_append_zeros by metis
  have digits: "\<forall>c\<in>set t. is_digit c" using pad pad_nat_digits [of 9 n] by auto
  have "length t \<le> 9" using arg_cong [OF pad, of length] by simp
  moreover have "t \<noteq> []" using amount False by (auto simp: read_nat_def)
  moreover have "takeWhile is_digit (t @ ''Z'') = t" "dropWhile is_digit (t @ ''Z'') = ''Z''"
    using digits by (simp_all add: takeWhile_append2 dropWhile_append2 is_digit_def)
  moreover have "nanosecond_text n @ ''Z'' = CHR ''.'' # t @ ''Z''" using False by (simp add: nanosecond_text_def t_def)
  ultimately show ?thesis using arg_cong [OF amount, of int] by (simp add: parse_nanoseconds_def)
qed

theorem parse_rfc3339_nano:
  assumes "0 \<le> year_of t" and "year_of t < 10000"
  shows "parse_rfc3339 (rfc3339_nano t) = Some t"
proof -
  let ?s = "nat (t mod (24 * Hour) div Second)" and ?n = "nat (t mod Second)"
  let ?d = "date_text (day_number t)" and ?c = "clock_text ?s" and ?f = "nanosecond_text ?n @ ''Z''"
  have s: "?s < 86400" and n: "?n < 10 ^ 9" by (simp_all add: nat_less_iff)
  have shape: "rfc3339_nano t = ?d @ CHR ''T'' # ?c @ ?f" by (simp add: rfc3339_nano_def)
  note D = parse_date_text [OF assms [unfolded year_of_def]]
  have "length (?d @ ''T'') = 11" using D(1) by simp
  note C = parse_clock_text(1-3) [OF s this] parse_clock_text(4) [OF s this, of ?f]
  have drop: "drop 19 (rfc3339_nano t) = ?f" unfolding shape using D(1) C(1) by simp
  have "rfc3339_nano t ! 4 = CHR ''-''" "rfc3339_nano t ! 7 = CHR ''-''" "rfc3339_nano t ! 10 = CHR ''T''"
    "rfc3339_nano t ! 13 = CHR '':''" "rfc3339_nano t ! 16 = CHR '':''" "19 \<le> length (rfc3339_nano t)"
    unfolding shape using D(1-3) C(1-3) by (simp_all add: nth_append nth_Cons')
  moreover have "parse_date (rfc3339_nano t) = Some (day_number t)" unfolding shape by (rule D(4))
  moreover have "parse_clock (rfc3339_nano t) = Some (int ?s)" unfolding shape using C(4) by simp
  moreover have "parse_nanoseconds ?f = (int ?n, ''Z'')" by (rule parse_nanosecond_text [OF n])
  moreover have "24 * Hour * day_number t + Second * int ?s + int ?n = t"
  proof -
    have "0 \<le> t mod (24 * Hour) div Second" "0 \<le> t mod Second" by (simp_all add: pos_imp_zdiv_nonneg_iff)
    moreover have "t mod (24 * Hour) mod Second = t mod Second" by (rule mod_mod_cancel) simp
    then have "Second * (t mod (24 * Hour) div Second) + t mod Second = t mod (24 * Hour)" by (metis mult_div_mod_eq)
    moreover have "24 * Hour * day_number t + t mod (24 * Hour) = t" unfolding day_number_def by (rule mult_div_mod_eq)
    ultimately show ?thesis by simp
  qed
  ultimately show ?thesis by (simp add: parse_rfc3339_def drop parse_zone_def)
qed

end
