(* ===== verification/Pagination.thy ===== *)
theory Pagination
  imports Json_Parse Base64 Rfc3339_Parse Sort_Slice
begin

text \<open>
  \<^verbatim>\<open>internal/domain/pagination.go\<close>: requests for a page, the opaque cursor between two
  pages and the page itself. A cursor travels as unpadded base64 of a JSON object; decoding an object
  follows \<^verbatim>\<open>encoding/json\<close>: a key matches a field without regard to case, the last
  of two equal keys counts, \<^verbatim>\<open>null\<close> leaves a field alone and unknown keys are ignored.

  The locale \<open>keyset_listing\<close> is the contract between a listing that pages by a cursor and the
  client that follows the cursors; the client's lemma is that it sees every row once and in order.
\<close>

definition DefaultPageSize :: int where "DefaultPageSize = 50"
definition MaximumPageSize :: int where "MaximumPageSize = 200"

record PageRequest =
  pr_Limit :: int
  pr_Cursor :: string

record Cursor =
  cur_SortTime :: Time
  cur_ID :: string

record 'a Page =
  pg_Items :: "'a list"
  pg_NextCursor :: string
  pg_HasMore :: bool

section \<open>Cursors\<close>

definition cursor_json :: "Cursor \<Rightarrow> json option" where
  "cursor_json c =
    map_option (\<lambda>t. JObj [(''sort_time'', t), (''id'', JStr (cur_ID c))]) (json_time (cur_SortTime c))"

definition EncodeCursor :: "Cursor \<Rightarrow> string result" where
  "EncodeCursor c =
    (if cur_SortTime c = 0 \<or> trim_space (cur_ID c) = [] then Inl (errorf ErrInvalid ''cursor'')
     else (case cursor_json c of
         None \<Rightarrow> Inl (Wrapped ''encode cursor: '' (Plain ''json: error calling MarshalJSON for type time.Time: Time.MarshalJSON: year outside of range [0,9999]'') [])
       | Some payload \<Rightarrow> Inr (base64_encode (json_encode payload))))"

text \<open>
  The folding of key names, over bytes: letters to upper case, and the long s of two bytes to the
  letter it folds with. (The other such character folds with k, which no key here has.)
\<close>

fun fold_key :: "string \<Rightarrow> string" where
  "fold_key (c # d # r) =
    (if c = CHR 0xC5 \<and> d = CHR 0xBF then CHR ''S'' # fold_key r else upper_char c # fold_key (d # r))"
| "fold_key s = map upper_char s"

definition cursor_field :: "string \<times> jvalue \<Rightarrow> Cursor \<Rightarrow> Cursor option" where
  "cursor_field f c =
    (if fold_key (fst f) = ''SORT_TIME''
     then (case snd f of
         VNull \<Rightarrow> Some c
       | VStr raw s \<Rightarrow> map_option (\<lambda>t. c\<lparr>cur_SortTime := t\<rparr>) (parse_rfc3339 raw)
       | _ \<Rightarrow> None)
     else if fold_key (fst f) = ''ID''
     then (case snd f of
         VNull \<Rightarrow> Some c
       | VStr raw s \<Rightarrow> Some (c\<lparr>cur_ID := s\<rparr>)
       | _ \<Rightarrow> None)
     else Some c)"

definition cursor_of_json :: "jvalue \<Rightarrow> Cursor option" where
  "cursor_of_json v =
    (let zero = \<lparr>cur_SortTime = 0, cur_ID = []\<rparr> in
     case v of
       VNull \<Rightarrow> Some zero
     | VObj fs \<Rightarrow> foldl (\<lambda>c f. Option.bind c (cursor_field f)) (Some zero) fs
     | _ \<Rightarrow> None)"

definition DecodeCursor :: "string \<Rightarrow> Cursor result" where
  "DecodeCursor encoded =
    (case base64_decode (trim_space encoded) of
       None \<Rightarrow> Inl (errorf ErrInvalid ''cursor encoding'')
     | Some payload \<Rightarrow>
         (case Option.bind (json_document payload) cursor_of_json of
            None \<Rightarrow> Inl (errorf ErrInvalid ''cursor payload'')
          | Some c \<Rightarrow>
              if cur_SortTime c = 0 \<or> trim_space (cur_ID c) = [] then Inl (errorf ErrInvalid ''cursor fields'')
              else Inr c))"

section \<open>Pages\<close>

definition NormalizePage :: "PageRequest \<Rightarrow> PageRequest result" where
  "NormalizePage request =
    (if pr_Limit request < 0 \<or> MaximumPageSize < pr_Limit request then Inl (errorf ErrInvalid ''page limit'')
     else
       let r = \<lparr>pr_Limit = (if pr_Limit request = 0 then DefaultPageSize else pr_Limit request),
                pr_Cursor = trim_space (pr_Cursor request)\<rparr>
       in if pr_Cursor r \<noteq> [] then bindR (DecodeCursor (pr_Cursor r)) (\<lambda>_. Inr r) else Inr r)"

text \<open>The callback is \<open>None\<close> where the code is given a nil function.\<close>

definition BuildPage :: "'a list \<Rightarrow> int \<Rightarrow> ('a \<Rightarrow> Cursor) option \<Rightarrow> 'a Page result" where
  "BuildPage items limit cursorFor =
    (if limit \<le> 0 \<or> cursorFor = None then Inl (errorf ErrInvalid ''page builder'')
     else
       let hasMore = limit < int (length items);
           kept = (if hasMore then take (nat limit) items else items)
       in if hasMore \<and> kept \<noteq> []
          then bindR (EncodeCursor (the cursorFor (last kept))) (\<lambda>next_cursor.
            Inr \<lparr>pg_Items = kept, pg_NextCursor = next_cursor, pg_HasMore = hasMore\<rparr>)
          else Inr \<lparr>pg_Items = kept, pg_NextCursor = [], pg_HasMore = hasMore\<rparr>)"

section \<open>A cursor is read back\<close>

definition plain_char :: "char \<Rightarrow> bool" where
  "plain_char c \<longleftrightarrow> is_digit c \<or> c \<in> {CHR ''-'', CHR '':'', CHR ''T'', CHR ''.'', CHR ''Z''}"

lemma escape_plain: "plain_char c \<Longrightarrow> escape_char c = [c]"
proof (cases "is_digit c")
  case True
  have "\<not> c < CHR 0x20"
  proof
    assume "c < CHR 0x20"
    with True have "CHR ''0'' < (CHR 0x20 :: char)" unfolding is_digit_def by (blast intro: le_less_trans)
    then show False by simp
  qed
  moreover have "c \<notin> {CHR 0x22, CHR 0x5C, CHR 0x08, CHR 0x0C, CHR 0x0A, CHR 0x0D, CHR 0x09, CHR ''<'', CHR ''>'', CHR ''&''}"
  proof
    assume "c \<in> {CHR 0x22, CHR 0x5C, CHR 0x08, CHR 0x0C, CHR 0x0A, CHR 0x0D, CHR 0x09, CHR ''<'', CHR ''>'', CHR ''&''}"
    moreover have "list_all (\<lambda>d. \<not> is_digit d) [CHR 0x22, CHR 0x5C, CHR 0x08, CHR 0x0C, CHR 0x0A, CHR 0x0D, CHR 0x09, CHR ''<'', CHR ''>'', CHR ''&'']"
      by code_simp
    ultimately show False using True by (auto simp: list_all_iff)
  qed
  ultimately show ?thesis by (simp add: escape_char_def)
next
  case False
  have "list_all (\<lambda>d. escape_char d = [d]) [CHR ''-'', CHR '':'', CHR ''T'', CHR ''.'', CHR ''Z'']" by code_simp
  then show "escape_char c = [c]" if "plain_char c" using that False by (auto simp: plain_char_def list_all_iff)
qed

lemma plain_pad: "list_all plain_char (pad_nat w n)"
  using pad_nat_digits [of w n] by (auto simp: list_all_iff plain_char_def)

lemma plain_rfc3339: "list_all plain_char (rfc3339_nano t)"
proof -
  have "list_all plain_char (rev (dropWhile P (rev s)))" if "list_all plain_char s" for P s
    using that set_dropWhileD [of _ P "rev s"] by (auto simp: list_all_iff)
  then have "list_all plain_char (nanosecond_text n)" for n
    using plain_pad [of 9 n] by (simp add: nanosecond_text_def plain_char_def del: pad_nat.simps)
  moreover have "list_all plain_char (date_text d)" for d
    using plain_pad by (simp add: date_text_def plain_char_def split: prod.splits del: pad_nat.simps)
  moreover have "list_all plain_char (clock_text n)" for n
    using plain_pad by (simp add: clock_text_def plain_char_def del: pad_nat.simps)
  ultimately show ?thesis by (simp add: rfc3339_nano_def plain_char_def)
qed

lemma escape_rfc3339: "concat (map escape_char (rfc3339_nano t)) = rfc3339_nano t"
proof -
  have "concat (map escape_char s) = s" if "list_all plain_char s" for s
    using that by (induction s) (simp_all add: escape_plain)
  then show ?thesis using plain_rfc3339 by blast
qed

lemma fold_key_sort_time: "fold_key ''sort_time'' = ''SORT_TIME''" and fold_key_id: "fold_key ''id'' = ''ID''"
  by code_simp+

lemma cursor_of_json_embed:
  assumes "cursor_json c = Some v"
  shows "cursor_of_json (embed v) = Some c"
proof -
  have year: "0 \<le> year_of (cur_SortTime c)" "year_of (cur_SortTime c) < 10000"
    and v: "v = JObj [(''sort_time'', JStr (rfc3339_nano (cur_SortTime c))), (''id'', JStr (cur_ID c))]"
    using assms by (auto simp: cursor_json_def json_time_def split: if_splits)
  show ?thesis
    unfolding v cursor_of_json_def cursor_field_def
    by (simp add: fold_key_sort_time fold_key_id escape_rfc3339 parse_rfc3339_nano [OF year] del: fold_key.simps)
qed

lemma EncodeCursor_Inr:
  "EncodeCursor c = Inr s \<longleftrightarrow> cur_SortTime c \<noteq> 0 \<and> trim_space (cur_ID c) \<noteq> [] \<and>
    (\<exists>v. cursor_json c = Some v \<and> s = base64_encode (json_encode v))"
  by (auto simp: EncodeCursor_def split: option.splits)

lemma DecodeCursor_EncodeCursor:
  assumes "EncodeCursor c = Inr s"
  shows "DecodeCursor s = Inr c" and "trim_space s = s" and "s \<noteq> []"
proof -
  from assms obtain v where c: "cur_SortTime c \<noteq> 0" "trim_space (cur_ID c) \<noteq> []"
    and v: "cursor_json c = Some v" and s: "s = base64_encode (json_encode v)"
    unfolding EncodeCursor_Inr by blast
  show trim: "trim_space s = s" unfolding s by (rule trim_space_self) (rule base64_no_space)
  show "DecodeCursor s = Inr c"
    unfolding DecodeCursor_def trim unfolding s base64_decode_encode
    by (simp add: json_document_encode cursor_of_json_embed [OF v] c)
  then show "s \<noteq> []" by (auto simp: DecodeCursor_def base64_decode_def json_document_def json_value_def)
qed



section \<open>Listings that page by a cursor\<close>

definition cursor_before :: "Cursor \<Rightarrow> Cursor \<Rightarrow> bool" where
  "cursor_before = lex2 cur_SortTime cur_ID"

lemma cursor_before_irrefl [simp]: "\<not> cursor_before c c"
  and cursor_before_asym: "cursor_before c d \<Longrightarrow> \<not> cursor_before d c"
  by (auto simp: cursor_before_def lex2_def split: if_splits)

text \<open>
  The condition that a page puts on the keys of its rows: to lie after the cursor, if there is one, as the
  database settles the cursor's instant.
\<close>

definition resume :: "(Cursor \<Rightarrow> Cursor) \<Rightarrow> string \<Rightarrow> (Cursor \<Rightarrow> bool) result" where
  "resume settle s = (if s \<noteq> [] then bindR (DecodeCursor s) (\<lambda>c. Inr (cursor_before (settle c))) else Inr (\<lambda>_. True))"

text \<open>
  A client that starts without a cursor and asks for the next page as long as there is one. The fuel
  bounds the number of pages.
\<close>

fun follow_cursors :: "(PageRequest \<Rightarrow> 'r Page result) \<Rightarrow> int \<Rightarrow> nat \<Rightarrow> string \<Rightarrow> 'r list result" where
  "follow_cursors list_page limit 0 cursor = Inl (Plain ''too many pages'')"
| "follow_cursors list_page limit (Suc n) cursor =
    bindR (list_page \<lparr>pr_Limit = limit, pr_Cursor = cursor\<rparr>) (\<lambda>page.
      if pg_HasMore page
      then bindR (follow_cursors list_page limit n (pg_NextCursor page)) (\<lambda>rest. Inr (pg_Items page @ rest))
      else Inr (pg_Items page))"

locale keyset_listing =
  fixes ok :: "'s \<Rightarrow> bool"
    and rows :: "'s \<Rightarrow> 'r list"
    and key :: "'r \<Rightarrow> Cursor"
    and settle :: "'s \<Rightarrow> Cursor \<Rightarrow> Cursor"
    and list_page :: "'s \<Rightarrow> PageRequest \<Rightarrow> 'r Page result"
  assumes increasing: "ok s \<Longrightarrow> sorted_wrt (\<lambda>x y. cursor_before (key x) (key y)) (rows s)"
    and encodable: "ok s \<Longrightarrow> r \<in> set (rows s) \<Longrightarrow> is_ok (EncodeCursor (key r))"
    and settled: "ok s \<Longrightarrow> r \<in> set (rows s) \<Longrightarrow> settle s (key r) = key r"
    and page: "ok s \<Longrightarrow> NormalizePage q = Inr n \<Longrightarrow>
      list_page s q = bindR (resume (settle s) (pr_Cursor n)) (\<lambda>after.
        BuildPage (take (nat (pr_Limit n + 1)) (filter (\<lambda>r. after (key r)) (rows s))) (pr_Limit n) (Some key))"
begin

lemma rows_after:
  assumes "ok s" and "rows s = xs @ ys" and "xs \<noteq> []"
  shows "filter (\<lambda>r. cursor_before (key (last xs)) (key r)) (rows s) = ys"
proof -
  obtain zs z where xs: "xs = zs @ [z]" using assms(3) by (cases xs rule: rev_cases) auto
  have "sorted_wrt (\<lambda>x y. cursor_before (key x) (key y)) (zs @ [z] @ ys)" using increasing [OF assms(1)] assms(2) xs by simp
  then have "\<forall>r\<in>set zs. \<not> cursor_before (key z) (key r)" and "\<forall>r\<in>set ys. cursor_before (key z) (key r)"
    by (auto simp: sorted_wrt_append dest: cursor_before_asym)
  then show ?thesis using assms(2) xs by simp
qed

lemma follow_suffix:
  assumes ok: "ok s" and limit: "0 \<le> limit" "limit \<le> MaximumPageSize"
  shows "rows s = xs @ ys \<Longrightarrow> length ys < fuel \<Longrightarrow>
    (if xs = [] then cursor = [] else EncodeCursor (key (last xs)) = Inr cursor) \<Longrightarrow>
    follow_cursors (list_page s) limit fuel cursor = Inr ys"
proof (induction fuel arbitrary: xs ys cursor)
  case (Suc fuel)
  define m where "m = nat (if limit = 0 then DefaultPageSize else limit)"
  have m: "0 < m" "int m = (if limit = 0 then DefaultPageSize else limit)" using limit by (auto simp: m_def DefaultPageSize_def)
  have "xs = [] \<and> cursor = [] \<or> DecodeCursor cursor = Inr (key (last xs)) \<and> cursor \<noteq> [] \<and> trim_space cursor = cursor \<and> xs \<noteq> []"
    using Suc.prems(3) DecodeCursor_EncodeCursor by (cases "xs = []") auto
  then have "NormalizePage \<lparr>pr_Limit = limit, pr_Cursor = cursor\<rparr> = Inr \<lparr>pr_Limit = int m, pr_Cursor = cursor\<rparr>"
    and "bindR (resume (settle s) cursor) (\<lambda>after. f (filter (\<lambda>r. after (key r)) (rows s))) = f ys" for f :: "'r list \<Rightarrow> 'r Page result"
    using limit m(2) rows_after [OF ok Suc.prems(1)] Suc.prems(1) settled [OF ok]
    by (auto simp: NormalizePage_def resume_def last_in_set)
  note norm = this(1) and after = this(2)
  have list: "list_page s \<lparr>pr_Limit = limit, pr_Cursor = cursor\<rparr> = BuildPage (take (Suc m) ys) (int m) (Some key)"
    using page [OF ok norm] after [of "\<lambda>rs. BuildPage (take (Suc m) rs) (int m) (Some key)"] by (simp add: nat_add_distrib)
  show ?case
  proof (cases "m < length ys")
    case False
    then show ?thesis using m(1) by (simp add: list BuildPage_def)
  next
    case True
    let ?kept = "take m ys"
    have kept: "?kept \<noteq> []" using True m(1) by auto
    then have "last ?kept \<in> set (rows s)" using Suc.prems(1) by (metis Un_iff in_set_takeD last_in_set set_append)
    then obtain c where c: "EncodeCursor (key (last ?kept)) = Inr c" using encodable [OF ok] by (auto simp: is_ok_iff)
    have "follow_cursors (list_page s) limit fuel c = Inr (drop m ys)"
    proof (rule Suc.IH [of "xs @ ?kept"])
      show "rows s = (xs @ ?kept) @ drop m ys" using Suc.prems(1) by simp
      show "length (drop m ys) < fuel" using Suc.prems(2) True m(1) by simp
      show "if xs @ ?kept = [] then c = [] else EncodeCursor (key (last (xs @ ?kept))) = Inr c" using kept c by simp
    qed
    then show ?thesis using True m(1) c kept by (simp add: list BuildPage_def)
  qed
qed simp

theorem pages_cover:
  "ok s \<Longrightarrow> 0 \<le> limit \<Longrightarrow> limit \<le> MaximumPageSize \<Longrightarrow> length (rows s) < fuel \<Longrightarrow>
    follow_cursors (list_page s) limit fuel [] = Inr (rows s)"
  by (rule follow_suffix [of s limit "[]" "rows s"]) simp_all

end

end
