(* ===== verification/Service_Ports.thy ===== *)
theory Service_Ports
  imports Store Idempotency Pagination
begin

text \<open>
  \<^verbatim>\<open>internal/service/ports.go\<close>: the commands and the repositories of the service layer. A
  repository is a record of operations on a world of its own type, a nil repository is \<open>None\<close>, and an
  operation returns a result and the next world. Also here: the JSON of a command and of a voyage, which
  the service hashes and stores, and the reading of a voyage from JSON.
\<close>

section \<open>Operations on a world\<close>

type_synonym ('w, 'a) io = "'w \<Rightarrow> 'a result \<times> 'w"

definition returnIO :: "'a result \<Rightarrow> ('w, 'a) io" where
  "returnIO r w = (r, w)"

definition bindIO :: "('w, 'a) io \<Rightarrow> ('a \<Rightarrow> ('w, 'b) io) \<Rightarrow> ('w, 'b) io" where
  "bindIO m f w = (case m w of (Inl e, w1) \<Rightarrow> (Inl e, w1) | (Inr x, w1) \<Rightarrow> f x w1)"

text \<open>A check that stops the operation with its error.\<close>

definition ensure :: "unit result \<Rightarrow> ('w, 'a) io \<Rightarrow> ('w, 'a) io" where
  "ensure r m w = (case r of Inl e \<Rightarrow> (Inl e, w) | Inr _ \<Rightarrow> m w)"

lemma ensure_simps [simp]: "ensure (Inl e) m w = (Inl e, w)" "ensure (Inr u) m w = m w"
  by (simp_all add: ensure_def)

lemma bindIO_Inr_iff: "bindIO m f w = (Inr y, w2) \<longleftrightarrow> (\<exists>x w1. m w = (Inr x, w1) \<and> f x w1 = (Inr y, w2))"
  by (auto simp: bindIO_def split: prod.splits sum.splits)

lemma ensure_Inr_iff: "ensure r m w = (Inr y, w2) \<longleftrightarrow> r = Inr () \<and> m w = (Inr y, w2)"
  by (cases r) auto

lemma returnIO_iff [simp]: "returnIO r w = (x, w1) \<longleftrightarrow> r = x \<and> w1 = w"
  by (auto simp: returnIO_def)

section \<open>Commands\<close>

type_synonym InspectionKind = string

record DeclareVoyageCommand =
  dc_ID :: string
  dc_VesselIMO :: string
  dc_VesselName :: string
  dc_OriginPort :: string
  dc_DestinationPort :: string
  dc_ETA :: Time
  dc_Items :: "CargoItem list"
  dc_IdempotencyKey :: string

record OpenInspectionCommand =
  oc_ID :: string
  oc_VoyageID :: string
  oc_Kind :: InspectionKind
  oc_OpenedAt :: Time

record PassInspectionCommand =
  pc_InspectionID :: string
  pc_Finding :: string
  pc_PassedAt :: Time

record ReservePassageCommand =
  rc_ID :: string
  rc_VoyageID :: string
  rc_Chamber :: Chamber
  rc_StartsAt :: Time
  rc_EndsAt :: Time
  rc_LengthM :: F64
  rc_BeamM :: F64
  rc_DraftM :: F64
  rc_RequestedAt :: Time

record MovePassageCommand =
  mc_ReservationID :: string
  mc_Next :: SlotStatus
  mc_OccurredAt :: Time
  mc_Note :: string

section \<open>Repositories\<close>

record 'w WorkflowRepository =
  wf_DeclareVoyage :: "User \<Rightarrow> DeclareVoyageCommand \<Rightarrow> ('w, Voyage) io"
  wf_OpenInspection :: "User \<Rightarrow> OpenInspectionCommand \<Rightarrow> ('w, Inspection \<times> Voyage) io"
  wf_PassInspectionAndRelease :: "User \<Rightarrow> PassInspectionCommand \<Rightarrow> ('w, Voyage) io"
  wf_ReservePassage :: "User \<Rightarrow> ReservePassageCommand \<Rightarrow> ('w, Reservation) io"
  wf_MovePassage :: "User \<Rightarrow> MovePassageCommand \<Rightarrow> ('w, Reservation) io"

record 'w IdempotencyRepository =
  ir_BeginIdempotent :: "Record \<Rightarrow> Duration \<Rightarrow> ('w, Decision \<times> Record) io"
  ir_CompleteIdempotent :: "Record \<Rightarrow> ('w, unit) io"
  ir_FailIdempotent :: "Record \<Rightarrow> ('w, unit) io"

type_synonym 'w Clock = "'w \<Rightarrow> Time \<times> 'w"

section \<open>JSON\<close>

definition json_time_error :: error where
  "json_time_error =
    Plain ''json: error calling MarshalJSON for type time.Time: Time.MarshalJSON: year outside of range [0,9999]''"

definition json_items :: "CargoItem list \<Rightarrow> json" where
  "json_items items = JArr (map (\<lambda>i. JObj [(''ContainerNo'', JStr (c_ContainerNo i)), (''HSCode'', JStr (c_HSCode i)),
    (''Description'', JStr (c_Description i)), (''GrossKg'', JInt (c_GrossKg i)), (''Packages'', JInt (c_Packages i)),
    (''Hazardous'', JBool (c_Hazardous i))]) items)"

text \<open>\<^verbatim>\<open>json.Marshal(command)\<close>, for an ETA in UTC and items that are not nil.\<close>

definition declare_json :: "DeclareVoyageCommand \<Rightarrow> json option" where
  "declare_json c =
    map_option (\<lambda>eta. JObj [(''ID'', JStr (dc_ID c)), (''VesselIMO'', JStr (dc_VesselIMO c)),
      (''VesselName'', JStr (dc_VesselName c)), (''OriginPort'', JStr (dc_OriginPort c)),
      (''DestinationPort'', JStr (dc_DestinationPort c)), (''ETA'', eta), (''Items'', json_items (dc_Items c)),
      (''IdempotencyKey'', JStr (dc_IdempotencyKey c))]) (json_time (dc_ETA c))"

definition json_pointer :: "Time option \<Rightarrow> json option" where
  "json_pointer t = (case t of None \<Rightarrow> Some JNull | Some u \<Rightarrow> json_time u)"

definition voyage_json :: "Voyage \<Rightarrow> json option" where
  "voyage_json v =
    (case (json_time (v_ETA v), json_pointer (v_DeclaredAt v), json_pointer (v_ClearedAt v)) of
       (Some eta, Some declared, Some cleared) \<Rightarrow>
         Some (JObj [(''ID'', JStr (v_ID v)), (''TenantID'', JStr (v_TenantID v)), (''VesselIMO'', JStr (v_VesselIMO v)),
           (''VesselName'', JStr (v_VesselName v)), (''OriginPort'', JStr (v_OriginPort v)),
           (''DestinationPort'', JStr (v_DestinationPort v)), (''ETA'', eta), (''Status'', JStr (v_Status v)),
           (''ManifestHash'', JStr (v_ManifestHash v)), (''DeclaredAt'', declared), (''ClearedAt'', cleared),
           (''Version'', JInt (v_Version v))])
     | _ \<Rightarrow> None)"

text \<open>Reading a member into a field of each type; \<^verbatim>\<open>null\<close> leaves a field alone.\<close>

definition read_string :: "jvalue \<Rightarrow> string \<Rightarrow> string option" where
  "read_string v old = (case v of VNull \<Rightarrow> Some old | VStr raw s \<Rightarrow> Some s | _ \<Rightarrow> None)"

definition read_time :: "jvalue \<Rightarrow> Time \<Rightarrow> Time option" where
  "read_time v old = (case v of VNull \<Rightarrow> Some old | VStr raw s \<Rightarrow> parse_rfc3339 raw | _ \<Rightarrow> None)"

definition read_pointer :: "jvalue \<Rightarrow> Time option option" where
  "read_pointer v = (case v of VNull \<Rightarrow> Some None | VStr raw s \<Rightarrow> map_option Some (parse_rfc3339 raw) | _ \<Rightarrow> None)"

definition parse_int64 :: "string \<Rightarrow> int option" where
  "parse_int64 s =
    (let digits = (if s \<noteq> [] \<and> hd s = CHR ''-'' then tl s else s);
         n = (if s \<noteq> [] \<and> hd s = CHR ''-'' then - int (read_nat digits) else int (read_nat digits))
     in if digits \<noteq> [] \<and> list_all is_digit digits \<and> in_int64 n then Some n else None)"

definition read_int64 :: "jvalue \<Rightarrow> int \<Rightarrow> int option" where
  "read_int64 v old = (case v of VNull \<Rightarrow> Some old | VNum s \<Rightarrow> parse_int64 s | _ \<Rightarrow> None)"

definition voyage_field :: "string \<times> jvalue \<Rightarrow> Voyage \<Rightarrow> Voyage option" where
  "voyage_field f v =
    (let k = fold_key (fst f); x = snd f in
     if k = ''ID'' then map_option (\<lambda>s. v\<lparr>v_ID := s\<rparr>) (read_string x (v_ID v))
     else if k = ''TENANTID'' then map_option (\<lambda>s. v\<lparr>v_TenantID := s\<rparr>) (read_string x (v_TenantID v))
     else if k = ''VESSELIMO'' then map_option (\<lambda>s. v\<lparr>v_VesselIMO := s\<rparr>) (read_string x (v_VesselIMO v))
     else if k = ''VESSELNAME'' then map_option (\<lambda>s. v\<lparr>v_VesselName := s\<rparr>) (read_string x (v_VesselName v))
     else if k = ''ORIGINPORT'' then map_option (\<lambda>s. v\<lparr>v_OriginPort := s\<rparr>) (read_string x (v_OriginPort v))
     else if k = ''DESTINATIONPORT'' then map_option (\<lambda>s. v\<lparr>v_DestinationPort := s\<rparr>) (read_string x (v_DestinationPort v))
     else if k = ''ETA'' then map_option (\<lambda>t. v\<lparr>v_ETA := t\<rparr>) (read_time x (v_ETA v))
     else if k = ''STATUS'' then map_option (\<lambda>s. v\<lparr>v_Status := s\<rparr>) (read_string x (v_Status v))
     else if k = ''MANIFESTHASH'' then map_option (\<lambda>s. v\<lparr>v_ManifestHash := s\<rparr>) (read_string x (v_ManifestHash v))
     else if k = ''DECLAREDAT'' then map_option (\<lambda>t. v\<lparr>v_DeclaredAt := t\<rparr>) (read_pointer x)
     else if k = ''CLEAREDAT'' then map_option (\<lambda>t. v\<lparr>v_ClearedAt := t\<rparr>) (read_pointer x)
     else if k = ''VERSION'' then map_option (\<lambda>n. v\<lparr>v_Version := n\<rparr>) (read_int64 x (v_Version v))
     else Some v)"

definition zero_voyage :: Voyage where
  "zero_voyage = \<lparr>v_ID = [], v_TenantID = [], v_VesselIMO = [], v_VesselName = [], v_OriginPort = [], v_DestinationPort = [],
    v_ETA = 0, v_Status = [], v_ManifestHash = [], v_DeclaredAt = None, v_ClearedAt = None, v_Version = 0\<rparr>"

definition voyage_of_json :: "jvalue \<Rightarrow> Voyage option" where
  "voyage_of_json v =
    (case v of
       VNull \<Rightarrow> Some zero_voyage
     | VObj fs \<Rightarrow> foldl (\<lambda>u f. Option.bind u (voyage_field f)) (Some zero_voyage) fs
     | _ \<Rightarrow> None)"

section \<open>A voyage is read back\<close>

lemma parse_int64_dec_int: "in_int64 i \<Longrightarrow> parse_int64 (dec_int i) = Some i"
proof (cases "i < 0")
  case True
  assume "in_int64 i"
  with True show ?thesis
    using dec_nat_digits [of "nat (- i)"] by (simp add: parse_int64_def dec_int_def list_all_iff)
next
  case False
  assume "in_int64 i"
  moreover have "hd (dec_nat (nat i)) \<noteq> CHR ''-''" using dec_nat_hd_digit [of "nat i"] by auto
  ultimately show ?thesis
    using False dec_nat_digits [of "nat i"] by (simp add: parse_int64_def dec_int_def list_all_iff)
qed

lemma read_time_json:
  assumes "json_time t = Some j"
  shows "read_time (embed j) old = Some t" and "read_pointer (embed j) = Some (Some t)"
proof -
  have year: "0 \<le> year_of t" "year_of t < 10000" and j: "j = JStr (rfc3339_nano t)"
    using assms by (auto simp: json_time_def split: if_splits)
  show "read_time (embed j) old = Some t" and "read_pointer (embed j) = Some (Some t)"
    by (simp_all add: j read_time_def read_pointer_def escape_rfc3339 parse_rfc3339_nano [OF year])
qed

lemma read_pointer_json: "json_pointer t = Some j \<Longrightarrow> read_pointer (embed j) = Some t"
  by (cases t) (auto simp: json_pointer_def read_time_json(2), simp add: read_pointer_def)

lemma read_embed [simp]: "read_string (embed (JStr s)) old = Some s" "in_int64 i \<Longrightarrow> read_int64 (embed (JInt i)) m = Some i"
  by (simp_all add: read_string_def read_int64_def parse_int64_dec_int)

lemma fold_voyage_keys [simp]:
  "fold_key ''ID'' = ''ID''" "fold_key ''TenantID'' = ''TENANTID''" "fold_key ''VesselIMO'' = ''VESSELIMO''"
  "fold_key ''VesselName'' = ''VESSELNAME''" "fold_key ''OriginPort'' = ''ORIGINPORT''"
  "fold_key ''DestinationPort'' = ''DESTINATIONPORT''" "fold_key ''ETA'' = ''ETA''" "fold_key ''Status'' = ''STATUS''"
  "fold_key ''ManifestHash'' = ''MANIFESTHASH''" "fold_key ''DeclaredAt'' = ''DECLAREDAT''"
  "fold_key ''ClearedAt'' = ''CLEAREDAT''" "fold_key ''Version'' = ''VERSION''"
  by code_simp+

lemma voyage_of_json_embed:
  assumes "voyage_json v = Some j" and "in_int64 (v_Version v)"
  shows "voyage_of_json (embed j) = Some v"
proof -
  obtain eta declared cleared where t: "json_time (v_ETA v) = Some eta" "json_pointer (v_DeclaredAt v) = Some declared"
      "json_pointer (v_ClearedAt v) = Some cleared"
    and j: "j = JObj [(''ID'', JStr (v_ID v)), (''TenantID'', JStr (v_TenantID v)), (''VesselIMO'', JStr (v_VesselIMO v)),
           (''VesselName'', JStr (v_VesselName v)), (''OriginPort'', JStr (v_OriginPort v)),
           (''DestinationPort'', JStr (v_DestinationPort v)), (''ETA'', eta), (''Status'', JStr (v_Status v)),
           (''ManifestHash'', JStr (v_ManifestHash v)), (''DeclaredAt'', declared), (''ClearedAt'', cleared),
           (''Version'', JInt (v_Version v))]"
    using assms(1) by (auto simp: voyage_json_def split: option.splits)
  show ?thesis
    unfolding j voyage_of_json_def voyage_field_def Let_def
    using assms(2)
    by (simp del: fold_key.simps embed.simps(3,4) add: read_time_json(1) [OF t(1)] read_pointer_json [OF t(2)]
      read_pointer_json [OF t(3)] zero_voyage_def)
qed

lemma voyage_document: "voyage_json v = Some j \<Longrightarrow> in_int64 (v_Version v) \<Longrightarrow>
    Option.bind (json_document (json_encode j)) voyage_of_json = Some v"
  by (simp add: json_document_encode voyage_of_json_embed)

end
