(* ===== verification/Coordinator.thy ===== *)
theory Coordinator
  imports Service_Ports
begin

text \<open>
  \<^verbatim>\<open>internal/service/coordinator.go\<close>: the commands of the workflow as the HTTP handlers call
  them, checked, authorised and, for a declaration with a key, made idempotent. The world and the
  repositories are parameters; \<^verbatim>\<open>ctx.Err()\<close> is an option. A \<^verbatim>\<open>Clock\<close> is an
  operation on the world, for two calls may differ.

  The locale \<open>declaration_service\<close> is what the coordinator relies on in its repositories when it
  answers a repeated declaration; its lemma is that the first answer is given again.
\<close>

record 'w Coordinator =
  co_Voyages :: bool
  co_Workflow :: "'w WorkflowRepository option"
  co_Idempotent :: "'w IdempotencyRepository option"
  co_Clock :: "'w Clock option"
  co_RecordTTL :: Duration
  co_StaleAfter :: Duration

text \<open>\<open>co_Voyages\<close> tells whether the repository of voyages is there; the coordinator calls no operation of it.
  The default for the lifetime of records is set on a copy of the coordinator and lost.\<close>

definition coordinator_validate :: "'w Coordinator \<Rightarrow> unit result" where
  "coordinator_validate co =
    refuse_if (\<not> co_Voyages co \<or> co_Workflow co = None \<or> co_Clock co = None)
      (errorf ErrInvalid ''coordinator dependencies'')"

definition clock_Now :: "'w Coordinator \<Rightarrow> ('w, Time) io" where
  "clock_Now co w = (let (t, w1) = the (co_Clock co) w in (Inr t, w1))"

definition record_ttl :: "'w Coordinator \<Rightarrow> Duration" where
  "record_ttl co = (if co_RecordTTL co \<le> 0 then 24 * Hour else co_RecordTTL co)"

section \<open>Declarations\<close>

definition decode_response :: "Record \<Rightarrow> Voyage result" where
  "decode_response r =
    (case Option.bind (json_document (k_ResponseBody r)) voyage_of_json of
       None \<Rightarrow> Inl (Wrapped ''decode idempotent response: '' (Plain ''json'') [])
     | Some v \<Rightarrow> Inr v)"

text \<open>The failure of the workflow is recorded if it can be; the error of the workflow is returned in any case.\<close>

definition record_failure :: "'w Coordinator \<Rightarrow> 'w IdempotencyRepository \<Rightarrow> Record \<Rightarrow> error \<Rightarrow> ('w, 'a) io" where
  "record_failure co idempotent held e =
    bindIO (clock_Now co) (\<lambda>now w.
      case Fail held (error_text e) now (k_Version held) of
        Inl _ \<Rightarrow> (Inl e, w)
      | Inr failed \<Rightarrow> (Inl e, snd (ir_FailIdempotent idempotent failed w)))"

definition record_success :: "'w Coordinator \<Rightarrow> 'w IdempotencyRepository \<Rightarrow> Record \<Rightarrow> Voyage \<Rightarrow> ('w, Voyage) io" where
  "record_success co idempotent held voyage =
    (case voyage_json voyage of
       None \<Rightarrow> returnIO (Inl (Wrapped ''encode declaration response: '' json_time_error []))
     | Some j \<Rightarrow>
         bindIO (clock_Now co) (\<lambda>now.
         bindIO (returnIO (Complete held 201 (json_encode j) now (k_Version held))) (\<lambda>completed.
         bindIO (ir_CompleteIdempotent idempotent completed) (\<lambda>_.
         returnIO (Inr voyage)))))"

definition declare_started ::
    "'w Coordinator \<Rightarrow> 'w WorkflowRepository \<Rightarrow> 'w IdempotencyRepository \<Rightarrow> User \<Rightarrow> DeclareVoyageCommand \<Rightarrow> Record \<Rightarrow> ('w, Voyage) io" where
  "declare_started co workflow idempotent actor command held w =
    (case wf_DeclareVoyage workflow actor command w of
       (Inl e, w1) \<Rightarrow> record_failure co idempotent held e w1
     | (Inr voyage, w1) \<Rightarrow> record_success co idempotent held voyage w1)"

definition declaration_record :: "User \<Rightarrow> DeclareVoyageCommand \<Rightarrow> string \<Rightarrow> Time \<Rightarrow> Duration \<Rightarrow> Record result" where
  "declaration_record actor command payload now ttl =
    NewRecord (u_TenantID actor) (dc_IdempotencyKey command) ''voyage.declare''
      (Fingerprint ''POST'' ''/v1/voyages'' payload) now ttl"

text \<open>The switch on the decision.\<close>

definition answer_decision ::
    "'w Coordinator \<Rightarrow> 'w WorkflowRepository \<Rightarrow> 'w IdempotencyRepository \<Rightarrow> User \<Rightarrow> DeclareVoyageCommand \<Rightarrow> Decision \<times> Record \<Rightarrow>
     ('w, Voyage) io" where
  "answer_decision co workflow idempotent actor command = (\<lambda>(decision, held).
    if decision = DecisionReplay then returnIO (decode_response held)
    else if decision = DecisionBusy then returnIO (Inl (errorf ErrConflict ''declaration is processing''))
    else if decision = DecisionConflict then returnIO (Inl (errorf ErrConflict ''idempotency key reused''))
    else if decision = DecisionStart then declare_started co workflow idempotent actor command held
    else returnIO (Inl (errorf ErrState ''idempotency decision'')))"

definition declare_once ::
    "'w Coordinator \<Rightarrow> 'w WorkflowRepository \<Rightarrow> 'w IdempotencyRepository \<Rightarrow> User \<Rightarrow> DeclareVoyageCommand \<Rightarrow> ('w, Voyage) io" where
  "declare_once co workflow idempotent actor command =
    (case declare_json command of
       None \<Rightarrow> returnIO (Inl (Wrapped ''encode declaration: '' json_time_error []))
     | Some j \<Rightarrow>
         bindIO (clock_Now co) (\<lambda>now.
         bindIO (returnIO (declaration_record actor command (json_encode j) now (record_ttl co))) (\<lambda>record1.
         bindIO (ir_BeginIdempotent idempotent record1 (co_StaleAfter co))
           (answer_decision co workflow idempotent actor command))))"

definition coordinator_Declare :: "'w Coordinator \<Rightarrow> error option \<Rightarrow> User \<Rightarrow> DeclareVoyageCommand \<Rightarrow> ('w, Voyage) io" where
  "coordinator_Declare co ctx_err actor command =
    ensure (coordinator_validate co)
    (ensure (Authorize actor (u_TenantID actor) PermissionVoyageDeclare)
    (ensure (case ctx_err of None \<Rightarrow> Inr () | Some e \<Rightarrow> Inl e)
    (if dc_ETA command = 0 \<or> dc_Items command = [] then returnIO (Inl (errorf ErrInvalid ''declaration command''))
     else if dc_IdempotencyKey command = [] \<or> co_Idempotent co = None
     then wf_DeclareVoyage (the (co_Workflow co)) actor command
     else declare_once co (the (co_Workflow co)) (the (co_Idempotent co)) actor command)))"

section \<open>The other commands\<close>

text \<open>An instant the caller left out is the clock's.\<close>

definition or_now :: "'w Coordinator \<Rightarrow> Time \<Rightarrow> ('w, Time) io" where
  "or_now co t = (if t = 0 then clock_Now co else returnIO (Inr t))"

definition coordinator_OpenInspection :: "'w Coordinator \<Rightarrow> User \<Rightarrow> OpenInspectionCommand \<Rightarrow> ('w, Inspection \<times> Voyage) io" where
  "coordinator_OpenInspection co actor command =
    ensure (coordinator_validate co)
    (ensure (Authorize actor (u_TenantID actor) PermissionInspectionManage)
    (if oc_ID command = [] \<or> oc_VoyageID command = [] \<or> oc_Kind command = []
     then returnIO (Inl (errorf ErrInvalid ''inspection command''))
     else bindIO (or_now co (oc_OpenedAt command)) (\<lambda>t.
       wf_OpenInspection (the (co_Workflow co)) actor (command\<lparr>oc_OpenedAt := t\<rparr>))))"

definition coordinator_PassInspection :: "'w Coordinator \<Rightarrow> User \<Rightarrow> PassInspectionCommand \<Rightarrow> ('w, Voyage) io" where
  "coordinator_PassInspection co actor command =
    ensure (coordinator_validate co)
    (ensure (Authorize actor (u_TenantID actor) PermissionInspectionManage)
    (if pc_InspectionID command = [] \<or> pc_Finding command = []
     then returnIO (Inl (errorf ErrInvalid ''inspection result''))
     else bindIO (or_now co (pc_PassedAt command)) (\<lambda>t.
       wf_PassInspectionAndRelease (the (co_Workflow co)) actor (command\<lparr>pc_PassedAt := t\<rparr>))))"

definition coordinator_Reserve :: "'w Coordinator \<Rightarrow> User \<Rightarrow> ReservePassageCommand \<Rightarrow> ('w, Reservation) io" where
  "coordinator_Reserve co actor command =
    ensure (coordinator_validate co)
    (ensure (Authorize actor (u_TenantID actor) PermissionPassageReserve)
    (if rc_ID command = [] \<or> rc_VoyageID command = [] \<or> ch_ID (rc_Chamber command) = []
     then returnIO (Inl (errorf ErrInvalid ''reservation command''))
     else bindIO (or_now co (rc_RequestedAt command)) (\<lambda>t.
       wf_ReservePassage (the (co_Workflow co)) actor (command\<lparr>rc_RequestedAt := t\<rparr>))))"

definition coordinator_Move :: "'w Coordinator \<Rightarrow> User \<Rightarrow> MovePassageCommand \<Rightarrow> ('w, Reservation) io" where
  "coordinator_Move co actor command =
    ensure (coordinator_validate co)
    (ensure (Authorize actor (u_TenantID actor) PermissionPassageOperate)
    (if mc_ReservationID command = [] \<or> mc_Next command = []
     then returnIO (Inl (errorf ErrInvalid ''passage movement command''))
     else bindIO (or_now co (mc_OccurredAt command)) (\<lambda>t.
       wf_MovePassage (the (co_Workflow co)) actor (command\<lparr>mc_OccurredAt := t\<rparr>))))"

section \<open>A declaration is answered once\<close>

text \<open>
  What the coordinator relies on: \<open>row\<close> is what the repository keeps under a tenant and a key. A request that
  may start leaves its hash there; a completed row keeps its hash, answers every request with that hash until it
  expires, and no other row is ever replayed; the clock and the workflow leave the rows alone.
\<close>

locale declaration_service =
  fixes good :: "'w \<Rightarrow> bool"
    and row :: "'w \<Rightarrow> string \<Rightarrow> string \<Rightarrow> Record option"
    and workflow :: "'w WorkflowRepository"
    and idempotent :: "'w IdempotencyRepository"
    and clock :: "'w Clock"
  assumes begin_started: "good w \<Longrightarrow> ir_BeginIdempotent idempotent c stale w = (Inr (DecisionStart, held), w1) \<Longrightarrow>
      good w1 \<and> k_TenantID held = k_TenantID c \<and> k_Key held = k_Key c \<and>
      (\<exists>q. row w1 (k_TenantID c) (k_Key c) = Some q \<and> k_RequestHash q = k_RequestHash c)"
    and begin_replays: "good w \<Longrightarrow> ir_BeginIdempotent idempotent c stale w = (Inr (DecisionReplay, held), w1) \<Longrightarrow>
      w1 = w \<and> row w (k_TenantID c) (k_Key c) = Some held \<and> k_Status held = StatusCompleted \<and> k_RequestHash held = k_RequestHash c"
    and completed_replays: "good w \<Longrightarrow> row w (k_TenantID c) (k_Key c) = Some q \<Longrightarrow> k_Status q = StatusCompleted \<Longrightarrow>
      k_RequestHash q = k_RequestHash c \<Longrightarrow> k_CreatedAt c < k_ExpiresAt q \<Longrightarrow>
      ir_BeginIdempotent idempotent c stale w = (Inr (DecisionReplay, q), w)"
    and complete_keeps: "good w \<Longrightarrow> row w (k_TenantID r) (k_Key r) = Some q \<Longrightarrow> ir_CompleteIdempotent idempotent r w = (Inr u, w1) \<Longrightarrow>
      good w1 \<and> (\<exists>p. row w1 (k_TenantID r) (k_Key r) = Some p \<and> k_Status p = StatusCompleted \<and>
        k_RequestHash p = k_RequestHash q \<and> k_ResponseBody p = k_ResponseBody r)"
    and clock_frame: "good w \<Longrightarrow> good (snd (clock w)) \<and> row (snd (clock w)) = row w"
    and declare_frame: "good w \<Longrightarrow> wf_DeclareVoyage workflow actor command w = (Inr v, w1) \<Longrightarrow>
      good w1 \<and> row w1 = row w \<and> in_int64 (v_Version v)"
begin

definition answered :: "User \<Rightarrow> DeclareVoyageCommand \<Rightarrow> Voyage \<Rightarrow> Record \<Rightarrow> 'w \<Rightarrow> bool" where
  "answered actor command v q w \<longleftrightarrow> good w \<and>
    row w (trim_space (u_TenantID actor)) (trim_space (dc_IdempotencyKey command)) = Some q \<and> k_Status q = StatusCompleted \<and>
    (\<exists>j. declare_json command = Some j \<and> k_RequestHash q = trim_space (Fingerprint ''POST'' ''/v1/voyages'' (json_encode j))) \<and>
    decode_response q = Inr v"

lemma clock_Now_frame:
  assumes "co_Clock co = Some clock" and "good w" and "clock_Now co w = (Inr t, w1)"
  shows "good w1" and "row w1 = row w" and "w1 = snd (clock w)" and "t = fst (clock w)"
  using assms clock_frame [OF assms(2)] by (auto simp: clock_Now_def split_def Let_def)

lemma declaration_record_D:
  assumes "declaration_record actor command payload now ttl = Inr c"
  shows "k_TenantID c = trim_space (u_TenantID actor)" and "k_Key c = trim_space (dc_IdempotencyKey command)"
    and "k_RequestHash c = trim_space (Fingerprint ''POST'' ''/v1/voyages'' payload)" and "k_CreatedAt c = now"
  using assms by (auto simp: declaration_record_def NewRecord_def Let_def split: if_splits)

lemma record_success_answers:
  assumes "record_success co idempotent held voyage w = (Inr v, w1)" and "co_Clock co = Some clock" and "good w"
    and "row w (k_TenantID held) (k_Key held) = Some q" and "in_int64 (v_Version voyage)"
  shows "v = voyage \<and> good w1 \<and> (\<exists>p. row w1 (k_TenantID held) (k_Key held) = Some p \<and> k_Status p = StatusCompleted \<and>
    k_RequestHash p = k_RequestHash q \<and> decode_response p = Inr v)"
proof -
  from assms(1) obtain j now w2 completed where j: "voyage_json voyage = Some j" and now: "clock_Now co w = (Inr now, w2)"
    and c: "Complete held 201 (json_encode j) now (k_Version held) = Inr completed"
    and compl: "ir_CompleteIdempotent idempotent completed w2 = (Inr (), w1)" and v: "v = voyage"
    by (auto simp: record_success_def bindIO_Inr_iff split: option.splits)
  note frame = clock_Now_frame [OF assms(2,3) now]
  have same: "k_TenantID completed = k_TenantID held" "k_Key completed = k_Key held" "k_ResponseBody completed = json_encode j"
    using c by (auto simp: Complete_def split: if_splits)
  then have "row w2 (k_TenantID completed) (k_Key completed) = Some q" using assms(4) frame(2) by simp
  from complete_keeps [OF frame(1) this compl] obtain p where "good w1" and
    p: "row w1 (k_TenantID held) (k_Key held) = Some p" "k_Status p = StatusCompleted" "k_RequestHash p = k_RequestHash q"
      "k_ResponseBody p = json_encode j" using same by auto
  then show ?thesis using v voyage_document [OF j assms(5)] by (auto simp: decode_response_def)
qed

lemma declare_once_answers:
  assumes "declare_once co workflow idempotent actor command w = (Inr v, w1)" and "co_Clock co = Some clock" and "good w"
  shows "\<exists>q. answered actor command v q w1"
proof -
  from assms(1) obtain j now w2 c decision held w3 where j: "declare_json command = Some j" and now: "clock_Now co w = (Inr now, w2)"
    and c: "declaration_record actor command (json_encode j) now (record_ttl co) = Inr c"
    and beg: "ir_BeginIdempotent idempotent c (co_StaleAfter co) w2 = (Inr (decision, held), w3)"
    and rest: "answer_decision co workflow idempotent actor command (decision, held) w3 = (Inr v, w1)"
    by (auto simp: declare_once_def bindIO_Inr_iff split: option.splits)
  note frame = clock_Now_frame [OF assms(2,3) now] and C = declaration_record_D [OF c]
  show ?thesis
  proof (cases "decision = DecisionReplay")
    case True
    from begin_replays [OF frame(1) beg [unfolded True]] rest True C j frame(1) have "answered actor command v held w1"
      by (auto simp: answered_def answer_decision_def)
    then show ?thesis ..
  next
    case False
    then have start: "decision = DecisionStart" and run: "declare_started co workflow idempotent actor command held w3 = (Inr v, w1)"
      using rest by (auto simp: answer_decision_def split: if_splits)
    from begin_started [OF frame(1) beg [unfolded start]] C obtain q where "good w3"
      and q: "row w3 (k_TenantID held) (k_Key held) = Some q" "k_RequestHash q = k_RequestHash c"
      and held: "k_TenantID held = k_TenantID c" "k_Key held = k_Key c" by auto
    from run obtain voyage w4 where wf: "wf_DeclareVoyage workflow actor command w3 = (Inr voyage, w4)"
      and rec: "record_success co idempotent held voyage w4 = (Inr v, w1)"
      by (auto simp: declare_started_def record_failure_def bindIO_def split: prod.splits sum.splits)
    from declare_frame [OF \<open>good w3\<close> wf] have w4: "good w4" "row w4 = row w3" "in_int64 (v_Version voyage)" by auto
    from record_success_answers [OF rec assms(2) w4(1) _ w4(3)] q w4(2) obtain p where "good w1"
      "row w1 (k_TenantID held) (k_Key held) = Some p" "k_Status p = StatusCompleted" "k_RequestHash p = k_RequestHash q"
      "decode_response p = Inr v" by auto
    then have "answered actor command v p w1" using C j held q(2) by (simp add: answered_def)
    then show ?thesis ..
  qed
qed

text \<open>
  The first answer is the answer: a declaration that succeeded leaves a row, and in every later world that still has
  that row, unexpired at the clock's instant, the same declaration gives the same voyage and changes nothing but
  the clock.
\<close>

lemma repeated_declaration:
  assumes "coordinator_Declare co ctx_err actor command w = (Inr v, w1)" and "good w"
    and "co_Workflow co = Some workflow" and "co_Idempotent co = Some idempotent" and "co_Clock co = Some clock"
    and "dc_IdempotencyKey command \<noteq> []"
  shows "\<exists>q. answered actor command v q w1 \<and>
    (\<forall>w2. answered actor command v q w2 \<and> fst (clock w2) < k_ExpiresAt q \<and> fst (clock w2) \<noteq> 0 \<longrightarrow>
      coordinator_Declare co None actor command w2 = (Inr v, snd (clock w2)))"
proof -
  from assms have run: "declare_once co workflow idempotent actor command w = (Inr v, w1)"
    and checks: "coordinator_validate co = Inr ()" "Authorize actor (u_TenantID actor) PermissionVoyageDeclare = Inr ()"
      "dc_ETA command \<noteq> 0" "dc_Items command \<noteq> []"
    by (auto simp: coordinator_Declare_def ensure_Inr_iff split: if_splits)
  from declare_once_answers [OF run assms(5,2)] obtain q where q: "answered actor command v q w1" ..
  have "coordinator_Declare co None actor command w2 = (Inr v, snd (clock w2))"
    if w2: "answered actor command v q w2" "fst (clock w2) < k_ExpiresAt q" "fst (clock w2) \<noteq> 0" for w2
  proof -
    obtain j where j: "declare_json command = Some j"
      and hash: "k_RequestHash q = trim_space (Fingerprint ''POST'' ''/v1/voyages'' (json_encode j))"
      using w2(1) by (auto simp: answered_def)
    from run obtain now c where "declaration_record actor command (json_encode j) now (record_ttl co) = Inr c"
      using j by (auto simp: declare_once_def bindIO_Inr_iff)
    then obtain c2 where c2: "declaration_record actor command (json_encode j) (fst (clock w2)) (record_ttl co) = Inr c2"
      using w2(3) by (auto simp: declaration_record_def NewRecord_def Let_def split: if_splits)
    note C = declaration_record_D [OF c2]
    have now: "clock_Now co w2 = (Inr (fst (clock w2)), snd (clock w2))" by (simp add: clock_Now_def assms(5) split_def Let_def)
    have good: "good w2" using w2(1) by (simp add: answered_def)
    have "ir_BeginIdempotent idempotent c2 (co_StaleAfter co) (snd (clock w2)) = (Inr (DecisionReplay, q), snd (clock w2))"
    proof (rule completed_replays)
      show "good (snd (clock w2))" using clock_frame [OF good] by blast
      show "row (snd (clock w2)) (k_TenantID c2) (k_Key c2) = Some q" "k_Status q = StatusCompleted"
        using w2(1) C clock_frame [OF good] by (simp_all add: answered_def)
      show "k_RequestHash q = k_RequestHash c2" "k_CreatedAt c2 < k_ExpiresAt q" using C hash w2(2) by simp_all
    qed
    moreover have "decode_response q = Inr v" using w2(1) by (simp add: answered_def)
    ultimately have "declare_once co workflow idempotent actor command w2 = (Inr v, snd (clock w2))"
      using j now c2 by (simp add: declare_once_def answer_decision_def bindIO_def returnIO_def)
    with assms checks show ?thesis by (simp add: coordinator_Declare_def)
  qed
  with q show ?thesis by blast
qed

end

end
