(* ===== verification/Idempotency_Store.thy ===== *)
theory Idempotency_Store
  imports Idempotency Store_Inv
begin

text \<open>
  \<^verbatim>\<open>internal/store/idempotency.go\<close> on the table of
  \<^verbatim>\<open>migrations/002_idempotency.sql\<close>, a list of rows. \<open>idem_step\<close> is what any number of
  clients do: begin a request, and complete or fail one with a record that some
  \<^verbatim>\<open>BeginIdempotent\<close> returned before, however long ago; the second component of the state
  collects these records. The lemmas end in two: a completed response is replayed until it expires,
  and a client whose record was handed to another one cannot complete.
\<close>

section \<open>The statements\<close>

definition record_key :: "Record \<Rightarrow> string \<times> string" where
  "record_key r = (k_TenantID r, k_Key r)"

definition getIdempotencyTx :: "string \<Rightarrow> string \<Rightarrow> Record list \<Rightarrow> Record result" where
  "getIdempotencyTx tenant key rows =
    (case List.find (\<lambda>r. k_TenantID r = tenant \<and> k_Key r = key) rows of
       None \<Rightarrow> Inl (Sentinel ErrNotFound)
     | Some r \<Rightarrow> Inr r)"

definition new_row :: "(Time \<Rightarrow> Time) \<Rightarrow> Record \<Rightarrow> Record" where
  "new_row stored c = c\<lparr>k_ResponseCode := 0, k_ResponseBody := [], k_FailureMessage := [], k_CreatedAt := stored (k_CreatedAt c),
    k_UpdatedAt := stored (k_CreatedAt c), k_ExpiresAt := stored (k_ExpiresAt c), k_Version := 1\<rparr>"

text \<open>
  \<^verbatim>\<open>INSERT ... ON CONFLICT(tenant_id,key) DO UPDATE ... WHERE expires_at<=EXCLUDED.created_at\<close>:
  the proposed row meets the check on the status first, and an existing row is replaced only when it expired.
\<close>

definition upsert_record :: "(Time \<Rightarrow> Time) \<Rightarrow> Record \<Rightarrow> Record list \<Rightarrow> Record list result" where
  "upsert_record stored c rows =
    (let row = new_row stored c
     in if k_Status c \<notin> {StatusProcessing, StatusCompleted, StatusFailed}
        then Inl (db_error ''idempotency_records_status_check'')
        else case List.find (\<lambda>r. record_key r = record_key c) rows of
          None \<Rightarrow> Inr (rows @ [row])
        | Some old \<Rightarrow>
            if \<not> k_ExpiresAt old \<le> k_CreatedAt row then Inr rows
            else if k_Version old = max_int64 then Inl (db_error ''bigint out of range'')
            else Inr (map (\<lambda>r. if record_key r = record_key c then row\<lparr>k_Version := k_Version r + 1\<rparr> else r) rows))"

definition update_record :: "(Record \<Rightarrow> Record) \<Rightarrow> Record \<Rightarrow> int \<Rightarrow> Record list \<Rightarrow> Record list result" where
  "update_record f r version rows =
    (let hit = (\<lambda>q. record_key q = record_key r \<and> k_Version q = version)
     in if length (filter hit rows) \<noteq> 1 then Inl (Sentinel ErrConflict)
        else Inr (map (\<lambda>q. if hit q then f q else q) rows))"

definition BeginIdempotent ::
    "(Time \<Rightarrow> Time) \<Rightarrow> Record \<Rightarrow> Duration \<Rightarrow> Record list \<Rightarrow> ((Decision \<times> Record) \<times> Record list) result" where
  "BeginIdempotent stored c staleAfter rows =
    (let found = getIdempotencyTx (k_TenantID c) (k_Key c) rows;
         start = bindR (upsert_record stored c rows) (\<lambda>rows1.
           bindR (getIdempotencyTx (k_TenantID c) (k_Key c) rows1) (\<lambda>r. Inr ((DecisionStart, r), rows1)))
     in case found of
          Inl e \<Rightarrow> if errors_is e (Sentinel ErrNotFound) then start else Inl e
        | Inr current \<Rightarrow>
            if \<not> k_CreatedAt c < k_ExpiresAt current then start
            else let decision = Decide (Some current) (k_RequestHash c) (k_CreatedAt c) staleAfter
              in if decision \<noteq> DecisionStart then Inr ((decision, current), rows)
                 else bindR (Restart current (k_CreatedAt c) (k_Version current)) (\<lambda>restarted.
                   bindR (update_record (\<lambda>q. q\<lparr>k_Status := k_Status restarted, k_ResponseCode := 0, k_ResponseBody := [],
                       k_FailureMessage := [], k_UpdatedAt := stored (k_UpdatedAt restarted), k_Version := k_Version restarted\<rparr>)
                     restarted (k_Version current) rows) (\<lambda>rows1.
                   Inr ((decision, restarted), rows1))))"

text \<open>The response code goes into a 32-bit column.\<close>

definition CompleteIdempotent :: "(Time \<Rightarrow> Time) \<Rightarrow> Record \<Rightarrow> Record list \<Rightarrow> Record list result" where
  "CompleteIdempotent stored r rows =
    (if k_Status r \<noteq> StatusCompleted \<or> k_Version r < 2 then Inl (Sentinel ErrInvalid)
     else if k_ResponseCode r < - (2 ^ 31) \<or> 2 ^ 31 \<le> k_ResponseCode r then Inl (db_error ''response_code out of range'')
     else update_record (\<lambda>q. q\<lparr>k_Status := k_Status r, k_ResponseCode := k_ResponseCode r, k_ResponseBody := k_ResponseBody r,
         k_FailureMessage := [], k_UpdatedAt := stored (k_UpdatedAt r), k_Version := k_Version r\<rparr>) r (k_Version r - 1) rows)"

definition FailIdempotent :: "(Time \<Rightarrow> Time) \<Rightarrow> Record \<Rightarrow> Record list \<Rightarrow> Record list result" where
  "FailIdempotent stored r rows =
    (if k_Status r \<noteq> StatusFailed \<or> k_Version r < 2 then Inl (Sentinel ErrInvalid)
     else update_record (\<lambda>q. q\<lparr>k_Status := k_Status r, k_ResponseCode := 0, k_ResponseBody := [],
         k_FailureMessage := k_FailureMessage r, k_UpdatedAt := stored (k_UpdatedAt r), k_Version := k_Version r\<rparr>)
       r (k_Version r - 1) rows)"

section \<open>Clients\<close>

type_synonym idem_state = "Record list \<times> Record list"

text \<open>Requests begin before the instant \<open>T\<close>.\<close>

inductive idem_step :: "(Time \<Rightarrow> Time) \<Rightarrow> Time \<Rightarrow> idem_state \<Rightarrow> idem_state \<Rightarrow> bool" for stored T where
  start: "BeginIdempotent stored c staleAfter rows = Inr ((decision, r), rows1) \<Longrightarrow> k_CreatedAt c < T \<Longrightarrow>
    idem_step stored T (rows, held) (rows1, r # held)"
| complete: "r \<in> set held \<Longrightarrow> Complete r code body now n = Inr r1 \<Longrightarrow> CompleteIdempotent stored r1 rows = Inr rows1 \<Longrightarrow>
    idem_step stored T (rows, held) (rows1, held)"
| fail: "r \<in> set held \<Longrightarrow> Fail r message now n = Inr r1 \<Longrightarrow> FailIdempotent stored r1 rows = Inr rows1 \<Longrightarrow>
    idem_step stored T (rows, held) (rows1, held)"

inductive idem_run :: "(Time \<Rightarrow> Time) \<Rightarrow> Time \<Rightarrow> nat \<Rightarrow> idem_state \<Rightarrow> idem_state \<Rightarrow> bool" for stored T where
  idem_none: "idem_run stored T 0 s s"
| idem_more: "idem_run stored T n s s1 \<Longrightarrow> idem_step stored T s1 s2 \<Longrightarrow> idem_run stored T (Suc n) s s2"

section \<open>Lemmas\<close>

lemma getIdempotencyTx_Inr:
  "getIdempotencyTx t k rows = Inr r \<Longrightarrow> r \<in> set rows \<and> record_key r = (t, k)"
  by (auto simp: getIdempotencyTx_def record_key_def find_Some_iff in_set_conv_nth split: option.splits)

lemma getIdempotencyTx_unique:
  assumes "distinct (map record_key rows)" and "r \<in> set rows"
  shows "getIdempotencyTx (k_TenantID r) (k_Key r) rows = Inr r"
proof (cases "getIdempotencyTx (k_TenantID r) (k_Key r) rows")
  case (Inl e)
  with assms(2) show ?thesis by (auto simp: getIdempotencyTx_def find_None_iff split: option.splits)
next
  case (Inr q)
  with getIdempotencyTx_Inr [OF Inr] distinct_key [OF assms(1), of q r] assms(2) show ?thesis
    by (simp add: record_key_def)
qed

text \<open>What a statement may do to the table: touch rows of one key only, and raise the version by one.\<close>

definition touches :: "string \<times> string \<Rightarrow> Record list \<Rightarrow> Record list \<Rightarrow> bool" where
  "touches key rows rows1 \<longleftrightarrow> rows1 = rows \<or>
    (\<exists>f. rows1 = map (\<lambda>r. if record_key r = key then f r else r) rows \<and>
      (\<forall>r\<in>set rows. record_key r = key \<longrightarrow> record_key (f r) = key \<and> k_Version (f r) = k_Version r + 1)) \<or>
    (\<exists>row. rows1 = rows @ [row] \<and> record_key row = key \<and> k_Version row = 1 \<and> key \<notin> record_key ` set rows)"

lemma touches_same: "touches key rows rows"
  by (simp add: touches_def)

lemma touches_map:
  "(\<And>r. r \<in> set rows \<Longrightarrow> record_key r = key \<Longrightarrow> record_key (f r) = key \<and> k_Version (f r) = k_Version r + 1) \<Longrightarrow>
    touches key rows (map (\<lambda>r. if record_key r = key then f r else r) rows)"
  unfolding touches_def by (intro disjI2 disjI1 exI [of _ f]) simp

lemma touches_append:
  "record_key row = key \<Longrightarrow> k_Version row = 1 \<Longrightarrow> key \<notin> record_key ` set rows \<Longrightarrow> touches key rows (rows @ [row])"
  unfolding touches_def by (intro disjI2 exI [of _ row]) simp

lemma update_record_D:
  assumes "update_record f r v rows = Inr rows1" and "distinct (map record_key rows)"
    and "\<And>q. record_key (f q) = record_key q" and "\<And>q. k_Version (f q) = v + 1"
  shows "touches (record_key r) rows rows1 \<and> (\<exists>q\<in>set rows. record_key q = record_key r \<and> k_Version q = v \<and> f q \<in> set rows1)"
proof -
  let ?hit = "\<lambda>q. record_key q = record_key r \<and> k_Version q = v"
  from assms(1) have one: "length (filter ?hit rows) = 1" and rows1: "rows1 = map (\<lambda>q. if ?hit q then f q else q) rows"
    by (simp_all add: update_record_def Let_def split: if_splits)
  from one have "filter ?hit rows \<noteq> []" by (metis length_0_conv zero_neq_one)
  then obtain q where q: "q \<in> set rows" "?hit q" by (auto simp: filter_empty_conv)
  have "?hit p \<longleftrightarrow> record_key p = record_key r" if "p \<in> set rows" for p
    using distinct_key [OF assms(2) that q(1)] q(2) by auto
  then have same: "rows1 = map (\<lambda>q. if record_key q = record_key r then f q else q) rows"
    unfolding rows1 by (intro map_cong) (simp_all only:)
  have "touches (record_key r) rows (map (\<lambda>q. if record_key q = record_key r then f q else q) rows)"
    using assms(3,4) distinct_key [OF assms(2) _ q(1)] q(2) by (intro touches_map) auto
  then have "touches (record_key r) rows rows1" unfolding same .
  moreover have "f q \<in> set rows1" unfolding rows1 using q by force
  ultimately show ?thesis using q by blast
qed

lemma upsert_record_D:
  assumes "upsert_record stored c rows = Inr rows1" and "distinct (map record_key rows)"
  shows "touches (record_key c) rows rows1 \<and>
    (rows1 \<noteq> rows \<longrightarrow> (\<forall>r\<in>set rows. record_key r = record_key c \<longrightarrow> k_ExpiresAt r \<le> stored (k_CreatedAt c)))"
proof (cases "List.find (\<lambda>r. record_key r = record_key c) rows")
  case None
  then have "record_key c \<notin> record_key ` set rows" by (auto simp: find_None_iff)
  moreover from None assms(1) have "rows1 = rows @ [new_row stored c]" by (simp add: upsert_record_def Let_def split: if_splits)
  moreover have "record_key (new_row stored c) = record_key c \<and> k_Version (new_row stored c) = 1"
    by (simp add: new_row_def record_key_def)
  ultimately show ?thesis using touches_append by (metis imageI)
next
  case (Some old)
  then have old: "old \<in> set rows" "record_key old = record_key c" by (auto simp: find_Some_iff)
  let ?f = "\<lambda>r. (new_row stored c)\<lparr>k_Version := k_Version r + 1\<rparr>"
  from Some assms(1) have "rows1 = rows \<or> k_ExpiresAt old \<le> stored (k_CreatedAt c) \<and>
      rows1 = map (\<lambda>r. if record_key r = record_key c then ?f r else r) rows"
    by (auto simp: upsert_record_def Let_def new_row_def split: if_splits)
  moreover have "touches (record_key c) rows (map (\<lambda>r. if record_key r = record_key c then ?f r else r) rows)"
    by (rule touches_map) (simp add: new_row_def record_key_def)
  moreover have "r = old" if "r \<in> set rows" "record_key r = record_key c" for r
    using distinct_key [OF assms(2) that(1) old(1)] that old by simp
  ultimately show ?thesis using touches_same by blast
qed

lemma update_record_map:
  "update_record f r v rows = Inr rows1 \<Longrightarrow> q \<in> set rows \<Longrightarrow> record_key q \<noteq> record_key r \<or> k_Version q \<noteq> v \<Longrightarrow> q \<in> set rows1"
  by (force simp: update_record_def Let_def split: if_splits)

lemma touches_keys:
  "touches key rows rows1 \<Longrightarrow> distinct (map record_key rows) \<Longrightarrow> distinct (map record_key rows1)"
proof (unfold touches_def, elim disjE exE conjE)
  fix f assume "rows1 = map (\<lambda>r. if record_key r = key then f r else r) rows"
    and "\<forall>r\<in>set rows. record_key r = key \<longrightarrow> record_key (f r) = key \<and> k_Version (f r) = k_Version r + 1"
  then have "map record_key rows1 = map record_key rows" by auto
  then show "distinct (map record_key rows) \<Longrightarrow> distinct (map record_key rows1)" by metis
qed auto

lemma touches_row:
  assumes "touches key rows rows1" and "r \<in> set rows"
  shows "\<exists>r1\<in>set rows1. record_key r1 = record_key r \<and> k_Version r \<le> k_Version r1 \<and> (r1 = r \<or> k_Version r < k_Version r1 \<and> record_key r = key)"
  using assms unfolding touches_def
proof (elim disjE exE conjE)
  fix f assume f: "rows1 = map (\<lambda>r. if record_key r = key then f r else r) rows"
    "\<forall>r\<in>set rows. record_key r = key \<longrightarrow> record_key (f r) = key \<and> k_Version (f r) = k_Version r + 1"
  then have "(if record_key r = key then f r else r) \<in> set rows1" using assms(2) by auto
  then show ?thesis using f(2) assms(2) by (intro bexI [of _ "if record_key r = key then f r else r"]) auto
qed auto

lemma touches_versions:
  "touches key rows rows1 \<Longrightarrow> r1 \<in> set rows1 \<Longrightarrow> \<forall>r\<in>set rows. 1 \<le> k_Version r \<and> k_Version r \<le> n \<Longrightarrow> 0 \<le> n \<Longrightarrow>
    1 \<le> k_Version r1 \<and> k_Version r1 \<le> n + 1"
  unfolding touches_def by (elim disjE exE conjE) (force split: if_splits)+

text \<open>
  The invariant of the clients: keys are unique, versions count the steps, and a record that a client holds is
  not ahead of its row, and agrees with it on the status while they have the same version.
\<close>

definition idem_ok :: "nat \<Rightarrow> idem_state \<Rightarrow> bool" where
  "idem_ok n s \<longleftrightarrow> distinct (map record_key (fst s)) \<and>
    (\<forall>r\<in>set (fst s). 1 \<le> k_Version r \<and> k_Version r \<le> int n) \<and>
    (\<forall>h\<in>set (snd s). 1 \<le> k_Version h \<and> (\<exists>r\<in>set (fst s). record_key r = record_key h \<and> k_Version h \<le> k_Version r \<and>
      (k_Version h = k_Version r \<longrightarrow> k_Status h = k_Status r)))"

lemma idem_ok_touches:
  assumes "idem_ok n (rows, held)" and "touches key rows rows1"
  shows "idem_ok (Suc n) (rows1, held)"
proof -
  have "\<exists>r1\<in>set rows1. record_key r1 = record_key h \<and> k_Version h \<le> k_Version r1 \<and> (k_Version h = k_Version r1 \<longrightarrow> k_Status h = k_Status r1)"
    if h: "h \<in> set held" for h
  proof -
    obtain r where r: "r \<in> set rows" "record_key r = record_key h" "k_Version h \<le> k_Version r"
      "k_Version h = k_Version r \<longrightarrow> k_Status h = k_Status r"
      using assms(1) h by (auto simp: idem_ok_def)
    from touches_row [OF assms(2) r(1)] r show ?thesis by fastforce
  qed
  moreover have "1 \<le> k_Version r1 \<and> k_Version r1 \<le> int (Suc n)" if "r1 \<in> set rows1" for r1
    using touches_versions [OF assms(2) that, of "int n"] assms(1) by (simp add: idem_ok_def)
  ultimately show ?thesis using assms touches_keys by (auto simp: idem_ok_def)
qed

lemma BeginIdempotent_D:
  assumes "BeginIdempotent stored c staleAfter rows = Inr ((decision, r), rows1)" and "distinct (map record_key rows)"
    and "\<forall>q\<in>set rows. 1 \<le> k_Version q \<and> k_Version q < max_int64"
  shows "touches (record_key c) rows rows1 \<and> record_key r = record_key c \<and>
    (\<exists>q\<in>set rows1. record_key q = record_key c \<and> k_Version q = k_Version r \<and> k_Status q = k_Status r)"
proof -
  have start: ?thesis
    if "bindR (upsert_record stored c rows) (\<lambda>rows1. bindR (getIdempotencyTx (k_TenantID c) (k_Key c) rows1)
          (\<lambda>r. Inr ((DecisionStart, r), rows1))) = Inr ((decision, r), rows1)"
  proof -
    from that have "upsert_record stored c rows = Inr rows1" "getIdempotencyTx (k_TenantID c) (k_Key c) rows1 = Inr r"
      by (auto simp: bindR_Inr_iff)
    with upsert_record_D [OF this(1) assms(2)] getIdempotencyTx_Inr [OF this(2)] show ?thesis
      by (auto simp: record_key_def)
  qed
  show ?thesis
  proof (cases "getIdempotencyTx (k_TenantID c) (k_Key c) rows")
    case (Inl e)
    with assms(1) start show ?thesis by (simp add: BeginIdempotent_def Let_def split: if_splits)
  next
    case (Inr current)
    note cur = getIdempotencyTx_Inr [OF Inr]
    show ?thesis
    proof (cases "k_CreatedAt c < k_ExpiresAt current \<and> Decide (Some current) (k_RequestHash c) (k_CreatedAt c) staleAfter = DecisionStart")
      case False
      with assms(1) Inr cur show ?thesis
        by (cases "k_CreatedAt c < k_ExpiresAt current")
          (use start in \<open>auto simp: BeginIdempotent_def Let_def record_key_def intro: touches_same\<close>)
    next
      case True
      with assms(1) Inr have restart: "Restart current (k_CreatedAt c) (k_Version current) = Inr r"
        and update: "update_record (\<lambda>q. q\<lparr>k_Status := k_Status r, k_ResponseCode := 0, k_ResponseBody := [],
                       k_FailureMessage := [], k_UpdatedAt := stored (k_UpdatedAt r), k_Version := k_Version r\<rparr>)
                     r (k_Version current) rows = Inr rows1"
        by (auto simp: BeginIdempotent_def Let_def bindR_Inr_iff)
      have "inc64 (k_Version current) = k_Version current + 1"
        using cur assms(3) by (intro inc64_id) (auto simp: in_int64_def min_int64_def)
      then have r: "record_key r = record_key c" "k_Version r = k_Version current + 1"
        using restart cur by (auto simp: Restart_def record_key_def split: if_splits)
      let ?f = "\<lambda>q. q\<lparr>k_Status := k_Status r, k_ResponseCode := 0, k_ResponseBody := [],
                       k_FailureMessage := [], k_UpdatedAt := stored (k_UpdatedAt r), k_Version := k_Version r\<rparr>"
      have f: "record_key (?f q) = record_key q" "k_Version (?f q) = k_Version current + 1" for q
        using r by (simp_all add: record_key_def)
      from update_record_D [OF update assms(2) f] obtain q where
        "touches (record_key r) rows rows1" "record_key q = record_key r" "?f q \<in> set rows1" by blast
      then show ?thesis using r f(1) [of q] by (auto intro!: bexI [of _ "?f q"])
    qed
  qed
qed

lemma settle_D:
  assumes "CompleteIdempotent stored r rows = Inr rows1 \<or> FailIdempotent stored r rows = Inr rows1" and "distinct (map record_key rows)"
  shows "touches (record_key r) rows rows1"
    and "\<exists>q\<in>set rows. record_key q = record_key r \<and> k_Version q = k_Version r - 1"
    and "q \<in> set rows \<Longrightarrow> record_key q \<noteq> record_key r \<or> k_Version q \<noteq> k_Version r - 1 \<Longrightarrow> q \<in> set rows1"
proof -
  from assms(1) obtain f where f: "update_record f r (k_Version r - 1) rows = Inr rows1"
    "\<And>q. record_key (f q) = record_key q" "\<And>q. k_Version (f q) = k_Version r - 1 + 1"
    by (auto simp: CompleteIdempotent_def FailIdempotent_def record_key_def split: if_splits)
  from update_record_D [OF f(1) assms(2) f(2,3)]
  show "touches (record_key r) rows rows1" and "\<exists>q\<in>set rows. record_key q = record_key r \<and> k_Version q = k_Version r - 1" by blast+
  show "q \<in> set rows \<Longrightarrow> record_key q \<noteq> record_key r \<or> k_Version q \<noteq> k_Version r - 1 \<Longrightarrow> q \<in> set rows1"
    using update_record_map [OF f(1)] by blast
qed

lemma idem_step_ok:
  assumes "idem_step stored T s s1" and "idem_ok n s" and "int n < max_int64"
  shows "idem_ok (Suc n) s1"
  using assms(1)
proof cases
  case (start c staleAfter rows decision r rows1 held)
  have ok: "idem_ok n (rows, held)" using start(1) assms(2) by simp
  then have keys: "distinct (map record_key rows)" and "\<forall>q\<in>set rows. 1 \<le> k_Version q \<and> k_Version q < max_int64"
    using assms(3) by (auto simp: idem_ok_def)
  note D = BeginIdempotent_D [OF start(3) this]
  have "idem_ok (Suc n) (rows1, held)" by (rule idem_ok_touches [OF ok conjunct1 [OF D]])
  moreover from D have "\<exists>q\<in>set rows1. record_key q = record_key r \<and> k_Version q = k_Version r \<and> k_Status q = k_Status r"
    by auto
  ultimately show ?thesis unfolding start(2) by (fastforce simp: idem_ok_def)
next
  case (complete r held code body now m r1 rows rows1)
  have ok: "idem_ok n (rows, held)" using complete(1) assms(2) by simp
  then have "distinct (map record_key rows)" by (simp add: idem_ok_def)
  from settle_D(1) [OF disjI1 [OF complete(5)] this] ok show ?thesis unfolding complete(2) by (intro idem_ok_touches)
next
  case (fail r held message now m r1 rows rows1)
  have ok: "idem_ok n (rows, held)" using fail(1) assms(2) by simp
  then have "distinct (map record_key rows)" by (simp add: idem_ok_def)
  from settle_D(1) [OF disjI2 [OF fail(5)] this] ok show ?thesis unfolding fail(2) by (intro idem_ok_touches)
qed

lemma idem_run_ok:
  "idem_run stored T n s s1 \<Longrightarrow> idem_ok k s \<Longrightarrow> int (k + n) < max_int64 \<Longrightarrow> idem_ok (k + n) s1"
  by (induction rule: idem_run.induct) (auto dest: idem_step_ok)

lemma idem_ok_empty: "idem_ok 0 ([], [])"
  by (simp add: idem_ok_def)

section \<open>A completed response is replayed\<close>

lemma touches_other: "touches key rows rows1 \<Longrightarrow> r \<in> set rows \<Longrightarrow> record_key r \<noteq> key \<Longrightarrow> r \<in> set rows1"
  unfolding touches_def by (elim disjE exE conjE) force+

lemma BeginIdempotent_completed:
  assumes "distinct (map record_key rows)" and "r \<in> set rows" and "k_Status r = StatusCompleted"
    and "record_key c = record_key r" and "k_CreatedAt c < k_ExpiresAt r"
  shows "BeginIdempotent stored c staleAfter rows =
    Inr ((if k_RequestHash c = k_RequestHash r then DecisionReplay else DecisionConflict, r), rows)"
proof -
  have "getIdempotencyTx (k_TenantID c) (k_Key c) rows = Inr r"
    using getIdempotencyTx_unique [OF assms(1,2)] assms(4) by (simp add: record_key_def)
  with assms(3,5) show ?thesis by (auto simp: BeginIdempotent_def Let_def Decide_def)
qed

lemma idem_step_keeps_completed:
  assumes "idem_step stored T s s1" and "idem_ok n s" and "int n < max_int64"
    and "r \<in> set (fst s)" and "k_Status r = StatusCompleted" and "T \<le> k_ExpiresAt r"
  shows "r \<in> set (fst s1)"
proof -
  have keys: "distinct (map record_key (fst s))" and vers: "\<forall>q\<in>set (fst s). 1 \<le> k_Version q \<and> k_Version q < max_int64"
    using assms(2,3) by (auto simp: idem_ok_def)
  have kept: "r \<in> set rows1"
    if settle: "CompleteIdempotent stored h1 (fst s) = Inr rows1 \<or> FailIdempotent stored h1 (fst s) = Inr rows1"
      and h: "h \<in> set (snd s)" "k_Status h = StatusProcessing" "record_key h1 = record_key h" "k_Version h1 = inc64 (k_Version h)" for h h1 rows1
  proof (rule settle_D(3) [OF settle keys assms(4)], rule ccontr)
    assume "\<not> (record_key r \<noteq> record_key h1 \<or> k_Version r \<noteq> k_Version h1 - 1)"
    then have r: "record_key r = record_key h" "k_Version r = inc64 (k_Version h) - 1" using h by auto
    obtain q where q: "q \<in> set (fst s)" "record_key q = record_key h" "k_Version h \<le> k_Version q"
      "k_Version h = k_Version q \<longrightarrow> k_Status h = k_Status q" using assms(2) h(1) by (auto simp: idem_ok_def)
    with distinct_key [OF keys q(1) assms(4)] r have "q = r" by simp
    have "inc64 (k_Version h) = k_Version h + 1"
      using q(3) \<open>q = r\<close> vers assms(2,4) h(1) by (intro inc64_id) (auto simp: in_int64_def min_int64_def idem_ok_def)
    with r q h(2) \<open>q = r\<close> assms(5) show False by auto
  qed
  from assms(1) show ?thesis
  proof cases
    case (start c staleAfter rows decision h rows1 held)
    show ?thesis
    proof (cases "record_key c = record_key r")
      case True
      with start assms(6) BeginIdempotent_completed [OF keys assms(4,5) True, of stored staleAfter] assms(4) show ?thesis by auto
    next
      case False
      from start keys vers have "touches (record_key c) (fst s) (fst s1)"
        using BeginIdempotent_D [of stored c staleAfter rows decision h rows1] by auto
      with assms(4) False show ?thesis by (auto intro: touches_other)
    qed
  next
    case (complete h held code body now m h1 rows rows1)
    then have "k_Status h = StatusProcessing" "record_key h1 = record_key h" "k_Version h1 = inc64 (k_Version h)"
      by (auto simp: Complete_def record_key_def split: if_splits)
    with kept [of h1 rows1 h] complete show ?thesis by simp
  next
    case (fail h held message now m h1 rows rows1)
    then have "k_Status h = StatusProcessing" "record_key h1 = record_key h" "k_Version h1 = inc64 (k_Version h)"
      by (auto simp: Fail_def Let_def record_key_def split: if_splits)
    with kept [of h1 rows1 h] fail show ?thesis by simp
  qed
qed

lemma idem_run_keeps_completed:
  assumes "idem_run stored T n s s1" and "idem_ok k s" and "int (k + n) < max_int64"
    and "r \<in> set (fst s)" and "k_Status r = StatusCompleted" and "T \<le> k_ExpiresAt r"
  shows "r \<in> set (fst s1)"
  using assms
proof (induction rule: idem_run.induct)
  case (idem_more n s s1 s2)
  then have "r \<in> set (fst s1)" by simp
  moreover have "idem_ok (k + n) s1" using idem_run_ok [OF idem_more.hyps(1) idem_more.prems(1)] idem_more.prems(2) by simp
  ultimately show ?case using idem_step_keeps_completed [OF idem_more.hyps(2)] idem_more.prems by simp
qed simp

text \<open>
  Once a request is completed its response is final until it expires: whatever clients do, with however
  many records they hold, and as long as requests begin before the expiry, the row stays exactly as it is, and
  \<^verbatim>\<open>BeginIdempotent\<close> of the same key answers with it, to be replayed for the same request
  and refused as a conflict for another one, and changes nothing.
\<close>

theorem completed_response_is_replayed:
  assumes "idem_run stored T0 k ([], []) (rows, held)" and "idem_run stored T n (rows, held) (rows1, held1)"
    and "int (k + n) < max_int64" and "r \<in> set rows" and "k_Status r = StatusCompleted" and "T \<le> k_ExpiresAt r"
  shows "r \<in> set rows1 \<and> (\<forall>c staleAfter. record_key c = record_key r \<and> k_CreatedAt c < k_ExpiresAt r \<longrightarrow>
    BeginIdempotent stored c staleAfter rows1 =
      Inr ((if k_RequestHash c = k_RequestHash r then DecisionReplay else DecisionConflict, r), rows1))"
proof -
  have ok: "idem_ok k (rows, held)" using idem_run_ok [OF assms(1) idem_ok_empty] assms(3) by simp
  have "idem_ok (k + n) (rows1, held1)" using idem_run_ok [OF assms(2) ok] assms(3) by simp
  then have keys: "distinct (map record_key rows1)" by (simp add: idem_ok_def)
  have "r \<in> set rows1" using idem_run_keeps_completed [OF assms(2) ok assms(3)] assms(4-6) by simp
  with BeginIdempotent_completed [OF keys this assms(5)] show ?thesis by simp
qed

lemma example_begin:
  "BeginIdempotent (\<lambda>t. t) example_record 0 [] = Inr ((DecisionStart, example_record), [example_record])"
  by code_simp

definition example_completed :: Record where
  "example_completed = example_record\<lparr>k_Status := StatusCompleted, k_ResponseCode := 201, k_ResponseBody := ''ok'',
    k_UpdatedAt := 20, k_Version := 2\<rparr>"

lemma example_complete:
  "Complete example_record 201 ''ok'' 20 1 = Inr example_completed"
  "CompleteIdempotent (\<lambda>t. t) example_completed [example_record] = Inr [example_completed]"
  by code_simp+

lemma example_idem_run: "idem_run (\<lambda>t. t) 100 2 ([], []) ([example_completed], [example_record])"
proof -
  have "idem_step (\<lambda>t. t) 100 ([], []) ([example_record], [example_record])"
    by (rule idem_step.start [OF example_begin]) (simp add: example_record_def)
  moreover have "idem_step (\<lambda>t. t) 100 ([example_record], [example_record]) ([example_completed], [example_record])"
    by (rule idem_step.complete [OF _ example_complete]) simp
  ultimately show ?thesis unfolding numeral_2_eq_2 by (blast intro: idem_run.intros)
qed

lemma completed_response_is_replayed_witness:
  "BeginIdempotent (\<lambda>t. t) (example_record\<lparr>k_CreatedAt := 50\<rparr>) 0 [example_completed] =
    Inr ((DecisionReplay, example_completed), [example_completed])"
proof -
  have "example_completed \<in> set [example_completed] \<and> (\<forall>c staleAfter. record_key c = record_key example_completed \<and>
      k_CreatedAt c < k_ExpiresAt example_completed \<longrightarrow> BeginIdempotent (\<lambda>t. t) c staleAfter [example_completed] =
      Inr ((if k_RequestHash c = k_RequestHash example_completed then DecisionReplay else DecisionConflict, example_completed), [example_completed]))"
    by (rule completed_response_is_replayed [OF example_idem_run idem_run.idem_none, of _ 100])
      (simp_all add: example_completed_def example_record_def max_int64_def)
  then show ?thesis by (simp add: example_completed_def example_record_def record_key_def)
qed

section \<open>A client that was overtaken is fenced off\<close>

definition kept_expiry :: "(Time \<Rightarrow> Time) \<Rightarrow> Record list \<Rightarrow> bool" where
  "kept_expiry stored rows \<longleftrightarrow> (\<forall>r\<in>set rows. stored (k_ExpiresAt r) = k_ExpiresAt r)"

lemma update_record_expiry:
  assumes "update_record f r v rows = Inr rows1" and "\<And>q. k_ExpiresAt (f q) = k_ExpiresAt q" and "kept_expiry stored rows"
  shows "kept_expiry stored rows1"
proof -
  from assms(1) have "rows1 = map (\<lambda>q. if record_key q = record_key r \<and> k_Version q = v then f q else q) rows"
    by (simp add: update_record_def Let_def split: if_splits)
  with assms(2,3) show ?thesis by (auto simp: kept_expiry_def)
qed

lemma upsert_record_expiry:
  assumes "upsert_record stored c rows = Inr rows1" and "\<And>t. stored (stored t) = stored t" and "kept_expiry stored rows"
  shows "kept_expiry stored rows1"
  using assms by (auto simp: upsert_record_def Let_def kept_expiry_def new_row_def split: if_splits option.splits)

lemma idem_step_expiry:
  assumes "idem_step stored T s s1" and "\<And>t. stored (stored t) = stored t" and "kept_expiry stored (fst s)"
  shows "kept_expiry stored (fst s1)"
  using assms(1)
proof cases
  case (start c staleAfter rows decision r rows1 held)
  then have "rows1 = rows \<or> upsert_record stored c rows = Inr rows1 \<or>
      (\<exists>v. update_record (\<lambda>q. q\<lparr>k_Status := k_Status r, k_ResponseCode := 0, k_ResponseBody := [],
                       k_FailureMessage := [], k_UpdatedAt := stored (k_UpdatedAt r), k_Version := k_Version r\<rparr>) r v rows = Inr rows1)"
    by (auto simp: BeginIdempotent_def Let_def bindR_Inr_iff split: sum.splits if_splits)
  then show ?thesis
    using start assms(2,3) upsert_record_expiry [of stored c rows rows1] by (auto intro: update_record_expiry)
next
  case (complete r held code body now n r1 rows rows1)
  then show ?thesis using assms(3) by (auto simp: CompleteIdempotent_def intro: update_record_expiry split: if_splits)
next
  case (fail r held message now n r1 rows rows1)
  then show ?thesis using assms(3) by (auto simp: FailIdempotent_def intro: update_record_expiry split: if_splits)
qed

lemma idem_run_expiry:
  "idem_run stored T n s s1 \<Longrightarrow> (\<And>t. stored (stored t) = stored t) \<Longrightarrow> kept_expiry stored (fst s) \<Longrightarrow> kept_expiry stored (fst s1)"
  by (induction rule: idem_run.induct) (auto dest: idem_step_expiry)

lemma idem_run_version:
  "idem_run stored T n s s1 \<Longrightarrow> idem_ok k s \<Longrightarrow> int (k + n) < max_int64 \<Longrightarrow> r \<in> set (fst s) \<Longrightarrow>
    \<exists>r1\<in>set (fst s1). record_key r1 = record_key r \<and> k_Version r \<le> k_Version r1"
proof (induction rule: idem_run.induct)
  case (idem_more n s s1 s2)
  then obtain q where q: "q \<in> set (fst s1)" "record_key q = record_key r" "k_Version r \<le> k_Version q" by auto
  have ok: "idem_ok (k + n) s1" using idem_run_ok [OF idem_more.hyps(1) idem_more.prems(1)] idem_more.prems(2) by simp
  have keys: "distinct (map record_key (fst s1))" and vers: "\<forall>q\<in>set (fst s1). 1 \<le> k_Version q \<and> k_Version q < max_int64"
    using ok idem_more.prems(2) by (auto simp: idem_ok_def)
  from idem_more.hyps(2) have "\<exists>key. touches key (fst s1) (fst s2)"
  proof cases
    case (start c staleAfter rows decision r rows1 held)
    then have "touches (record_key c) (fst s1) (fst s2)"
      using keys vers BeginIdempotent_D [of stored c staleAfter rows decision r rows1] by simp
    then show ?thesis by (rule exI)
  qed (use keys settle_D(1) in fastforce)+
  with touches_row q show ?case by fastforce
qed auto

lemma BeginIdempotent_start_version:
  assumes "BeginIdempotent stored c staleAfter rows = Inr ((DecisionStart, r), rows1)" and "distinct (map record_key rows)"
    and "\<forall>q\<in>set rows. 1 \<le> k_Version q \<and> k_Version q < max_int64" and "mono stored" and "kept_expiry stored rows"
    and "q \<in> set rows" and "record_key q = record_key c"
  shows "k_Version q < k_Version r"
proof -
  have found: "getIdempotencyTx (k_TenantID c) (k_Key c) rows = Inr q"
    using getIdempotencyTx_unique [OF assms(2,6)] assms(7) by (simp add: record_key_def)
  have same: "p = q" if "p \<in> set rows" "record_key p = record_key c" for p
    using distinct_key [OF assms(2) that(1) assms(6)] that assms(7) by simp
  show ?thesis
  proof (cases "k_CreatedAt c < k_ExpiresAt q")
    case True
    with assms(1) found have restart: "Restart q (k_CreatedAt c) (k_Version q) = Inr r"
      by (auto simp: BeginIdempotent_def Let_def bindR_Inr_iff split: if_splits)
    have "inc64 (k_Version q) = k_Version q + 1" using assms(3,6) by (intro inc64_id) (auto simp: in_int64_def min_int64_def)
    with restart show ?thesis by (auto simp: Restart_def split: if_splits)
  next
    case False
    with assms(1) found have up: "upsert_record stored c rows = Inr rows1"
      and get: "getIdempotencyTx (k_TenantID c) (k_Key c) rows1 = Inr r"
      by (auto simp: BeginIdempotent_def Let_def bindR_Inr_iff)
    have "stored (k_ExpiresAt q) \<le> stored (k_CreatedAt c)" using False by (intro monoD [OF assms(4)]) simp
    then have "k_ExpiresAt q \<le> stored (k_CreatedAt c)" using assms(5,6) by (simp add: kept_expiry_def)
    moreover have "List.find (\<lambda>r. record_key r = record_key c) rows = Some q"
      using found by (simp add: getIdempotencyTx_def record_key_def split: option.splits)
    ultimately have rows1: "rows1 = map (\<lambda>r. if record_key r = record_key c then (new_row stored c)\<lparr>k_Version := k_Version r + 1\<rparr> else r) rows"
      using up by (simp add: upsert_record_def Let_def split: if_splits) (simp add: new_row_def)
    from getIdempotencyTx_Inr [OF get] have "r \<in> set rows1" "record_key r = record_key c" by (simp_all add: record_key_def)
    then show ?thesis using same unfolding rows1 by auto
  qed
qed

lemma settle_stale:
  assumes "idem_ok n (rows, held)" and "q \<in> set rows" and "record_key q = record_key h" and "k_Version h < k_Version q"
    and "k_Version h1 = k_Version h + 1" and "record_key h1 = record_key h"
  shows "update_record f h1 (k_Version h1 - 1) rows = Inl (Sentinel ErrConflict)"
proof -
  have keys: "distinct (map record_key rows)" using assms(1) by (simp add: idem_ok_def)
  have "filter (\<lambda>q. record_key q = record_key h1 \<and> k_Version q = k_Version h1 - 1) rows = []"
    using distinct_key [OF keys _ assms(2)] assms(3-6) by (fastforce simp: filter_empty_conv)
  then show ?thesis by (simp add: update_record_def Let_def)
qed

text \<open>
  C20: A client that was overtaken is fenced off: if a client holds a record and
  \<^verbatim>\<open>BeginIdempotent\<close> lets another client start on the same key, because the first one was stale, had
  failed or its record expired, then from then on, whatever clients do, the first one can neither complete nor fail the
  request: its update meets no row and ends as a conflict.
\<close>

theorem overtaken_client_is_fenced:
  assumes "mono stored" and "\<And>t. stored (stored t) = stored t"
    and "idem_run stored T0 k ([], []) (rows, held)" and "h \<in> set held"
    and "BeginIdempotent stored c staleAfter rows = Inr ((DecisionStart, r), rows1)" and "record_key c = record_key h"
    and "idem_run stored T n (rows1, r # held) (rows2, held2)" and "int (k + n) + 1 < max_int64"
    and "Complete h code body now v = Inr h1 \<or> Fail h message now v = Inr h1"
  shows "(Complete h code body now v = Inr h1 \<longrightarrow> CompleteIdempotent stored h1 rows2 = Inl (Sentinel ErrConflict)) \<and>
    (Fail h message now v = Inr h1 \<longrightarrow> FailIdempotent stored h1 rows2 = Inl (Sentinel ErrConflict))"
proof -
  have ok: "idem_ok k (rows, held)" using idem_run_ok [OF assms(3) idem_ok_empty] assms(8) by simp
  then have keys: "distinct (map record_key rows)" and vers: "\<forall>q\<in>set rows. 1 \<le> k_Version q \<and> k_Version q < max_int64"
    using assms(8) by (auto simp: idem_ok_def)
  have expiry: "kept_expiry stored rows"
    using idem_run_expiry [OF assms(3,2)] by (simp add: kept_expiry_def)
  obtain q where q: "q \<in> set rows" "record_key q = record_key h" "k_Version h \<le> k_Version q" and pos: "1 \<le> k_Version h"
    using ok assms(4) by (auto simp: idem_ok_def)
  have newer: "k_Version h < k_Version r"
    using BeginIdempotent_start_version [OF assms(5) keys vers assms(1) expiry q(1)] q assms(6) by simp
  have "idem_step stored (k_CreatedAt c + 1) (rows, held) (rows1, r # held)" using assms(5) by (rule idem_step.start) simp
  from idem_step_ok [OF this ok] assms(8) have ok1: "idem_ok (Suc k) (rows1, r # held)" by simp
  obtain q1 where q1: "q1 \<in> set rows1" "record_key q1 = record_key r" "k_Version q1 = k_Version r"
    using BeginIdempotent_D [OF assms(5) keys vers] by auto
  have r: "record_key r = record_key h" using BeginIdempotent_D [OF assms(5) keys vers] assms(6) by auto
  obtain q2 where q2: "q2 \<in> set rows2" "record_key q2 = record_key h" "k_Version h < k_Version q2"
    using idem_run_version [OF assms(7) ok1, of q1] q1 assms(8) newer r by fastforce
  have ok2: "idem_ok (Suc k + n) (rows2, held2)" using idem_run_ok [OF assms(7) ok1] assms(8) by simp
  have "k_Version h < max_int64" using q(3) bspec [OF vers q(1)] by simp
  then have "inc64 (k_Version h) = k_Version h + 1" using pos by (intro inc64_id) (simp_all add: in_int64_def min_int64_def)
  then have h1: "k_Version h1 = k_Version h + 1" "record_key h1 = record_key h" "2 \<le> k_Version h1"
    using assms(9) pos by (auto simp: Complete_def Fail_def Let_def record_key_def split: if_splits)
  note stale = settle_stale [OF ok2 q2 h1(1,2)]
  have "Complete h code body now v = Inr h1 \<longrightarrow> k_Status h1 = StatusCompleted \<and> 200 \<le> k_ResponseCode h1 \<and> k_ResponseCode h1 < 300"
    and "Fail h message now v = Inr h1 \<longrightarrow> k_Status h1 = StatusFailed"
    by (auto simp: Complete_def Fail_def Let_def split: if_splits)
  with h1(3) show ?thesis by (auto simp: CompleteIdempotent_def FailIdempotent_def stale)
qed

lemma overtaken_client_is_fenced_witness:
  "CompleteIdempotent (\<lambda>t. t) (example_record\<lparr>k_Status := StatusCompleted, k_ResponseCode := 201, k_ResponseBody := ''ok'',
      k_UpdatedAt := 30, k_Version := 2\<rparr>) [example_record\<lparr>k_UpdatedAt := 20, k_Version := 2\<rparr>] = Inl (Sentinel ErrConflict)"
proof -
  let ?h1 = "example_record\<lparr>k_Status := StatusCompleted, k_ResponseCode := 201, k_ResponseBody := ''ok'', k_UpdatedAt := 30, k_Version := 2\<rparr>"
  let ?r = "example_record\<lparr>k_UpdatedAt := 20, k_Version := 2\<rparr>"
  have step: "idem_step (\<lambda>t. t) 100 ([], []) ([example_record], [example_record])"
    by (rule idem_step.start [OF example_begin]) (simp add: example_record_def)
  have run: "idem_run (\<lambda>t. t) 100 1 ([], []) ([example_record], [example_record])"
    using idem_run.idem_more [OF idem_run.idem_none step] by simp
  have again: "BeginIdempotent (\<lambda>t. t) (example_record\<lparr>k_CreatedAt := 20\<rparr>) 5 [example_record] = Inr ((DecisionStart, ?r), [?r])"
    by code_simp
  have finish: "Complete example_record 201 ''ok'' 30 1 = Inr ?h1" by code_simp
  from overtaken_client_is_fenced [OF _ _ run _ again _ idem_run.idem_none, of example_record 201 "''ok''" 30 1 ?h1 "''late''"] finish
  show ?thesis by (simp add: mono_def record_key_def max_int64_def)
qed

end
