(* ===== verification/Service_Store.thy ===== *)
theory Service_Store
  imports Coordinator Idempotency_Store Workflow_Properties
begin

text \<open>
  \<^verbatim>\<open>internal/store/service_adapter.go\<close> and the composition of the coordinator with the
  store: a world of the database, the table of idempotency records, the column type and a clock whose readings
  are a function of how often it was read. \<open>declaration_service\<close> is interpreted on it, so a repeated
  declaration is answered from the record; and every call of the service moves the database by one committed
  transaction at most, so what Workflow_Properties says of reachable databases holds behind the service.
\<close>

record World =
  w_stored :: "Time \<Rightarrow> Time"
  w_db :: DB
  w_idem :: "Record list"
  w_now :: "nat \<Rightarrow> Time"
  w_tick :: nat

definition run_tx :: "((Time \<Rightarrow> Time) \<Rightarrow> 'a tx) \<Rightarrow> (World, 'a) io" where
  "run_tx f w =
    (case f (w_stored w) (w_db w) of
       Inl e \<Rightarrow> (Inl e, w)
     | Inr (x, db) \<Rightarrow> (Inr x, w\<lparr>w_db := db\<rparr>))"

definition run_idem :: "((Time \<Rightarrow> Time) \<Rightarrow> Record list \<Rightarrow> ('a \<times> Record list) result) \<Rightarrow> (World, 'a) io" where
  "run_idem f w =
    (case f (w_stored w) (w_idem w) of
       Inl e \<Rightarrow> (Inl e, w)
     | Inr (x, rows) \<Rightarrow> (Inr x, w\<lparr>w_idem := rows\<rparr>))"

definition SystemClock :: "World Clock" where
  "SystemClock w = (w_now w (w_tick w), w\<lparr>w_tick := Suc (w_tick w)\<rparr>)"

section \<open>The adapter\<close>

definition adapter_DeclareVoyage :: "User \<Rightarrow> DeclareVoyageCommand \<Rightarrow> (World, Voyage) io" where
  "adapter_DeclareVoyage actor command =
    run_tx (\<lambda>stored. store_DeclareVoyage stored actor
      \<lparr>dr_ID = dc_ID command, dr_VesselIMO = dc_VesselIMO command, dr_VesselName = dc_VesselName command,
       dr_OriginPort = dc_OriginPort command, dr_DestinationPort = dc_DestinationPort command,
       dr_ETA = dc_ETA command, dr_Items = dc_Items command, dr_At = dc_ETA command + (- 12) * Hour\<rparr>)"

definition adapter_OpenInspection :: "User \<Rightarrow> OpenInspectionCommand \<Rightarrow> (World, Inspection \<times> Voyage) io" where
  "adapter_OpenInspection actor command =
    run_tx (\<lambda>stored. store_OpenInspection stored actor (oc_ID command) (oc_VoyageID command) (oc_Kind command) (oc_OpenedAt command))"

definition adapter_PassInspectionAndRelease :: "User \<Rightarrow> PassInspectionCommand \<Rightarrow> (World, Voyage) io" where
  "adapter_PassInspectionAndRelease actor command =
    run_tx (\<lambda>stored. PassInspectionAndRelease stored actor (pc_InspectionID command) (pc_Finding command) (pc_PassedAt command))"

definition adapter_ReservePassage :: "User \<Rightarrow> ReservePassageCommand \<Rightarrow> (World, Reservation) io" where
  "adapter_ReservePassage actor command =
    run_tx (\<lambda>stored. ReservePassage stored actor (rc_ID command) (rc_VoyageID command) (rc_Chamber command)
      (rc_StartsAt command) (rc_EndsAt command) (rc_LengthM command) (rc_BeamM command) (rc_DraftM command)
      (rc_RequestedAt command))"

definition adapter_MovePassage :: "User \<Rightarrow> MovePassageCommand \<Rightarrow> (World, Reservation) io" where
  "adapter_MovePassage actor command =
    run_tx (\<lambda>stored. MovePassage stored actor (mc_ReservationID command) (mc_Next command) (mc_OccurredAt command) (mc_Note command))"

definition WorkflowAdapter :: "World WorkflowRepository" where
  "WorkflowAdapter =
    \<lparr>wf_DeclareVoyage = adapter_DeclareVoyage, wf_OpenInspection = adapter_OpenInspection,
     wf_PassInspectionAndRelease = adapter_PassInspectionAndRelease, wf_ReservePassage = adapter_ReservePassage,
     wf_MovePassage = adapter_MovePassage\<rparr>"

definition store_records :: "World IdempotencyRepository" where
  "store_records =
    \<lparr>ir_BeginIdempotent = (\<lambda>c staleAfter. run_idem (\<lambda>stored. BeginIdempotent stored c staleAfter)),
     ir_CompleteIdempotent = (\<lambda>r. run_idem (\<lambda>stored rows. map_sum id (Pair ()) (CompleteIdempotent stored r rows))),
     ir_FailIdempotent = (\<lambda>r. run_idem (\<lambda>stored rows. map_sum id (Pair ()) (FailIdempotent stored r rows)))\<rparr>"

text \<open>A coordinator as \<^verbatim>\<open>cmd/server\<close> puts it together.\<close>

definition wired :: "World Coordinator \<Rightarrow> bool" where
  "wired co \<longleftrightarrow> co_Workflow co = Some WorkflowAdapter \<and> co_Idempotent co = Some store_records \<and> co_Clock co = Some SystemClock"

section \<open>The table of records as the coordinator sees it\<close>

text \<open>The column type keeps the order of instants and what it kept before; keys are unique.\<close>

definition world_ok :: "World \<Rightarrow> bool" where
  "world_ok w \<longleftrightarrow> mono (w_stored w) \<and> (\<forall>t. w_stored w (w_stored w t) = w_stored w t) \<and>
    distinct (map record_key (w_idem w)) \<and> (\<forall>r\<in>set (w_idem w). w_stored w (k_ExpiresAt r) = k_ExpiresAt r)"

definition row_of :: "World \<Rightarrow> string \<Rightarrow> string \<Rightarrow> Record option" where
  "row_of w tenant key = (case getIdempotencyTx tenant key (w_idem w) of Inl _ \<Rightarrow> None | Inr r \<Rightarrow> Some r)"

lemma row_of_iff:
  assumes "distinct (map record_key (w_idem w))"
  shows "row_of w t k = Some r \<longleftrightarrow> r \<in> set (w_idem w) \<and> record_key r = (t, k)"
  using getIdempotencyTx_Inr [of t k "w_idem w"] getIdempotencyTx_unique [OF assms, of r]
  by (auto simp: row_of_def record_key_def split: sum.splits)

lemma update_record_rows:
  assumes "update_record f r v rows = Inr rows1" and "distinct (map record_key rows)"
    and "\<And>q. record_key (f q) = record_key q" and "\<And>q. k_ExpiresAt (f q) = k_ExpiresAt q"
  shows "distinct (map record_key rows1) \<and> k_ExpiresAt ` set rows1 = k_ExpiresAt ` set rows \<and>
    (\<exists>q\<in>set rows. record_key q = record_key r \<and> f q \<in> set rows1)"
proof -
  let ?hit = "\<lambda>q. record_key q = record_key r \<and> k_Version q = v"
  from assms(1) have one: "length (filter ?hit rows) = 1" and rows1: "rows1 = map (\<lambda>q. if ?hit q then f q else q) rows"
    by (simp_all add: update_record_def Let_def split: if_splits)
  from one have "filter ?hit rows \<noteq> []" by (metis length_0_conv zero_neq_one)
  then obtain q where q: "q \<in> set rows" "?hit q" by (auto simp: filter_empty_conv)
  have "map record_key rows1 = map record_key rows" "map k_ExpiresAt rows1 = map k_ExpiresAt rows"
    unfolding rows1 using assms(3,4) by simp_all
  then have "distinct (map record_key rows1)" "k_ExpiresAt ` set rows1 = k_ExpiresAt ` set rows"
    using assms(2) by (metis, metis list.set_map)
  moreover have "f q \<in> set rows1" unfolding rows1 using q by force
  ultimately show ?thesis using q by blast
qed

lemma upsert_record_rows:
  assumes "upsert_record stored c rows = Inr rows1" and "distinct (map record_key rows)"
    and "\<forall>r\<in>set rows. record_key r = record_key c \<longrightarrow> k_ExpiresAt r \<le> stored (k_CreatedAt c)"
  shows "\<exists>r\<in>set rows1. record_key r = record_key c \<and> k_RequestHash r = k_RequestHash c"
    and "\<forall>r\<in>set rows1. r \<in> set rows \<or> k_ExpiresAt r = stored (k_ExpiresAt c)"
proof -
  let ?row = "new_row stored c"
  have row: "record_key ?row = record_key c" "k_RequestHash ?row = k_RequestHash c" "k_ExpiresAt ?row = stored (k_ExpiresAt c)"
    "k_CreatedAt ?row = stored (k_CreatedAt c)"
    by (simp_all add: new_row_def record_key_def)
  have "rows1 = rows @ [?row] \<or> (\<exists>old\<in>set rows. record_key old = record_key c \<and>
      rows1 = map (\<lambda>r. if record_key r = record_key c then ?row\<lparr>k_Version := k_Version r + 1\<rparr> else r) rows)"
  proof (cases "List.find (\<lambda>r. record_key r = record_key c) rows")
    case None
    with assms(1) show ?thesis by (auto simp: upsert_record_def Let_def split: if_splits)
  next
    case (Some old)
    then have old: "old \<in> set rows" "record_key old = record_key c" by (auto simp: find_Some_iff)
    with assms(3) have "k_ExpiresAt old \<le> k_CreatedAt ?row" using row(4) by simp
    with assms(1) Some old show ?thesis by (auto simp: upsert_record_def Let_def split: if_splits)
  qed
  then consider "rows1 = rows @ [?row]"
    | old where "old \<in> set rows" "record_key old = record_key c"
        "rows1 = map (\<lambda>r. if record_key r = record_key c then ?row\<lparr>k_Version := k_Version r + 1\<rparr> else r) rows"
    by blast
  note cases = this
  from cases show "\<exists>r\<in>set rows1. record_key r = record_key c \<and> k_RequestHash r = k_RequestHash c"
  proof cases
    case 1
    with row show ?thesis by simp
  next
    case (2 old)
    then have "?row\<lparr>k_Version := k_Version old + 1\<rparr> \<in> set rows1" by force
    then show ?thesis using row by (intro bexI) (simp_all add: record_key_def)
  qed
  from cases show "\<forall>r\<in>set rows1. r \<in> set rows \<or> k_ExpiresAt r = stored (k_ExpiresAt c)"
  proof cases
    case 1
    with row show ?thesis by simp
  next
    case (2 old)
    with row(3) show ?thesis by auto
  qed
qed

text \<open>What beginning a request does to the table.\<close>

lemma BeginIdempotent_rows:
  assumes "BeginIdempotent stored c staleAfter rows = Inr ((decision, r), rows1)" and "distinct (map record_key rows)"
    and "mono stored" and "\<forall>t. stored (stored t) = stored t" and "\<forall>q\<in>set rows. stored (k_ExpiresAt q) = k_ExpiresAt q"
  shows "distinct (map record_key rows1) \<and> (\<forall>q\<in>set rows1. stored (k_ExpiresAt q) = k_ExpiresAt q) \<and> record_key r = record_key c \<and>
    (decision = DecisionStart \<longrightarrow> (\<exists>q\<in>set rows1. record_key q = record_key c \<and> k_RequestHash q = k_RequestHash c)) \<and>
    (decision \<noteq> DecisionStart \<longrightarrow> rows1 = rows \<and> r \<in> set rows \<and> decision = Decide (Some r) (k_RequestHash c) (k_CreatedAt c) staleAfter)"
proof -
  have start: ?thesis
    if run: "bindR (upsert_record stored c rows) (\<lambda>rows1. bindR (getIdempotencyTx (k_TenantID c) (k_Key c) rows1)
          (\<lambda>r. Inr ((DecisionStart, r), rows1))) = Inr ((decision, r), rows1)"
      and old: "\<forall>q\<in>set rows. record_key q = record_key c \<longrightarrow> k_ExpiresAt q \<le> k_CreatedAt c"
  proof -
    from run have up: "upsert_record stored c rows = Inr rows1" and get: "getIdempotencyTx (k_TenantID c) (k_Key c) rows1 = Inr r"
      and dec: "decision = DecisionStart" by (auto simp: bindR_Inr_iff)
    have "\<forall>q\<in>set rows. record_key q = record_key c \<longrightarrow> k_ExpiresAt q \<le> stored (k_CreatedAt c)"
      using old assms(3,5) by (metis monoD)
    note U = upsert_record_rows [OF up assms(2) this]
    have "distinct (map record_key rows1)" using upsert_record_D [OF up assms(2)] touches_keys assms(2) by blast
    then show ?thesis using U assms(4,5) getIdempotencyTx_Inr [OF get] dec by (auto simp: record_key_def)
  qed
  show ?thesis
  proof (cases "getIdempotencyTx (k_TenantID c) (k_Key c) rows")
    case (Inl e)
    then have "\<forall>q\<in>set rows. record_key q \<noteq> record_key c"
      using getIdempotencyTx_unique [OF assms(2)] by (force simp: record_key_def)
    moreover have "bindR (upsert_record stored c rows) (\<lambda>rows1. bindR (getIdempotencyTx (k_TenantID c) (k_Key c) rows1)
          (\<lambda>r. Inr ((DecisionStart, r), rows1))) = Inr ((decision, r), rows1)"
      using assms(1) Inl by (simp add: BeginIdempotent_def Let_def split: if_splits)
    ultimately show ?thesis by (intro start) simp_all
  next
    case (Inr current)
    from getIdempotencyTx_Inr [OF Inr] have cur: "current \<in> set rows" "record_key current = record_key c" by (simp_all add: record_key_def)
    have only: "q = current" if "q \<in> set rows" "record_key q = record_key c" for q
      using distinct_key [OF assms(2) that(1) cur(1)] that(2) cur(2) by simp
    define d where "d = Decide (Some current) (k_RequestHash c) (k_CreatedAt c) staleAfter"
    consider "\<not> k_CreatedAt c < k_ExpiresAt current" | "k_CreatedAt c < k_ExpiresAt current" "d \<noteq> DecisionStart"
      | "k_CreatedAt c < k_ExpiresAt current" "d = DecisionStart" by blast
    then show ?thesis
    proof cases
      case 1
      then have "\<forall>q\<in>set rows. record_key q = record_key c \<longrightarrow> k_ExpiresAt q \<le> k_CreatedAt c" using only by force
      with assms(1) Inr 1 show ?thesis by (intro start) (simp_all add: BeginIdempotent_def)
    next
      case 2
      with assms(1) Inr have "decision = d" "r = current" "rows1 = rows" by (auto simp: BeginIdempotent_def Let_def d_def)
      with 2 cur assms(2,5) show ?thesis by (simp add: d_def)
    next
      case 3
      with assms(1) Inr have dec: "decision = DecisionStart" and restart: "Restart current (k_CreatedAt c) (k_Version current) = Inr r"
        and update: "update_record (\<lambda>q. q\<lparr>k_Status := k_Status r, k_ResponseCode := 0, k_ResponseBody := [],
                       k_FailureMessage := [], k_UpdatedAt := stored (k_UpdatedAt r), k_Version := k_Version r\<rparr>)
                     r (k_Version current) rows = Inr rows1"
        by (auto simp: BeginIdempotent_def Let_def bindR_Inr_iff d_def)
      from restart have r: "record_key r = record_key c" using cur by (auto simp: Restart_def record_key_def split: if_splits)
      have hash: "k_RequestHash current = k_RequestHash c" using 3 by (auto simp: d_def Decide_def split: if_splits)
      from update_record_rows [OF update assms(2)] obtain q where rows1: "distinct (map record_key rows1)"
          "k_ExpiresAt ` set rows1 = k_ExpiresAt ` set rows"
        and q: "q \<in> set rows" "record_key q = record_key r"
          "q\<lparr>k_Status := k_Status r, k_ResponseCode := 0, k_ResponseBody := [], k_FailureMessage := [],
             k_UpdatedAt := stored (k_UpdatedAt r), k_Version := k_Version r\<rparr> \<in> set rows1"
        by (auto simp: record_key_def)
      have "q = current" using q(1,2) r only by simp
      moreover have "\<forall>p\<in>set rows1. stored (k_ExpiresAt p) = k_ExpiresAt p"
        using rows1(2) assms(5) by (metis (no_types, lifting) image_iff)
      ultimately show ?thesis using q(3) r dec rows1(1) hash cur(2)
        by (intro conjI impI) (auto simp: record_key_def intro!: bexI [OF _ q(3)])
    qed
  qed
qed

lemma run_idem_Inr: "run_idem f w = (Inr x, w1) \<longleftrightarrow> (\<exists>rows. f (w_stored w) (w_idem w) = Inr (x, rows) \<and> w1 = w\<lparr>w_idem := rows\<rparr>)"
  by (auto simp: run_idem_def split: sum.splits)

lemma run_tx_Inr: "run_tx f w = (Inr x, w1) \<longleftrightarrow> (\<exists>db. f (w_stored w) (w_db w) = Inr (x, db) \<and> w1 = w\<lparr>w_db := db\<rparr>)"
  by (auto simp: run_tx_def split: sum.splits)

lemma DeclareVoyage_version: "store_DeclareVoyage stored actor q db = Inr (v, db1) \<Longrightarrow> in_int64 (v_Version v)"
  by (auto simp: store_DeclareVoyage_def bindR_Inr_iff Declare_def inc64_def split: if_splits)

interpretation world: declaration_service world_ok row_of WorkflowAdapter store_records SystemClock
proof
  fix w :: World and c stale held w1 q r u actor command v
  assume ok: "world_ok w"
  then have keys: "distinct (map record_key (w_idem w))" and mono: "mono (w_stored w)" and idem: "\<forall>t. w_stored w (w_stored w t) = w_stored w t"
    and exp: "\<forall>r\<in>set (w_idem w). w_stored w (k_ExpiresAt r) = k_ExpiresAt r" by (auto simp: world_ok_def)
  show "world_ok w1 \<and> k_TenantID held = k_TenantID c \<and> k_Key held = k_Key c \<and>
      (\<exists>q. row_of w1 (k_TenantID c) (k_Key c) = Some q \<and> k_RequestHash q = k_RequestHash c)"
    if beg: "ir_BeginIdempotent store_records c stale w = (Inr (DecisionStart, held), w1)"
  proof -
    from beg obtain rows where rows: "BeginIdempotent (w_stored w) c stale (w_idem w) = Inr ((DecisionStart, held), rows)"
      and w1: "w1 = w\<lparr>w_idem := rows\<rparr>" by (auto simp: store_records_def run_idem_Inr)
    note B = BeginIdempotent_rows [OF rows keys mono idem exp]
    then have "world_ok w1" using ok by (simp add: world_ok_def w1)
    with B show ?thesis by (auto simp: w1 row_of_iff record_key_def world_ok_def)
  qed
  show "w1 = w \<and> row_of w (k_TenantID c) (k_Key c) = Some held \<and> k_Status held = StatusCompleted \<and> k_RequestHash held = k_RequestHash c"
    if beg: "ir_BeginIdempotent store_records c stale w = (Inr (DecisionReplay, held), w1)"
  proof -
    from beg obtain rows where rows: "BeginIdempotent (w_stored w) c stale (w_idem w) = Inr ((DecisionReplay, held), rows)"
      and w1: "w1 = w\<lparr>w_idem := rows\<rparr>" by (auto simp: store_records_def run_idem_Inr)
    from BeginIdempotent_rows [OF rows keys mono idem exp] w1 keys show ?thesis
      by (auto simp: row_of_iff record_key_def Decide_def split: if_splits)
  qed
  show "ir_BeginIdempotent store_records c stale w = (Inr (DecisionReplay, q), w)"
    if "row_of w (k_TenantID c) (k_Key c) = Some q" "k_Status q = StatusCompleted" "k_RequestHash q = k_RequestHash c"
      "k_CreatedAt c < k_ExpiresAt q"
    using that BeginIdempotent_completed [OF keys, of q c "w_stored w" stale] keys
    by (simp add: row_of_iff record_key_def store_records_def run_idem_def)
  show "world_ok w1 \<and> (\<exists>p. row_of w1 (k_TenantID r) (k_Key r) = Some p \<and> k_Status p = StatusCompleted \<and>
        k_RequestHash p = k_RequestHash q \<and> k_ResponseBody p = k_ResponseBody r)"
    if q: "row_of w (k_TenantID r) (k_Key r) = Some q" and compl: "ir_CompleteIdempotent store_records r w = (Inr u, w1)"
  proof -
    let ?f = "\<lambda>q. q\<lparr>k_Status := k_Status r, k_ResponseCode := k_ResponseCode r, k_ResponseBody := k_ResponseBody r,
         k_FailureMessage := [], k_UpdatedAt := w_stored w (k_UpdatedAt r), k_Version := k_Version r\<rparr>"
    from compl obtain rows where rows: "CompleteIdempotent (w_stored w) r (w_idem w) = Inr rows" and w1: "w1 = w\<lparr>w_idem := rows\<rparr>"
      by (auto simp: store_records_def run_idem_Inr map_sum_def split: sum.splits)
    then have done1: "k_Status r = StatusCompleted" and up: "update_record ?f r (k_Version r - 1) (w_idem w) = Inr rows"
      by (auto simp: CompleteIdempotent_def split: if_splits)
    have f: "record_key (?f p) = record_key p" "k_ExpiresAt (?f p) = k_ExpiresAt p" for p by (simp_all add: record_key_def)
    from update_record_rows [OF up keys f] obtain p where R: "distinct (map record_key rows)"
        "k_ExpiresAt ` set rows = k_ExpiresAt ` set (w_idem w)" "p \<in> set (w_idem w)" "record_key p = record_key r" "?f p \<in> set rows" by blast
    have "p = q" using q keys R(3,4) distinct_key [OF keys R(3), of q] by (simp add: row_of_iff record_key_def)
    moreover have "\<forall>p\<in>set rows. w_stored w (k_ExpiresAt p) = k_ExpiresAt p" using R(2) exp by (metis (no_types, lifting) image_iff)
    ultimately show ?thesis using R ok done1 by (auto simp: w1 world_ok_def row_of_iff record_key_def intro!: exI [of _ "?f q"])
  qed
  show "world_ok (snd (SystemClock w)) \<and> row_of (snd (SystemClock w)) = row_of w"
    using ok by (simp add: SystemClock_def world_ok_def row_of_def fun_eq_iff)
  show "world_ok w1 \<and> row_of w1 = row_of w \<and> in_int64 (v_Version v)"
    if "wf_DeclareVoyage WorkflowAdapter actor command w = (Inr v, w1)"
    using that ok DeclareVoyage_version
    by (auto simp: WorkflowAdapter_def adapter_DeclareVoyage_def run_tx_Inr world_ok_def row_of_def fun_eq_iff)
qed

section \<open>Repeated declarations\<close>

text \<open>
  C12: A declaration with an idempotency key takes effect once. When one has succeeded, its answer is in the table of
  records, and in every later world that still has that record, whatever other requests did in between, the
  same declaration before the record expires gives the same voyage and changes nothing: neither the
  database nor the records.
\<close>

theorem repeated_declaration_is_replayed:
  assumes "coordinator_Declare co ctx_err actor command w = (Inr v, w1)" and "world_ok w" and "wired co"
    and "dc_IdempotencyKey command \<noteq> []"
  shows "\<exists>q\<in>set (w_idem w1). k_Status q = StatusCompleted \<and>
    (\<forall>w2. world_ok w2 \<and> q \<in> set (w_idem w2) \<and> w_now w2 (w_tick w2) < k_ExpiresAt q \<and> w_now w2 (w_tick w2) \<noteq> 0 \<longrightarrow>
      coordinator_Declare co None actor command w2 = (Inr v, w2\<lparr>w_tick := Suc (w_tick w2)\<rparr>))"
proof -
  from assms(3) have "co_Workflow co = Some WorkflowAdapter" "co_Idempotent co = Some store_records" "co_Clock co = Some SystemClock"
    by (simp_all add: wired_def)
  from world.repeated_declaration [OF assms(1,2) this assms(4)] obtain q where q: "world.answered actor command v q w1"
    and again: "\<And>w2. world.answered actor command v q w2 \<Longrightarrow> fst (SystemClock w2) < k_ExpiresAt q \<Longrightarrow> fst (SystemClock w2) \<noteq> 0 \<Longrightarrow>
      coordinator_Declare co None actor command w2 = (Inr v, snd (SystemClock w2))" by blast
  have keys: "distinct (map record_key (w_idem w2))" if "world_ok w2" for w2 using that by (simp add: world_ok_def)
  have w1: "world_ok w1" "k_Status q = StatusCompleted" using q by (simp_all add: world.answered_def)
  then have "q \<in> set (w_idem w1)" "record_key q = (trim_space (u_TenantID actor), trim_space (dc_IdempotencyKey command))"
    using q row_of_iff [OF keys] by (simp_all add: world.answered_def)
  moreover from this have "world.answered actor command v q w2" if "world_ok w2" "q \<in> set (w_idem w2)" for w2
    using that q row_of_iff [OF keys [OF that(1)]] by (simp add: world.answered_def)
  ultimately show ?thesis using again w1(2) by (fastforce simp: SystemClock_def)
qed

section \<open>The service moves the database by transactions\<close>

datatype ServiceCall =
    CallDeclare DeclareVoyageCommand
  | CallOpenInspection OpenInspectionCommand
  | CallPassInspection PassInspectionCommand
  | CallReserve ReservePassageCommand
  | CallMove MovePassageCommand

fun call_permission :: "ServiceCall \<Rightarrow> Permission" where
  "call_permission (CallDeclare _) = PermissionVoyageDeclare"
| "call_permission (CallOpenInspection _) = PermissionInspectionManage"
| "call_permission (CallPassInspection _) = PermissionInspectionManage"
| "call_permission (CallReserve _) = PermissionPassageReserve"
| "call_permission (CallMove _) = PermissionPassageOperate"

definition outcome :: "'a result \<times> 'w \<Rightarrow> unit result \<times> 'w" where
  "outcome = map_prod (map_sum id (\<lambda>_. ())) id"

fun run_call :: "'w Coordinator \<Rightarrow> error option \<Rightarrow> User \<Rightarrow> ServiceCall \<Rightarrow> 'w \<Rightarrow> unit result \<times> 'w" where
  "run_call co ctx_err actor (CallDeclare c) w = outcome (coordinator_Declare co ctx_err actor c w)"
| "run_call co ctx_err actor (CallOpenInspection c) w = outcome (coordinator_OpenInspection co actor c w)"
| "run_call co ctx_err actor (CallPassInspection c) w = outcome (coordinator_PassInspection co actor c w)"
| "run_call co ctx_err actor (CallReserve c) w = outcome (coordinator_Reserve co actor c w)"
| "run_call co ctx_err actor (CallMove c) w = outcome (coordinator_Move co actor c w)"

text \<open>One committed transaction at most.\<close>

definition commits :: "User \<Rightarrow> World \<Rightarrow> World \<Rightarrow> bool" where
  "commits actor w w1 \<longleftrightarrow> w_stored w1 = w_stored w \<and> (w_db w1 = w_db w \<or> (\<exists>t. db_step (w_stored w) actor t (w_db w) (w_db w1)))"

lemma commits_refl [simp]: "commits actor w w"
  by (simp add: commits_def)

lemma run_tx_commits:
  "(\<And>x db. f (w_stored w) (w_db w) = Inr (x, db) \<Longrightarrow> db_step (w_stored w) actor t (w_db w) db) \<Longrightarrow> commits actor w (snd (run_tx f w))"
  by (auto simp: run_tx_def commits_def split: sum.splits)

lemma adapter_commits:
  "commits actor w (snd (adapter_DeclareVoyage actor c1 w))" "commits actor w (snd (adapter_OpenInspection actor c2 w))"
  "commits actor w (snd (adapter_PassInspectionAndRelease actor c3 w))" "commits actor w (snd (adapter_ReservePassage actor c4 w))"
  "commits actor w (snd (adapter_MovePassage actor c5 w))"
  unfolding adapter_DeclareVoyage_def adapter_OpenInspection_def adapter_PassInspectionAndRelease_def adapter_ReservePassage_def adapter_MovePassage_def
  by (rule run_tx_commits, erule db_step.intros)+

text \<open>What leaves the database alone, and how such operations surround the one that commits.\<close>

definition quiet :: "World \<Rightarrow> World \<Rightarrow> bool" where
  "quiet w w1 \<longleftrightarrow> w_stored w1 = w_stored w \<and> w_db w1 = w_db w"

lemma quiet_commits: "quiet w w1 \<Longrightarrow> commits actor w1 w2 \<Longrightarrow> commits actor w w2"
  and commits_quiet: "commits actor w w1 \<Longrightarrow> quiet w1 w2 \<Longrightarrow> commits actor w w2"
  and quiet_trans: "quiet w w1 \<Longrightarrow> quiet w1 w2 \<Longrightarrow> quiet w w2"
  and quiet_refl [simp]: "quiet w w"
  by (auto simp: quiet_def commits_def)

lemma run_idem_quiet: "quiet w (snd (run_idem f w))"
  by (simp add: run_idem_def quiet_def split: sum.splits)

lemma store_records_quiet:
  "quiet w (snd (ir_BeginIdempotent store_records c st w))" "quiet w (snd (ir_CompleteIdempotent store_records r w))"
  "quiet w (snd (ir_FailIdempotent store_records r w))"
  by (simp_all add: store_records_def run_idem_quiet)

lemma clock_quiet: "wired co \<Longrightarrow> quiet w (snd (clock_Now co w))"
  by (simp add: wired_def clock_Now_def SystemClock_def quiet_def)

lemma bindIO_quiet: "quiet w (snd (m w)) \<Longrightarrow> (\<And>x w1. quiet w1 (snd (f x w1))) \<Longrightarrow> quiet w (snd (bindIO m f w))"
  by (auto simp: bindIO_def intro: quiet_trans split: prod.splits sum.splits)

lemma bindIO_commits: "quiet w (snd (m w)) \<Longrightarrow> (\<And>x w1. commits actor w1 (snd (f x w1))) \<Longrightarrow> commits actor w (snd (bindIO m f w))"
  by (auto simp: bindIO_def quiet_def commits_def split: prod.splits sum.splits) (metis)+

lemma returnIO_quiet [simp]: "quiet w (snd (returnIO r w))"
  by (simp add: returnIO_def)

lemma record_outcome_quiet:
  assumes "wired co"
  shows "quiet w (snd (record_failure co store_records held e w))" and "quiet w (snd (record_success co store_records held voyage w))"
proof -
  show "quiet w (snd (record_failure co store_records held e w))"
    unfolding record_failure_def
    by (intro bindIO_quiet clock_quiet assms) (auto simp: store_records_quiet split: sum.splits)
  show "quiet w (snd (record_success co store_records held voyage w))"
    unfolding record_success_def
    by (auto intro!: bindIO_quiet clock_quiet assms store_records_quiet split: option.splits)
qed

lemma declare_once_commits:
  assumes "wired co"
  shows "commits actor w (snd (declare_once co WorkflowAdapter store_records actor command w))"
proof -
  have started: "commits actor w1 (snd (declare_started co WorkflowAdapter store_records actor command held w1))" for held w1
  proof (cases "adapter_DeclareVoyage actor command w1")
    case (Pair r w2)
    then have "commits actor w1 w2" using adapter_commits(1) [of actor w1 command] by simp
    then show ?thesis
      using Pair record_outcome_quiet [OF assms]
      by (auto simp: declare_started_def WorkflowAdapter_def intro: commits_quiet split: sum.splits)
  qed
  have "commits actor w1 (snd (answer_decision co WorkflowAdapter store_records actor command x w1))" for x w1
    using started by (simp add: answer_decision_def returnIO_def split_def)
  then show ?thesis
    unfolding declare_once_def
    by (auto intro!: bindIO_commits clock_quiet assms store_records_quiet split: option.splits) (simp add: returnIO_def)
qed

lemma or_now_quiet: "wired co \<Longrightarrow> quiet w (snd (or_now co t w))"
  by (simp add: or_now_def clock_quiet)

lemma snd_outcome [simp]: "snd (outcome p) = snd p"
  by (simp add: outcome_def)

lemma ensure_commits: "(r = Inr () \<Longrightarrow> commits actor w (snd (m w))) \<Longrightarrow> commits actor w (snd (ensure r m w))"
  by (cases r) simp_all

lemma commits_return [simp]: "commits actor w (snd (returnIO r w))"
  by (simp add: returnIO_def)

lemma run_call_commits: "wired co \<Longrightarrow> commits actor w (snd (run_call co ctx_err actor call w))"
proof (cases call)
  case (CallDeclare c)
  assume "wired co"
  with CallDeclare show ?thesis
    by (auto simp: coordinator_Declare_def wired_def WorkflowAdapter_def [symmetric] intro!: ensure_commits declare_once_commits)
      (simp add: WorkflowAdapter_def adapter_commits)
qed (auto simp: coordinator_OpenInspection_def coordinator_PassInspection_def coordinator_Reserve_def coordinator_Move_def
    wired_def WorkflowAdapter_def adapter_commits intro!: ensure_commits bindIO_commits or_now_quiet)

lemma run_call_unauthorized:
  "Authorize actor (u_TenantID actor) (call_permission call) \<noteq> Inr () \<Longrightarrow> snd (run_call co ctx_err actor call w) = w"
  by (cases call; cases "Authorize actor (u_TenantID actor) (call_permission call)"; cases "coordinator_validate co")
    (auto simp: coordinator_Declare_def coordinator_OpenInspection_def coordinator_PassInspection_def coordinator_Reserve_def
      coordinator_Move_def)

text \<open>An error of a call that is not a declaration means that nothing was committed.\<close>

definition no_commit_on_error :: "('a result \<times> World) \<Rightarrow> World \<Rightarrow> bool" where
  "no_commit_on_error p w \<longleftrightarrow> (case p of (Inl e, w1) \<Rightarrow> w_db w1 = w_db w | _ \<Rightarrow> True)"

lemma no_commit_tx: "no_commit_on_error (run_tx f w) w"
  by (simp add: no_commit_on_error_def run_tx_def split: sum.splits prod.splits)

lemma no_commit_return: "no_commit_on_error (returnIO r w) w"
  by (simp add: no_commit_on_error_def returnIO_def split: sum.splits)

lemma no_commit_ensure: "no_commit_on_error (m w) w \<Longrightarrow> no_commit_on_error (ensure r m w) w"
  by (cases r) (simp_all add: no_commit_on_error_def)

lemma no_commit_bind:
  assumes "quiet w (snd (g w))" and "\<And>x w1. no_commit_on_error (f x w1) w1"
  shows "no_commit_on_error (bindIO g f w) w"
proof (cases "g w")
  case (Pair r w1)
  with assms(1) have "w_db w1 = w_db w" by (simp add: quiet_def)
  then show ?thesis
  proof (cases r)
    case (Inr x)
    with Pair \<open>w_db w1 = w_db w\<close> assms(2) [of x w1] show ?thesis
      by (auto simp: no_commit_on_error_def bindIO_def split: sum.splits prod.splits)
  qed (simp add: no_commit_on_error_def bindIO_def Pair)
qed

lemma no_commit_outcome: "no_commit_on_error p w \<Longrightarrow> no_commit_on_error (outcome p) w"
  by (cases p; cases "fst p") (auto simp: no_commit_on_error_def outcome_def)

lemma run_call_error:
  assumes "wired co" and "\<nexists>c. call = CallDeclare c"
  shows "no_commit_on_error (run_call co ctx_err actor call w) w"
proof -
  have wf: "the (co_Workflow co) = WorkflowAdapter" using assms(1) by (simp add: wired_def)
  show ?thesis
    using assms(2)
    by (cases call)
      (auto simp: coordinator_OpenInspection_def coordinator_PassInspection_def coordinator_Reserve_def coordinator_Move_def wf
        WorkflowAdapter_def adapter_OpenInspection_def adapter_PassInspectionAndRelease_def adapter_ReservePassage_def adapter_MovePassage_def
        intro!: no_commit_outcome no_commit_ensure no_commit_bind or_now_quiet [OF assms(1)] no_commit_tx no_commit_return)
qed

text \<open>
  C5: The service is a front of the store's transactions. Whatever a call of the coordinator returns, it has moved
  the database by one committed transaction of the store at most, and only for a user whose role has the
  call's permission; so a database that the transactions can reach stays one. A call that returns an
  error has committed nothing, except a declaration, which may have been committed before its answer could be
  recorded.
\<close>

theorem service_refines_store:
  assumes "wired co" and "run_call co ctx_err actor call w = (r, w1)"
  shows "(w_db w1 = w_db w \<or>
      (\<exists>t. db_step (w_stored w) actor t (w_db w) (w_db w1)) \<and> Authorize actor (u_TenantID actor) (call_permission call) = Inr ()) \<and>
    (reach (w_stored w) (\<lambda>_. True) (w_db w) \<longrightarrow> reach (w_stored w1) (\<lambda>_. True) (w_db w1)) \<and>
    ((\<exists>e. r = Inl e) \<and> (\<nexists>c. call = CallDeclare c) \<longrightarrow> w_db w1 = w_db w)"
proof (rule conj3I)
  have commit: "commits actor w w1" using run_call_commits [OF assms(1)] assms(2) by (metis snd_conv)
  have unauthorized: "w1 = w" if "Authorize actor (u_TenantID actor) (call_permission call) \<noteq> Inr ()"
    using run_call_unauthorized [OF that] assms(2) by (metis snd_conv)
  show "w_db w1 = w_db w \<or>
      (\<exists>t. db_step (w_stored w) actor t (w_db w) (w_db w1)) \<and> Authorize actor (u_TenantID actor) (call_permission call) = Inr ()"
    using commit unauthorized unfolding commits_def by blast
  show "reach (w_stored w) (\<lambda>_. True) (w_db w) \<longrightarrow> reach (w_stored w1) (\<lambda>_. True) (w_db w1)"
    using commit unfolding commits_def by (metis reach_step)
  show "(\<exists>e. r = Inl e) \<and> (\<nexists>c. call = CallDeclare c) \<longrightarrow> w_db w1 = w_db w"
    using run_call_error [OF assms(1), of call ctx_err actor w] assms(2) by (auto simp: no_commit_on_error_def)
qed

text \<open>
  A declaration is audited at its ETA less 12 hours, and the chain of the tenant takes no event before its last one. So
  a declaration that follows one of a later arrival is refused, and the outcome of a batch depends on the order in
  which its workers happen to run.
\<close>

lemma declarations_follow_arrivals:
  assumes "adapter_DeclareVoyage actor command w = (Inr v, w1)"
  shows "e_ID (last_event (u_TenantID actor) (w_db w)) = [] \<or>
    e_OccurredAt (last_event (u_TenantID actor) (w_db w)) \<le> dc_ETA command + (- 12) * Hour"
proof -
  from assms obtain q db where run: "store_DeclareVoyage (w_stored w) actor q (w_db w) = Inr (v, db)"
    and q: "dr_At q = dc_ETA command + (- 12) * Hour" by (auto simp: adapter_DeclareVoyage_def run_tx_Inr)
  from DeclareVoyage_effect [OF run] obtain c where "audited (w_stored w) c (w_db w) db" "e_TenantID c = u_TenantID actor"
    "e_OccurredAt c = dr_At q" by blast
  then obtain e where "Append (last_event (u_TenantID actor) (w_db w)) c = Inr e" "e_OccurredAt c = dr_At q" by (auto simp: audited_def)
  from AppendD(10) [OF this(1)] this(2) q show ?thesis by auto
qed

section \<open>An example\<close>

definition example_coordinator :: "World Coordinator" where
  "example_coordinator = \<lparr>co_Voyages = True, co_Workflow = Some WorkflowAdapter, co_Idempotent = Some store_records,
    co_Clock = Some SystemClock, co_RecordTTL = 0, co_StaleAfter = Minute\<rparr>"

definition example_world :: World where
  "example_world = \<lparr>w_stored = (\<lambda>t. t), w_db = empty_db, w_idem = [], w_now = (\<lambda>n. 2000 + int n), w_tick = 0\<rparr>"

definition example_command :: DeclareVoyageCommand where
  "example_command = \<lparr>dc_ID = ''voyage-1'', dc_VesselIMO = ''IMO9321483'', dc_VesselName = ''Azul'', dc_OriginPort = ''CNSHA'',
    dc_DestinationPort = ''PABLB'', dc_ETA = 13 * Hour, dc_Items = example_cargo, dc_IdempotencyKey = ''key-00001''\<rparr>"

lemma example_wired: "wired example_coordinator"
  by (simp add: wired_def example_coordinator_def)

theorem service_refines_store_witness:
  "\<exists>r w1. run_call example_coordinator None example_user (CallMove \<lparr>mc_ReservationID = ''r'', mc_Next = SlotEntered,
      mc_OccurredAt = 1, mc_Note = []\<rparr>) example_world = (r, w1) \<and> reach (w_stored w1) (\<lambda>_. True) (w_db w1)"
proof -
  let ?call = "CallMove \<lparr>mc_ReservationID = ''r'', mc_Next = SlotEntered, mc_OccurredAt = 1, mc_Note = []\<rparr>"
  obtain r w1 where run: "run_call example_coordinator None example_user ?call example_world = (r, w1)" by fastforce
  have "reach (w_stored example_world) (\<lambda>_. True) (w_db example_world)" by (simp add: example_world_def reach_empty)
  with service_refines_store [OF example_wired run, THEN conjunct2, THEN conjunct1] run show ?thesis by blast
qed

lemma example_voyage_declared:
  "\<exists>v db. adapter_DeclareVoyage example_user example_command w = (Inr v, w\<lparr>w_db := db\<rparr>) \<and> voyage_json v \<noteq> None"
  if "w_db w = empty_db"
proof -
  let ?q = "\<lparr>dr_ID = ''voyage-1'', dr_VesselIMO = ''IMO9321483'', dr_VesselName = ''Azul'', dr_OriginPort = ''CNSHA'',
    dr_DestinationPort = ''PABLB'', dr_ETA = 13 * Hour, dr_Items = example_cargo, dr_At = 13 * Hour + (- 12) * Hour\<rparr>"
  have "\<exists>v db. store_DeclareVoyage (w_stored w) example_user ?q empty_db = Inr (v, db)"
  proof (rule declare_on_empty)
    show "NewVoyage (dr_ID ?q) (u_TenantID example_user) (dr_VesselIMO ?q) (dr_VesselName ?q) (dr_OriginPort ?q)
        (dr_DestinationPort ?q) (dr_ETA ?q) = Inr (example_voyage\<lparr>v_ETA := 13 * Hour\<rparr>)" by code_simp
    show "valid_items (dr_Items ?q)" by code_simp
  qed (simp_all add: example_user_def)
  then obtain v db where run: "store_DeclareVoyage (w_stored w) example_user ?q empty_db = Inr (v, db)" by blast
  then have "v_ETA v = 13 * Hour" "v_DeclaredAt v = Some (13 * Hour + (- 12) * Hour)" "v_ClearedAt v = None"
    by (auto simp: store_DeclareVoyage_def bindR_Inr_iff NewVoyage_def Declare_def split: if_splits)
  moreover have "0 \<le> year_of (13 * Hour)" "year_of (13 * Hour) < 10000" "0 \<le> year_of (13 * Hour + (- 12) * Hour)"
    "year_of (13 * Hour + (- 12) * Hour) < 10000" by code_simp+
  ultimately have "voyage_json v \<noteq> None" by (simp add: voyage_json_def json_time_def json_pointer_def)
  moreover have "adapter_DeclareVoyage example_user example_command w = (Inr v, w\<lparr>w_db := db\<rparr>)"
    using run that by (simp add: adapter_DeclareVoyage_def run_tx_def example_command_def)
  ultimately show ?thesis by blast
qed

lemma hex_not_space: "c \<in> set (sha256_hex m) \<Longrightarrow> \<not> is_space c"
proof -
  have "\<forall>n\<in>set [0..<16]. \<not> is_space (hex_digit n)" by code_simp
  then have "\<not> is_space (hex_digit n)" if "n < 16" for n using that by simp
  then have "\<forall>c\<in>set (hex_byte b). \<not> is_space c" for b by (simp add: hex_byte_def less_mult_imp_div_less)
  then show "c \<in> set (sha256_hex m) \<Longrightarrow> \<not> is_space c" by (auto simp: sha256_hex_def hex_encode_def)
qed

lemma Fingerprint_trim [simp]: "trim_space (Fingerprint m p b) = Fingerprint m p b" and length_Fingerprint [simp]: "length (Fingerprint m p b) = 64"
  by (simp_all add: Fingerprint_def trim_space_self [OF hex_not_space])

lemma example_declared: "\<exists>v w1. coordinator_Declare example_coordinator None example_user example_command example_world = (Inr v, w1)"
proof -
  have "0 \<le> year_of (dc_ETA example_command) \<and> year_of (dc_ETA example_command) < 10000" by code_simp
  then have "json_time (dc_ETA example_command) \<noteq> None" by (simp add: json_time_def)
  then obtain j where j: "declare_json example_command = Some j" by (auto simp: declare_json_def)
  have checks: "coordinator_validate example_coordinator = Inr ()" by (simp add: coordinator_validate_def example_coordinator_def)
  have auth: "Authorize example_user (u_TenantID example_user) PermissionVoyageDeclare = Inr ()" by code_simp
  have trims: "trim_space (u_TenantID example_user) = ''panama-east''" "trim_space (dc_IdempotencyKey example_command) = ''key-00001''"
    "trim_space ''voyage.declare'' = ''voyage.declare''" by code_simp+
  define c where "c = \<lparr>k_TenantID = ''panama-east'', k_Key = ''key-00001'', k_Operation = ''voyage.declare'',
    k_RequestHash = Fingerprint ''POST'' ''/v1/voyages'' (json_encode j), k_Status = StatusProcessing, k_ResponseCode = 0,
    k_ResponseBody = [], k_FailureMessage = [], k_CreatedAt = 2000, k_UpdatedAt = 2000, k_ExpiresAt = 2000 + 24 * Hour, k_Version = 1\<rparr>"
  have c: "declaration_record example_user example_command (json_encode j) 2000 (record_ttl example_coordinator) = Inr c"
    by (simp add: declaration_record_def NewRecord_def trims c_def record_ttl_def example_coordinator_def Let_def)
  have row: "new_row (\<lambda>t. t) c = c" by (simp add: new_row_def c_def)
  have beg: "BeginIdempotent (\<lambda>t. t) c Minute [] = Inr ((DecisionStart, c), [c])"
    by (simp add: BeginIdempotent_def getIdempotencyTx_def upsert_record_def row Let_def) (simp add: c_def)
  let ?co = example_coordinator
  define w1 where "w1 = example_world\<lparr>w_tick := 1\<rparr>"
  define w2 where "w2 = w1\<lparr>w_idem := [c]\<rparr>"
  have now1: "clock_Now ?co example_world = (Inr 2000, w1)"
    by (simp add: clock_Now_def example_coordinator_def SystemClock_def example_world_def w1_def)
  have begun: "ir_BeginIdempotent store_records c (co_StaleAfter ?co) w1 = (Inr (DecisionStart, c), w2)"
    using beg by (simp add: store_records_def run_idem_def w2_def w1_def example_world_def example_coordinator_def)
  obtain v db jv where v: "adapter_DeclareVoyage example_user example_command w2 = (Inr v, w2\<lparr>w_db := db\<rparr>)" and jv: "voyage_json v = Some jv"
    using example_voyage_declared [of w2] by (auto simp: example_world_def w2_def w1_def)
  define w3 where "w3 = w2\<lparr>w_db := db\<rparr>"
  have wf: "wf_DeclareVoyage WorkflowAdapter example_user example_command w2 = (Inr v, w3)" using v by (simp add: WorkflowAdapter_def w3_def)
  define w4 where "w4 = w3\<lparr>w_tick := 2\<rparr>"
  have now2: "clock_Now ?co w3 = (Inr 2001, w4)"
    by (simp add: clock_Now_def example_coordinator_def SystemClock_def example_world_def w1_def w2_def w3_def w4_def numeral_2_eq_2)
  have two: "inc64 1 = 2" by (simp add: inc64_id in_int64_def min_int64_def max_int64_def)
  have compl: "Complete c 201 (json_encode jv) 2001 (k_Version c) =
      Inr (c\<lparr>k_Status := StatusCompleted, k_ResponseCode := 201, k_ResponseBody := json_encode jv, k_FailureMessage := [],
        k_UpdatedAt := 2001, k_Version := 2\<rparr>)" (is "_ = Inr ?r")
    by (simp add: Complete_def c_def two)
  have "\<exists>rows. CompleteIdempotent (\<lambda>t. t) ?r [c] = Inr rows"
    by (simp add: CompleteIdempotent_def update_record_def record_key_def Let_def) (simp add: c_def)
  then obtain rows where "CompleteIdempotent (\<lambda>t. t) ?r [c] = Inr rows" ..
  then have done1: "ir_CompleteIdempotent store_records ?r w4 = (Inr (), w4\<lparr>w_idem := rows\<rparr>)"
    by (simp add: store_records_def run_idem_def w4_def w3_def w2_def w1_def example_world_def)
  have success: "record_success ?co store_records c v w3 = (Inr v, w4\<lparr>w_idem := rows\<rparr>)"
    by (simp add: record_success_def jv bindIO_def now2 returnIO_def compl done1)
  have "declare_once ?co WorkflowAdapter store_records example_user example_command example_world = (Inr v, w4\<lparr>w_idem := rows\<rparr>)"
    by (simp add: declare_once_def j bindIO_def now1 returnIO_def c begun answer_decision_def declare_started_def wf success)
  moreover have "co_Workflow ?co = Some WorkflowAdapter" "co_Idempotent ?co = Some store_records"
    "dc_ETA example_command \<noteq> 0" "dc_Items example_command \<noteq> []" "dc_IdempotencyKey example_command \<noteq> []"
    by (simp_all add: example_coordinator_def example_command_def example_cargo_def)
  ultimately show ?thesis using checks auth by (simp add: coordinator_Declare_def)
qed

theorem repeated_declaration_is_replayed_witness:
  "\<exists>v w1 q. coordinator_Declare example_coordinator None example_user example_command example_world = (Inr v, w1) \<and>
    q \<in> set (w_idem w1) \<and> k_Status q = StatusCompleted"
proof -
  obtain v w1 where run: "coordinator_Declare example_coordinator None example_user example_command example_world = (Inr v, w1)"
    using example_declared by blast
  have "world_ok example_world" by (simp add: world_ok_def example_world_def mono_def)
  moreover have "dc_IdempotencyKey example_command \<noteq> []" by (simp add: example_command_def)
  ultimately show ?thesis using repeated_declaration_is_replayed [OF run _ example_wired] run by blast
qed

end
