(* ===== verification/Voyage_Query.thy ===== *)
theory Voyage_Query
  imports Voyage
begin

text \<open>
  \<^verbatim>\<open>internal/clearance/query.go\<close>: filtering voyages in memory, counting them by status and
  listing the delayed ones. A set of statuses is a list read by membership, the map of counts a map
  whose default is absence.
\<close>

record VoyageFilter =
  vf_Statuses :: "VoyageStatus list"
  vf_Port :: string
  vf_ETAFrom :: "Time option"
  vf_ETATo :: "Time option"
  vf_VesselText :: string

definition valid_statuses :: "VoyageStatus list" where
  "valid_statuses = [VoyageDraft, VoyageDeclared, VoyageHeld, VoyageCleared, VoyageScheduled, VoyageInTransit,
    VoyageCompleted, VoyageCancelled]"

definition voyage_filter_Validate :: "VoyageFilter \<Rightarrow> unit result" where
  "voyage_filter_Validate f =
    (if \<not> set (vf_Statuses f) \<subseteq> set valid_statuses then Inl (errorf ErrInvalid ''voyage status'')
     else if (case (vf_ETAFrom f, vf_ETATo f) of (Some from, Some to) \<Rightarrow> to < from | _ \<Rightarrow> False)
     then Inl (errorf ErrInvalid ''ETA range'')
     else refuse_if (100 < length (vf_VesselText f)) (errorf ErrInvalid ''vessel query''))"

text \<open>One round of the filtering loop: the voyage passes every \<^verbatim>\<open>continue\<close>.\<close>

definition voyage_matches :: "VoyageFilter \<Rightarrow> Voyage \<Rightarrow> bool" where
  "voyage_matches f v \<longleftrightarrow>
    (let port = to_upper (trim_space (vf_Port f)); text = to_lower (trim_space (vf_VesselText f)) in
     \<not> (vf_Statuses f \<noteq> [] \<and> v_Status v \<notin> set (vf_Statuses f)) \<and>
     \<not> (port \<noteq> [] \<and> v_OriginPort v \<noteq> port \<and> v_DestinationPort v \<noteq> port) \<and>
     \<not> (case vf_ETAFrom f of None \<Rightarrow> False | Some from \<Rightarrow> v_ETA v < from) \<and>
     \<not> (case vf_ETATo f of None \<Rightarrow> False | Some to \<Rightarrow> to < v_ETA v) \<and>
     \<not> (text \<noteq> [] \<and> \<not> contains_str (to_lower (v_VesselName v)) text \<and>
        \<not> contains_str (to_lower (v_VesselIMO v)) text))"

abbreviation eta_less :: "Voyage \<Rightarrow> Voyage \<Rightarrow> bool" where
  "eta_less \<equiv> lex2 v_ETA v_ID"

definition FilterVoyages :: "Voyage list \<Rightarrow> VoyageFilter \<Rightarrow> Voyage list result" where
  "FilterVoyages voyages f =
    bindR (voyage_filter_Validate f) (\<lambda>_. Inr (sort_slice eta_less (filter (voyage_matches f) voyages)))"

definition count_status :: "(VoyageStatus \<rightharpoonup> int) \<Rightarrow> Voyage \<Rightarrow> (VoyageStatus \<rightharpoonup> int)" where
  "count_status counts v =
    counts(v_Status v \<mapsto> inc64 (case counts (v_Status v) of None \<Rightarrow> 0 | Some n \<Rightarrow> n))"

definition GroupVoyagesByStatus :: "Voyage list \<Rightarrow> (VoyageStatus \<rightharpoonup> int)" where
  "GroupVoyagesByStatus voyages = foldl count_status Map.empty voyages"

definition DelayedVoyages :: "Voyage list \<Rightarrow> Time \<Rightarrow> Duration \<Rightarrow> Voyage list" where
  "DelayedVoyages voyages now grace =
    (let threshold = now + wrap64 (- (if grace < 0 then 0 else grace))
     in sort_slice eta_less (filter (\<lambda>v. v_ETA v < threshold \<and> v_Status v \<noteq> VoyageCompleted \<and>
       v_Status v \<noteq> VoyageCancelled) voyages))"

section \<open>Lemmas\<close>

lemma FilterVoyages_Inr_iff:
  "FilterVoyages vs f = Inr out \<longleftrightarrow> voyage_filter_Validate f = Inr () \<and>
    out = sort_slice eta_less (filter (voyage_matches f) vs)"
  by (auto simp: FilterVoyages_def bindR_Inr_iff)

lemma group_counts:
  assumes "int (length vs) \<le> max_int64"
  shows "GroupVoyagesByStatus vs s =
    (if s \<in> v_Status ` set vs then Some (int (length (filter (\<lambda>v. v_Status v = s) vs))) else None)"
  using assms
proof (induction vs rule: rev_induct)
  case Nil
  then show ?case by (simp add: GroupVoyagesByStatus_def)
next
  case (snoc v vs)
  have step: "GroupVoyagesByStatus (vs @ [v]) = count_status (GroupVoyagesByStatus vs) v"
    by (simp add: GroupVoyagesByStatus_def)
  have "length (filter (\<lambda>u. v_Status u = v_Status v) vs) \<le> length vs" by (rule length_filter_le)
  moreover have "int (length vs) < max_int64" using snoc.prems by simp
  ultimately have "int (length (filter (\<lambda>u. v_Status u = v_Status v) vs)) < max_int64" by linarith
  then have "inc64 (int (length (filter (\<lambda>u. v_Status u = v_Status v) vs))) =
      int (length (filter (\<lambda>u. v_Status u = v_Status v) vs)) + 1"
    by (intro inc64_id) (simp_all add: in_int64_def min_int64_def)
  moreover have "length (filter (\<lambda>u. v_Status u = v_Status v) vs) = 0"
    if "v_Status v \<notin> v_Status ` set vs" using that by (simp add: filter_empty_conv) (metis imageI)
  ultimately show ?case using snoc by (auto simp: step count_status_def)
qed

text \<open>Every voyage is counted once: the counts add up to the number of voyages.\<close>

lemma sum_group_counts:
  assumes "int (length vs) \<le> max_int64"
  shows "(\<Sum>s\<in>v_Status ` set vs. the (GroupVoyagesByStatus vs s)) = int (length vs)"
proof -
  have "count (image_mset v_Status (mset vs)) s = length (filter (\<lambda>v. v_Status v = s) vs)" for s
    by (induction vs) auto
  then have "(\<Sum>s\<in>v_Status ` set vs. the (GroupVoyagesByStatus vs s)) =
      (\<Sum>s\<in>v_Status ` set vs. int (count (mset (map v_Status vs)) s))"
    using group_counts [OF assms] by (intro sum.cong) simp_all
  also have "\<dots> = int (size (mset (map v_Status vs)))"
    by (simp add: size_multiset_overloaded_eq)
  finally show ?thesis by simp
qed

end
