(* ===== verification/Audit_Query.thy ===== *)
theory Audit_Query
  imports Audit_Chain
begin

text \<open>
  \<^verbatim>\<open>internal/audit/query.go\<close> and \<^verbatim>\<open>redaction.go\<close>: selecting audit
  events in memory, summarising them and hiding the values of sensitive details. The maps of counts are
  maps whose default is absence; the map of details that a redaction builds has the keys of its argument.
  The theorems: after a verified chain has been read up to a sequence number, the filter returns exactly
  the rest of it; the summary counts every event once; a redaction lets no sensitive value through.
\<close>

record AuditFilter =
  af_ActorID :: string
  af_Action :: string
  af_ObjectID :: string
  af_Outcome :: string
  af_From :: "Time option"
  af_To :: "Time option"
  af_Sequence :: int

definition no_filter :: AuditFilter where
  "no_filter = \<lparr>af_ActorID = [], af_Action = [], af_ObjectID = [], af_Outcome = [], af_From = None, af_To = None,
    af_Sequence = 0\<rparr>"

definition audit_filter_Validate :: "AuditFilter \<Rightarrow> unit result" where
  "audit_filter_Validate f =
    (if af_Sequence f < 0 then Inl (errorf ErrInvalid ''audit sequence'')
     else refuse_if (case (af_From f, af_To f) of (Some from, Some to) \<Rightarrow> to < from | _ \<Rightarrow> False)
       (errorf ErrInvalid ''audit date range''))"

text \<open>One round of the loop: the event passes every \<^verbatim>\<open>continue\<close>.\<close>

definition event_matches :: "AuditFilter \<Rightarrow> Event \<Rightarrow> bool" where
  "event_matches f e \<longleftrightarrow>
    \<not> (af_ActorID f \<noteq> [] \<and> e_ActorID e \<noteq> af_ActorID f) \<and>
    \<not> (trim_space (af_Action f) \<noteq> [] \<and> e_Action e \<noteq> trim_space (af_Action f)) \<and>
    \<not> (af_ObjectID f \<noteq> [] \<and> e_ObjectID e \<noteq> af_ObjectID f) \<and>
    \<not> (af_Outcome f \<noteq> [] \<and> e_Outcome e \<noteq> af_Outcome f) \<and>
    \<not> (0 < af_Sequence f \<and> e_Sequence e \<le> af_Sequence f) \<and>
    \<not> (case af_From f of None \<Rightarrow> False | Some from \<Rightarrow> e_OccurredAt e < from) \<and>
    \<not> (case af_To f of None \<Rightarrow> False | Some to \<Rightarrow> to < e_OccurredAt e)"

text \<open>The clone shares no map with its original; as a value it is the original.\<close>

definition cloneEvent :: "Event \<Rightarrow> Event" where
  "cloneEvent e = e\<lparr>e_Details := map (\<lambda>(key, v). (key, v)) (e_Details e)\<rparr>"

definition FilterEvents :: "Event list \<Rightarrow> AuditFilter \<Rightarrow> Event list result" where
  "FilterEvents events f =
    bindR (audit_filter_Validate f) (\<lambda>_.
      Inr (sort_slice (lex2 e_Sequence e_ID) (map cloneEvent (filter (event_matches f) events))))"

record Summary =
  s_Total :: int
  s_FirstAt :: "Time option"
  s_LastAt :: "Time option"
  s_ByAction :: "string \<rightharpoonup> int"
  s_ByOutcome :: "string \<rightharpoonup> int"
  s_UniqueActors :: int

definition bump :: "(string \<rightharpoonup> int) \<Rightarrow> string \<Rightarrow> string \<rightharpoonup> int" where
  "bump counts k = counts(k \<mapsto> inc64 (case counts k of None \<Rightarrow> 0 | Some n \<Rightarrow> n))"

fun summarize_step :: "Summary \<times> string set \<Rightarrow> Event \<Rightarrow> Summary \<times> string set" where
  "summarize_step (s, actors) e =
    (s\<lparr>s_ByAction := bump (s_ByAction s) (e_Action e),
       s_ByOutcome := bump (s_ByOutcome s) (e_Outcome e),
       s_FirstAt := (case s_FirstAt s of
           None \<Rightarrow> Some (e_OccurredAt e)
         | Some first \<Rightarrow> if e_OccurredAt e < first then Some (e_OccurredAt e) else Some first),
       s_LastAt := (case s_LastAt s of
           None \<Rightarrow> Some (e_OccurredAt e)
         | Some latest \<Rightarrow> if latest < e_OccurredAt e then Some (e_OccurredAt e) else Some latest)\<rparr>,
     insert (e_ActorID e) actors)"

definition Summarize :: "Event list \<Rightarrow> Summary" where
  "Summarize events =
    (let (s, actors) = foldl summarize_step
       (\<lparr>s_Total = int (length events), s_FirstAt = None, s_LastAt = None, s_ByAction = Map.empty,
         s_ByOutcome = Map.empty, s_UniqueActors = 0\<rparr>, {}) events
     in s\<lparr>s_UniqueActors := int (card actors)\<rparr>)"

section \<open>Redaction\<close>

definition sensitiveKeys :: "string list" where
  "sensitiveKeys = [''authorization'', ''password'', ''secret'', ''session'', ''token'']"

definition isSensitive :: "string \<Rightarrow> bool" where
  "isSensitive key \<longleftrightarrow> key \<in> set sensitiveKeys \<or>
    list_ex (\<lambda>candidate. has_suffix key (CHR ''_'' # candidate) \<or> has_prefix key (candidate @ ''_'')) sensitiveKeys"

definition RedactDetails :: "(string \<times> string) list \<Rightarrow> (string \<times> string) list" where
  "RedactDetails details =
    map (\<lambda>(key, v). (key, if isSensitive (to_lower (trim_space key)) then ''[redacted]'' else trim_space v)) details"

section \<open>The filter on a verified chain\<close>

lemma cloneEvent_id [simp]: "cloneEvent e = e"
  by (simp add: cloneEvent_def split_def)

lemma FilterEvents_Inr_iff:
  "FilterEvents es f = Inr out \<longleftrightarrow> audit_filter_Validate f = Inr () \<and>
    out = sort_slice (lex2 e_Sequence e_ID) (filter (event_matches f) es)"
proof -
  have "map cloneEvent xs = xs" for xs by (induction xs) simp_all
  then show ?thesis by (auto simp: FilterEvents_def bindR_Inr_iff)
qed

lemma linked_after: "linked h n es \<Longrightarrow> filter (\<lambda>e. n + int k < e_Sequence e) es = drop k es"
proof (induction es arbitrary: h n k)
  case (Cons e es)
  then have e: "e_Sequence e = n + 1" and rest: "linked (e_Hash e) (n + 1) es" unfolding linked.simps by blast+
  show ?case
  proof (cases k)
    case 0
    have "\<forall>x\<in>set es. n + 1 < e_Sequence x"
    proof
      fix x assume "x \<in> set es"
      then have "e_Sequence x \<in> set (map (\<lambda>i. n + 1 + 1 + int i) [0..<length es])"
        unfolding linked_sequences [OF rest, symmetric] by simp
      then show "n + 1 < e_Sequence x" by auto
    qed
    then have "filter (\<lambda>x. n < e_Sequence x) es = es" by (auto simp: filter_id_conv)
    with 0 e show ?thesis by simp
  next
    case (Suc j)
    with Cons.IH [OF rest, of j] e show ?thesis by (simp add: add.assoc)
  qed
qed simp

lemma lex2_same_as_by_key:
  assumes "sorted_wrt (\<lambda>x y. k x < k y) xs"
  shows "sort_slice (lex2 k l) xs = xs"
  by (rule sort_slice_ordered, rule sorted_wrt_mono_rel [OF _ assms]) (auto simp: lex2_def)

lemma linked_increasing: "linked h n es \<Longrightarrow> sorted_wrt (\<lambda>x y. e_Sequence x < e_Sequence y) es"
  using linked_sequences [of h n es] by (simp add: sorted_wrt_iff_nth_less) (metis (no_types, lifting) add_strict_left_mono
    length_map less_trans nth_map of_nat_less_iff add_0 nth_upt)

lemma linked_lex_sort:
  assumes "linked h n fs" and "mset es = mset fs"
  shows "sort_slice (lex2 e_Sequence e_ID) es = fs"
proof -
  have "inj_on (\<lambda>e. (e_Sequence e, e_ID e)) (set fs)"
    using linked_distinct [OF assms(1)] by (auto simp: distinct_map inj_on_def)
  from sort_slice_lex2_perm [OF assms(2) this] show ?thesis
    by (simp add: lex2_same_as_by_key [OF linked_increasing [OF assms(1)]])
qed

section \<open>Counts\<close>

lemma bump_counts:
  assumes "int (length xs) \<le> max_int64"
  shows "foldl bump Map.empty xs k = (if k \<in> set xs then Some (int (count_list xs k)) else None)"
  using assms
proof (induction xs rule: rev_induct)
  case (snoc x xs)
  have "count_list xs x \<le> length xs" by (rule count_le_length)
  then have "int (count_list xs x) < max_int64" using snoc.prems by simp
  then have "inc64 (int (count_list xs x)) = int (count_list xs x) + 1"
    by (intro inc64_id) (simp_all add: in_int64_def min_int64_def)
  moreover have "count_list xs x = 0" if "x \<notin> set xs" using that by (simp add: count_list_0_iff)
  ultimately show ?case using snoc by (auto simp: bump_def)
qed simp

lemma summarize_fold:
  "s_ByAction (fst (foldl summarize_step (s, A) es)) = foldl bump (s_ByAction s) (map e_Action es)"
  "s_ByOutcome (fst (foldl summarize_step (s, A) es)) = foldl bump (s_ByOutcome s) (map e_Outcome es)"
  "s_Total (fst (foldl summarize_step (s, A) es)) = s_Total s"
  "snd (foldl summarize_step (s, A) es) = A \<union> e_ActorID ` set es"
proof (induction es rule: rev_induct)
  case (snoc e es)
  obtain t B where "foldl summarize_step (s, A) es = (t, B)" by fastforce
  note t = this
  { case 1 with snoc t show ?case by simp }
  { case 2 with snoc t show ?case by simp }
  { case 3 with snoc t show ?case by simp }
  { case 4 with snoc t show ?case by auto }
qed simp_all

lemma summarize_times:
  assumes "s_FirstAt s = None" and "s_LastAt s = None" and "es \<noteq> []"
  shows "s_FirstAt (fst (foldl summarize_step (s, A) es)) = Some (Min (e_OccurredAt ` set es)) \<and>
    s_LastAt (fst (foldl summarize_step (s, A) es)) = Some (Max (e_OccurredAt ` set es))"
  using assms(3)
proof (induction es rule: rev_nonempty_induct)
  case (single e)
  then show ?case using assms by simp
next
  case (snoc e es)
  obtain t B where t: "foldl summarize_step (s, A) es = (t, B)" by fastforce
  have minmax: "min x m = (if x < m then x else m) \<and> max x n = (if n < x then x else n)" for x m n :: int by auto
  have "Min (insert x X) = (if x < Min X then x else Min X) \<and> Max (insert x X) = (if Max X < x then x else Max X)"
    if "finite X" "X \<noteq> {}" for x :: int and X
    unfolding Min_insert [OF that] Max_insert [OF that] by (rule minmax)
  from this [of "e_OccurredAt ` set es" "e_OccurredAt e"] snoc show ?case by (simp add: t)
qed

text \<open>
  A client that has read an audit trail up to the k-th event gets the rest of it, in order and with
  nothing skipped or repeated, from FilterEvents with that sequence number: on the events of a chain that
  Verify accepts, in whatever order they are given, the result is the chain without its first k events.
\<close>

theorem FilterEvents_resumes:
  assumes "Verify es = Inr ()" and "int (length es) \<le> max_int64"
  shows "FilterEvents es (no_filter\<lparr>af_Sequence := int k\<rparr>) = Inr (drop k (sort_slice (by_key e_Sequence) es))"
proof -
  let ?fs = "sort_slice (by_key e_Sequence) es" and ?f = "no_filter\<lparr>af_Sequence := int k\<rparr>"
  have chain: "linked [] 0 ?fs" using assms by (simp add: Verify_iff_linked)
  then have "filter (\<lambda>e. 0 < e_Sequence e) ?fs = ?fs" using linked_after [OF chain, of 0] by simp
  then have pos: "0 < e_Sequence e" if "e \<in> set ?fs" for e using that by (simp only: filter_id_conv)
  have "event_matches ?f e \<longleftrightarrow> int k < e_Sequence e" if "e \<in> set es" for e
    using pos [of e] that by (auto simp: event_matches_def no_filter_def)
  then have "filter (event_matches ?f) es = filter (\<lambda>e. 0 + int k < e_Sequence e) es" by (auto cong: filter_cong)
  moreover have "sort_slice (lex2 e_Sequence e_ID) (filter (\<lambda>e. 0 + int k < e_Sequence e) es) = drop k ?fs"
  proof -
    have rest: "linked (head_hash [] (take k ?fs)) (int (length (take k ?fs))) (drop k ?fs)"
      using chain linked_append [of "[]" 0 "take k ?fs" "drop k ?fs"] by simp
    have "mset (filter (\<lambda>e. 0 + int k < e_Sequence e) es) = mset (drop k ?fs)"
      unfolding linked_after [OF chain, symmetric] by (simp add: mset_filter)
    from linked_lex_sort [OF rest this] show ?thesis .
  qed
  moreover have "audit_filter_Validate ?f = Inr ()" by (simp add: audit_filter_Validate_def no_filter_def)
  ultimately show ?thesis by (simp add: FilterEvents_Inr_iff)
qed

theorem FilterEvents_resumes_witness:
  "\<exists>e. Append zero_event example_event = Inr e \<and> FilterEvents [e] (no_filter\<lparr>af_Sequence := int 0\<rparr>) = Inr [e] \<and>
    FilterEvents [e] (no_filter\<lparr>af_Sequence := int 1\<rparr>) = Inr []"
proof -
  obtain e where app: "Append zero_event example_event = Inr e" using Append_example by blast
  then have "linked [] 0 [e]" using Append_extends [of "[]" example_event e] by (simp add: max_int64_def)
  then have ok: "Verify [e] = Inr ()" by (intro Verify_linked) (simp_all add: max_int64_def)
  then show ?thesis using app FilterEvents_resumes [OF ok, of 0] FilterEvents_resumes [OF ok, of 1] by (simp add: max_int64_def)
qed

text \<open>
  Summarize counts every event once: the total is the number of events (below the 64-bit bound), an action
  or outcome that occurs is counted as often as it occurs and no other has a count, the first and last
  instants are the extremes of the events', absent just when there is no event, and the actors are
  the distinct ones.
\<close>

lemma Summarize_correct:
  assumes "int (length es) \<le> max_int64"
  shows "s_Total (Summarize es) = int (length es) \<and>
    (\<forall>a. s_ByAction (Summarize es) a =
      (if a \<in> e_Action ` set es then Some (int (count_list (map e_Action es) a)) else None)) \<and>
    (\<forall>a. s_ByOutcome (Summarize es) a =
      (if a \<in> e_Outcome ` set es then Some (int (count_list (map e_Outcome es) a)) else None)) \<and>
    s_FirstAt (Summarize es) = (if es = [] then None else Some (Min (e_OccurredAt ` set es))) \<and>
    s_LastAt (Summarize es) = (if es = [] then None else Some (Max (e_OccurredAt ` set es))) \<and>
    s_UniqueActors (Summarize es) = int (card (e_ActorID ` set es))"
proof -
  let ?z = "\<lparr>s_Total = int (length es), s_FirstAt = None, s_LastAt = None, s_ByAction = Map.empty, s_ByOutcome = Map.empty,
    s_UniqueActors = 0\<rparr>"
  have sum: "Summarize es = (fst (foldl summarize_step (?z, {}) es))\<lparr>s_UniqueActors := int (card (e_ActorID ` set es))\<rparr>"
    by (simp add: Summarize_def Let_def split_def summarize_fold)
  show ?thesis
    unfolding sum using summarize_times [of ?z es "{}"] bump_counts [of "map e_Action es"] bump_counts [of "map e_Outcome es"] assms
    by (cases "es = []") (simp_all add: summarize_fold)
qed

text \<open>
  RedactDetails keeps the keys of the details, replaces the value of every sensitive key and only
  trims the others, and redacting twice is redacting once.
\<close>

lemma RedactDetails_correct:
  "map fst (RedactDetails ds) = map fst ds \<and>
   (\<forall>(k, v)\<in>set (RedactDetails ds). isSensitive (to_lower (trim_space k)) \<longrightarrow> v = ''[redacted]'') \<and>
   RedactDetails (RedactDetails ds) = RedactDetails ds"
  by (auto simp: RedactDetails_def)

end
