(* ===== verification/Store_Pages.thy ===== *)
theory Store_Pages
  imports Pagination Store_Query Voyage_Query Audit_Query
begin

text \<open>
  The paged lists of \<^verbatim>\<open>internal/store/query.go\<close> and
  \<^verbatim>\<open>audit_query.go\<close>: the SQL built from a filter and a page request is a filter over the
  rows, a sort by the ordering columns and a bound on their number. Both are listings in the sense of the
  locale of Pagination; the theorems compare what a client sees that follows the cursors with the filters
  in memory of \<^verbatim>\<open>clearance/query.go\<close> and \<^verbatim>\<open>audit/query.go\<close>.
  \<open>stored\<close> is, as in Store, the instant a \<^verbatim>\<open>timestamptz\<close> keeps.
\<close>

section \<open>Patterns\<close>

text \<open>
  \<^verbatim>\<open>LIKE\<close> with the backslash as its escape character. One character of a text is a byte
  with the continuation bytes of UTF-8 that follow it.
\<close>

definition continuation_byte :: "char \<Rightarrow> bool" where
  "continuation_byte c \<longleftrightarrow> CHR 0x80 \<le> c \<and> c \<le> CHR 0xBF"

fun like :: "string \<Rightarrow> string \<Rightarrow> bool" where
  "like [] s = (s = [])"
| "like (p # ps) s =
    (if p = CHR ''%'' then list_ex (\<lambda>n. like ps (drop n s)) [0..<Suc (length s)]
     else if p = CHR ''_'' then s \<noteq> [] \<and> like ps (dropWhile continuation_byte (tl s))
     else if p = CHR 0x5C then (case ps of [] \<Rightarrow> False | q # qs \<Rightarrow> s \<noteq> [] \<and> hd s = q \<and> like qs (tl s))
     else s \<noteq> [] \<and> hd s = p \<and> like ps (tl s))"

definition plain_text :: "string \<Rightarrow> bool" where
  "plain_text s \<longleftrightarrow> CHR ''%'' \<notin> set s \<and> CHR ''_'' \<notin> set s \<and> CHR 0x5C \<notin> set s"

lemma like_all [simp]: "like ''%'' s"
  by (auto simp: list_ex_iff intro: exI [of _ "length s"])

lemma like_prefix: "plain_text p \<Longrightarrow> like (p @ ''%'') s \<longleftrightarrow> prefix p s"
proof (induction p arbitrary: s)
  case (Cons c p)
  then have "c \<noteq> CHR ''%''" "c \<noteq> CHR ''_''" "c \<noteq> CHR 0x5C" by (auto simp: plain_text_def)
  then have "like ((c # p) @ ''%'') s \<longleftrightarrow> s \<noteq> [] \<and> hd s = c \<and> like (p @ ''%'') (tl s)" by (simp del: like.simps add: like.simps(2))
  with Cons show ?case by (cases s) (auto simp: plain_text_def)
qed (simp del: like.simps)

lemma like_contains:
  assumes "plain_text p"
  shows "like (CHR ''%'' # p @ ''%'') s \<longleftrightarrow> contains_str s p"
proof -
  have "like (CHR ''%'' # p @ ''%'') s \<longleftrightarrow> (\<exists>n\<le>length s. prefix p (drop n s))"
    by (simp add: list_ex_iff like_prefix [OF assms] atLeast0LessThan less_Suc_eq_le Bex_def del: upt_Suc)
  also have "\<dots> \<longleftrightarrow> sublist p s"
  proof
    assume "\<exists>n\<le>length s. prefix p (drop n s)"
    then show "sublist p s" by (metis append_take_drop_id prefix_def sublist_def)
  next
    assume "sublist p s"
    then obtain a b where s: "s = a @ p @ b" by (auto simp: sublist_def)
    show "\<exists>n\<le>length s. prefix p (drop n s)" by (rule exI [of _ "length a"]) (simp add: s)
  qed
  finally show ?thesis by (simp add: contains_str_def)
qed

section \<open>Listing voyages\<close>

definition voyage_where :: "(Time \<Rightarrow> Time) \<Rightarrow> string \<Rightarrow> VoyageFilter \<Rightarrow> Voyage \<Rightarrow> bool" where
  "voyage_where stored tenantID f v \<longleftrightarrow>
    v_TenantID v = tenantID \<and>
    (vf_Statuses f \<noteq> [] \<longrightarrow> v_Status v \<in> set (vf_Statuses f)) \<and>
    (vf_Port f \<noteq> [] \<longrightarrow>
      (let port = to_upper (trim_space (vf_Port f)) in v_OriginPort v = port \<or> v_DestinationPort v = port)) \<and>
    (case vf_ETAFrom f of None \<Rightarrow> True | Some from \<Rightarrow> stored from \<le> v_ETA v) \<and>
    (case vf_ETATo f of None \<Rightarrow> True | Some to \<Rightarrow> v_ETA v \<le> stored to) \<and>
    (vf_VesselText f \<noteq> [] \<longrightarrow>
      (let pattern = CHR ''%'' # to_lower (trim_space (vf_VesselText f)) @ ''%''
       in like pattern (to_lower (v_VesselName v)) \<or> like pattern (to_lower (v_VesselIMO v))))"

definition voyage_cursor :: "Voyage \<Rightarrow> Cursor" where
  "voyage_cursor v = \<lparr>cur_SortTime = v_ETA v, cur_ID = v_ID v\<rparr>"

definition settle_cursor :: "(Time \<Rightarrow> Time) \<Rightarrow> Cursor \<Rightarrow> Cursor" where
  "settle_cursor stored c = c\<lparr>cur_SortTime := stored (cur_SortTime c)\<rparr>"

text \<open>The clause on the cursor and its two arguments, shared by the two lists.\<close>

definition ListVoyages :: "(Time \<Rightarrow> Time) \<Rightarrow> string \<Rightarrow> VoyageFilter \<Rightarrow> PageRequest \<Rightarrow> DB \<Rightarrow> Voyage Page result" where
  "ListVoyages stored tenantID f request db =
    (if tenantID = [] then Inl (errorf ErrInvalid ''tenant'')
     else bindR (voyage_filter_Validate f) (\<lambda>_.
       bindR (NormalizePage request) (\<lambda>normalized.
       bindR (resume (settle_cursor stored) (pr_Cursor normalized)) (\<lambda>after.
         let items = take (nat (pr_Limit normalized + 1))
           (sort_slice (lex2 v_ETA v_ID)
             (filter (\<lambda>v. voyage_where stored tenantID f v \<and> after (voyage_cursor v)) (t_voyages db)))
         in BuildPage items (pr_Limit normalized) (Some voyage_cursor)))))"

section \<open>Listing audit events\<close>

definition event_where :: "(Time \<Rightarrow> Time) \<Rightarrow> string \<Rightarrow> AuditFilter \<Rightarrow> Event \<Rightarrow> bool" where
  "event_where stored tenantID f e \<longleftrightarrow>
    e_TenantID e = tenantID \<and>
    (af_ActorID f \<noteq> [] \<longrightarrow> e_ActorID e = trim_space (af_ActorID f)) \<and>
    (af_Action f \<noteq> [] \<longrightarrow> e_Action e = trim_space (af_Action f)) \<and>
    (af_ObjectID f \<noteq> [] \<longrightarrow> e_ObjectID e = trim_space (af_ObjectID f)) \<and>
    (af_Outcome f \<noteq> [] \<longrightarrow> e_Outcome e = trim_space (af_Outcome f)) \<and>
    (case af_From f of None \<Rightarrow> True | Some from \<Rightarrow> stored from \<le> e_OccurredAt e) \<and>
    (case af_To f of None \<Rightarrow> True | Some to \<Rightarrow> e_OccurredAt e \<le> stored to) \<and>
    (0 < af_Sequence f \<longrightarrow> af_Sequence f < e_Sequence e)"

definition event_cursor :: "Event \<Rightarrow> Cursor" where
  "event_cursor e = \<lparr>cur_SortTime = e_OccurredAt e, cur_ID = e_ID e\<rparr>"

definition ListAuditEvents :: "(Time \<Rightarrow> Time) \<Rightarrow> string \<Rightarrow> AuditFilter \<Rightarrow> PageRequest \<Rightarrow> DB \<Rightarrow> Event Page result" where
  "ListAuditEvents stored tenantID f request db =
    (if tenantID = [] then Inl (Sentinel ErrInvalid)
     else bindR (audit_filter_Validate f) (\<lambda>_.
       bindR (NormalizePage request) (\<lambda>normalized.
       bindR (resume (settle_cursor stored) (pr_Cursor normalized)) (\<lambda>after.
         let items = take (nat (pr_Limit normalized + 1))
           (sort_slice (lex2 e_OccurredAt e_ID)
             (filter (\<lambda>e. event_where stored tenantID f e \<and> after (event_cursor e)) (t_audit db)))
         in BuildPage items (pr_Limit normalized) (Some event_cursor)))))"

section \<open>Both are keyset listings\<close>

text \<open>A row that a page can end with: its cursor can be encoded and its instant is one the column keeps.\<close>

definition pageable :: "(Time \<Rightarrow> Time) \<Rightarrow> Cursor \<Rightarrow> bool" where
  "pageable stored c \<longleftrightarrow> cur_SortTime c \<noteq> 0 \<and> trim_space (cur_ID c) \<noteq> [] \<and> json_year (cur_SortTime c) \<and>
    stored (cur_SortTime c) = cur_SortTime c"

lemma pageable_encodes: "pageable stored c \<Longrightarrow> is_ok (EncodeCursor c)"
  by (auto simp: pageable_def json_year_def EncodeCursor_def cursor_json_def json_time_def)

lemma pageable_settled: "pageable stored c \<Longrightarrow> settle_cursor stored c = c"
  by (simp add: pageable_def settle_cursor_def)

lemma sort_slice_filter:
  assumes "inj_on (\<lambda>x. (k x, l x)) (set xs)"
  shows "sort_slice (lex2 k l) (filter P xs) = filter P (sort_slice (lex2 k l) xs)"
proof -
  have "ordered_by (lex2 k l) (filter P (sort_slice (lex2 k l) xs))"
    by (intro sorted_wrt_filter lex2.ordered_sort_slice) simp
  from sort_slice_ordered [OF this] have "filter P (sort_slice (lex2 k l) xs) = sort_slice (lex2 k l) (filter P (sort_slice (lex2 k l) xs))" ..
  also have "\<dots> = sort_slice (lex2 k l) (filter P xs)"
    by (rule sort_slice_lex2_perm) (use assms in \<open>auto simp: mset_filter inj_on_def\<close>)
  finally show ?thesis ..
qed

lemma sort_slice_strict:
  assumes "distinct xs" and "inj_on (\<lambda>x. (k x, l x)) (set xs)"
  shows "sorted_wrt (lex2 k l) (sort_slice (lex2 k l) xs)"
proof -
  have "ordered_by (lex2 k l) (sort_slice (lex2 k l) xs)" by (rule lex2.ordered_sort_slice) simp
  moreover have "lex2 k l x y" if "x \<in> set xs" "y \<in> set xs" "x \<noteq> y" "\<not> lex2 k l y x" for x y
    using that inj_onD [OF assms(2), of x y] by (force simp: lex2_def split: if_splits)
  ultimately show ?thesis
    using assms(1) unfolding sorted_wrt_iff_nth_less
    by (metis distinct_sort_slice length_sort_slice less_trans nth_eq_iff_index_eq nth_mem order_less_imp_not_eq set_sort_slice)
qed

lemma sort_slice_wrt_cursor:
  assumes "distinct xs" and "inj_on l (set xs)"
  shows "sorted_wrt (\<lambda>x y. cursor_before \<lparr>cur_SortTime = k x, cur_ID = l x\<rparr> \<lparr>cur_SortTime = k y, cur_ID = l y\<rparr>)
    (sort_slice (lex2 k l) xs)"
proof -
  have "inj_on (\<lambda>x. (k x, l x)) (set xs)" using assms(2) by (auto simp: inj_on_def)
  from sort_slice_strict [OF assms(1) this] show ?thesis
    by (rule sorted_wrt_mono_rel [rotated]) (simp add: cursor_before_def lex2_def)
qed

text \<open>What a listing depends on besides the page asked for: the column type, the tenant, the filter, the database.\<close>

fun voyages_ok :: "(Time \<Rightarrow> Time) \<times> string \<times> VoyageFilter \<times> DB \<Rightarrow> bool" where
  "voyages_ok (stored, tenantID, f, db) \<longleftrightarrow>
    tenantID \<noteq> [] \<and> voyage_filter_Validate f = Inr () \<and> distinct (map v_ID (t_voyages db)) \<and>
    list_all (\<lambda>v. pageable stored (voyage_cursor v)) (t_voyages db)"

fun voyages_rows :: "(Time \<Rightarrow> Time) \<times> string \<times> VoyageFilter \<times> DB \<Rightarrow> Voyage list" where
  "voyages_rows (stored, tenantID, f, db) = sort_slice (lex2 v_ETA v_ID) (filter (voyage_where stored tenantID f) (t_voyages db))"

fun events_ok :: "(Time \<Rightarrow> Time) \<times> string \<times> AuditFilter \<times> DB \<Rightarrow> bool" where
  "events_ok (stored, tenantID, f, db) \<longleftrightarrow>
    tenantID \<noteq> [] \<and> audit_filter_Validate f = Inr () \<and> distinct (map e_ID (t_audit db)) \<and>
    list_all (\<lambda>e. pageable stored (event_cursor e)) (t_audit db)"

fun events_rows :: "(Time \<Rightarrow> Time) \<times> string \<times> AuditFilter \<times> DB \<Rightarrow> Event list" where
  "events_rows (stored, tenantID, f, db) = sort_slice (lex2 e_OccurredAt e_ID) (filter (event_where stored tenantID f) (t_audit db))"

lemma distinct_map_filter_inj: "distinct (map f xs) \<Longrightarrow> distinct (filter P xs) \<and> inj_on f (set (filter P xs))"
  by (auto simp: distinct_map inj_on_def)

text \<open>The two halves of the where clause, the filter and the cursor, in either order of filtering and sorting.\<close>

lemma sorted_then_resumed:
  assumes "distinct (map l xs)"
  shows "sort_slice (lex2 k l) (filter (\<lambda>x. P x \<and> Q x) xs) = filter Q (sort_slice (lex2 k l) (filter P xs))"
proof -
  have "inj_on (\<lambda>x. (k x, l x)) (set (filter P xs))" using assms by (auto simp: distinct_map inj_on_def)
  from sort_slice_filter [OF this, of Q] show ?thesis by (simp add: conj_commute)
qed

interpretation voyages: keyset_listing voyages_ok voyages_rows voyage_cursor
  "\<lambda>(stored, _). settle_cursor stored" "\<lambda>(stored, tenantID, f, db) q. ListVoyages stored tenantID f q db"
proof
  fix s :: "(Time \<Rightarrow> Time) \<times> string \<times> VoyageFilter \<times> DB" and r q n
  obtain stored tenantID f db where s: "s = (stored, tenantID, f, db)" by (cases s)
  assume ok: "voyages_ok s"
  have ids: "distinct (map v_ID (t_voyages db))" using ok s by simp
  show "sorted_wrt (\<lambda>x y. cursor_before (voyage_cursor x) (voyage_cursor y)) (voyages_rows s)"
    using sort_slice_wrt_cursor [of "filter (voyage_where stored tenantID f) (t_voyages db)" v_ID v_ETA] distinct_map_filter_inj [OF ids]
    by (simp add: s voyage_cursor_def)
  show "is_ok (EncodeCursor (voyage_cursor r))" and "(\<lambda>(stored, _). settle_cursor stored) s (voyage_cursor r) = voyage_cursor r"
    if "r \<in> set (voyages_rows s)"
    using that ok s pageable_encodes pageable_settled by (auto simp: list_all_iff)
  show "(\<lambda>(stored, tenantID, f, db) q. ListVoyages stored tenantID f q db) s q =
      bindR (resume ((\<lambda>(stored, _). settle_cursor stored) s) (pr_Cursor n)) (\<lambda>after.
        BuildPage (take (nat (pr_Limit n + 1)) (filter (\<lambda>r. after (voyage_cursor r)) (voyages_rows s))) (pr_Limit n) (Some voyage_cursor))"
    if "NormalizePage q = Inr n"
    using that ok by (simp add: s ListVoyages_def sorted_then_resumed [OF ids])
qed

interpretation events: keyset_listing events_ok events_rows event_cursor
  "\<lambda>(stored, _). settle_cursor stored" "\<lambda>(stored, tenantID, f, db) q. ListAuditEvents stored tenantID f q db"
proof
  fix s :: "(Time \<Rightarrow> Time) \<times> string \<times> AuditFilter \<times> DB" and r q n
  obtain stored tenantID f db where s: "s = (stored, tenantID, f, db)" by (cases s)
  assume ok: "events_ok s"
  have ids: "distinct (map e_ID (t_audit db))" using ok s by simp
  show "sorted_wrt (\<lambda>x y. cursor_before (event_cursor x) (event_cursor y)) (events_rows s)"
    using sort_slice_wrt_cursor [of "filter (event_where stored tenantID f) (t_audit db)" e_ID e_OccurredAt] distinct_map_filter_inj [OF ids]
    by (simp add: s event_cursor_def)
  show "is_ok (EncodeCursor (event_cursor r))" and "(\<lambda>(stored, _). settle_cursor stored) s (event_cursor r) = event_cursor r"
    if "r \<in> set (events_rows s)"
    using that ok s pageable_encodes pageable_settled by (auto simp: list_all_iff)
  show "(\<lambda>(stored, tenantID, f, db) q. ListAuditEvents stored tenantID f q db) s q =
      bindR (resume ((\<lambda>(stored, _). settle_cursor stored) s) (pr_Cursor n)) (\<lambda>after.
        BuildPage (take (nat (pr_Limit n + 1)) (filter (\<lambda>r. after (event_cursor r)) (events_rows s))) (pr_Limit n) (Some event_cursor))"
    if "NormalizePage q = Inr n"
    using that ok by (simp add: s ListAuditEvents_def sorted_then_resumed [OF ids])
qed

section \<open>The filter in SQL and the filter in memory\<close>

text \<open>
  Where the two filters of voyages agree: the instants of the range are ones the column keeps, a port that is
  not empty is not blank, and the vessel text has no character that \<^verbatim>\<open>LIKE\<close> reads as a pattern.
\<close>

definition sql_safe :: "(Time \<Rightarrow> Time) \<Rightarrow> VoyageFilter \<Rightarrow> bool" where
  "sql_safe stored f \<longleftrightarrow>
    (case vf_ETAFrom f of None \<Rightarrow> True | Some t \<Rightarrow> stored t = t) \<and>
    (case vf_ETATo f of None \<Rightarrow> True | Some t \<Rightarrow> stored t = t) \<and>
    (vf_Port f = [] \<or> trim_space (vf_Port f) \<noteq> []) \<and>
    plain_text (to_lower (trim_space (vf_VesselText f)))"

lemma to_lower_Nil_iff [simp]: "to_lower s = [] \<longleftrightarrow> s = []" and to_upper_Nil_iff [simp]: "to_upper s = [] \<longleftrightarrow> s = []"
  by (simp_all add: to_lower_def to_upper_def)

lemma contains_Nil [simp]: "contains_str s []"
  by (simp add: contains_str_def)

lemma voyage_where_matches:
  assumes "sql_safe stored f"
  shows "voyage_where stored tenantID f v \<longleftrightarrow> v_TenantID v = tenantID \<and> voyage_matches f v"
proof -
  have like: "like (CHR ''%'' # to_lower (trim_space (vf_VesselText f)) @ ''%'') s \<longleftrightarrow>
      contains_str s (to_lower (trim_space (vf_VesselText f)))" for s
    using assms by (intro like_contains) (simp add: sql_safe_def)
  have "(vf_VesselText f \<noteq> [] \<longrightarrow> P (to_lower (trim_space (vf_VesselText f)))) \<longleftrightarrow>
      (trim_space (vf_VesselText f) \<noteq> [] \<longrightarrow> P (to_lower (trim_space (vf_VesselText f))))" if "P []" for P
    using that by (cases "trim_space (vf_VesselText f) = []") (auto simp: to_lower_def)
  note vessel = this [of "\<lambda>p. contains_str (to_lower (v_VesselName v)) p \<or> contains_str (to_lower (v_VesselIMO v)) p", simplified]
  have port: "(vf_Port f \<noteq> []) = (trim_space (vf_Port f) \<noteq> [])" using assms by (auto simp: sql_safe_def)
  have times: "(case vf_ETAFrom f of None \<Rightarrow> True | Some from \<Rightarrow> stored from \<le> v_ETA v) \<longleftrightarrow> \<not> (case vf_ETAFrom f of None \<Rightarrow> False | Some from \<Rightarrow> v_ETA v < from)"
    "(case vf_ETATo f of None \<Rightarrow> True | Some to \<Rightarrow> v_ETA v \<le> stored to) \<longleftrightarrow> \<not> (case vf_ETATo f of None \<Rightarrow> False | Some to \<Rightarrow> to < v_ETA v)"
    using assms by (auto simp: sql_safe_def split: option.splits)
  show ?thesis
    unfolding voyage_where_def voyage_matches_def Let_def like port times vessel by auto
qed

text \<open>
  C33: Listing voyages page by page loses and repeats nothing: whatever page size a client asks for, the pages it
  gets by following the cursors are together what FilterVoyages selects from the tenant's voyages, in
  the same order. The hypotheses are those on stored voyages (keys unique, instants that the database
  keeps and JSON can write) and on the filter (sql_safe: no LIKE pattern characters, no blank port).
\<close>

theorem ListVoyages_pages_FilterVoyages:
  assumes "tenantID \<noteq> []" and "voyage_filter_Validate f = Inr ()" and "sql_safe stored f"
    and "distinct (map v_ID (t_voyages db))" and "list_all (\<lambda>v. pageable stored (voyage_cursor v)) (t_voyages db)"
    and "0 \<le> limit" and "limit \<le> MaximumPageSize"
  shows "follow_cursors (\<lambda>q. ListVoyages stored tenantID f q db) limit (Suc (length (t_voyages db))) [] =
    FilterVoyages (filter (\<lambda>v. v_TenantID v = tenantID) (t_voyages db)) f"
proof -
  let ?s = "(stored, tenantID, f, db)"
  have "voyages_ok ?s" using assms by simp
  moreover have "length (voyages_rows ?s) < Suc (length (t_voyages db))" by (simp add: less_Suc_eq_le)
  ultimately have "follow_cursors (\<lambda>q. ListVoyages stored tenantID f q db) limit (Suc (length (t_voyages db))) [] = Inr (voyages_rows ?s)"
    using voyages.pages_cover [of ?s limit "Suc (length (t_voyages db))"] assms(6,7) by simp
  moreover have "filter (voyage_where stored tenantID f) (t_voyages db) =
      filter (voyage_matches f) (filter (\<lambda>v. v_TenantID v = tenantID) (t_voyages db))"
    by (simp add: voyage_where_matches [OF assms(3)] cong: filter_cong)
  ultimately show ?thesis using assms(2) by (simp add: FilterVoyages_def)
qed

definition paged_db :: DB where
  "paged_db = empty_db\<lparr>t_voyages :=
    [example_voyage\<lparr>v_ID := ''voyage-2'', v_ETA := 2000000000\<rparr>, example_voyage\<lparr>v_ETA := 2000000000\<rparr>,
     example_voyage\<lparr>v_ID := ''voyage-3'', v_ETA := 1000000000\<rparr>]\<rparr>"

definition any_voyage :: VoyageFilter where
  "any_voyage = \<lparr>vf_Statuses = [], vf_Port = [], vf_ETAFrom = None, vf_ETATo = None, vf_VesselText = []\<rparr>"

theorem ListVoyages_pages_FilterVoyages_witness:
  "follow_cursors (\<lambda>q. ListVoyages (\<lambda>t. t) (v_TenantID example_voyage) any_voyage q paged_db) 1 (Suc (length (t_voyages paged_db))) [] =
    FilterVoyages (filter (\<lambda>v. v_TenantID v = v_TenantID example_voyage) (t_voyages paged_db)) any_voyage"
proof (rule ListVoyages_pages_FilterVoyages)
  show "v_TenantID example_voyage \<noteq> []" by code_simp
  show "voyage_filter_Validate any_voyage = Inr ()" by code_simp
  show "sql_safe (\<lambda>t. t) any_voyage" by code_simp
  show "distinct (map v_ID (t_voyages paged_db))" by code_simp
  show "list_all (\<lambda>v. pageable (\<lambda>t. t) (voyage_cursor v)) (t_voyages paged_db)" by code_simp
qed (simp_all add: MaximumPageSize_def)

text \<open>Where the two filters of events agree, in the same sense.\<close>

definition audit_sql_safe :: "(Time \<Rightarrow> Time) \<Rightarrow> AuditFilter \<Rightarrow> bool" where
  "audit_sql_safe stored f \<longleftrightarrow>
    trim_space (af_ActorID f) = af_ActorID f \<and> (af_Action f = [] \<or> trim_space (af_Action f) \<noteq> []) \<and>
    trim_space (af_ObjectID f) = af_ObjectID f \<and> trim_space (af_Outcome f) = af_Outcome f \<and>
    (case af_From f of None \<Rightarrow> True | Some t \<Rightarrow> stored t = t) \<and>
    (case af_To f of None \<Rightarrow> True | Some t \<Rightarrow> stored t = t)"

lemma event_where_matches:
  assumes "audit_sql_safe stored f"
  shows "event_where stored tenantID f e \<longleftrightarrow> e_TenantID e = tenantID \<and> event_matches f e"
proof -
  have action: "(af_Action f \<noteq> []) = (trim_space (af_Action f) \<noteq> [])" using assms by (auto simp: audit_sql_safe_def)
  have times: "(case af_From f of None \<Rightarrow> True | Some from \<Rightarrow> stored from \<le> e_OccurredAt e) \<longleftrightarrow> \<not> (case af_From f of None \<Rightarrow> False | Some from \<Rightarrow> e_OccurredAt e < from)"
    "(case af_To f of None \<Rightarrow> True | Some to \<Rightarrow> e_OccurredAt e \<le> stored to) \<longleftrightarrow> \<not> (case af_To f of None \<Rightarrow> False | Some to \<Rightarrow> to < e_OccurredAt e)"
    using assms by (auto simp: audit_sql_safe_def split: option.splits)
  have trims: "trim_space (af_ActorID f) = af_ActorID f" "trim_space (af_ObjectID f) = af_ObjectID f" "trim_space (af_Outcome f) = af_Outcome f"
    using assms by (simp_all add: audit_sql_safe_def)
  show ?thesis unfolding event_where_def event_matches_def action times trims by auto
qed

text \<open>
  The pages of the audit trail hold, together, exactly the events that FilterEvents selects from the
  tenant's, each once; they come in the order of their instants and identifiers, which is not the
  order by sequence number that FilterEvents gives when several events share an instant.
\<close>

theorem ListAuditEvents_pages_FilterEvents:
  assumes "tenantID \<noteq> []" and "audit_filter_Validate f = Inr ()" and "audit_sql_safe stored f"
    and "distinct (map e_ID (t_audit db))" and "list_all (\<lambda>e. pageable stored (event_cursor e)) (t_audit db)"
    and "0 \<le> limit" and "limit \<le> MaximumPageSize"
  shows "\<exists>paged filtered.
    follow_cursors (\<lambda>q. ListAuditEvents stored tenantID f q db) limit (Suc (length (t_audit db))) [] = Inr paged \<and>
    FilterEvents (filter (\<lambda>e. e_TenantID e = tenantID) (t_audit db)) f = Inr filtered \<and>
    mset paged = mset filtered \<and> sorted_wrt (lex2 e_OccurredAt e_ID) paged"
proof -
  let ?s = "(stored, tenantID, f, db)"
  have ok: "events_ok ?s" using assms by simp
  moreover have "length (events_rows ?s) < Suc (length (t_audit db))" by (simp add: less_Suc_eq_le)
  ultimately have paged: "follow_cursors (\<lambda>q. ListAuditEvents stored tenantID f q db) limit (Suc (length (t_audit db))) [] = Inr (events_rows ?s)"
    using events.pages_cover [of ?s limit "Suc (length (t_audit db))"] assms(6,7) by simp
  have rows: "filter (event_where stored tenantID f) (t_audit db) =
      filter (event_matches f) (filter (\<lambda>e. e_TenantID e = tenantID) (t_audit db))"
    by (simp add: event_where_matches [OF assms(3)] cong: filter_cong)
  have "sorted_wrt (lex2 e_OccurredAt e_ID) (events_rows ?s)"
    using sort_slice_strict [of "filter (event_where stored tenantID f) (t_audit db)" e_OccurredAt e_ID] assms(4)
      distinct_map_filter_inj [of e_ID "t_audit db"] by (simp add: inj_on_def)
  with paged show ?thesis
    using assms(2) by (intro exI conjI) (auto simp: FilterEvents_Inr_iff rows)
qed

theorem ListAuditEvents_pages_FilterEvents_witness:
  "\<exists>paged filtered.
    follow_cursors (\<lambda>q. ListAuditEvents (\<lambda>t. t) ''panama-east'' no_filter q (empty_db\<lparr>t_audit := [example_event]\<rparr>)) 1 (Suc 1) [] = Inr paged \<and>
    FilterEvents [example_event] no_filter = Inr filtered \<and> mset paged = mset filtered"
proof -
  let ?db = "empty_db\<lparr>t_audit := [example_event]\<rparr>"
  have "audit_filter_Validate no_filter = Inr ()" "audit_sql_safe (\<lambda>t. t) no_filter" "distinct (map e_ID (t_audit ?db))"
    "list_all (\<lambda>e. pageable (\<lambda>t. t) (event_cursor e)) (t_audit ?db)" by code_simp+
  from ListAuditEvents_pages_FilterEvents [OF _ this, of "''panama-east''" 1]
  show ?thesis by (auto simp: MaximumPageSize_def example_event_def)
qed

end
