(* ===== verification/Reporting.thy ===== *)
theory Reporting
  imports Service_Store Store_Pages Customs_Gateway
begin

text \<open>
  \<^verbatim>\<open>internal/service/reporting.go\<close>, \<^verbatim>\<open>eligibility.go\<close> and
  \<^verbatim>\<open>customs.go\<close>: what the service reads. A read is an operation on a world, for the database
  may move between two reads of one report; the readers of the store, at the end, leave their world alone. A nil
  repository is \<open>None\<close>.
\<close>

record 'w VoyageRepository =
  vr_FindVoyage :: "string \<Rightarrow> string \<Rightarrow> ('w, Voyage) io"
  vr_ListVoyages :: "string \<Rightarrow> VoyageFilter \<Rightarrow> PageRequest \<Rightarrow> ('w, Voyage Page) io"
  vr_ListInspections :: "string \<Rightarrow> string \<Rightarrow> ('w, Inspection list) io"
  vr_ListReservations :: "string \<Rightarrow> string \<Rightarrow> ('w, Reservation list) io"

record 'w AuditRepository =
  ar_ListAuditEvents :: "string \<Rightarrow> AuditFilter \<Rightarrow> PageRequest \<Rightarrow> ('w, Event Page) io"
  ar_VerifyAuditChain :: "string \<Rightarrow> ('w, unit) io"

record 'w Reporting =
  rg_Voyages :: "'w VoyageRepository option"
  rg_Audit :: "'w AuditRepository option"
  rg_Clock :: "'w Clock option"

definition reporting_Now :: "'w Reporting \<Rightarrow> ('w, Time) io" where
  "reporting_Now rg w = (let (t, w1) = the (rg_Clock rg) w in (Inr t, w1))"

text \<open>The three reads that the overview and the eligibility begin with.\<close>

definition read_voyage :: "'w VoyageRepository \<Rightarrow> User \<Rightarrow> string \<Rightarrow> ('w, Voyage \<times> Inspection list \<times> Reservation list) io" where
  "read_voyage voyages actor voyageID =
    bindIO (vr_FindVoyage voyages (u_TenantID actor) voyageID) (\<lambda>voyage.
    bindIO (vr_ListInspections voyages (u_TenantID actor) voyageID) (\<lambda>inspections.
    bindIO (vr_ListReservations voyages (u_TenantID actor) voyageID) (\<lambda>reservations.
    returnIO (Inr (voyage, inspections, reservations)))))"

section \<open>Eligibility\<close>

record PassageEligibility =
  pe_Eligible :: bool
  pe_VoyageStatus :: VoyageStatus
  pe_OutstandingChecks :: "string list"
  pe_ActiveReservations :: int
  pe_BlockingReservation :: string

definition active_reservation :: "Reservation \<Rightarrow> bool" where
  "active_reservation r \<longleftrightarrow> r_Status r = SlotReserved \<or> r_Status r = SlotConfirmed \<or> r_Status r = SlotEntered"

fun count_active :: "Reservation list \<Rightarrow> int \<Rightarrow> string \<Rightarrow> int \<times> string" where
  "count_active [] n blocking = (n, blocking)"
| "count_active (r # rs) n blocking =
    (if active_reservation r then count_active rs (inc64 n) (if blocking = [] then r_ID r else blocking)
     else count_active rs n blocking)"

definition inspection_checks :: "Inspection list \<Rightarrow> string list" where
  "inspection_checks inspections =
    concat (map (\<lambda>i. if i_Status i \<noteq> ''passed'' then [''inspection '' @ i_ID i @ '' is '' @ i_Status i] else []) inspections)"

definition eligibility_of :: "Voyage \<Rightarrow> Inspection list \<Rightarrow> Reservation list \<Rightarrow> PassageEligibility" where
  "eligibility_of voyage inspections reservations =
    (let (n, blocking) = count_active reservations 0 [];
         checks = sort_strings
           ((if v_Status voyage \<noteq> VoyageCleared then [''voyage must be cleared''] else []) @
            (if inspections = [] then [''customs inspection is required''] else []) @
            inspection_checks inspections @
            (if 0 < n then [''voyage already has an active passage reservation''] else []))
     in \<lparr>pe_Eligible = (checks = []), pe_VoyageStatus = v_Status voyage, pe_OutstandingChecks = checks,
         pe_ActiveReservations = n, pe_BlockingReservation = blocking\<rparr>)"

definition reporting_PassageEligibility :: "'w Reporting \<Rightarrow> User \<Rightarrow> string \<Rightarrow> ('w, PassageEligibility) io" where
  "reporting_PassageEligibility rg actor voyageID =
    (if rg_Voyages rg = None \<or> voyageID = [] then returnIO (Inl (errorf ErrInvalid ''passage eligibility''))
     else ensure (Authorize actor (u_TenantID actor) PermissionVoyageRead)
       (bindIO (read_voyage (the (rg_Voyages rg)) actor voyageID) (\<lambda>(voyage, inspections, reservations).
       returnIO (Inr (eligibility_of voyage inspections reservations)))))"

section \<open>Overview\<close>

record VoyageOverview =
  vo_Voyage :: Voyage
  vo_Inspections :: "Inspection list"
  vo_Reservations :: "Reservation list"
  vo_OutstandingChecks :: "InspectionKind list"
  vo_ReadyForPassage :: bool

definition overview_of :: "Voyage \<Rightarrow> Inspection list \<Rightarrow> Reservation list \<Rightarrow> VoyageOverview" where
  "overview_of voyage inspections reservations =
    (let passed = (\<lambda>kind. list_ex (\<lambda>i. i_Status i = ''passed'' \<and> i_Kind i = kind) inspections);
         outstanding = filter (\<lambda>requirement. \<not> passed requirement) [''document'']
     in \<lparr>vo_Voyage = voyage, vo_Inspections = inspections, vo_Reservations = reservations,
         vo_OutstandingChecks = outstanding,
         vo_ReadyForPassage = (v_Status voyage = VoyageCleared \<and> outstanding = [])\<rparr>)"

definition reporting_Overview :: "'w Reporting \<Rightarrow> User \<Rightarrow> string \<Rightarrow> ('w, VoyageOverview) io" where
  "reporting_Overview rg actor voyageID =
    (if rg_Voyages rg = None \<or> rg_Clock rg = None \<or> voyageID = [] then returnIO (Inl (errorf ErrInvalid ''overview input''))
     else ensure (Authorize actor (u_TenantID actor) PermissionVoyageRead)
       (bindIO (read_voyage (the (rg_Voyages rg)) actor voyageID) (\<lambda>(voyage, inspections, reservations).
       returnIO (Inr (overview_of voyage inspections reservations)))))"

section \<open>Summary\<close>

record OperationsSummary =
  os_GeneratedAt :: Time
  os_VoyageCounts :: "VoyageStatus \<rightharpoonup> int"
  os_DelayedVoyages :: "Voyage list"
  os_UpcomingPassages :: "Reservation list"
  os_AuditChainVerified :: bool

text \<open>The clock is read for every confirmed reservation.\<close>

fun upcoming_of :: "'w Reporting \<Rightarrow> Reservation list \<Rightarrow> ('w, Reservation list) io" where
  "upcoming_of rg [] w = (Inr [], w)"
| "upcoming_of rg (r # rs) w =
    (if r_Status r = SlotConfirmed
     then bindIO (reporting_Now rg) (\<lambda>now.
       bindIO (upcoming_of rg rs) (\<lambda>rest. returnIO (Inr (if now < r_StartsAt r then r # rest else rest)))) w
     else upcoming_of rg rs w)"

fun upcoming_passages :: "'w Reporting \<Rightarrow> User \<Rightarrow> Voyage list \<Rightarrow> ('w, Reservation list) io" where
  "upcoming_passages rg actor [] w = (Inr [], w)"
| "upcoming_passages rg actor (v # vs) w =
    bindIO (vr_ListReservations (the (rg_Voyages rg)) (u_TenantID actor) (v_ID v)) (\<lambda>reservations.
    bindIO (upcoming_of rg reservations) (\<lambda>upcoming.
    bindIO (upcoming_passages rg actor vs) (\<lambda>rest. returnIO (Inr (upcoming @ rest))))) w"

definition window_filter :: "Time \<Rightarrow> Time \<Rightarrow> VoyageFilter" where
  "window_filter from_at to_at =
    \<lparr>vf_Statuses = [], vf_Port = [], vf_ETAFrom = Some from_at, vf_ETATo = Some to_at, vf_VesselText = []\<rparr>"

definition is_success :: "('w, unit) io \<Rightarrow> ('w, bool) io" where
  "is_success m w = (case m w of (r, w1) \<Rightarrow> (Inr (is_ok r), w1))"

definition reporting_Summary :: "'w Reporting \<Rightarrow> User \<Rightarrow> Time \<Rightarrow> Time \<Rightarrow> ('w, OperationsSummary) io" where
  "reporting_Summary rg actor from_at to_at =
    (if rg_Voyages rg = None \<or> rg_Audit rg = None \<or> rg_Clock rg = None \<or> to_at < from_at
     then returnIO (Inl (errorf ErrInvalid ''summary input''))
     else ensure (Authorize actor (u_TenantID actor) PermissionAuditRead)
       (bindIO (vr_ListVoyages (the (rg_Voyages rg)) (u_TenantID actor) (window_filter from_at to_at)
          \<lparr>pr_Limit = MaximumPageSize, pr_Cursor = []\<rparr>) (\<lambda>page.
        bindIO (reporting_Now rg) (\<lambda>generated.
        bindIO (reporting_Now rg) (\<lambda>now.
        bindIO (upcoming_passages rg actor (pg_Items page)) (\<lambda>upcoming.
        bindIO (is_success (ar_VerifyAuditChain (the (rg_Audit rg)) (u_TenantID actor))) (\<lambda>verified.
        returnIO (Inr \<lparr>os_GeneratedAt = generated, os_VoyageCounts = GroupVoyagesByStatus (pg_Items page),
          os_DelayedVoyages = DelayedVoyages (pg_Items page) now (30 * Minute),
          os_UpcomingPassages = sort_slice (lex2 r_StartsAt r_ID) upcoming, os_AuditChainVerified = verified\<rparr>))))))))"

definition reporting_AuditTrail :: "'w Reporting \<Rightarrow> User \<Rightarrow> AuditFilter \<Rightarrow> PageRequest \<Rightarrow> ('w, Event Page) io" where
  "reporting_AuditTrail rg actor f page =
    (if rg_Audit rg = None then returnIO (Inl (errorf ErrInvalid ''audit repository''))
     else ensure (Authorize actor (u_TenantID actor) PermissionAuditRead)
       (ensure (audit_filter_Validate f)
         (ar_ListAuditEvents (the (rg_Audit rg)) (u_TenantID actor) f page)))"

section \<open>Submission to customs\<close>

record 'w CustomsSubmission =
  cs_Voyages :: "'w VoyageRepository option"
  cs_Gateway :: "'w gateway option"
  cs_Clock :: "'w Clock option"

definition submission_Submit :: "'w CustomsSubmission \<Rightarrow> User \<Rightarrow> string \<Rightarrow> ('w, CustomsDecision) io" where
  "submission_Submit cs actor voyageID =
    (if cs_Voyages cs = None \<or> cs_Gateway cs = None \<or> cs_Clock cs = None \<or> voyageID = []
     then returnIO (Inl (errorf ErrInvalid ''customs submission''))
     else ensure (Authorize actor (u_TenantID actor) PermissionInspectionManage)
       (bindIO (vr_FindVoyage (the (cs_Voyages cs)) (u_TenantID actor) voyageID) (\<lambda>voyage.
        if v_ManifestHash voyage = [] then returnIO (Inl (errorf ErrState ''undeclared voyage''))
        else (\<lambda>w.
          let (now, w1) = the (cs_Clock cs) w;
              (r, w2) = the (cs_Gateway cs) w1 \<lparr>d_TenantID = u_TenantID actor, d_VoyageID = v_ID voyage,
                d_ManifestHash = v_ManifestHash voyage, d_OriginPort = v_OriginPort voyage, d_SubmittedAt = now\<rparr>
          in (case r of Inl e \<Rightarrow> Inl (Wrapped (''submit voyage '' @ v_ID voyage @ '': '') e []) | Inr d \<Rightarrow> Inr d, w2)))))"

section \<open>The readers of the store\<close>

definition reader :: "(World \<Rightarrow> 'a result) \<Rightarrow> (World, 'a) io" where
  "reader f w = (f w, w)"

definition store_voyages :: "World VoyageRepository" where
  "store_voyages =
    \<lparr>vr_FindVoyage = (\<lambda>t v. reader (\<lambda>w. FindVoyage t v (w_db w))),
     vr_ListVoyages = (\<lambda>t f p. reader (\<lambda>w. ListVoyages (w_stored w) t f p (w_db w))),
     vr_ListInspections = (\<lambda>t v. reader (\<lambda>w. Inr (ListInspections t v (w_db w)))),
     vr_ListReservations = (\<lambda>t v. reader (\<lambda>w. Inr (ListReservations t v (w_db w))))\<rparr>"

definition store_audit :: "World AuditRepository" where
  "store_audit =
    \<lparr>ar_ListAuditEvents = (\<lambda>t f p. reader (\<lambda>w. ListAuditEvents (w_stored w) t f p (w_db w))),
     ar_VerifyAuditChain = (\<lambda>t. reader (\<lambda>w. VerifyAuditChain t (w_db w)))\<rparr>"

definition store_reporting :: "World Reporting" where
  "store_reporting = \<lparr>rg_Voyages = Some store_voyages, rg_Audit = Some store_audit, rg_Clock = Some SystemClock\<rparr>"

section \<open>Eligible voyages\<close>

lemma count_active_facts:
  assumes "int (length rs) \<le> max_int64 - n" and "0 \<le> n"
  shows "fst (count_active rs n b) = n + int (length (filter active_reservation rs))"
  using assms
proof (induction rs arbitrary: n b)
  case (Cons r rs)
  then have "inc64 n = n + 1" by (intro inc64_id) (simp_all add: in_int64_def min_int64_def)
  with Cons show ?case by simp
qed simp

lemma sort_strings_Nil_iff: "sort_strings xs = [] \<longleftrightarrow> xs = []"
  by simp

lemma eligible_iff:
  "pe_Eligible (eligibility_of voyage inspections reservations) \<longleftrightarrow>
    v_Status voyage = VoyageCleared \<and> inspections \<noteq> [] \<and> (\<forall>i\<in>set inspections. i_Status i = ''passed'') \<and>
    \<not> 0 < fst (count_active reservations 0 [])"
  by (auto simp: eligibility_of_def split_def Let_def inspection_checks_def concat_eq_Nil_conv)

lemma read_voyage_store:
  assumes "FindVoyage (u_TenantID actor) vid (w_db w) = Inr v"
  shows "read_voyage store_voyages actor vid w =
    (Inr (v, ListInspections (u_TenantID actor) vid (w_db w), ListReservations (u_TenantID actor) vid (w_db w)), w)"
  using assms by (simp add: read_voyage_def store_voyages_def reader_def bindIO_def returnIO_def)

lemma FindVoyage_Inr: "FindVoyage t vid db = Inr v \<Longrightarrow> v \<in> set (t_voyages db) \<and> v_ID v = vid \<and> v_TenantID v = t"
  by (auto simp: FindVoyage_def GetVoyage_def find_Some_iff in_set_conv_nth split: option.splits)

lemma cleared_voyage_is_free:
  assumes "reach stored P db" and "v \<in> set (t_voyages db)" and "v_Status v = VoyageCleared"
  shows "ListReservations t (v_ID v) db = []" and "passed_inspections db (v_ID v)"
proof -
  have inv: "keys_inv db" "slots_inv db" "voyages_inv db" using reach_inv [OF assms(1)] by auto
  show "passed_inspections db (v_ID v)" using voyages_invD [OF inv(3) assms(2)] assms(3) by (simp add: voyage_inv_def)
  have "False" if r: "r \<in> set (t_reservations db)" "r_VoyageID r = v_ID v" for r
  proof -
    obtain u where u: "u \<in> set (t_voyages db)" "v_ID u = r_VoyageID r" "v_Status u = VoyageScheduled"
      using inv(2) r(1) by (auto simp: slots_inv_def)
    have "u = v" using distinct_key [OF _ u(1) assms(2), of v_ID] inv(1) u(2) r(2) by (simp add: keys_inv_def)
    with u(3) assms(3) show False by simp
  qed
  then have "set (ListReservations t (v_ID v) db) = {}" by (auto simp: set_ListReservations)
  then show "ListReservations t (v_ID v) db = []" by simp
qed

text \<open>
  C13: What the service says of a voyage agrees with what the workflow does. In every database that transactions can
  reach, a voyage of the user's tenant is eligible for passage exactly when it is cleared, for clearance has settled
  the inspections and no reservation exists yet; a reservation can only be made while it is eligible; and the overview
  calls it ready exactly when it is eligible and a document inspection, of which the workflow knows nothing, passed.
\<close>

theorem eligibility_is_clearance:
  assumes "reach (w_stored w) P (w_db w)" and "Authorize actor (u_TenantID actor) PermissionVoyageRead = Inr ()"
    and "vid \<noteq> []" and "FindVoyage (u_TenantID actor) vid (w_db w) = Inr v"
  shows "\<exists>e o1. reporting_PassageEligibility store_reporting actor vid w = (Inr e, w) \<and>
    reporting_Overview store_reporting actor vid w = (Inr o1, w) \<and>
    (pe_Eligible e \<longleftrightarrow> v_Status v = VoyageCleared) \<and>
    (is_ok (ReservePassage (w_stored w) actor rid vid chamber starts ends len beam draft t (w_db w)) \<longrightarrow> pe_Eligible e) \<and>
    (vo_ReadyForPassage o1 \<longleftrightarrow> pe_Eligible e \<and>
      (\<exists>i\<in>set (t_inspections (w_db w)). i_VoyageID i = vid \<and> i_Kind i = ''document'' \<and> i_Status i = ''passed''))"
proof -
  let ?is = "ListInspections (u_TenantID actor) vid (w_db w)" and ?rs = "ListReservations (u_TenantID actor) vid (w_db w)"
  let ?e = "eligibility_of v ?is ?rs" and ?o = "overview_of v ?is ?rs"
  note v = FindVoyage_Inr [OF assms(4)]
  have e: "reporting_PassageEligibility store_reporting actor vid w = (Inr ?e, w)"
    and o1: "reporting_Overview store_reporting actor vid w = (Inr ?o, w)"
    using assms(2,3) read_voyage_store [OF assms(4)]
    by (simp_all add: reporting_PassageEligibility_def reporting_Overview_def store_reporting_def bindIO_def returnIO_def)
  have is1: "set ?is = {i \<in> set (t_inspections (w_db w)). i_VoyageID i = vid}" using v by (auto simp: set_ListInspections)
  have eligible: "pe_Eligible ?e \<longleftrightarrow> v_Status v = VoyageCleared"
  proof
    assume cleared: "v_Status v = VoyageCleared"
    note free = cleared_voyage_is_free [OF assms(1) conjunct1 [OF v] cleared]
    have "?rs = []" using free(1) v by simp
    moreover have "?is \<noteq> []" "\<forall>i\<in>set ?is. i_Status i = ''passed''"
      using free(2) v is1 by (auto simp: passed_inspections_def simp flip: set_empty)
    ultimately show "pe_Eligible ?e" using cleared by (simp add: eligible_iff)
  qed (simp add: eligible_iff)
  moreover have "v_Status v = VoyageCleared"
    if "is_ok (ReservePassage (w_stored w) actor rid vid chamber starts ends len beam draft t (w_db w))"
    using that assms(4)
    by (auto simp: is_ok_iff ReservePassage_def bindR_Inr_iff getVoyageTx_def FindVoyage_def GetVoyage_def split: if_splits option.splits)
  moreover have "vo_ReadyForPassage ?o \<longleftrightarrow> v_Status v = VoyageCleared \<and>
      (\<exists>i\<in>set (t_inspections (w_db w)). i_VoyageID i = vid \<and> i_Kind i = ''document'' \<and> i_Status i = ''passed'')"
    using is1 by (auto simp: overview_of_def Let_def list_ex_iff)
  ultimately show ?thesis using e o1 by (intro exI conjI) auto
qed

theorem eligibility_is_clearance_witness:
  "\<exists>db v e o1. FindVoyage ''panama-east'' ''voyage-1'' db = Inr v \<and>
    reporting_PassageEligibility store_reporting example_user ''voyage-1'' (example_world\<lparr>w_db := db\<rparr>) = (Inr e, example_world\<lparr>w_db := db\<rparr>) \<and>
    reporting_Overview store_reporting example_user ''voyage-1'' (example_world\<lparr>w_db := db\<rparr>) = (Inr o1, example_world\<lparr>w_db := db\<rparr>) \<and>
    (vo_ReadyForPassage o1 \<longrightarrow> pe_Eligible e)"
proof -
  obtain v db where db: "reach (\<lambda>t. t) (\<lambda>_. True) db" "store_DeclareVoyage (\<lambda>t. t) example_user example_request empty_db = Inr (v, db)"
      "v \<in> set (t_voyages db)"
    by (rule example_reach [of "\<lambda>_. True" "\<lambda>t. t"]) (simp, blast)
  from db(2) have "v_ID v = ''voyage-1''" "v_TenantID v = ''panama-east''"
    by (auto simp: store_DeclareVoyage_def bindR_Inr_iff NewVoyage_def Declare_def example_request_def example_user_def split: if_splits)
  with db(3) obtain u where u: "FindVoyage ''panama-east'' ''voyage-1'' db = Inr u"
    by (cases "List.find (\<lambda>v. v_TenantID v = ''panama-east'' \<and> v_ID v = ''voyage-1'') (t_voyages db)")
      (auto simp: FindVoyage_def GetVoyage_def find_None_iff)
  have tenant: "u_TenantID example_user = ''panama-east''" by (simp add: example_user_def)
  have auth: "Authorize example_user (u_TenantID example_user) PermissionVoyageRead = Inr ()" by code_simp
  have w: "w_stored (example_world\<lparr>w_db := db\<rparr>) = (\<lambda>t. t)" "w_db (example_world\<lparr>w_db := db\<rparr>) = db" by (simp_all add: example_world_def)
  from eligibility_is_clearance [of "example_world\<lparr>w_db := db\<rparr>" "\<lambda>_. True" example_user "''voyage-1''" u]
  show ?thesis using db(1) auth u unfolding w tenant by blast
qed

section \<open>The summary\<close>

lemma tick_same: "\<exists>k. w = w\<lparr>w_tick := k\<rparr>"
  by (rule exI [of _ "w_tick w"]) simp

lemma upcoming_of_read:
  assumes "rg_Clock rg = Some SystemClock"
  shows "\<exists>k us. upcoming_of rg rs w = (Inr us, w\<lparr>w_tick := k\<rparr>) \<and> set us \<subseteq> {r \<in> set rs. r_Status r = SlotConfirmed}"
proof (induction rs arbitrary: w)
  case (Cons r rs)
  show ?case
  proof (cases "r_Status r = SlotConfirmed")
    case True
    obtain k us where "upcoming_of rg rs (w\<lparr>w_tick := Suc (w_tick w)\<rparr>) = (Inr us, w\<lparr>w_tick := k\<rparr>)"
      "set us \<subseteq> {r \<in> set rs. r_Status r = SlotConfirmed}" using Cons [of "w\<lparr>w_tick := Suc (w_tick w)\<rparr>"] by auto
    with True show ?thesis by (auto simp: bindIO_def reporting_Now_def assms SystemClock_def returnIO_def)
  qed (use Cons [of w] in auto)
qed (simp add: tick_same)

lemma upcoming_passages_read:
  "\<exists>k us. upcoming_passages store_reporting actor vs w = (Inr us, w\<lparr>w_tick := k\<rparr>) \<and>
    set us \<subseteq> {r \<in> set (t_reservations (w_db w)). r_TenantID r = u_TenantID actor \<and> r_VoyageID r \<in> v_ID ` set vs \<and> r_Status r = SlotConfirmed}"
proof (induction vs arbitrary: w)
  case (Cons v vs)
  let ?rs = "ListReservations (u_TenantID actor) (v_ID v) (w_db w)"
  obtain k us where us: "upcoming_of store_reporting ?rs w = (Inr us, w\<lparr>w_tick := k\<rparr>)" "set us \<subseteq> {r \<in> set ?rs. r_Status r = SlotConfirmed}"
    using upcoming_of_read [of store_reporting ?rs w] by (auto simp: store_reporting_def)
  obtain l vs1 where vs: "upcoming_passages store_reporting actor vs (w\<lparr>w_tick := k\<rparr>) = (Inr vs1, w\<lparr>w_tick := l\<rparr>)"
    "set vs1 \<subseteq> {r \<in> set (t_reservations (w_db w)). r_TenantID r = u_TenantID actor \<and> r_VoyageID r \<in> v_ID ` set vs \<and> r_Status r = SlotConfirmed}"
    using Cons [of "w\<lparr>w_tick := k\<rparr>"] by auto
  have "vr_ListReservations (the (rg_Voyages store_reporting)) (u_TenantID actor) (v_ID v) w = (Inr ?rs, w)"
    by (simp add: store_reporting_def store_voyages_def reader_def)
  then have "upcoming_passages store_reporting actor (v # vs) w = (Inr (us @ vs1), w\<lparr>w_tick := l\<rparr>)"
    using us(1) vs(1) by (simp add: bindIO_def returnIO_def)
  moreover have "set us \<subseteq> {r \<in> set (t_reservations (w_db w)). r_TenantID r = u_TenantID actor \<and> r_VoyageID r \<in> v_ID ` set (v # vs) \<and> r_Status r = SlotConfirmed}"
    using us(2) by (auto simp: set_ListReservations)
  ultimately show ?case using vs(2) by auto
qed (simp add: tick_same)

text \<open>The first page of a window, which is the whole window when it fits.\<close>

lemma ListVoyages_window:
  assumes "tenant \<noteq> []" and "from_at \<le> to_at" and "distinct (map v_ID (t_voyages db))"
    and "length (filter (voyage_where stored tenant (window_filter from_at to_at)) (t_voyages db)) \<le> 200"
  shows "\<exists>page. ListVoyages stored tenant (window_filter from_at to_at) \<lparr>pr_Limit = MaximumPageSize, pr_Cursor = []\<rparr> db = Inr page \<and>
    pg_Items page = sort_slice (lex2 v_ETA v_ID) (filter (voyage_where stored tenant (window_filter from_at to_at)) (t_voyages db))"
  using assms
  by (simp add: ListVoyages_def voyage_filter_Validate_def window_filter_def NormalizePage_def MaximumPageSize_def resume_def BuildPage_def
      Let_def)

text \<open>
  The summary of a window of time in which the tenant has at most 200 voyages is exact: the counts by status
  are those of all of them, the chain is reported verified just when it is, every upcoming passage is a confirmed
  reservation of one of them, in order of time, and the report changes nothing. (Beyond 200 voyages it is the
  summary of the first 200.)
\<close>

theorem Summary_correct:
  assumes "Authorize actor (u_TenantID actor) PermissionAuditRead = Inr ()" and "from_at \<le> to_at"
    and "distinct (map v_ID (t_voyages (w_db w)))"
    and "vs = filter (voyage_where (w_stored w) (u_TenantID actor) (window_filter from_at to_at)) (t_voyages (w_db w))"
    and "length vs \<le> 200"
  shows "\<exists>s k. reporting_Summary store_reporting actor from_at to_at w = (Inr s, w\<lparr>w_tick := k\<rparr>) \<and>
    (\<forall>st. os_VoyageCounts s st =
      (if st \<in> v_Status ` set vs then Some (int (length (filter (\<lambda>v. v_Status v = st) vs))) else None)) \<and>
    os_AuditChainVerified s = (VerifyAuditChain (u_TenantID actor) (w_db w) = Inr ()) \<and>
    (\<forall>r\<in>set (os_UpcomingPassages s). r \<in> set (t_reservations (w_db w)) \<and> r_VoyageID r \<in> v_ID ` set vs \<and> r_Status r = SlotConfirmed) \<and>
    ordered_by (lex2 r_StartsAt r_ID) (os_UpcomingPassages s)"
proof -
  have tenant: "u_TenantID actor \<noteq> []" using assms(1) by (auto simp: Authorize_def split: if_splits)
  obtain page where page: "ListVoyages (w_stored w) (u_TenantID actor) (window_filter from_at to_at)
      \<lparr>pr_Limit = MaximumPageSize, pr_Cursor = []\<rparr> (w_db w) = Inr page" and items: "pg_Items page = sort_slice (lex2 v_ETA v_ID) vs"
    using ListVoyages_window [OF tenant assms(2,3)] assms(4,5) by blast
  let ?w2 = "w\<lparr>w_tick := Suc (Suc (w_tick w))\<rparr>"
  obtain k us where us: "upcoming_passages store_reporting actor (pg_Items page) ?w2 = (Inr us, w\<lparr>w_tick := k\<rparr>)"
    and set_us: "set us \<subseteq> {r \<in> set (t_reservations (w_db w)). r_TenantID r = u_TenantID actor \<and> r_VoyageID r \<in> v_ID ` set vs \<and>
      r_Status r = SlotConfirmed}"
    using upcoming_passages_read [of actor "pg_Items page" ?w2] items by auto
  let ?s = "\<lparr>os_GeneratedAt = w_now w (w_tick w), os_VoyageCounts = GroupVoyagesByStatus (pg_Items page),
    os_DelayedVoyages = DelayedVoyages (pg_Items page) (w_now w (Suc (w_tick w))) (30 * Minute),
    os_UpcomingPassages = sort_slice (lex2 r_StartsAt r_ID) us,
    os_AuditChainVerified = is_ok (VerifyAuditChain (u_TenantID actor) (w_db w))\<rparr>"
  have run: "reporting_Summary store_reporting actor from_at to_at w = (Inr ?s, w\<lparr>w_tick := k\<rparr>)"
    using assms(1,2) page us
    by (simp add: reporting_Summary_def store_reporting_def store_voyages_def store_audit_def reader_def bindIO_def reporting_Now_def
        SystemClock_def returnIO_def is_success_def)
  have "length (filter (\<lambda>v. v_Status v = st) (sort_slice (lex2 v_ETA v_ID) vs)) = length (filter (\<lambda>v. v_Status v = st) vs)" for st
    by (metis mset_filter mset_sort_slice size_mset)
  moreover have "int (length (sort_slice (lex2 v_ETA v_ID) vs)) \<le> max_int64" using assms(5) by (simp add: max_int64_def)
  ultimately have counts: "os_VoyageCounts ?s st =
      (if st \<in> v_Status ` set vs then Some (int (length (filter (\<lambda>v. v_Status v = st) vs))) else None)" for st
    using group_counts [of "sort_slice (lex2 v_ETA v_ID) vs" st] by (simp add: items)
  have "ordered_by (lex2 r_StartsAt r_ID) (os_UpcomingPassages ?s)" by (simp add: lex2.ordered_sort_slice)
  moreover have "os_AuditChainVerified ?s = (VerifyAuditChain (u_TenantID actor) (w_db w) = Inr ())" by (simp add: is_ok_iff)
  moreover have "\<forall>r\<in>set (os_UpcomingPassages ?s). r \<in> set (t_reservations (w_db w)) \<and> r_VoyageID r \<in> v_ID ` set vs \<and> r_Status r = SlotConfirmed"
    using set_us by auto
  ultimately show ?thesis using run counts by blast
qed

theorem Summary_correct_witness:
  "\<exists>s k. reporting_Summary store_reporting (example_user\<lparr>u_Role := RoleAuditor\<rparr>) 0 10 (example_world\<lparr>w_db := paged_db\<rparr>) =
    (Inr s, example_world\<lparr>w_db := paged_db, w_tick := k\<rparr>)"
proof -
  let ?actor = "example_user\<lparr>u_Role := RoleAuditor\<rparr>" and ?w = "example_world\<lparr>w_db := paged_db\<rparr>"
  have "Authorize ?actor (u_TenantID ?actor) PermissionAuditRead = Inr ()" by code_simp
  moreover have "distinct (map v_ID (t_voyages paged_db))" by code_simp
  moreover have "length (filter P (t_voyages paged_db)) \<le> 200" for P
    by (rule order_trans [OF length_filter_le]) (simp add: paged_db_def)
  ultimately show ?thesis using Summary_correct [of ?actor 0 10 ?w, OF _ _ _ refl] by auto
qed

end
