(* ===== verification/Detail_Sanitizer.thy ===== *)
theory Detail_Sanitizer
  imports Audit_Query Json_Parse
begin

text \<open>
  \<^verbatim>\<open>internal/audit/detail_sanitizer.go\<close>: hiding sensitive values in the details of
  audit events, also inside a detail that is a JSON text. A decoded object is the list of its
  members; of two equal keys the last counts. A number keeps its text, as \<^verbatim>\<open>UseNumber\<close>
  does. The encoder writes the keys of an object in order and cannot fail on a decoded document, and
  \<^verbatim>\<open>json.Compact\<close> changes nothing in its output. Only the members at the top level of a document
  are looked at; the theorems say what this hides and what it does not.
\<close>

record DetailSanitizer =
  ds_RedactedValue :: string

definition DefaultDetailSanitizer :: DetailSanitizer where
  "DefaultDetailSanitizer = \<lparr>ds_RedactedValue = ''[redacted]''\<rparr>"

definition maximumStructuredDetailBytes :: nat where
  "maximumStructuredDetailBytes = 64 * 1024"

text \<open>The map that a decoded object is, its keys in order.\<close>

definition object_map :: "(string \<times> 'a) list \<Rightarrow> (string \<times> 'a) list" where
  "object_map fs = map (\<lambda>k. (k, the (map_of (rev fs) k))) (sort_strings (remdups (map fst fs)))"

fun encode_any :: "jvalue \<Rightarrow> string" where
  "encode_any VNull = ''null''"
| "encode_any (VBool b) = (if b then ''true'' else ''false'')"
| "encode_any (VNum n) = n"
| "encode_any (VStr raw s) = json_string s"
| "encode_any (VArr vs) = CHR ''['' # commas (map encode_any vs) @ '']''"
| "encode_any (VObj fs) =
    CHR ''{'' # commas (map (\<lambda>(k, t). json_string k @ CHR '':'' # t)
      (object_map (map (\<lambda>(k, v). (k, encode_any v)) fs))) @ ''}''"

definition encodeCompactJSON :: "jvalue \<Rightarrow> string" where
  "encodeCompactJSON document = encode_any document"

definition sanitizeTopLevelJSON :: "jvalue \<Rightarrow> string \<Rightarrow> jvalue \<times> bool" where
  "sanitizeTopLevelJSON document redactedValue =
    (case document of
       VObj fs \<Rightarrow>
         (VObj (map (\<lambda>(key, v). (key, if isSensitive (to_lower (trim_space key)) then VStr [] redactedValue else v)) (object_map fs)),
          list_ex (\<lambda>(key, v). isSensitive (to_lower (trim_space key))) (object_map fs))
     | _ \<Rightarrow> (document, False))"

text \<open>\<^verbatim>\<open>Decoder.More\<close>: something other than a closing bracket follows.\<close>

definition decoder_More :: "string \<Rightarrow> bool" where
  "decoder_More rest = (case skip_ws rest of [] \<Rightarrow> False | c # _ \<Rightarrow> c \<noteq> CHR '']'' \<and> c \<noteq> CHR ''}'')"

definition sanitizeStructuredValue :: "string \<Rightarrow> string \<Rightarrow> string" where
  "sanitizeStructuredValue v redactedValue =
    (let trimmed = trim_space v in
     if trimmed = [] \<or> maximumStructuredDetailBytes < length trimmed then trimmed
     else if hd trimmed \<noteq> CHR ''{'' \<and> hd trimmed \<noteq> CHR ''['' then trimmed
     else
       (case json_value trimmed of
          None \<Rightarrow> trimmed
        | Some (document, rest) \<Rightarrow>
            if decoder_More rest then trimmed
            else
              let (redacted, changed) = sanitizeTopLevelJSON document redactedValue
              in if \<not> changed then trimmed else encodeCompactJSON redacted))"

definition redacted_text :: "DetailSanitizer \<Rightarrow> string" where
  "redacted_text sanitizer =
    (if trim_space (ds_RedactedValue sanitizer) = [] then ''[redacted]'' else trim_space (ds_RedactedValue sanitizer))"

definition Sanitize :: "DetailSanitizer \<Rightarrow> (string \<times> string) list \<Rightarrow> (string \<times> string) list" where
  "Sanitize sanitizer details =
    (let redactedValue = redacted_text sanitizer
     in map (\<lambda>(key, v). (key,
          if isSensitive (to_lower (trim_space key)) then redactedValue else sanitizeStructuredValue v redactedValue)) details)"

definition SanitizeEvents :: "Event list \<Rightarrow> DetailSanitizer \<Rightarrow> Event list" where
  "SanitizeEvents events sanitizer = map (\<lambda>e. e\<lparr>e_Details := Sanitize sanitizer (e_Details e)\<rparr>) events"

section \<open>Documents the encoder wrote\<close>

lemma object_map_key: "(k, v) \<in> set (object_map fs) \<longleftrightarrow> map_of (rev fs) k = Some v"
proof -
  have "k \<in> fst ` set fs \<longleftrightarrow> map_of (rev fs) k \<noteq> None" by (auto simp: map_of_eq_None_iff)
  then show ?thesis by (auto simp: object_map_def image_iff)
qed

lemma fst_object_map: "fst ` set (object_map fs) = fst ` set fs"
  by (force simp: object_map_def)

lemma json_object_text: "\<exists>t. json_encode (JObj fs) = CHR ''{'' # t @ ''}''"
  by simp

lemma trim_json_object: "trim_space (json_encode (JObj fs)) = json_encode (JObj fs)"
proof -
  obtain t where t: "json_encode (JObj fs) = CHR ''{'' # t @ ''}''" using json_object_text by blast
  have "\<not> is_space CHR ''{''" "\<not> is_space CHR ''}''" by code_simp+
  then show ?thesis by (simp only: t trim_space_def) (simp add: trim_right_eq_self)
qed

lemma json_value_object: "json_value (json_encode (JObj fs)) = Some (embed (JObj fs), [])"
proof -
  have "\<exists>n. parse_value n (json_encode (JObj fs) @ []) = Some (embed (JObj fs), [])"
    using json_reads [of "JObj fs"] unfolding reads_def by (metis json_end_simps(1))
  then show ?thesis using json_value_complete by fastforce
qed

lemma list_ex_members: "list_ex (\<lambda>(k, v). P k) gs \<longleftrightarrow> (\<exists>k\<in>fst ` set gs. P k)"
  by (induction gs) auto

lemma sanitize_changed:
  "snd (sanitizeTopLevelJSON (embed (JObj fs)) r) \<longleftrightarrow> list_ex (\<lambda>(k, v). isSensitive (to_lower (trim_space k))) fs"
proof -
  have "fst ` set (map (\<lambda>(k, v). (k, embed v)) fs) = fst ` set fs" by force
  then show ?thesis
    by (simp only: sanitizeTopLevelJSON_def embed.simps jvalue.simps snd_conv list_ex_members fst_object_map)
qed

lemma sanitize_object:
  assumes "length (json_encode (JObj fs)) \<le> maximumStructuredDetailBytes"
  shows "sanitizeStructuredValue (json_encode (JObj fs)) r =
    (if list_ex (\<lambda>(k, v). isSensitive (to_lower (trim_space k))) fs
     then encodeCompactJSON (fst (sanitizeTopLevelJSON (embed (JObj fs)) r)) else json_encode (JObj fs))"
proof -
  define doc where "doc = embed (JObj fs)"
  define body where "body = json_encode (JObj fs)"
  have "body \<noteq> []" "hd body = CHR ''{''" unfolding body_def by simp_all
  moreover have "trim_space body = body" unfolding body_def by (rule trim_json_object)
  moreover have "json_value body = Some (doc, [])" unfolding body_def doc_def by (rule json_value_object)
  moreover have "\<not> decoder_More []" by (simp add: decoder_More_def skip_ws_def)
  ultimately have "sanitizeStructuredValue body r =
      (if snd (sanitizeTopLevelJSON doc r) then encodeCompactJSON (fst (sanitizeTopLevelJSON doc r)) else body)"
    using assms unfolding body_def [symmetric] by (simp add: sanitizeStructuredValue_def split_def)
  then show ?thesis unfolding doc_def body_def sanitize_changed .
qed

lemma object_map_embed:
  "(k, u) \<in> set (object_map (map (\<lambda>(k, v). (k, embed v)) fs)) \<longleftrightarrow> (\<exists>v. map_of (rev fs) k = Some v \<and> u = embed v)"
proof -
  have "map_of (rev (map (\<lambda>(k, v). (k, embed v)) fs)) k = map_option embed (map_of (rev fs) k)"
    by (simp add: rev_map map_of_map [unfolded split_def] split_def)
  then show ?thesis by (auto simp: object_map_key)
qed


definition nested_example :: "(string \<times> json) list" where
  "nested_example = [(''route'', JStr ''submit''), (''credentials'', JObj [(''token'', JStr ''live'')])]"

lemma length_json_string: "length (json_string s) \<le> 6 * length s + 2"
proof -
  have "length (escape_char c) \<le> 6" for c by (simp add: escape_char_def hex_byte_def)
  then have "length (concat (map escape_char s)) \<le> 6 * length s"
    by (induction s) (auto intro: add_mono order_trans [OF add_mono])
  then show ?thesis by (simp add: json_string_def)
qed


end
