(* ===== verification/Http_Codec.thy ===== *)
theory Http_Codec
  imports Service_Ports Detail_Sanitizer "HOL-Library.Log_Nat"
begin

text \<open>
  What the handlers of \<^verbatim>\<open>internal/httpapi\<close> read and write: bodies in JSON, decoded into
  structs with unknown fields refused, the query of a URL, and the JSON of their answers. The parts of the
  standard library they use are modelled: \<^verbatim>\<open>json.Decoder\<close>, \<^verbatim>\<open>url.ParseQuery\<close>,
  \<^verbatim>\<open>strconv.Atoi\<close>, the rounding of \<^verbatim>\<open>strconv.ParseFloat\<close>, and
  \<^verbatim>\<open>time.Parse\<close>. The text of a \<^verbatim>\<open>float64\<close> in an answer is a parameter.
\<close>

section \<open>Reading a body\<close>

text \<open>Key names match without regard to case; the Kelvin sign, of three bytes, folds with k.\<close>

fun fold_kelvin :: "string \<Rightarrow> string" where
  "fold_kelvin (c # d # e # r) =
    (if c = CHR 0xE2 \<and> d = CHR 0x84 \<and> e = CHR 0xAA then CHR ''K'' # fold_kelvin r else c # fold_kelvin (d # e # r))"
| "fold_kelvin s = s"

definition fold_name :: "string \<Rightarrow> string" where
  "fold_name s = fold_key (fold_kelvin s)"

text \<open>An object into a struct: a field at a time, into what is there; \<^verbatim>\<open>null\<close> changes nothing.\<close>

definition decode_object :: "(string \<Rightarrow> jvalue \<Rightarrow> 'a \<Rightarrow> 'a option) \<Rightarrow> jvalue \<Rightarrow> 'a \<Rightarrow> 'a option" where
  "decode_object decode_field v x =
    (case v of
       VNull \<Rightarrow> Some x
     | VObj fs \<Rightarrow> foldl (\<lambda>y f. Option.bind y (decode_field (fold_name (fst f)) (snd f))) (Some x) fs
     | _ \<Rightarrow> None)"

definition body_limit :: nat where "body_limit = 2 ^ 20"

definition decodeJSON :: "(string \<Rightarrow> jvalue \<Rightarrow> 'a \<Rightarrow> 'a option) \<Rightarrow> 'a \<Rightarrow> string \<Rightarrow> 'a result" where
  "decodeJSON decode_field zero body =
    (case json_value (take body_limit body) of
       None \<Rightarrow> Inl (Sentinel ErrInvalid)
     | Some (v, rest) \<Rightarrow>
         (case decode_object decode_field v zero of
            None \<Rightarrow> Inl (Sentinel ErrInvalid)
          | Some x \<Rightarrow> Inr x))"

definition read_bool :: "jvalue \<Rightarrow> bool \<Rightarrow> bool option" where
  "read_bool v old = (case v of VNull \<Rightarrow> Some old | VBool b \<Rightarrow> Some b | _ \<Rightarrow> None)"

section \<open>Floating point\<close>

text \<open>The value of the text of a number, and the nearest \<^verbatim>\<open>float64\<close>, ties to even.\<close>

definition decimal_value :: "string \<Rightarrow> rat" where
  "decimal_value s =
    (let negative = (s \<noteq> [] \<and> hd s = CHR ''-'');
         s1 = (if negative then tl s else s);
         whole = takeWhile is_digit s1; s2 = dropWhile is_digit s1;
         fraction = (if s2 \<noteq> [] \<and> hd s2 = CHR ''.'' then takeWhile is_digit (tl s2) else []);
         s3 = (if s2 \<noteq> [] \<and> hd s2 = CHR ''.'' then dropWhile is_digit (tl s2) else s2);
         s4 = tl s3;
         down = (s4 \<noteq> [] \<and> hd s4 = CHR ''-'');
         power = read_nat (if s4 \<noteq> [] \<and> (hd s4 = CHR ''-'' \<or> hd s4 = CHR ''+'') then tl s4 else s4);
         mantissa = of_nat (read_nat (whole @ fraction)) / 10 ^ length fraction;
         x = (if s3 = [] then mantissa else if down then mantissa / 10 ^ power else mantissa * 10 ^ power)
     in if negative then - x else x)"

definition round_even :: "rat \<Rightarrow> int" where
  "round_even x =
    (let n = \<lfloor>x\<rfloor>; r = x - of_int n
     in if r < 1 / 2 then n else if 1 / 2 < r then n + 1 else if even n then n else n + 1)"

definition pow2 :: "int \<Rightarrow> rat" where
  "pow2 e = (if 0 \<le> e then 2 ^ nat e else 1 / 2 ^ nat (- e))"

text \<open>The exponent of a positive value: \<open>pow2 e \<le> x < pow2 (e + 1)\<close>.\<close>

definition binary_exponent :: "rat \<Rightarrow> int" where
  "binary_exponent x =
    (let (p, q) = quotient_of x; e = int (floorlog 2 (nat p)) - int (floorlog 2 (nat q))
     in if x < pow2 e then e - 1 else e)"

definition round64 :: "rat \<Rightarrow> F64" where
  "round64 x =
    (if x = 0 then Fin 0
     else
       let unit = pow2 (max (binary_exponent \<bar>x\<bar>) (-1022) - 52); y = of_int (round_even (\<bar>x\<bar> / unit)) * unit
       in if pow2 1024 \<le> y then (if x < 0 then NegInf else PosInf) else Fin (if x < 0 then - y else y))"

definition parse_float :: "string \<Rightarrow> F64 option" where
  "parse_float s = (case round64 (decimal_value s) of Fin x \<Rightarrow> Some (Fin x) | _ \<Rightarrow> None)"

definition read_float :: "jvalue \<Rightarrow> F64 \<Rightarrow> F64 option" where
  "read_float v old = (case v of VNull \<Rightarrow> Some old | VNum s \<Rightarrow> parse_float s | _ \<Rightarrow> None)"

section \<open>The bodies of the requests\<close>

record LoginBody =
  lb_Email :: string
  lb_Password :: string

definition login_field :: "string \<Rightarrow> jvalue \<Rightarrow> LoginBody \<Rightarrow> LoginBody option" where
  "login_field k v b =
    (if k = ''EMAIL'' then map_option (\<lambda>s. b\<lparr>lb_Email := s\<rparr>) (read_string v (lb_Email b))
     else if k = ''PASSWORD'' then map_option (\<lambda>s. b\<lparr>lb_Password := s\<rparr>) (read_string v (lb_Password b))
     else None)"

definition zero_item :: CargoItem where
  "zero_item = \<lparr>c_ContainerNo = [], c_HSCode = [], c_Description = [], c_GrossKg = 0, c_Packages = 0, c_Hazardous = False\<rparr>"

definition item_field :: "string \<Rightarrow> jvalue \<Rightarrow> CargoItem \<Rightarrow> CargoItem option" where
  "item_field k v i =
    (if k = ''CONTAINERNO'' then map_option (\<lambda>s. i\<lparr>c_ContainerNo := s\<rparr>) (read_string v (c_ContainerNo i))
     else if k = ''HSCODE'' then map_option (\<lambda>s. i\<lparr>c_HSCode := s\<rparr>) (read_string v (c_HSCode i))
     else if k = ''DESCRIPTION'' then map_option (\<lambda>s. i\<lparr>c_Description := s\<rparr>) (read_string v (c_Description i))
     else if k = ''GROSSKG'' then map_option (\<lambda>n. i\<lparr>c_GrossKg := n\<rparr>) (read_int64 v (c_GrossKg i))
     else if k = ''PACKAGES'' then map_option (\<lambda>n. i\<lparr>c_Packages := n\<rparr>) (read_int64 v (c_Packages i))
     else if k = ''HAZARDOUS'' then map_option (\<lambda>b. i\<lparr>c_Hazardous := b\<rparr>) (read_bool v (c_Hazardous i))
     else None)"

text \<open>
  A slice is its backing array and its length. A repeated \<^verbatim>\<open>items\<close> decodes into the elements
  that an earlier one left in the array.
\<close>

fun decode_elements :: "jvalue list \<Rightarrow> CargoItem list \<Rightarrow> CargoItem list option" where
  "decode_elements [] old = Some old"
| "decode_elements (v # vs) old =
    Option.bind (decode_object item_field v (case old of [] \<Rightarrow> zero_item | i # _ \<Rightarrow> i)) (\<lambda>i.
    map_option (\<lambda>is. i # is) (decode_elements vs (tl old)))"

definition decode_items :: "jvalue \<Rightarrow> CargoItem list \<times> nat \<Rightarrow> (CargoItem list \<times> nat) option" where
  "decode_items v old =
    (case v of
       VNull \<Rightarrow> Some ([], 0)
     | VArr vs \<Rightarrow> if vs = [] then Some ([], 0) else map_option (\<lambda>array. (array, length vs)) (decode_elements vs (fst old))
     | _ \<Rightarrow> None)"

record DeclareBody =
  vb_ID :: string
  vb_VesselIMO :: string
  vb_VesselName :: string
  vb_OriginPort :: string
  vb_DestinationPort :: string
  vb_ETA :: Time
  vb_Items :: "CargoItem list \<times> nat"

definition declare_field :: "string \<Rightarrow> jvalue \<Rightarrow> DeclareBody \<Rightarrow> DeclareBody option" where
  "declare_field k v b =
    (if k = ''ID'' then map_option (\<lambda>s. b\<lparr>vb_ID := s\<rparr>) (read_string v (vb_ID b))
     else if k = ''VESSEL_IMO'' then map_option (\<lambda>s. b\<lparr>vb_VesselIMO := s\<rparr>) (read_string v (vb_VesselIMO b))
     else if k = ''VESSEL_NAME'' then map_option (\<lambda>s. b\<lparr>vb_VesselName := s\<rparr>) (read_string v (vb_VesselName b))
     else if k = ''ORIGIN_PORT'' then map_option (\<lambda>s. b\<lparr>vb_OriginPort := s\<rparr>) (read_string v (vb_OriginPort b))
     else if k = ''DESTINATION_PORT'' then map_option (\<lambda>s. b\<lparr>vb_DestinationPort := s\<rparr>) (read_string v (vb_DestinationPort b))
     else if k = ''ETA'' then map_option (\<lambda>t. b\<lparr>vb_ETA := t\<rparr>) (read_time v (vb_ETA b))
     else if k = ''ITEMS'' then map_option (\<lambda>is. b\<lparr>vb_Items := is\<rparr>) (decode_items v (vb_Items b))
     else None)"

record InspectionBody =
  ib_ID :: string
  ib_Kind :: string

definition inspection_field :: "string \<Rightarrow> jvalue \<Rightarrow> InspectionBody \<Rightarrow> InspectionBody option" where
  "inspection_field k v b =
    (if k = ''ID'' then map_option (\<lambda>s. b\<lparr>ib_ID := s\<rparr>) (read_string v (ib_ID b))
     else if k = ''KIND'' then map_option (\<lambda>s. b\<lparr>ib_Kind := s\<rparr>) (read_string v (ib_Kind b))
     else None)"

definition finding_field :: "string \<Rightarrow> jvalue \<Rightarrow> string \<Rightarrow> string option" where
  "finding_field k v b = (if k = ''FINDING'' then read_string v b else None)"

record ReserveBody =
  rb_ID :: string
  rb_ChamberID :: string
  rb_StartsAt :: Time
  rb_EndsAt :: Time
  rb_LengthM :: F64
  rb_BeamM :: F64
  rb_DraftM :: F64

definition reserve_field :: "string \<Rightarrow> jvalue \<Rightarrow> ReserveBody \<Rightarrow> ReserveBody option" where
  "reserve_field k v b =
    (if k = ''ID'' then map_option (\<lambda>s. b\<lparr>rb_ID := s\<rparr>) (read_string v (rb_ID b))
     else if k = ''CHAMBER_ID'' then map_option (\<lambda>s. b\<lparr>rb_ChamberID := s\<rparr>) (read_string v (rb_ChamberID b))
     else if k = ''STARTS_AT'' then map_option (\<lambda>t. b\<lparr>rb_StartsAt := t\<rparr>) (read_time v (rb_StartsAt b))
     else if k = ''ENDS_AT'' then map_option (\<lambda>t. b\<lparr>rb_EndsAt := t\<rparr>) (read_time v (rb_EndsAt b))
     else if k = ''LENGTH_M'' then map_option (\<lambda>x. b\<lparr>rb_LengthM := x\<rparr>) (read_float v (rb_LengthM b))
     else if k = ''BEAM_M'' then map_option (\<lambda>x. b\<lparr>rb_BeamM := x\<rparr>) (read_float v (rb_BeamM b))
     else if k = ''DRAFT_M'' then map_option (\<lambda>x. b\<lparr>rb_DraftM := x\<rparr>) (read_float v (rb_DraftM b))
     else None)"

section \<open>The query of a URL\<close>

fun split_on :: "char \<Rightarrow> string \<Rightarrow> string list" where
  "split_on d [] = [[]]"
| "split_on d (c # s) = (if c = d then [] # split_on d s else (case split_on d s of [] \<Rightarrow> [[c]] | t # ts \<Rightarrow> (c # t) # ts))"

fun query_unescape :: "string \<Rightarrow> string option" where
  "query_unescape [] = Some []"
| "query_unescape (c # s) =
    (if c = CHR ''%''
     then (case s of
         h # l # r \<Rightarrow>
           if is_hex h \<and> is_hex l then map_option (\<lambda>t. char_of (16 * hex_digit_value h + hex_digit_value l) # t) (query_unescape r)
           else None
       | _ \<Rightarrow> None)
     else map_option (\<lambda>t. (if c = CHR ''+'' then CHR '' '' else c) # t) (query_unescape s))"

definition query_pair :: "string \<Rightarrow> (string \<times> string) list" where
  "query_pair s =
    (if s = [] \<or> CHR '';'' \<in> set s then []
     else (case (query_unescape (takeWhile (\<lambda>c. c \<noteq> CHR ''='') s), query_unescape (tl (dropWhile (\<lambda>c. c \<noteq> CHR ''='') s))) of
         (Some k, Some v) \<Rightarrow> [(k, v)]
       | _ \<Rightarrow> []))"

definition parse_query :: "string \<Rightarrow> (string \<times> string) list" where
  "parse_query s = concat (map query_pair (split_on CHR ''&'' s))"

definition query_values :: "string \<Rightarrow> (string \<times> string) list \<Rightarrow> string list" where
  "query_values k q = map snd (filter (\<lambda>p. fst p = k) q)"

definition query_get :: "string \<Rightarrow> (string \<times> string) list \<Rightarrow> string" where
  "query_get k q = (case query_values k q of [] \<Rightarrow> [] | v # _ \<Rightarrow> v)"

text \<open>\<^verbatim>\<open>limit, _ := strconv.Atoi(s)\<close>: 0 for what is not a number, the nearest number for one out of range.\<close>

definition atoi :: "string \<Rightarrow> int" where
  "atoi s =
    (let digits = (if s \<noteq> [] \<and> (hd s = CHR ''-'' \<or> hd s = CHR ''+'') then tl s else s);
         n = (if s \<noteq> [] \<and> hd s = CHR ''-'' then - int (read_nat digits) else int (read_nat digits))
     in if digits = [] \<or> \<not> list_all is_digit digits then 0 else max min_int64 (min max_int64 n))"

text \<open>
  \<^verbatim>\<open>time.Parse(time.RFC3339, s)\<close>, which is laxer than the decoder of JSON: an hour of one
  digit, a comma before the fraction, an offset of 24 hours or 60 minutes.
\<close>

definition lax_zone :: "string \<Rightarrow> int option" where
  "lax_zone s =
    (if s = ''Z'' then Some 0
     else if length s \<noteq> 6 \<or> s ! 0 \<notin> {CHR ''-'', CHR ''+''} \<or> s ! 3 \<noteq> CHR '':'' then None
     else (case (parse_uint (field 1 3 s) 0 24, parse_uint (field 4 6 s) 0 60) of
         (Some hour, Some minute) \<Rightarrow>
           Some (if s ! 0 = CHR ''-'' then - (60 * (60 * hour + minute)) else 60 * (60 * hour + minute))
       | _ \<Rightarrow> None))"

definition time_Parse :: "string \<Rightarrow> Time option" where
  "time_Parse text0 =
    (let text1 = (if 12 < length text0 \<and> is_digit (text0 ! 11) \<and> text0 ! 12 = CHR '':''
           then take 11 text0 @ CHR ''0'' # drop 11 text0 else text0);
         s = (if 20 < length text1 \<and> text1 ! 19 = CHR '','' \<and> is_digit (text1 ! 20) then text1[19 := CHR ''.''] else text1)
     in if length s < 19 \<or> s ! 4 \<noteq> CHR ''-'' \<or> s ! 7 \<noteq> CHR ''-'' \<or> s ! 10 \<noteq> CHR ''T'' \<or> s ! 13 \<noteq> CHR '':'' \<or> s ! 16 \<noteq> CHR '':''
        then None
        else
          let (nanoseconds, zone) = parse_nanoseconds (drop 19 s)
          in case (parse_date s, parse_clock s, lax_zone zone) of
               (Some days, Some seconds, Some offset) \<Rightarrow> Some (24 * Hour * days + Second * (seconds - offset) + nanoseconds)
             | _ \<Rightarrow> None)"

section \<open>Answers\<close>

definition inspection_json :: "Inspection \<Rightarrow> json option" where
  "inspection_json i =
    (case (json_time (i_OpenedAt i), json_pointer (i_ClosedAt i)) of
       (Some opened, Some until) \<Rightarrow>
         Some (JObj [(''ID'', JStr (i_ID i)), (''VoyageID'', JStr (i_VoyageID i)), (''OfficerID'', JStr (i_OfficerID i)),
           (''Kind'', JStr (i_Kind i)), (''Status'', JStr (i_Status i)), (''Finding'', JStr (i_Finding i)),
           (''OpenedAt'', opened), (''ClosedAt'', until), (''Version'', JInt (i_Version i))])
     | _ \<Rightarrow> None)"

definition float_text :: "(rat \<Rightarrow> string) \<Rightarrow> F64 \<Rightarrow> string option" where
  "float_text format x = (case x of Fin r \<Rightarrow> Some (format r) | _ \<Rightarrow> None)"

definition reservation_text :: "(rat \<Rightarrow> string) \<Rightarrow> Reservation \<Rightarrow> string option" where
  "reservation_text format r =
    (case (json_time (r_StartsAt r), json_time (r_EndsAt r), float_text format (r_LengthM r), float_text format (r_BeamM r),
        float_text format (r_DraftM r)) of
       (Some starts, Some ends, Some len, Some beam, Some draft) \<Rightarrow>
         Some (CHR ''{'' # commas [member_text (''ID'', JStr (r_ID r)), member_text (''VoyageID'', JStr (r_VoyageID r)),
           member_text (''TenantID'', JStr (r_TenantID r)), member_text (''ChamberID'', JStr (r_ChamberID r)),
           member_text (''StartsAt'', starts), member_text (''EndsAt'', ends),
           json_string ''LengthM'' @ CHR '':'' # len, json_string ''BeamM'' @ CHR '':'' # beam,
           json_string ''DraftM'' @ CHR '':'' # draft, member_text (''Status'', JStr (r_Status r)),
           member_text (''Version'', JInt (r_Version r))] @ [CHR ''}''])
     | _ \<Rightarrow> None)"

definition event_json :: "Event \<Rightarrow> json option" where
  "event_json e =
    map_option (\<lambda>t. JObj [(''ID'', JStr (e_ID e)), (''TenantID'', JStr (e_TenantID e)), (''ActorID'', JStr (e_ActorID e)),
      (''Action'', JStr (e_Action e)), (''ObjectType'', JStr (e_ObjectType e)), (''ObjectID'', JStr (e_ObjectID e)),
      (''Outcome'', JStr (e_Outcome e)), (''Details'', JObj (map (\<lambda>(k, v). (k, JStr v)) (details_pairs (e_Details e)))),
      (''OccurredAt'', t), (''Sequence'', JInt (e_Sequence e)), (''PreviousHash'', JStr (e_PreviousHash e)),
      (''Hash'', JStr (e_Hash e))]) (json_time (e_OccurredAt e))"

text \<open>A page; \<open>no_items\<close> is what stands for no items, \<^verbatim>\<open>null\<close> for a nil slice.\<close>

definition page_json :: "json \<Rightarrow> ('a \<Rightarrow> json option) \<Rightarrow> 'a Page \<Rightarrow> json option" where
  "page_json no_items item_json page =
    (if list_ex (\<lambda>x. item_json x = None) (pg_Items page) then None
     else Some (JObj (
       [(''items'', if pg_Items page = [] then no_items else JArr (map (\<lambda>x. the (item_json x)) (pg_Items page)))] @
       (if pg_NextCursor page = [] then [] else [(''next_cursor'', JStr (pg_NextCursor page))]) @
       [(''has_more'', JBool (pg_HasMore page))])))"

section \<open>Lemmas\<close>

lemma short_body: "length s \<le> 1000 \<Longrightarrow> take body_limit s = s"
  by (simp add: body_limit_def)

lemma round_even_int: "round_even (of_int n) = n"
  by (simp add: round_even_def)

text \<open>Integers below \<open>2 ^ 53\<close> are read exactly.\<close>

lemma round64_int:
  assumes "\<bar>n\<bar> < 2 ^ 53"
  shows "round64 (of_int n) = Fin (of_int n)"
proof (cases "n = 0")
  case False
  define m where "m = \<bar>n\<bar>"
  have m: "0 < m" "m < 2 ^ 53" "\<bar>of_int n\<bar> = (of_int m :: rat)" using False assms by (simp_all add: m_def)
  have "nat m < 2 ^ 53" using m by (simp add: nat_less_iff)
  then have "floorlog 2 (nat m) \<le> 53" by (simp add: floorlog_le_iff)
  then have "binary_exponent (of_int m) \<le> 52"
    by (simp add: binary_exponent_def Let_def floorlog_def)
  then have "pow2 (max (binary_exponent (of_int m)) (-1022) - 52) = 1 / 2 ^ nat (52 - max (binary_exponent (of_int m)) (-1022))"
    by (auto simp: pow2_def)
  then obtain j where j: "pow2 (max (binary_exponent (of_int m)) (-1022) - 52) = 1 / 2 ^ j" by blast
  have "of_int m / (1 / 2 ^ j) = (of_int (m * 2 ^ j) :: rat)" by simp
  then have round: "round_even (of_int m / (1 / 2 ^ j)) = m * 2 ^ j" by (simp only: round_even_int)
  have "(of_int m :: rat) < pow2 1024"
  proof -
    have "(of_int m :: rat) < of_int (2 ^ 53)" using m(2) by (simp only: of_int_less_iff)
    also have "\<dots> \<le> 2 ^ 1024" by simp
    finally show ?thesis by (simp add: pow2_def)
  qed
  moreover have "n < 0 \<Longrightarrow> - of_int m = (of_int n :: rat)" "\<not> n < 0 \<Longrightarrow> of_int m = (of_int n :: rat)" using m_def by auto
  ultimately show ?thesis using False m(3) round j
    by (auto simp add: round64_def Let_def not_le simp del: of_int_eq_iff)
qed (simp add: round64_def)

end
