(* ===== verification/Customs_Client.thy ===== *)
theory Customs_Client
  imports Customs_Gateway Url Reporting Http_Codec
begin

text \<open>
  \<^verbatim>\<open>internal/customs/client.go\<close>: the gateway that speaks to the customs service. The HTTP
  exchange is a \<open>transport\<close>, a function from a request and a world to an answer or an error and the
  next world, as the \<^verbatim>\<open>Do\<close> of an \<^verbatim>\<open>http.Client\<close>; the client made
  where none is configured is a parameter, by its time limit. An answer is a status, the bytes that its
  body yields and the error that reading it ends with, if it does.
\<close>

section \<open>Requests and answers\<close>

record HttpRequest =
  hq_Method :: string
  hq_URL :: string
  hq_Header :: "(string \<times> string) list"
  hq_Body :: string

record HttpAnswer =
  ha_Status :: int
  ha_Body :: string
  ha_Broken :: "error option"

type_synonym 'w transport = "HttpRequest \<Rightarrow> 'w \<Rightarrow> HttpAnswer result \<times> 'w"

record 'w HTTPClient =
  hc_Endpoint :: string
  hc_Credential :: string
  hc_Client :: "'w transport option"
  hc_UserAgent :: string

definition client_validate :: "'w HTTPClient \<Rightarrow> unit result" where
  "client_validate client =
    (case url_Parse (hc_Endpoint client) of
       None \<Rightarrow> Inl (errorf ErrInvalid ''customs gateway endpoint'')
     | Some (scheme, host, path) \<Rightarrow>
         if scheme = [] \<or> host = [] then Inl (errorf ErrInvalid ''customs gateway endpoint'')
         else refuse_if (trim_space (hc_Credential client) = []) (errorf ErrInvalid ''customs gateway credential''))"

definition declaration_json :: "Declaration \<Rightarrow> json option" where
  "declaration_json d =
    map_option (\<lambda>at_time. JObj [(''tenant_id'', JStr (d_TenantID d)), (''voyage_id'', JStr (d_VoyageID d)),
      (''manifest_hash'', JStr (d_ManifestHash d)), (''origin_port'', JStr (d_OriginPort d)), (''submitted_at'', at_time)])
      (json_time (d_SubmittedAt d))"

definition declarations_url :: "'w HTTPClient \<Rightarrow> string" where
  "declarations_url client = trim_slashes (hc_Endpoint client) @ ''/v1/declarations''"

definition declarations_request :: "'w HTTPClient \<Rightarrow> string \<Rightarrow> HttpRequest" where
  "declarations_request client payload =
    \<lparr>hq_Method = ''POST'', hq_URL = declarations_url client,
     hq_Header = [(''Authorization'', ''Bearer '' @ hc_Credential client), (''Content-Type'', ''application/json'')] @
       (if hc_UserAgent client \<noteq> [] then [(''User-Agent'', hc_UserAgent client)] else []),
     hq_Body = payload\<rparr>"

text \<open>The decision as \<^verbatim>\<open>json.Unmarshal\<close> reads it: other members are ignored.\<close>

definition zero_decision :: CustomsDecision where
  "zero_decision = \<lparr>cd_Reference = [], cd_Status = [], cd_Reason = [], cd_DecidedAt = 0\<rparr>"

definition decision_field :: "string \<Rightarrow> jvalue \<Rightarrow> CustomsDecision \<Rightarrow> CustomsDecision option" where
  "decision_field k v d =
    (if k = ''REFERENCE'' then map_option (\<lambda>s. d\<lparr>cd_Reference := s\<rparr>) (read_string v (cd_Reference d))
     else if k = ''STATUS'' then map_option (\<lambda>s. d\<lparr>cd_Status := s\<rparr>) (read_string v (cd_Status d))
     else if k = ''REASON'' then map_option (\<lambda>s. d\<lparr>cd_Reason := s\<rparr>) (read_string v (cd_Reason d))
     else if k = ''DECIDED_AT'' then map_option (\<lambda>t. d\<lparr>cd_DecidedAt := t\<rparr>) (read_time v (cd_DecidedAt d))
     else Some d)"

definition decode_decision :: "string \<Rightarrow> CustomsDecision result" where
  "decode_decision body =
    (case Option.bind (json_document body) (\<lambda>v. decode_object decision_field v zero_decision) of
       None \<Rightarrow> Inl (Plain ''json'')
     | Some d \<Rightarrow> Inr d)"

text \<open>\<^verbatim>\<open>io.ReadAll(io.LimitReader(response.Body, 1<<20))\<close>: the limit is reached before an error behind it.\<close>

definition read_limited :: "HttpAnswer \<Rightarrow> string result" where
  "read_limited response =
    (if body_limit \<le> length (ha_Body response) then Inr (take body_limit (ha_Body response))
     else (case ha_Broken response of None \<Rightarrow> Inr (ha_Body response) | Some e \<Rightarrow> Inl e))"

definition read_answer :: "HttpAnswer \<Rightarrow> CustomsDecision result" where
  "read_answer response =
    (case read_limited response of
       Inl e \<Rightarrow> Inl (Wrapped ''read customs response: '' e [])
     | Inr body \<Rightarrow> response_decision dec_int (ha_Status response) (decode_decision body))"

text \<open>The error of an exchange: that of a cancelled context is passed on as it is.\<close>

definition exchange_error :: "error \<Rightarrow> error" where
  "exchange_error e =
    (if errors_is e ContextCanceled \<or> errors_is e ContextDeadlineExceeded then e else Wrapped ''customs gateway request: '' e [])"

definition http_client :: "(Duration \<Rightarrow> 'w transport) \<Rightarrow> 'w HTTPClient \<Rightarrow> 'w transport" where
  "http_client net client = (case hc_Client client of None \<Rightarrow> net (5 * Second) | Some transport \<Rightarrow> transport)"

definition client_Submit :: "(Duration \<Rightarrow> 'w transport) \<Rightarrow> 'w HTTPClient \<Rightarrow> 'w gateway" where
  "client_Submit net client w d =
    (case bindR (client_validate client) (\<lambda>_. validateDeclaration d) of
       Inl e \<Rightarrow> (Inl e, w)
     | Inr _ \<Rightarrow>
         (case declaration_json d of
            None \<Rightarrow> (Inl (Wrapped ''encode customs declaration: '' json_time_error []), w)
          | Some payload \<Rightarrow>
              if url_Parse (declarations_url client) = None
              then (Inl (Wrapped ''create customs request: '' (Plain ''parse'') []), w)
              else (case http_client net client (declarations_request client (json_encode payload)) w of
                  (Inl e, w1) \<Rightarrow> (Inl (exchange_error e), w1)
                | (Inr response, w1) \<Rightarrow> (read_answer response, w1))))"

section \<open>What the request carries\<close>

text \<open>The declaration as its own tags read it back.\<close>

definition declaration_field :: "string \<Rightarrow> jvalue \<Rightarrow> Declaration \<Rightarrow> Declaration option" where
  "declaration_field k v d =
    (if k = ''TENANT_ID'' then map_option (\<lambda>s. d\<lparr>d_TenantID := s\<rparr>) (read_string v (d_TenantID d))
     else if k = ''VOYAGE_ID'' then map_option (\<lambda>s. d\<lparr>d_VoyageID := s\<rparr>) (read_string v (d_VoyageID d))
     else if k = ''MANIFEST_HASH'' then map_option (\<lambda>s. d\<lparr>d_ManifestHash := s\<rparr>) (read_string v (d_ManifestHash d))
     else if k = ''ORIGIN_PORT'' then map_option (\<lambda>s. d\<lparr>d_OriginPort := s\<rparr>) (read_string v (d_OriginPort d))
     else if k = ''SUBMITTED_AT'' then map_option (\<lambda>t. d\<lparr>d_SubmittedAt := t\<rparr>) (read_time v (d_SubmittedAt d))
     else Some d)"

definition sent_declaration :: "string \<Rightarrow> Declaration option" where
  "sent_declaration body =
    Option.bind (json_document body) (\<lambda>v. decode_object declaration_field v
      \<lparr>d_TenantID = [], d_VoyageID = [], d_ManifestHash = [], d_OriginPort = [], d_SubmittedAt = 0\<rparr>)"

lemma field_names:
  "fold_name ''tenant_id'' = ''TENANT_ID''" "fold_name ''voyage_id'' = ''VOYAGE_ID''" "fold_name ''manifest_hash'' = ''MANIFEST_HASH''"
  "fold_name ''origin_port'' = ''ORIGIN_PORT''" "fold_name ''submitted_at'' = ''SUBMITTED_AT''" "fold_name ''reference'' = ''REFERENCE''"
  "fold_name ''status'' = ''STATUS''" "fold_name ''reason'' = ''REASON''" "fold_name ''decided_at'' = ''DECIDED_AT''"
  by code_simp+

lemma sent_declaration_json:
  assumes "declaration_json d = Some j"
  shows "sent_declaration (json_encode j) = Some d"
proof -
  have year: "0 \<le> year_of (d_SubmittedAt d)" "year_of (d_SubmittedAt d) < 10000"
    and j: "j = JObj [(''tenant_id'', JStr (d_TenantID d)), (''voyage_id'', JStr (d_VoyageID d)),
      (''manifest_hash'', JStr (d_ManifestHash d)), (''origin_port'', JStr (d_OriginPort d)),
      (''submitted_at'', JStr (rfc3339_nano (d_SubmittedAt d)))]"
    using assms by (auto simp: declaration_json_def json_time_def split: if_splits)
  show ?thesis
    unfolding sent_declaration_def json_document_encode unfolding j
    by (simp add: decode_object_def field_names declaration_field_def read_string_def read_time_def escape_rfc3339 parse_rfc3339_nano [OF year])
qed

section \<open>One submission\<close>

lemma retryable_Wrapped [simp]: "retryable (Wrapped p e q) \<longleftrightarrow> retryable e"
  by (simp add: retryable_def)

lemma retryable_exchange_error [simp]: "retryable (exchange_error e) \<longleftrightarrow> retryable e"
  by (simp add: exchange_error_def)

lemma invalid_not_retryable [simp]: "\<not> retryable (Sentinel ErrInvalid)"
  by (simp add: retryable_def)

lemma declarations_path: "path_text ''/v1/declarations''"
  by code_simp

text \<open>The request of a valid client can always be made: the error branch of \<^verbatim>\<open>NewRequestWithContext\<close> is dead.\<close>

lemma declarations_url_parses:
  assumes "client_validate client = Inr ()"
  shows "\<exists>scheme host path path1. url_Parse (hc_Endpoint client) = Some (scheme, host, path) \<and> host \<noteq> [] \<and>
    url_Parse (declarations_url client) = Some (scheme, host, path1)"
proof -
  obtain scheme host path where "url_Parse (hc_Endpoint client) = Some (scheme, host, path)" "host \<noteq> []"
    using assms by (auto simp: client_validate_def split: option.splits if_splits)
  with url_Parse_join [OF this declarations_path] show ?thesis unfolding declarations_url_def by blast
qed

text \<open>What a valid submission sends, and what it makes of the answer.\<close>

definition submission_request :: "'w HTTPClient \<Rightarrow> Declaration \<Rightarrow> HttpRequest" where
  "submission_request client d = declarations_request client (case declaration_json d of None \<Rightarrow> [] | Some j \<Rightarrow> json_encode j)"

definition submission_outcome :: "HttpAnswer result \<Rightarrow> CustomsDecision result" where
  "submission_outcome r = (case r of Inl e \<Rightarrow> Inl (exchange_error e) | Inr response \<Rightarrow> read_answer response)"

lemma client_Submit_valid:
  assumes "client_validate client = Inr ()" and "validateDeclaration d = Inr ()" and "declaration_json d \<noteq> None"
  shows "client_Submit net client w d =
    (let (r, w1) = http_client net client (submission_request client d) w in (submission_outcome r, w1))"
  using assms declarations_url_parses [OF assms(1)]
  by (auto simp: client_Submit_def submission_request_def submission_outcome_def Let_def split: option.splits prod.splits sum.splits)

lemma read_answer_Inr:
  "read_answer response = Inr x \<longleftrightarrow> 200 \<le> ha_Status response \<and> ha_Status response < 300 \<and>
    (\<exists>body. read_limited response = Inr body \<and> decode_decision body = Inr x) \<and> validateDecision x = Inr ()"
  by (auto simp: read_answer_def response_decision_def bindR_Inr_iff split: sum.splits if_splits)

lemma decode_error_retryable: "decode_decision body = Inl e \<Longrightarrow> retryable e"
  by (auto simp: decode_decision_def retryable_def split: option.splits)

lemma validateDecision_Inl: "validateDecision x = Inl e \<Longrightarrow> \<not> retryable e"
  by (auto simp: validateDecision_def split: if_splits)

text \<open>Which failures are final: a refusal by the service, and an answer that is read but is no valid decision.\<close>

lemma read_answer_retryable:
  assumes "read_answer response = Inl e" and "\<forall>b. ha_Broken response = Some b \<longrightarrow> retryable b"
  shows "retryable e \<longleftrightarrow> \<not> (\<exists>body. read_limited response = Inr body \<and>
    (ha_Status response \<in> {401, 403, 409} \<or>
     200 \<le> ha_Status response \<and> ha_Status response < 300 \<and> (\<exists>x. decode_decision body = Inr x \<and> validateDecision x \<noteq> Inr ())))"
proof (cases "read_limited response")
  case (Inl b)
  then have "ha_Broken response = Some b" by (auto simp: read_limited_def split: if_splits option.splits)
  with assms Inl show ?thesis by (auto simp: read_answer_def)
next
  case (Inr body)
  let ?s = "ha_Status response"
  have run: "response_decision dec_int ?s (decode_decision body) = Inl e" using assms(1) Inr by (simp add: read_answer_def)
  consider "?s \<in> {401, 403, 409}" | "?s \<notin> {401, 403, 409}" "?s < 200 \<or> 300 \<le> ?s" | "200 \<le> ?s" "?s < 300" by fastforce
  then show ?thesis
  proof cases
    case 3
    show ?thesis
    proof (cases "decode_decision body")
      case (Inl f)
      with run 3 Inr decode_error_retryable [OF Inl] show ?thesis by (auto simp: response_decision_def)
    next
      case dec: (Inr x)
      with run 3 have "validateDecision x = Inl e" by (auto simp: response_decision_def bindR_Inl_iff)
      with validateDecision_Inl [OF this] dec 3 Inr show ?thesis by auto
    qed
  qed (use run Inr in \<open>auto simp: response_decision_def retryable_def\<close>)
qed


definition example_client :: "'w transport \<Rightarrow> 'w HTTPClient" where
  "example_client transport = \<lparr>hc_Endpoint = ''https://customs.example/gateway/'', hc_Credential = ''secret'',
    hc_Client = Some transport, hc_UserAgent = ''CanalClear''\<rparr>"

lemma example_client_valid: "client_validate (example_client transport) = Inr ()"
proof -
  have "(case url_Parse ''https://customs.example/gateway/'' of None \<Rightarrow> False | Some (scheme, host, path) \<Rightarrow> scheme \<noteq> [] \<and> host \<noteq> [])"
    "trim_space ''secret'' \<noteq> []" by code_simp+
  then show ?thesis by (auto simp: client_validate_def example_client_def split: option.splits)
qed

definition hashed_declaration :: Declaration where
  "hashed_declaration = \<lparr>d_TenantID = ''panama-east'', d_VoyageID = ''voyage-1'', d_ManifestHash = replicate 64 CHR ''a'',
    d_OriginPort = ''CNSHA'', d_SubmittedAt = 4\<rparr>"


end
