(* ===== verification/Customs_Delivery.thy ===== *)
theory Customs_Delivery
  imports Customs_Client
begin

text \<open>
  The customs submission put together: the service over the gateway that retries, over the client, over a
  connection that records what it is asked and answers by a script. A simulation of the attempts by those of a
  scripted gateway carries the theorem: a declaration gets through failures that pass, and arrives as it was filed.
\<close>

section \<open>The gateway that retries\<close>

text \<open>
  Its default sleeper waits for the timer or the context: \<open>wait\<close> is what comes first, the error of the
  context or nothing.
\<close>

record 'w RetryingGateway =
  gw_Next :: "'w gateway option"
  gw_Policy :: RetryPolicy
  gw_Sleep :: "'w sleeper option"

definition sleepContext :: "('w \<Rightarrow> Duration \<Rightarrow> error option \<times> 'w) \<Rightarrow> 'w sleeper" where
  "sleepContext wait w duration =
    (case wait w duration of (Some e, w1) \<Rightarrow> (Inl e, w1) | (None, w1) \<Rightarrow> (Inr (), w1))"

definition gateway_Submit :: "('w \<Rightarrow> Duration \<Rightarrow> error option \<times> 'w) \<Rightarrow> 'w RetryingGateway \<Rightarrow> 'w gateway" where
  "gateway_Submit wait gw w d =
    retrying_Submit (gw_Next gw) (case gw_Sleep gw of None \<Rightarrow> sleepContext wait | Some slp \<Rightarrow> slp) (gw_Policy gw) d w"

section \<open>A simulation of the attempts\<close>

lemma attempts_loop_simulated:
  assumes "\<And>w. map_prod (\<lambda>r. r) abs1 (submit w d) = submit1 (abs1 w) d" and "\<And>w t. map_prod (\<lambda>r. r) abs1 (slp w t) = slp1 (abs1 w) t"
  shows "map_prod (\<lambda>r. r) abs1 (attempts_loop submit slp p d n k e w) = attempts_loop submit1 slp1 p d n k e (abs1 w)"
proof (induction k arbitrary: n e w)
  case (Suc k)
  obtain r w1 where r: "submit w d = (r, w1)" by fastforce
  then have r1: "submit1 (abs1 w) d = (r, abs1 w1)" using assms(1) [of w] by simp
  show ?case
  proof (cases "(\<exists>x. r = Inr x) \<or> (\<exists>f. r = Inl f \<and> (\<not> retryable f \<or> k = 0))")
    case True
    with r r1 show ?thesis by auto
  next
    case False
    then obtain f where f: "r = Inl f" "retryable f" "k \<noteq> 0" by (cases r) auto
    obtain s w2 where s: "slp w1 (retry_backoff p n) = (s, w2)" by fastforce
    then have s1: "slp1 (abs1 w1) (retry_backoff p n) = (s, abs1 w2)" using assms(2) [of w1] by (metis map_prod_simp)
    show ?thesis using Suc.IH [of "Suc n" f w2] r r1 f s s1 by (cases s) simp_all
  qed
qed simp

lemma attempts_loop_preserves:
  assumes "\<And>w. inv1 w \<Longrightarrow> inv1 (snd (submit w d))" and "\<And>w t. inv1 w \<Longrightarrow> inv1 (snd (slp w t))" and "inv1 w"
  shows "inv1 (snd (attempts_loop submit slp p d n k e w))"
  using assms(3)
proof (induction k arbitrary: n e w)
  case (Suc k)
  obtain r w1 where r: "submit w d = (r, w1)" by fastforce
  obtain s w2 where s: "slp w1 (retry_backoff p n) = (s, w2)" by fastforce
  have "inv1 w1" using assms(1) [OF Suc.prems] r by simp
  moreover from assms(2) [OF this] s have "inv1 w2" by (metis snd_conv)
  ultimately show ?case using Suc.IH [of w2] r s by (auto split: sum.splits)
qed simp

section \<open>A recorded connection\<close>

text \<open>What was sent and how long was waited; the n-th request gets the n-th answer, and a pause always completes.\<close>

type_synonym wire = "HttpRequest list \<times> Duration list"

definition recorded :: "(nat \<Rightarrow> HttpAnswer result) \<Rightarrow> wire transport" where
  "recorded script rq w = (script (length (fst w)), (fst w @ [rq], snd w))"

definition passes :: "wire \<Rightarrow> Duration \<Rightarrow> error option \<times> wire" where
  "passes w pause = (None, (fst w, snd w @ [pause]))"

abbreviation waits :: "wire sleeper" where
  "waits \<equiv> sleepContext passes"

lemma waits_def: "waits w pause = (Inr (), (fst w, snd w @ [pause]))"
  by (simp add: sleepContext_def passes_def)

abbreviation call_abs :: "wire \<Rightarrow> call_log" where
  "call_abs w \<equiv> (length (fst w), snd w)"

definition valid_submission :: "'w HTTPClient \<Rightarrow> Declaration \<Rightarrow> bool" where
  "valid_submission client d \<longleftrightarrow> client_validate client = Inr () \<and> validateDeclaration d = Inr () \<and> declaration_json d \<noteq> None"

lemma recorded_Submit:
  assumes "valid_submission client d" and "hc_Client client = Some (recorded script)"
  shows "client_Submit net client w d =
    (submission_outcome (script (length (fst w))), (fst w @ [submission_request client d], snd w))"
  using assms client_Submit_valid [of client d net w]
  by (simp add: valid_submission_def http_client_def recorded_def)

text \<open>The attempts over the connection: those of the scripted gateway, every one with the same request.\<close>

lemma retrying_recorded:
  assumes "valid_submission client d" and "hc_Client client = Some (recorded script)"
    and "\<forall>i<n. \<exists>e. submission_outcome (script i) = Inl e \<and> retryable e" and "submission_outcome (script n) = Inr x"
    and "int n < rp_Attempts (default_policy policy)"
  shows "\<exists>pauses. retrying_Submit (Some (client_Submit net client)) waits policy d ([], []) =
    (Inr x, (replicate (Suc n) (submission_request client d), pauses)) \<and> length pauses = n"
proof -
  let ?p = "default_policy policy" and ?rq = "submission_request client d" and ?script = "\<lambda>i. submission_outcome (script i)"
  obtain k where k: "nat (rp_Attempts ?p) = Suc k" "n \<le> k"
    using assms(5) by (cases "nat (rp_Attempts ?p)") auto
  let ?run = "attempts_loop (client_Submit net client) waits ?p d 1 (Suc k) (Plain []) ([], [])"
  have "map_prod (\<lambda>r. r) call_abs ?run = attempts_loop (scripted ?script) sleeps ?p d 1 (Suc k) (Plain []) (call_abs ([], []))"
    by (rule attempts_loop_simulated)
      (simp_all add: recorded_Submit [OF assms(1,2)] scripted_def waits_def sleeps_def)
  also have "\<dots> = (case ?script (stop_call ?script 0 k) of Inr y \<Rightarrow> Inr y | Inl e \<Rightarrow> Inl (submission_failed e),
      (Suc (stop_call ?script 0 k), map (\<lambda>i. retry_backoff ?p (Suc i)) [0..<stop_call ?script 0 k]))"
    using attempts_loop_scripted [of ?script ?p d 0 k "Plain []" "[]"] by (simp add: Let_def)
  also have "stop_call ?script 0 k = n"
  proof -
    have "stop_call ?script m j = n" if "m \<le> n" "n \<le> m + j" for m j
      using that
    proof (induction j arbitrary: m)
      case (Suc j)
      show ?case
      proof (cases "m = n")
        case False
        with Suc.prems assms(3) obtain e where "?script m = Inl e" "retryable e" by (metis le_neq_implies_less)
        with Suc.IH [of "Suc m"] Suc.prems False show ?thesis by simp
      qed (use assms(4) in simp)
    qed simp
    with k(2) show ?thesis by simp
  qed
  finally have abs: "map_prod (\<lambda>r. r) call_abs ?run = (Inr x, (Suc n, map (\<lambda>i. retry_backoff ?p (Suc i)) [0..<n]))"
    using assms(4) by simp
  have "\<forall>rq\<in>set (fst (snd ?run)). rq = ?rq"
    by (rule attempts_loop_preserves [of "\<lambda>w. \<forall>rq\<in>set (fst w). rq = ?rq"])
      (auto simp: recorded_Submit [OF assms(1,2)] waits_def)
  moreover obtain r rqs pauses where run: "?run = (r, (rqs, pauses))" by (metis prod.exhaust)
  moreover have out: "r = Inr x" "length rqs = Suc n" "length pauses = n" using abs unfolding run by simp_all
  ultimately have "rqs = replicate (Suc n) ?rq" unfolding run by (intro replicate_eqI) simp_all
  with run out have "retrying_Submit (Some (client_Submit net client)) waits policy d ([], []) = (Inr x, (replicate (Suc n) ?rq, pauses))"
    unfolding retrying_Submit_def Let_def option.case k(1) by simp
  with out(3) show ?thesis by blast
qed

section \<open>From the voyage to the decision\<close>

text \<open>The decision as the customs service writes it.\<close>

definition decision_json :: "CustomsDecision \<Rightarrow> json option" where
  "decision_json x =
    map_option (\<lambda>at_time. JObj [(''reference'', JStr (cd_Reference x)), (''status'', JStr (cd_Status x)),
      (''reason'', JStr (cd_Reason x)), (''decided_at'', at_time)]) (json_time (cd_DecidedAt x))"

lemma decode_decision_json:
  assumes "decision_json x = Some j"
  shows "decode_decision (json_encode j) = Inr x"
proof -
  have year: "0 \<le> year_of (cd_DecidedAt x)" "year_of (cd_DecidedAt x) < 10000"
    and j: "j = JObj [(''reference'', JStr (cd_Reference x)), (''status'', JStr (cd_Status x)), (''reason'', JStr (cd_Reason x)),
      (''decided_at'', JStr (rfc3339_nano (cd_DecidedAt x)))]"
    using assms by (auto simp: decision_json_def json_time_def split: if_splits)
  show ?thesis
    unfolding decode_decision_def json_document_encode unfolding j
    by (simp add: decode_object_def field_names decision_field_def zero_decision_def read_string_def read_time_def escape_rfc3339 parse_rfc3339_nano [OF year])
qed

text \<open>An answer that delivers a decision, and a failure that passes.\<close>

definition delivers :: "HttpAnswer result \<Rightarrow> CustomsDecision \<Rightarrow> bool" where
  "delivers r x \<longleftrightarrow> (\<exists>status j. r = Inr \<lparr>ha_Status = status, ha_Body = json_encode j, ha_Broken = None\<rparr> \<and> 200 \<le> status \<and> status < 300 \<and>
    decision_json x = Some j \<and> length (json_encode j) < body_limit \<and> validateDecision x = Inr ())"

definition transient :: "HttpAnswer result \<Rightarrow> bool" where
  "transient r \<longleftrightarrow> (case r of
      Inl e \<Rightarrow> retryable e
    | Inr response \<Rightarrow> ha_Broken response = None \<and> ha_Status response \<notin> {401, 403, 409} \<and> (ha_Status response < 200 \<or> 300 \<le> ha_Status response))"

lemma delivers_outcome: "delivers r x \<Longrightarrow> submission_outcome r = Inr x"
  by (auto simp: delivers_def submission_outcome_def read_answer_Inr read_limited_def decode_decision_json)

lemma transient_outcome: "transient r \<Longrightarrow> \<exists>e. submission_outcome r = Inl e \<and> retryable e"
proof (cases r)
  case (Inr response)
  assume "transient r"
  with Inr show ?thesis
    by (auto simp: transient_def submission_outcome_def read_answer_def read_limited_def response_decision_def retryable_def split: if_splits)
qed (auto simp: transient_def submission_outcome_def)

definition customs_service ::
    "wire VoyageRepository \<Rightarrow> wire Clock \<Rightarrow> (Duration \<Rightarrow> wire transport) \<Rightarrow> wire HTTPClient \<Rightarrow> RetryPolicy \<Rightarrow> wire CustomsSubmission" where
  "customs_service voyages clock net client policy =
    \<lparr>cs_Voyages = Some voyages,
     cs_Gateway = Some (gateway_Submit passes \<lparr>gw_Next = Some (client_Submit net client), gw_Policy = policy, gw_Sleep = None\<rparr>),
     cs_Clock = Some clock\<rparr>"

text \<open>
  C9: A declaration gets through. If an inspector submits a declared voyage, and the customs service answers a
  decision after failures that pass, fewer than the attempts allowed, then the submission returns that decision; the
  service has been sent one request for each failure and one more, all the same, and each reads back as the
  declaration of this voyage, of the user's own tenant, at the instant of the submission; between them was one
  pause each. Without the permission to inspect, nothing is sent.
\<close>

theorem customs_submission_gets_through:
  fixes v now actor
  defines "d \<equiv> \<lparr>d_TenantID = u_TenantID actor, d_VoyageID = v_ID v, d_ManifestHash = v_ManifestHash v, d_OriginPort = v_OriginPort v, d_SubmittedAt = now\<rparr>"
  assumes "vr_FindVoyage voyages (u_TenantID actor) vid ([], []) = (Inr v, ([], []))" and "clock ([], []) = (now, ([], []))" and "vid \<noteq> []"
    and "valid_submission client d" and "hc_Client client = Some (recorded script)"
    and "\<forall>i<n. transient (script i)" and "delivers (script n) x" and "int n < rp_Attempts (default_policy policy)"
  shows "(Authorize actor (u_TenantID actor) PermissionInspectionManage = Inr () \<longrightarrow>
      (\<exists>rq pauses. submission_Submit (customs_service voyages clock net client policy) actor vid ([], []) = (Inr x, (replicate (Suc n) rq, pauses)) \<and>
        length pauses = n \<and> sent_declaration (hq_Body rq) = Some d)) \<and>
    (Authorize actor (u_TenantID actor) PermissionInspectionManage \<noteq> Inr () \<longrightarrow>
      (\<exists>e. submission_Submit (customs_service voyages clock net client policy) actor vid ([], []) = (Inl e, ([], []))))"
proof (intro conjI impI)
  assume auth: "Authorize actor (u_TenantID actor) PermissionInspectionManage = Inr ()"
  let ?rq = "submission_request client d"
  obtain j where j: "declaration_json d = Some j" using assms(5) by (auto simp: valid_submission_def)
  have sent: "sent_declaration (hq_Body ?rq) = Some d"
    by (simp add: submission_request_def declarations_request_def j sent_declaration_json [OF j])
  have hash: "v_ManifestHash v \<noteq> []"
    using assms(5) by (auto simp: valid_submission_def validateDeclaration_def d_def)
  have failing: "\<forall>i<n. \<exists>e. submission_outcome (script i) = Inl e \<and> retryable e"
    using assms(7) transient_outcome by blast
  obtain pauses where run: "retrying_Submit (Some (client_Submit net client)) waits policy d ([], []) = (Inr x, (replicate (Suc n) ?rq, pauses))"
    and len: "length pauses = n"
    using retrying_recorded [OF assms(5,6) failing delivers_outcome [OF assms(8)] assms(9)] by blast
  have "submission_Submit (customs_service voyages clock net client policy) actor vid ([], []) = (Inr x, (replicate (Suc n) ?rq, pauses))"
    using assms(2-4) auth hash run
    by (simp add: submission_Submit_def customs_service_def gateway_Submit_def bindIO_def d_def [symmetric])
  with len sent show "\<exists>rq pauses. submission_Submit (customs_service voyages clock net client policy) actor vid ([], []) =
      (Inr x, (replicate (Suc n) rq, pauses)) \<and> length pauses = n \<and> sent_declaration (hq_Body rq) = Some d" by blast
next
  assume "Authorize actor (u_TenantID actor) PermissionInspectionManage \<noteq> Inr ()"
  then obtain e where "Authorize actor (u_TenantID actor) PermissionInspectionManage = Inl e" by (cases "Authorize actor (u_TenantID actor) PermissionInspectionManage") auto
  then show "\<exists>e. submission_Submit (customs_service voyages clock net client policy) actor vid ([], []) = (Inl e, ([], []))"
    using assms(4) by (auto simp: submission_Submit_def customs_service_def)
qed

definition filed_voyage :: Voyage where
  "filed_voyage = \<lparr>v_ID = ''voyage-1'', v_TenantID = ''panama-east'', v_VesselIMO = ''9074729'', v_VesselName = ''Evergreen'',
    v_OriginPort = ''CNSHA'', v_DestinationPort = ''PAPCN'', v_ETA = 9, v_Status = VoyageDeclared, v_ManifestHash = replicate 64 CHR ''a'',
    v_DeclaredAt = Some 3, v_ClearedAt = None, v_Version = 2\<rparr>"

definition constant_voyages :: "wire VoyageRepository" where
  "constant_voyages = \<lparr>vr_FindVoyage = (\<lambda>t v w. (Inr filed_voyage, w)), vr_ListVoyages = (\<lambda>t f p w. (Inl (Plain []), w)),
     vr_ListInspections = (\<lambda>t v w. (Inr [], w)), vr_ListReservations = (\<lambda>t v w. (Inr [], w))\<rparr>"

definition recovering_service :: "nat \<Rightarrow> HttpAnswer result" where
  "recovering_service i =
    (if i = 0 then Inl (Plain ''connection refused'')
     else if i = 1 then Inr \<lparr>ha_Status = 503, ha_Body = [], ha_Broken = None\<rparr>
     else Inr \<lparr>ha_Status = 200, ha_Body = json_encode (the (decision_json example_decision)), ha_Broken = None\<rparr>)"

lemma example_delivery:
  "valid_submission (example_client (recorded recovering_service)) hashed_declaration"
  "\<forall>i<2. transient (recovering_service i)" "delivers (recovering_service 2) example_decision"
proof -
  have year: "0 \<le> year_of 4 \<and> year_of 4 < 10000" "0 \<le> year_of 5 \<and> year_of 5 < 10000" and ok: "validateDeclaration hashed_declaration = Inr ()"
    "validateDecision example_decision = Inr ()" by code_simp+
  then show "valid_submission (example_client (recorded recovering_service)) hashed_declaration"
    using example_client_valid [of "recorded recovering_service"]
    by (simp add: valid_submission_def declaration_json_def json_time_def hashed_declaration_def)
  show "\<forall>i<2. transient (recovering_service i)"
    by (auto simp: transient_def recovering_service_def retryable_def less_2_cases_iff)
  obtain j where j: "decision_json example_decision = Some j"
    using year(2) by (simp add: decision_json_def json_time_def example_decision_def)
  have "length (json_encode (the (decision_json example_decision))) \<le> 1000" by code_simp
  then have "length (json_encode j) < body_limit" using j by (simp add: body_limit_def)
  then show "delivers (recovering_service 2) example_decision"
    using j ok(2) by (auto simp: delivers_def recovering_service_def)
qed

theorem customs_submission_gets_through_witness:
  "\<exists>rq pauses. submission_Submit (customs_service constant_voyages (\<lambda>w. (4, w)) (\<lambda>_. undefined) (example_client (recorded recovering_service))
      \<lparr>rp_Attempts = 0, rp_Backoff = 0, rp_Maximum = 0\<rparr>) (example_user\<lparr>u_Role := RoleCustoms\<rparr>) ''voyage-1'' ([], []) =
    (Inr example_decision, (replicate 3 rq, pauses)) \<and> length pauses = 2"
proof -
  let ?actor = "example_user\<lparr>u_Role := RoleCustoms\<rparr>" and ?policy = "\<lparr>rp_Attempts = 0, rp_Backoff = 0, rp_Maximum = 0\<rparr>"
  let ?client = "example_client (recorded recovering_service)"
  have d: "\<lparr>d_TenantID = u_TenantID ?actor, d_VoyageID = v_ID filed_voyage, d_ManifestHash = v_ManifestHash filed_voyage,
      d_OriginPort = v_OriginPort filed_voyage, d_SubmittedAt = 4\<rparr> = hashed_declaration"
    by (simp add: example_user_def filed_voyage_def hashed_declaration_def)
  have auth: "Authorize ?actor (u_TenantID ?actor) PermissionInspectionManage = Inr ()" by code_simp
  have attempts: "int 2 < rp_Attempts (default_policy ?policy)" by (simp add: default_policy_def Let_def)
  have "valid_submission ?client \<lparr>d_TenantID = u_TenantID ?actor, d_VoyageID = v_ID filed_voyage,
      d_ManifestHash = v_ManifestHash filed_voyage, d_OriginPort = v_OriginPort filed_voyage, d_SubmittedAt = 4\<rparr>"
    unfolding d by (rule example_delivery(1))
  from customs_submission_gets_through [of constant_voyages ?actor "''voyage-1''" filed_voyage "\<lambda>w. (4, w)" 4 ?client recovering_service 2
      example_decision ?policy "\<lambda>_. undefined", OF _ _ _ this _ example_delivery(2,3) attempts] auth
  show ?thesis by (auto simp: constant_voyages_def example_client_def numeral_3_eq_3)
qed

end
