(* ===== verification/Inspection_Policy.thy ===== *)
theory Inspection_Policy
  imports Manifest_Ops
begin

text \<open>
  \<^verbatim>\<open>internal/clearance/inspection_policy.go\<close>: which inspections a risk band asks for, whether a
  set of inspections meets the requirements, the deadline of an inspection and the latest one of a
  kind. The map of passed kinds is a list read by membership.
\<close>

type_synonym InspectionKind = string

abbreviation InspectionDocument :: InspectionKind where "InspectionDocument \<equiv> ''document''"
abbreviation InspectionSeal :: InspectionKind where "InspectionSeal \<equiv> ''seal''"
abbreviation InspectionPhysical :: InspectionKind where "InspectionPhysical \<equiv> ''physical''"
abbreviation InspectionHazard :: InspectionKind where "InspectionHazard \<equiv> ''hazardous_cargo''"

record InspectionRequirement =
  rq_Kind :: InspectionKind
  rq_Required :: bool
  rq_Reason :: string

definition RequiredInspections :: "ManifestRisk \<Rightarrow> string \<Rightarrow> InspectionRequirement list result" where
  "RequiredInspections risk originPort =
    (if mr_Band risk = [] \<or> trim_space originPort = [] then Inl (errorf ErrInvalid ''inspection policy input'')
     else Inr
       ([\<lparr>rq_Kind = InspectionDocument, rq_Required = True, rq_Reason = ''all declarations require document review''\<rparr>] @
        (if mr_Band risk = RiskElevated \<or> mr_Band risk = RiskCritical
         then [\<lparr>rq_Kind = InspectionSeal, rq_Required = True, rq_Reason = ''risk score requires seal verification''\<rparr>]
         else []) @
        (if mr_Band risk = RiskCritical
         then [\<lparr>rq_Kind = InspectionPhysical, rq_Required = True,
           rq_Reason = ''critical risk requires physical inspection''\<rparr>] else []) @
        (if ''hazardous cargo'' \<in> set (mr_Reasons risk)
         then [\<lparr>rq_Kind = InspectionHazard, rq_Required = True,
           rq_Reason = ''hazardous cargo requires specialist review''\<rparr>] else [])))"

text \<open>The loop over the inspections: the kinds passed so far, or the error of the first failed one.\<close>

fun passed_kinds :: "Inspection list \<Rightarrow> InspectionKind list \<Rightarrow> InspectionKind list result" where
  "passed_kinds [] passed = Inr passed"
| "passed_kinds (i # is) passed =
    (if i_Status i = ''failed'' then Inl (errorf ErrState (''inspection '' @ i_ID i @ '' failed''))
     else passed_kinds is (if i_Status i = ''passed'' then i_Kind i # passed else passed))"

fun join_strings :: "string \<Rightarrow> string list \<Rightarrow> string" where
  "join_strings sep [] = []"
| "join_strings sep [s] = s"
| "join_strings sep (s # t # ts) = s @ sep @ join_strings sep (t # ts)"

definition missing_kinds :: "InspectionRequirement list \<Rightarrow> InspectionKind list \<Rightarrow> InspectionKind list" where
  "missing_kinds requirements passed =
    map rq_Kind (filter (\<lambda>q. rq_Required q \<and> rq_Kind q \<notin> set passed) requirements)"

definition InspectionSetComplete :: "InspectionRequirement list \<Rightarrow> Inspection list \<Rightarrow> unit result" where
  "InspectionSetComplete requirements inspections =
    bindR (passed_kinds inspections []) (\<lambda>passed.
      let missing = missing_kinds requirements passed
      in refuse_if (missing \<noteq> [])
        (errorf ErrConflict (''missing inspections '' @ join_strings '','' (sort_strings missing))))"

definition inspection_lead :: "InspectionKind \<Rightarrow> Duration option" where
  "inspection_lead kind =
    (if kind = InspectionDocument then Some (12 * Hour)
     else if kind = InspectionSeal then Some (6 * Hour)
     else if kind = InspectionPhysical \<or> kind = InspectionHazard then Some (4 * Hour)
     else None)"

definition InspectionDeadline :: "Voyage \<Rightarrow> InspectionKind \<Rightarrow> Time \<Rightarrow> Time result" where
  "InspectionDeadline voyage kind now =
    (if v_ETA voyage = 0 \<or> now = 0 then Inl (errorf ErrInvalid ''inspection deadline'')
     else case inspection_lead kind of
       None \<Rightarrow> Inl (errorf ErrInvalid ''inspection kind'')
     | Some lead \<Rightarrow> let deadline = v_ETA voyage - lead in Inr (if deadline < now then now else deadline))"

text \<open>The loop carries the latest inspection found so far.\<close>

fun latest_loop :: "Inspection list \<Rightarrow> InspectionKind \<Rightarrow> Inspection option \<Rightarrow> Inspection option" where
  "latest_loop [] kind latest = latest"
| "latest_loop (i # is) kind latest =
    latest_loop is kind
      (if i_Kind i \<noteq> kind then latest
       else case latest of
         None \<Rightarrow> Some i
       | Some l \<Rightarrow> if i_OpenedAt l < i_OpenedAt i \<or> i_OpenedAt i = i_OpenedAt l \<and> i_ID l < i_ID i then Some i else latest)"

definition LatestInspection :: "Inspection list \<Rightarrow> InspectionKind \<Rightarrow> Inspection option" where
  "LatestInspection inspections kind = latest_loop inspections kind None"

section \<open>Lemmas\<close>

lemma passed_kinds_Inr_iff:
  "passed_kinds is passed = Inr kinds \<longleftrightarrow> (\<forall>i\<in>set is. i_Status i \<noteq> ''failed'') \<and>
    kinds = rev (map i_Kind (filter (\<lambda>i. i_Status i = ''passed'') is)) @ passed"
  by (induction "is" arbitrary: passed) auto

lemma passed_kinds_Inl:
  "passed_kinds is passed = Inl e \<Longrightarrow> is_sentinel e ErrState"
  by (induction "is" arbitrary: passed) (auto split: if_splits)

lemma missing_kinds_Nil_iff:
  "missing_kinds requirements passed = [] \<longleftrightarrow> (\<forall>q\<in>set requirements. rq_Required q \<longrightarrow> rq_Kind q \<in> set passed)"
  by (auto simp: missing_kinds_def filter_empty_conv)

lemma InspectionSetComplete_iff:
  "InspectionSetComplete requirements inspections = Inr () \<longleftrightarrow>
    (\<forall>i\<in>set inspections. i_Status i \<noteq> ''failed'') \<and>
    (\<forall>q\<in>set requirements. rq_Required q \<longrightarrow> (\<exists>i\<in>set inspections. i_Status i = ''passed'' \<and> i_Kind i = rq_Kind q))"
proof -
  have "k \<in> set (rev (map i_Kind (filter (\<lambda>i. i_Status i = ''passed'') inspections)) @ []) \<longleftrightarrow>
      (\<exists>i\<in>set inspections. i_Status i = ''passed'' \<and> i_Kind i = k)" for k
    by auto
  then show ?thesis
    by (simp only: InspectionSetComplete_def bindR_Inr_iff passed_kinds_Inr_iff Let_def missing_kinds_Nil_iff refuse_if_simps)
      (simp add: missing_kinds_Nil_iff)
qed

text \<open>The order of \<^verbatim>\<open>LatestInspection\<close>: by the time of opening, then by identifier.\<close>

abbreviation opened_before :: "Inspection \<Rightarrow> Inspection \<Rightarrow> bool" where
  "opened_before \<equiv> lex2 i_OpenedAt i_ID"

lemma latest_loop_spec:
  "latest_loop is kind latest = Some l \<Longrightarrow> (l \<in> set is \<and> i_Kind l = kind \<or> latest = Some l) \<and>
    (\<forall>i\<in>set is. i_Kind i = kind \<longrightarrow> \<not> opened_before l i) \<and> (\<forall>k. latest = Some k \<longrightarrow> \<not> opened_before l k)"
proof (induction "is" arbitrary: latest)
  case Nil
  then show ?case by (auto simp: lex2_def)
next
  case (Cons i "is")
  let ?next = "if i_Kind i \<noteq> kind then latest
       else case latest of
         None \<Rightarrow> Some i
       | Some l \<Rightarrow> if i_OpenedAt l < i_OpenedAt i \<or> i_OpenedAt i = i_OpenedAt l \<and> i_ID l < i_ID i then Some i else latest"
  from Cons.prems have IH: "(l \<in> set is \<and> i_Kind l = kind \<or> ?next = Some l) \<and>
      (\<forall>i\<in>set is. i_Kind i = kind \<longrightarrow> \<not> opened_before l i) \<and> (\<forall>k. ?next = Some k \<longrightarrow> \<not> opened_before l k)"
    by (intro Cons.IH) simp
  have trans: "\<not> opened_before a c" if "\<not> opened_before a b" "\<not> opened_before b c" for a b c
    using that by (auto simp: lex2_def split: if_splits)
  show ?case
  proof (cases "i_Kind i = kind")
    case False
    with IH show ?thesis by auto
  next
    case True
    show ?thesis
    proof (cases latest)
      case None
      with IH True show ?thesis by auto
    next
      case (Some k)
      show ?thesis
      proof (cases "opened_before k i")
        case True
        then have "?next = Some i" using \<open>i_Kind i = kind\<close> Some by (auto simp: lex2_def split: if_splits)
        moreover from True have "\<not> opened_before i k" by (auto simp: lex2_def split: if_splits)
        ultimately show ?thesis using IH trans \<open>i_Kind i = kind\<close> Some by auto
      next
        case False
        then have "?next = Some k" using \<open>i_Kind i = kind\<close> Some by (auto simp: lex2_def split: if_splits)
        with IH trans False Some show ?thesis by auto
      qed
    qed
  qed
qed

lemma latest_loop_None: "latest_loop is kind latest = None \<longleftrightarrow> latest = None \<and> (\<forall>i\<in>set is. i_Kind i \<noteq> kind)"
  by (induction "is" arbitrary: latest) (auto split: option.splits)

lemma LatestInspection_spec:
  "LatestInspection is kind = Some l \<Longrightarrow> l \<in> set is \<and> i_Kind l = kind \<and>
    (\<forall>i\<in>set is. i_Kind i = kind \<longrightarrow> \<not> opened_before l i)"
  using latest_loop_spec [of "is" kind None l] by (auto simp: LatestInspection_def)

lemma LatestInspection_None: "LatestInspection is kind = None \<longleftrightarrow> (\<forall>i\<in>set is. i_Kind i \<noteq> kind)"
  by (simp add: LatestInspection_def latest_loop_None)

section \<open>The inspections that the risk of a manifest asks for\<close>

definition passed :: "InspectionKind \<Rightarrow> Inspection list \<Rightarrow> bool" where
  "passed kind is \<longleftrightarrow> (\<exists>i\<in>set is. i_Status i = ''passed'' \<and> i_Kind i = kind)"

lemma RequiredInspections_complete:
  assumes "RequiredInspections r port = Inr qs"
  shows "InspectionSetComplete qs is = Inr () \<longleftrightarrow>
    (\<forall>i\<in>set is. i_Status i \<noteq> ''failed'') \<and> passed InspectionDocument is \<and>
    (mr_Band r \<in> {RiskElevated, RiskCritical} \<longrightarrow> passed InspectionSeal is) \<and>
    (mr_Band r = RiskCritical \<longrightarrow> passed InspectionPhysical is) \<and>
    (''hazardous cargo'' \<in> set (mr_Reasons r) \<longrightarrow> passed InspectionHazard is)"
proof -
  from assms have qs: "qs = [\<lparr>rq_Kind = InspectionDocument, rq_Required = True, rq_Reason = ''all declarations require document review''\<rparr>] @
        (if mr_Band r = RiskElevated \<or> mr_Band r = RiskCritical
         then [\<lparr>rq_Kind = InspectionSeal, rq_Required = True, rq_Reason = ''risk score requires seal verification''\<rparr>]
         else []) @
        (if mr_Band r = RiskCritical
         then [\<lparr>rq_Kind = InspectionPhysical, rq_Required = True,
           rq_Reason = ''critical risk requires physical inspection''\<rparr>] else []) @
        (if ''hazardous cargo'' \<in> set (mr_Reasons r)
         then [\<lparr>rq_Kind = InspectionHazard, rq_Required = True,
           rq_Reason = ''hazardous cargo requires specialist review''\<rparr>] else [])"
    unfolding RequiredInspections_def
    by (cases "mr_Band r = [] \<or> trim_space port = []") (simp_all only: if_True if_False sum.inject sum.distinct)
  show ?thesis
    unfolding InspectionSetComplete_iff passed_def [symmetric] unfolding qs
    by (cases "mr_Band r = RiskElevated"; cases "mr_Band r = RiskCritical"; cases "''hazardous cargo'' \<in> set (mr_Reasons r)") simp_all
qed

text \<open>
  From the cargo to the inspections: for a built manifest whose sums fit 64 bits, the risk assessment and the
  inspection policy succeed, and a set of inspections is then complete exactly if none failed, a
  document inspection passed, a seal inspection passed unless the cargo is neither heavy nor hazardous
  nor both large and controlled, a physical inspection passed when two of weight, hazard and (large and
  controlled) come together, and a hazardous-cargo inspection passed when an item is hazardous.
\<close>

theorem manifest_risk_inspections:
  fixes codes :: "string list" and port :: string
  assumes "BuildManifest vid items = Inr m" and "sums_fit items" and "trim_space port \<noteq> []"
  defines "heavy \<equiv> 500000 < sum_list (map c_GrossKg items)" and "hazardous \<equiv> list_ex c_Hazardous items"
    and "many_controlled \<equiv> 100 < length items \<and> list_ex (\<lambda>c. c_HSCode c \<in> set codes) items"
  shows "\<exists>risk requirements. AssessManifestRisk m codes = Inr risk \<and> RequiredInspections risk port = Inr requirements \<and>
    (\<forall>is. InspectionSetComplete requirements is = Inr () \<longleftrightarrow>
      (\<forall>i\<in>set is. i_Status i \<noteq> ''failed'') \<and> passed InspectionDocument is \<and>
      (heavy \<or> hazardous \<or> many_controlled \<longrightarrow> passed InspectionSeal is) \<and>
      (heavy \<and> hazardous \<or> (heavy \<or> hazardous) \<and> many_controlled \<longrightarrow> passed InspectionPhysical is) \<and>
      (hazardous \<longrightarrow> passed InspectionHazard is))"
proof -
  obtain r where r: "AssessManifestRisk m codes = Inr r"
    and crit: "mr_Band r = RiskCritical \<longleftrightarrow> heavy \<and> hazardous \<or> (heavy \<or> hazardous) \<and> many_controlled"
    and rout: "mr_Band r = RiskRoutine \<longleftrightarrow> \<not> (heavy \<or> hazardous \<or> many_controlled)"
    and haz: "''hazardous cargo'' \<in> set (mr_Reasons r) \<longleftrightarrow> hazardous"
    using AssessManifestRisk_bands [OF assms(1,2), of codes] unfolding heavy_def hazardous_def many_controlled_def by blast
  have band: "mr_Band r \<in> {RiskRoutine, RiskElevated, RiskCritical}"
  proof -
    have "\<exists>b c. mr_Band r = (if b then RiskCritical else if c then RiskElevated else RiskRoutine)"
      using r unfolding AssessManifestRisk_def Let_def by (elim bindR_Inr_E) force
    then obtain b c where "mr_Band r = (if b then RiskCritical else if c then RiskElevated else RiskRoutine)" by blast
    then show ?thesis by (cases b; cases c) simp_all
  qed
  then have "mr_Band r \<noteq> []" by auto
  then obtain qs where qs: "RequiredInspections r port = Inr qs"
    using assms(3) unfolding RequiredInspections_def by simp
  have elev: "mr_Band r \<in> {RiskElevated, RiskCritical} \<longleftrightarrow> heavy \<or> hazardous \<or> many_controlled"
    using band rout by auto
  show ?thesis
    using r qs RequiredInspections_complete [OF qs] unfolding elev crit haz by blast
qed

lemma manifest_risk_inspections_witness:
  "\<exists>m risk requirements. BuildManifest ''v1'' example_cargo = Inr m \<and> AssessManifestRisk m [] = Inr risk \<and>
    RequiredInspections risk ''SGSIN'' = Inr requirements \<and> InspectionSetComplete requirements [] \<noteq> Inr ()"
proof -
  have "valid_items example_cargo" by code_simp
  then obtain m where m: "BuildManifest ''v1'' example_cargo = Inr m" by (simp add: BuildManifest_Inr_iff)
  have fit: "sums_fit example_cargo" by (simp add: sums_fit_def example_cargo_def max_int64_def)
  have port: "trim_space ''SGSIN'' \<noteq> []" by code_simp
  from manifest_risk_inspections [OF m fit port, of "[]"] obtain risk qs where
    "AssessManifestRisk m [] = Inr risk" "RequiredInspections risk ''SGSIN'' = Inr qs"
    "InspectionSetComplete qs [] = Inr () \<Longrightarrow> passed InspectionDocument []" by blast
  with m show ?thesis by (intro exI [of _ m] exI [of _ risk] exI [of _ qs]) (auto simp: passed_def)
qed

end
