(* ===== verification/Compliance.thy ===== *)
theory Compliance
  imports Inspection_Policy
begin

text \<open>
  \<^verbatim>\<open>internal/clearance/compliance.go\<close>: rules over the items of a manifest, their findings and
  the inspections these ask for. The comparator of the findings is an instance of \<open>comparator\<close>.
\<close>

record ComplianceRule =
  cr_ID :: string
  cr_HSCodes :: "string list"
  cr_OriginPorts :: "string list"
  cr_HazardousOnly :: bool
  cr_MaximumGrossKg :: int
  cr_EffectiveFrom :: Time
  cr_EffectiveTo :: "Time option"
  cr_RequiredKind :: InspectionKind

record ComplianceFinding =
  cf_RuleID :: string
  cf_ContainerNo :: string
  cf_Severity :: RiskBand
  cf_Message :: string
  cf_Inspection :: InspectionKind

definition containsFold :: "string list \<Rightarrow> string \<Rightarrow> bool" where
  "containsFold candidates candidate = list_ex (\<lambda>s. equal_fold (trim_space s) (trim_space candidate)) candidates"

definition validateComplianceRule :: "ComplianceRule \<Rightarrow> unit result" where
  "validateComplianceRule rule =
    (if cr_ID rule = [] \<or> cr_EffectiveFrom rule = 0 \<or> cr_RequiredKind rule = []
     then Inl (errorf ErrInvalid ''compliance rule'')
     else if (case cr_EffectiveTo rule of None \<Rightarrow> False | Some to \<Rightarrow> to < cr_EffectiveFrom rule)
     then Inl (errorf ErrInvalid ''compliance effective range'')
     else refuse_if (cr_HSCodes rule = [] \<and> cr_OriginPorts rule = [] \<and> \<not> cr_HazardousOnly rule \<and>
         cr_MaximumGrossKg rule \<le> 0)
       (errorf ErrInvalid ''compliance rule has no condition''))"

definition rule_skipped :: "ComplianceRule \<Rightarrow> string \<Rightarrow> Time \<Rightarrow> bool" where
  "rule_skipped rule originPort t \<longleftrightarrow> t < cr_EffectiveFrom rule \<or>
    (case cr_EffectiveTo rule of None \<Rightarrow> False | Some to \<Rightarrow> to < t) \<or>
    \<not> containsFold (cr_OriginPorts rule) originPort \<and> cr_OriginPorts rule \<noteq> []"

definition item_skipped :: "ComplianceRule \<Rightarrow> CargoItem \<Rightarrow> bool" where
  "item_skipped rule c \<longleftrightarrow> cr_HSCodes rule \<noteq> [] \<and> \<not> containsFold (cr_HSCodes rule) (c_HSCode c) \<or>
    cr_HazardousOnly rule \<and> \<not> c_Hazardous c \<or>
    0 < cr_MaximumGrossKg rule \<and> c_GrossKg c \<le> cr_MaximumGrossKg rule"

definition finding_severity :: "ComplianceRule \<Rightarrow> CargoItem \<Rightarrow> RiskBand" where
  "finding_severity rule c =
    (if c_Hazardous c \<or> 0 < cr_MaximumGrossKg rule \<and> wrap64 (cr_MaximumGrossKg rule * 2) < c_GrossKg c
     then RiskCritical else RiskElevated)"

definition finding_of :: "ComplianceRule \<Rightarrow> CargoItem \<Rightarrow> ComplianceFinding" where
  "finding_of rule c = \<lparr>cf_RuleID = cr_ID rule, cf_ContainerNo = c_ContainerNo c, cf_Severity = finding_severity rule c,
    cf_Message = ''cargo requires additional compliance review'', cf_Inspection = cr_RequiredKind rule\<rparr>"

fun rules_loop :: "CargoItem list \<Rightarrow> string \<Rightarrow> Time \<Rightarrow> ComplianceRule list \<Rightarrow> ComplianceFinding list \<Rightarrow>
    ComplianceFinding list result" where
  "rules_loop items originPort t [] findings = Inr findings"
| "rules_loop items originPort t (rule # rest) findings =
    bindR (validateComplianceRule rule) (\<lambda>_.
      rules_loop items originPort t rest
        (if rule_skipped rule originPort t then findings
         else findings @ map (finding_of rule) (filter (\<lambda>c. \<not> item_skipped rule c) items)))"

definition finding_less :: "ComplianceFinding \<Rightarrow> ComplianceFinding \<Rightarrow> bool" where
  "finding_less f g =
    (if cf_Severity f \<noteq> cf_Severity g then cf_Severity g < cf_Severity f
     else if cf_RuleID f \<noteq> cf_RuleID g then cf_RuleID f < cf_RuleID g
     else cf_ContainerNo f < cf_ContainerNo g)"

definition EvaluateCompliance :: "Manifest \<Rightarrow> string \<Rightarrow> ComplianceRule list \<Rightarrow> Time \<Rightarrow> ComplianceFinding list result" where
  "EvaluateCompliance manifest originPort rules t =
    (if m_VoyageID manifest = [] \<or> originPort = [] \<or> t = 0 then Inl (errorf ErrInvalid ''compliance input'')
     else bindR (rules_loop (m_Items manifest) originPort t rules []) (\<lambda>findings. Inr (sort_slice finding_less findings)))"

definition RequiredKindsFromFindings :: "ComplianceFinding list \<Rightarrow> InspectionKind list" where
  "RequiredKindsFromFindings findings =
    sort_strings (remdups (filter (\<lambda>k. k \<noteq> []) (map cf_Inspection findings)))"

section \<open>Lemmas\<close>

interpretation finding_less: comparator finding_less "\<lambda>_. True"
  by unfold_locales (auto simp: finding_less_def split: if_splits)

text \<open>What a rule finds on a manifest, stated without the loops.\<close>

definition findings_of :: "CargoItem list \<Rightarrow> string \<Rightarrow> Time \<Rightarrow> ComplianceRule \<Rightarrow> ComplianceFinding list" where
  "findings_of items originPort t rule =
    map (finding_of rule) (filter (\<lambda>c. \<not> rule_skipped rule originPort t \<and> \<not> item_skipped rule c) items)"

lemma rules_loop_Inr_iff:
  "rules_loop items originPort t rules acc = Inr out \<longleftrightarrow> (\<forall>r\<in>set rules. validateComplianceRule r = Inr ()) \<and>
    out = acc @ concat (map (findings_of items originPort t) rules)"
  by (induction rules arbitrary: acc) (auto simp: bindR_Inr_iff findings_of_def)

lemma EvaluateCompliance_Inr_iff:
  "EvaluateCompliance m originPort rules t = Inr out \<longleftrightarrow> m_VoyageID m \<noteq> [] \<and> originPort \<noteq> [] \<and> t \<noteq> 0 \<and>
    (\<forall>r\<in>set rules. validateComplianceRule r = Inr ()) \<and>
    out = sort_slice finding_less (concat (map (findings_of (m_Items m) originPort t) rules))"
  by (auto simp: EvaluateCompliance_def bindR_Inr_iff rules_loop_Inr_iff)

lemma set_RequiredKinds: "set (RequiredKindsFromFindings fs) = {cf_Inspection f | f. f \<in> set fs \<and> cf_Inspection f \<noteq> []}"
  by (auto simp: RequiredKindsFromFindings_def)

lemma sorted_distinct_RequiredKinds: "sorted (RequiredKindsFromFindings fs) \<and> distinct (RequiredKindsFromFindings fs)"
  by (simp add: RequiredKindsFromFindings_def sorted_sort_strings)

lemma elevated_findings_come_first:
  "finding_less (finding_of r c) (finding_of r d) \<longleftrightarrow>
    (if finding_severity r c = finding_severity r d then c_ContainerNo c < c_ContainerNo d
     else finding_severity r c = RiskElevated)"
  by (auto simp: finding_less_def finding_of_def finding_severity_def less_list_code split: if_splits)

section \<open>Evaluation\<close>

text \<open>A rule applies to an item of a shipment from a port at an instant.\<close>

definition rule_applies :: "string \<Rightarrow> Time \<Rightarrow> ComplianceRule \<Rightarrow> CargoItem \<Rightarrow> bool" where
  "rule_applies port t r c \<longleftrightarrow>
    cr_EffectiveFrom r \<le> t \<and> (\<forall>last. cr_EffectiveTo r = Some last \<longrightarrow> t \<le> last) \<and>
    (cr_OriginPorts r = [] \<or> containsFold (cr_OriginPorts r) port) \<and>
    (cr_HSCodes r = [] \<or> containsFold (cr_HSCodes r) (c_HSCode c)) \<and>
    (cr_HazardousOnly r \<longrightarrow> c_Hazardous c) \<and> (0 < cr_MaximumGrossKg r \<longrightarrow> cr_MaximumGrossKg r < c_GrossKg c)"

lemma findings_of_applies:
  "findings_of items port t r = map (finding_of r) (filter (rule_applies port t r) items)"
  unfolding findings_of_def
  by (rule arg_cong [where f = "map (finding_of r)"], rule filter_cong)
    (auto simp: rule_applies_def rule_skipped_def item_skipped_def split: option.splits)

text \<open>
  \<^verbatim>\<open>EvaluateCompliance\<close> succeeds exactly on a manifest of a voyage, a port, an instant and
  valid rules. Its findings are then in the order of the comparator, one for every pair of a rule and an item the rule
  applies to at that port and instant, critical for hazardous or grossly overweight items; and
  \<^verbatim>\<open>RequiredKindsFromFindings\<close> lists, sorted and once each, the inspections of the rules
  that apply to some item.
\<close>

theorem EvaluateCompliance_correct:
  "(is_ok (EvaluateCompliance m port rules t) \<longleftrightarrow>
      m_VoyageID m \<noteq> [] \<and> port \<noteq> [] \<and> t \<noteq> 0 \<and> (\<forall>r\<in>set rules. validateComplianceRule r = Inr ())) \<and>
   (\<forall>out. EvaluateCompliance m port rules t = Inr out \<longrightarrow>
      ordered_by finding_less out \<and>
      mset out = (\<Sum>r\<in>#mset rules. image_mset (finding_of r) (filter_mset (rule_applies port t r) (mset (m_Items m)))) \<and>
      sorted (RequiredKindsFromFindings out) \<and> distinct (RequiredKindsFromFindings out) \<and>
      set (RequiredKindsFromFindings out) =
        {cr_RequiredKind r |r c. r \<in> set rules \<and> c \<in> set (m_Items m) \<and> rule_applies port t r c})"
proof (rule conjI, goal_cases)
  case 1
  show ?case unfolding is_ok_iff EvaluateCompliance_Inr_iff by auto
next
  case 2
  show ?case
  proof (intro allI impI)
    fix out assume "EvaluateCompliance m port rules t = Inr out"
    then have valid: "\<forall>r\<in>set rules. validateComplianceRule r = Inr ()"
      and out: "out = sort_slice finding_less (concat (map (findings_of (m_Items m) port t) rules))"
      by (auto simp: EvaluateCompliance_Inr_iff)
    have kind: "cr_RequiredKind r \<noteq> []" if "r \<in> set rules" for r
      using valid that by (auto simp: validateComplianceRule_def split: if_splits)
    have "ordered_by finding_less out" unfolding out by (rule finding_less.ordered_sort_slice) simp
    moreover have "mset out = (\<Sum>r\<in>#mset rules. image_mset (finding_of r) (filter_mset (rule_applies port t r) (mset (m_Items m))))"
      by (simp add: out mset_concat findings_of_applies o_def flip: sum_mset_sum_list)
    moreover have "set out = {finding_of r c |r c. r \<in> set rules \<and> c \<in> set (m_Items m) \<and> rule_applies port t r c}"
      by (auto simp: out findings_of_applies)
    then have "set (RequiredKindsFromFindings out) =
        {cr_RequiredKind r |r c. r \<in> set rules \<and> c \<in> set (m_Items m) \<and> rule_applies port t r c}"
      unfolding set_RequiredKinds using kind by (auto simp: finding_of_def) (metis ComplianceFinding.select_convs(5))+
    ultimately show "ordered_by finding_less out \<and>
      mset out = (\<Sum>r\<in>#mset rules. image_mset (finding_of r) (filter_mset (rule_applies port t r) (mset (m_Items m)))) \<and>
      sorted (RequiredKindsFromFindings out) \<and> distinct (RequiredKindsFromFindings out) \<and>
      set (RequiredKindsFromFindings out) =
        {cr_RequiredKind r |r c. r \<in> set rules \<and> c \<in> set (m_Items m) \<and> rule_applies port t r c}"
      using sorted_distinct_RequiredKinds by blast
  qed
qed

definition example_rule :: ComplianceRule where
  "example_rule = \<lparr>cr_ID = ''r1'', cr_HSCodes = [''8471''], cr_OriginPorts = [], cr_HazardousOnly = False,
    cr_MaximumGrossKg = 0, cr_EffectiveFrom = 1, cr_EffectiveTo = None, cr_RequiredKind = InspectionSeal\<rparr>"

lemma EvaluateCompliance_correct_witness:
  "\<exists>out. EvaluateCompliance \<lparr>m_VoyageID = ''v1'', m_Items = example_cargo, m_Hash = []\<rparr> ''SGSIN'' [example_rule] 5 = Inr out \<and>
    ordered_by finding_less out"
proof -
  have "validateComplianceRule example_rule = Inr ()" by code_simp
  then show ?thesis
    using EvaluateCompliance_correct [of "\<lparr>m_VoyageID = ''v1'', m_Items = example_cargo, m_Hash = []\<rparr>" "''SGSIN''" "[example_rule]" 5]
    by (auto simp: is_ok_iff)
qed

end
