(* ===== verification/Notification.thy ===== *)
theory Notification
  imports Sort_Slice "HOL-Library.Sublist"
begin

text \<open>
  \<^verbatim>\<open>internal/notification\<close>: which subscriptions an event is delivered to, retries of a
  delivery and the dispatcher. A Go map of strings is an association list read by \<open>attribute\<close>, where
  a missing key reads as the empty string.

  The workers of the dispatcher take indices from a channel and write disjoint slots of the results.
  \<open>Dispatch\<close> takes their interleaving as an argument, the order in which the sends happen, and
  the index at which the context was found done, if any; a send is a step on a world that is a
  parameter. What holds for every interleaving is proved below.
\<close>

type_synonym Channel = string

abbreviation ChannelWebhook :: Channel where "ChannelWebhook \<equiv> ''webhook''"
abbreviation ChannelEmail :: Channel where "ChannelEmail \<equiv> ''email''"

record NotificationEvent =
  n_ID :: string
  n_TenantID :: string
  n_Topic :: string
  n_ObjectID :: string
  n_OccurredAt :: Time
  n_Attributes :: "(string \<times> string) list"

record Subscription =
  sb_ID :: string
  sb_TenantID :: string
  sb_Channel :: Channel
  sb_Destination :: string
  sb_Topics :: "string list"
  sb_AttributeMatch :: "(string \<times> string) list"
  sb_Enabled :: bool
  sb_CreatedAt :: Time

record Delivery =
  dl_ID :: string
  dl_EventID :: string
  dl_SubscriptionID :: string
  dl_Channel :: Channel
  dl_Destination :: string
  dl_Attempts :: int
  dl_AvailableAt :: Time

section \<open>Routing\<close>

fun check_topics :: "string list \<Rightarrow> string list \<Rightarrow> unit result" where
  "check_topics [] seen = Inr ()"
| "check_topics (t # ts) seen =
    (let topic = trim_space t
     in if topic = [] then Inl (errorf ErrInvalid ''empty notification topic'')
        else if topic \<in> set seen then Inl (errorf ErrConflict ''duplicate notification topic'')
        else check_topics ts (topic # seen))"

definition ValidateSubscription :: "Subscription \<Rightarrow> unit result" where
  "ValidateSubscription s =
    (if sb_ID s = [] \<or> sb_TenantID s = [] \<or> sb_Destination s = [] \<or> sb_CreatedAt s = 0
     then Inl (errorf ErrInvalid ''notification subscription'')
     else if sb_Topics s = [] \<or> 50 < length (sb_Topics s) then Inl (errorf ErrInvalid ''subscription topics'')
     else bindR
       (if sb_Channel s = ChannelWebhook
        then refuse_if (\<not> has_prefix (sb_Destination s) ''https://'') (errorf ErrInvalid ''webhook destination'')
        else if sb_Channel s = ChannelEmail
        then refuse_if (\<not> contains_str (sb_Destination s) ''@'') (errorf ErrInvalid ''email destination'')
        else Inl (errorf ErrInvalid ''notification channel''))
       (\<lambda>_. check_topics (sb_Topics s) []))"

definition topic_matches :: "string \<Rightarrow> string \<Rightarrow> bool" where
  "topic_matches topic candidate \<longleftrightarrow>
    candidate = topic \<or> has_suffix candidate ''.*'' \<and> has_prefix topic (butlast candidate)"

definition matchesTopic :: "string \<Rightarrow> string list \<Rightarrow> bool" where
  "matchesTopic topic subscriptions = list_ex (topic_matches topic) subscriptions"

definition attribute :: "(string \<times> string) list \<Rightarrow> string \<Rightarrow> string" where
  "attribute attributes key = (case map_of attributes key of None \<Rightarrow> [] | Some s \<Rightarrow> s)"

definition matchesAttributes :: "(string \<times> string) list \<Rightarrow> (string \<times> string) list \<Rightarrow> bool" where
  "matchesAttributes attributes required =
    list_all (\<lambda>key. attribute attributes key = attribute required key) (map fst required)"

definition routed :: "NotificationEvent \<Rightarrow> Subscription \<Rightarrow> bool" where
  "routed event s \<longleftrightarrow> \<not> (\<not> sb_Enabled s \<or> sb_TenantID s \<noteq> n_TenantID event \<or>
    \<not> matchesTopic (n_Topic event) (sb_Topics s) \<or> \<not> matchesAttributes (n_Attributes event) (sb_AttributeMatch s))"

definition delivery_for :: "NotificationEvent \<Rightarrow> Time \<Rightarrow> Subscription \<Rightarrow> Delivery" where
  "delivery_for event now s = \<lparr>dl_ID = n_ID event @ ''-'' @ sb_ID s, dl_EventID = n_ID event,
    dl_SubscriptionID = sb_ID s, dl_Channel = sb_Channel s, dl_Destination = sb_Destination s, dl_Attempts = 0,
    dl_AvailableAt = now\<rparr>"

fun plan_loop :: "NotificationEvent \<Rightarrow> Time \<Rightarrow> Subscription list \<Rightarrow> Delivery list \<Rightarrow> Delivery list result" where
  "plan_loop event now [] out = Inr out"
| "plan_loop event now (s # rest) out =
    bindR (ValidateSubscription s) (\<lambda>_.
      plan_loop event now rest (if routed event s then out @ [delivery_for event now s] else out))"

definition Plan :: "NotificationEvent \<Rightarrow> Subscription list \<Rightarrow> Time \<Rightarrow> Delivery list result" where
  "Plan event subscriptions now =
    (if n_ID event = [] \<or> n_TenantID event = [] \<or> n_Topic event = [] \<or> n_OccurredAt event = 0 \<or> now = 0
     then Inl (errorf ErrInvalid ''notification event'')
     else bindR (plan_loop event now subscriptions []) (\<lambda>out. Inr (sort_slice (by_key dl_ID) out)))"

definition delivery_Retry :: "Delivery \<Rightarrow> Time \<Rightarrow> Duration \<Rightarrow> int \<Rightarrow> (Delivery \<times> bool) result" where
  "delivery_Retry delivery now backoff maximumAttempts =
    (if dl_ID delivery = [] \<or> now = 0 \<or> backoff \<le> 0 \<or> maximumAttempts \<le> 0
     then Inl (errorf ErrInvalid ''delivery retry'')
     else
       let out = delivery\<lparr>dl_Attempts := inc64 (dl_Attempts delivery)\<rparr>
       in if maximumAttempts \<le> dl_Attempts out then Inr (out, False)
          else Inr (out\<lparr>dl_AvailableAt := now + backoff\<rparr>, True))"

section \<open>Dispatching\<close>

record DispatchResult =
  ds_Delivery :: Delivery
  ds_Sent :: bool
  ds_Error :: "error option"

type_synonym 'w sender = "'w \<Rightarrow> Delivery \<Rightarrow> NotificationEvent \<Rightarrow> unit result \<times> 'w"

definition dispatch_one :: "(Channel \<Rightarrow> 'w sender option) \<Rightarrow> NotificationEvent \<Rightarrow> Delivery \<Rightarrow> 'w \<Rightarrow> DispatchResult \<times> 'w" where
  "dispatch_one senders event delivery w =
    (case senders (dl_Channel delivery) of
       None \<Rightarrow> (\<lparr>ds_Delivery = delivery, ds_Sent = False,
         ds_Error = Some (Plain (''no sender for channel '' @ dl_Channel delivery))\<rparr>, w)
     | Some send \<Rightarrow>
         (case send w delivery event of
            (Inl e, w1) \<Rightarrow> (\<lparr>ds_Delivery = delivery, ds_Sent = False, ds_Error = Some e\<rparr>, w1)
          | (Inr _, w1) \<Rightarrow> (\<lparr>ds_Delivery = delivery, ds_Sent = True, ds_Error = None\<rparr>, w1)))"

definition zero_result :: DispatchResult where
  "zero_result = \<lparr>ds_Delivery = \<lparr>dl_ID = [], dl_EventID = [], dl_SubscriptionID = [], dl_Channel = [],
    dl_Destination = [], dl_Attempts = 0, dl_AvailableAt = 0\<rparr>, ds_Sent = False, ds_Error = None\<rparr>"

text \<open>The sends in the order in which the workers make them, each writing its slot.\<close>

fun worker_loop :: "(Channel \<Rightarrow> 'w sender option) \<Rightarrow> NotificationEvent \<Rightarrow> Delivery list \<Rightarrow> nat list \<Rightarrow>
    DispatchResult list \<Rightarrow> 'w \<Rightarrow> DispatchResult list \<times> 'w" where
  "worker_loop senders event deliveries [] results w = (results, w)"
| "worker_loop senders event deliveries (i # order) results w =
    (let (result, w1) = dispatch_one senders event (deliveries ! i) w
     in worker_loop senders event deliveries order (results[i := result]) w1)"

text \<open>The indices handed out: all of them, or those before the one at which the context was done.\<close>

definition handed_out :: "(nat \<times> error) option \<Rightarrow> nat \<Rightarrow> nat" where
  "handed_out cancelled n = (case cancelled of None \<Rightarrow> n | Some (k, _) \<Rightarrow> k)"

definition Dispatch ::
    "(Channel \<Rightarrow> 'w sender option) \<Rightarrow> NotificationEvent \<Rightarrow> Delivery list \<Rightarrow> (nat \<times> error) option \<Rightarrow> nat list \<Rightarrow> 'w \<Rightarrow>
     (DispatchResult list \<times> error option) \<times> 'w" where
  "Dispatch senders event deliveries cancelled order w =
    (if deliveries = [] then (([], None), w)
     else
       let (results, w1) = worker_loop senders event deliveries order (replicate (length deliveries) zero_result) w
       in case cancelled of
            None \<Rightarrow> ((results, None), w1)
          | Some (k, e) \<Rightarrow>
              ((take k results @ map (\<lambda>delivery. \<lparr>ds_Delivery = delivery, ds_Sent = False, ds_Error = Some e\<rparr>)
                (drop k deliveries), Some e), w1))"

text \<open>The number of workers the dispatcher starts.\<close>

definition dispatch_workers :: "int \<Rightarrow> int" where
  "dispatch_workers concurrency =
    (let c = (if concurrency \<le> 0 then 4 else concurrency) in if 32 < c then 32 else c)"

definition Failed :: "DispatchResult list \<Rightarrow> DispatchResult list" where
  "Failed results =
    sort_slice (by_key (\<lambda>r. dl_ID (ds_Delivery r))) (filter (\<lambda>r. \<not> ds_Sent r \<or> ds_Error r \<noteq> None) results)"

definition JoinErrors :: "DispatchResult list \<Rightarrow> error option" where
  "JoinErrors results =
    (let es = concat (map (\<lambda>r. case ds_Error r of None \<Rightarrow> []
         | Some e \<Rightarrow> [Wrapped (''delivery '' @ dl_ID (ds_Delivery r) @ '': '') e []]) results)
     in if es = [] then None else Some (Joined es))"

section \<open>Lemmas\<close>

lemma check_topics_ok:
  "check_topics ts seen = Inr () \<longleftrightarrow> (\<forall>t\<in>set ts. trim_space t \<noteq> [] \<and> trim_space t \<notin> set seen) \<and>
    distinct (map trim_space ts)"
proof (induction ts arbitrary: seen)
  case (Cons t ts)
  have "trim_space t \<notin> trim_space ` set ts \<longleftrightarrow> (\<forall>u\<in>set ts. trim_space u \<noteq> trim_space t)"
    by (metis image_iff)
  with Cons show ?case by (auto simp: Let_def)
qed simp

lemma plan_loop_Inr_iff:
  "plan_loop event now ss out = Inr ds \<longleftrightarrow> (\<forall>s\<in>set ss. ValidateSubscription s = Inr ()) \<and>
    ds = out @ map (delivery_for event now) (filter (routed event) ss)"
  by (induction ss arbitrary: out) (auto simp: bindR_Inr_iff)

lemma Plan_Inr_iff:
  "Plan event ss now = Inr ds \<longleftrightarrow> n_ID event \<noteq> [] \<and> n_TenantID event \<noteq> [] \<and> n_Topic event \<noteq> [] \<and>
    n_OccurredAt event \<noteq> 0 \<and> now \<noteq> 0 \<and> (\<forall>s\<in>set ss. ValidateSubscription s = Inr ()) \<and>
    ds = sort_slice (by_key dl_ID) (map (delivery_for event now) (filter (routed event) ss))"
  by (auto simp: Plan_def bindR_Inr_iff plan_loop_Inr_iff)

text \<open>A wildcard topic covers exactly the topics with its text up to the star as a prefix.\<close>

lemma topic_matches_wildcard: "topic_matches topic (p @ ''.*'') \<longleftrightarrow> topic = p @ ''.*'' \<or> prefix (p @ ''.'') topic"
  by (auto simp: topic_matches_def suffix_def butlast_append)

lemma length_worker_loop: "length (fst (worker_loop senders event ds order results w)) = length results"
  by (induction order arbitrary: results w) (auto simp: Let_def split: prod.splits)

text \<open>A send of the trace: what was sent, and its outcome.\<close>

lemma worker_loop_other:
  "i \<notin> set order \<Longrightarrow> fst (worker_loop senders event ds order results w) ! i = results ! i"
  by (induction order arbitrary: results w) (auto simp: Let_def split: prod.splits)

lemma worker_loop_slot:
  "i \<in> set order \<Longrightarrow> distinct order \<Longrightarrow> i < length results \<Longrightarrow>
    \<exists>w1. fst (worker_loop senders event ds order results w) ! i = fst (dispatch_one senders event (ds ! i) w1)"
proof (induction order arbitrary: results w)
  case (Cons j order)
  obtain r w1 where one: "dispatch_one senders event (ds ! j) w = (r, w1)" by fastforce
  show ?case
  proof (cases "i = j")
    case True
    with Cons.prems have "fst (worker_loop senders event ds order (results[j := r]) w1) ! i = r"
      by (simp add: worker_loop_other)
    with True one show ?thesis by (intro exI [of _ w]) simp
  next
    case False
    with Cons one show ?thesis by simp
  qed
qed simp

lemma dispatch_one_facts:
  assumes "r = fst (dispatch_one senders event d w)"
  shows "ds_Delivery r = d" and "ds_Sent r \<longleftrightarrow> ds_Error r = None"
  using assms by (auto simp: dispatch_one_def split: option.splits sum.splits prod.splits)

section \<open>What a recording sender sees\<close>

text \<open>Senders that log the deliveries they are asked to send and answer by the delivery alone.\<close>

definition recorder :: "(Delivery \<Rightarrow> unit result) \<Rightarrow> Delivery list sender" where
  "recorder answer w delivery event = (answer delivery, w @ [delivery])"

definition recorders :: "(Delivery \<Rightarrow> unit result) \<Rightarrow> Channel list \<Rightarrow> Channel \<Rightarrow> Delivery list sender option" where
  "recorders answer channels c = (if c \<in> set channels then Some (recorder answer) else None)"

definition outcome_of :: "(Delivery \<Rightarrow> unit result) \<Rightarrow> Channel list \<Rightarrow> Delivery \<Rightarrow> DispatchResult" where
  "outcome_of answer channels d =
    (if dl_Channel d \<notin> set channels
     then \<lparr>ds_Delivery = d, ds_Sent = False, ds_Error = Some (Plain (''no sender for channel '' @ dl_Channel d))\<rparr>
     else case answer d of
       Inl e \<Rightarrow> \<lparr>ds_Delivery = d, ds_Sent = False, ds_Error = Some e\<rparr>
     | Inr _ \<Rightarrow> \<lparr>ds_Delivery = d, ds_Sent = True, ds_Error = None\<rparr>)"

lemma dispatch_one_recorded:
  "dispatch_one (recorders answer channels) event d w =
    (outcome_of answer channels d, w @ (if dl_Channel d \<in> set channels then [d] else []))"
  by (auto simp: dispatch_one_def recorders_def recorder_def outcome_of_def split: sum.splits)

lemma worker_loop_recorded:
  "distinct order \<Longrightarrow> worker_loop (recorders answer channels) event ds order results w =
    (map (\<lambda>i. if i \<in> set order then outcome_of answer channels (ds ! i) else results ! i) [0..<length results],
     w @ filter (\<lambda>d. dl_Channel d \<in> set channels) (map ((!) ds) order))"
proof (induction order arbitrary: results w)
  case Nil
  then show ?case by (simp add: map_nth)
next
  case (Cons j order)
  let ?o = "outcome_of answer channels (ds ! j)"
  let ?slots = "\<lambda>order results. map (\<lambda>i. if i \<in> set order then outcome_of answer channels (ds ! i) else results ! i)
    [0..<length results]"
  let ?sent = "\<lambda>is. filter (\<lambda>d. dl_Channel d \<in> set channels) (map ((!) ds) is)"
  have slots: "?slots order (results[j := ?o]) = ?slots (j # order) results"
    by (rule nth_equalityI) (simp_all add: nth_list_update)
  have "worker_loop (recorders answer channels) event ds (j # order) results w =
      worker_loop (recorders answer channels) event ds order (results[j := ?o]) (w @ ?sent [j])"
    by (simp add: dispatch_one_recorded)
  also have "\<dots> = (?slots order (results[j := ?o]), (w @ ?sent [j]) @ ?sent order)"
    using Cons.prems by (intro Cons.IH) simp
  also have "(w @ ?sent [j]) @ ?sent order = w @ ?sent (j # order)" by simp
  finally show ?case unfolding slots .
qed

lemma perm_upt:
  assumes "mset order = mset [0..<n]"
  shows "distinct order" and "set order = {..<n}"
proof -
  from mset_eq_imp_distinct_iff [OF assms] show "distinct order" by simp
  from mset_eq_setD [OF assms] show "set order = {..<n}" by (simp add: atLeast0LessThan)
qed

lemma Dispatch_recorded:
  assumes "mset order = mset [0..<k]" and "k \<le> length ds" and "cancelled = None \<longrightarrow> k = length ds"
    and "\<And>j e. cancelled = Some (j, e) \<Longrightarrow> j = k"
  shows "\<exists>log. Dispatch (recorders answer channels) event ds cancelled order [] =
      ((map (outcome_of answer channels) (take k ds) @
        map (\<lambda>d. \<lparr>ds_Delivery = d, ds_Sent = False, ds_Error = map_option snd cancelled\<rparr>) (drop k ds),
        if ds = [] then None else map_option snd cancelled), log) \<and>
    mset log = mset (filter (\<lambda>d. dl_Channel d \<in> set channels) (take k ds))"
proof (cases "ds = []")
  case True
  with assms(2) show ?thesis by (simp add: Dispatch_def)
next
  case False
  let ?log = "filter (\<lambda>d. dl_Channel d \<in> set channels) (map ((!) ds) order)"
  have run: "worker_loop (recorders answer channels) event ds order (replicate (length ds) zero_result) [] =
      (map (\<lambda>i. if i < k then outcome_of answer channels (ds ! i) else zero_result) [0..<length ds], ?log)"
    using perm_upt [OF assms(1)] by (simp add: worker_loop_recorded cong: if_cong map_cong)
  have firsts: "take k (map (\<lambda>i. if i < k then outcome_of answer channels (ds ! i) else zero_result) [0..<length ds]) =
      map (outcome_of answer channels) (take k ds)"
    using assms(2) by (intro nth_equalityI) simp_all
  have "mset (map ((!) ds) order) = mset (map ((!) ds) [0..<k])"
    using assms(1) by (metis mset_map)
  also have "map ((!) ds) [0..<k] = take k ds"
    using assms(2) by (intro nth_equalityI) simp_all
  finally have log: "mset ?log = mset (filter (\<lambda>d. dl_Channel d \<in> set channels) (take k ds))"
    by (metis mset_filter)
  show ?thesis
  proof (cases cancelled)
    case None
    with assms(3) have "k = length ds" by simp
    with firsts have "map (\<lambda>i. if i < k then outcome_of answer channels (ds ! i) else zero_result) [0..<length ds] =
        map (outcome_of answer channels) ds" by simp
    with None run False log \<open>k = length ds\<close> show ?thesis by (simp add: Dispatch_def)
  next
    case (Some c)
    then obtain e where "cancelled = Some (k, e)" using assms(4) by (cases c) auto
    with run False firsts log show ?thesis by (simp add: Dispatch_def)
  qed
qed

text \<open>
  C23: The dispatcher with its concurrent workers computes the same as sending the deliveries one after the
  other: in whatever order the workers send the deliveries that were handed out (all of them, or the first
  \<open>k\<close> when the context was done before index \<open>k\<close>), slot \<open>i\<close> holds the outcome of
  delivery \<open>i\<close>, or the error of the context, and every delivery handed out whose channel has a sender is
  sent exactly once, no other at all.
\<close>

theorem Dispatch_equals_sequential:
  assumes "mset order = mset [0..<k]" and "k \<le> length ds" and "cancelled = None \<longrightarrow> k = length ds"
    and "cancelled = None \<or> cancelled = Some (k, e)"
  shows "\<exists>log. Dispatch (recorders answer channels) event ds cancelled order [] =
      ((map (outcome_of answer channels) (take k ds) @
        map (\<lambda>d. \<lparr>ds_Delivery = d, ds_Sent = False, ds_Error = Some e\<rparr>) (drop k ds),
        if ds = [] \<or> cancelled = None then None else Some e), log) \<and>
    mset log = mset (filter (\<lambda>d. dl_Channel d \<in> set channels) (take k ds))"
  using Dispatch_recorded [OF assms(1-3), of answer channels event] assms(3,4) by auto

definition example_event :: NotificationEvent where
  "example_event = \<lparr>n_ID = ''e1'', n_TenantID = ''t'', n_Topic = ''voyage.declared'', n_ObjectID = ''v1'', n_OccurredAt = 5,
    n_Attributes = []\<rparr>"

lemma Dispatch_equals_sequential_witness:
  "\<exists>log. Dispatch (recorders (\<lambda>d. Inr ()) [ChannelEmail]) example_event
      [ds_Delivery zero_result, (ds_Delivery zero_result)\<lparr>dl_Channel := ChannelEmail\<rparr>] None [1, 0] [] =
    ((map (outcome_of (\<lambda>d. Inr ()) [ChannelEmail]) [ds_Delivery zero_result, (ds_Delivery zero_result)\<lparr>dl_Channel := ChannelEmail\<rparr>], None), log)"
proof -
  have "mset [1, 0] = mset [0..<2]" by (simp add: upt_rec)
  from Dispatch_equals_sequential [OF this, of "[ds_Delivery zero_result, (ds_Delivery zero_result)\<lparr>dl_Channel := ChannelEmail\<rparr>]" None
      ContextCanceled "\<lambda>d. Inr ()" "[ChannelEmail]" example_event]
  show ?thesis by auto
qed

end
