(* ===== verification/Outbox.thy ===== *)
theory Outbox
  imports Store
begin

text \<open>
  \<^verbatim>\<open>internal/worker/policy.go\<close>, \<^verbatim>\<open>outbox.go\<close> and
  \<^verbatim>\<open>recovery.go\<close>: the retry policy, one round of the outbox worker and the recovery of jobs
  whose worker died. A table of jobs is the list of its rows.

  A round claims jobs in one statement and settles each after its message was published; other
  workers may act between the two. \<open>RunOnce\<close> is the round of one worker on a table nobody else
  changes; \<open>outbox_step\<close> is the step relation in which any number of workers, the recovery and new
  transactions interleave at the statements they send. \<^verbatim>\<open>SKIP LOCKED\<close> skips the rows that
  other transactions hold, an argument of the claim. The loop \<^verbatim>\<open>Run\<close> around the round is in
  \<open>Worker_Loops\<close>.

  The backoff is computed in \<^verbatim>\<open>float64\<close>: \<open>rnd\<close> is the rounding of an exact result to the
  nearest one, applied after each operation.
\<close>

section \<open>The retry policy\<close>

record OutboxPolicy =
  op_MaximumAttempts :: int
  op_InitialBackoff :: Duration
  op_MaximumBackoff :: Duration
  op_LockTimeout :: Duration
  op_JitterFraction :: rat

definition DefaultRetryPolicy :: OutboxPolicy where
  "DefaultRetryPolicy = \<lparr>op_MaximumAttempts = 8, op_InitialBackoff = 2 * Second, op_MaximumBackoff = 5 * Minute,
    op_LockTimeout = 2 * Minute, op_JitterFraction = 0\<rparr>"

definition outbox_policy_Validate :: "OutboxPolicy \<Rightarrow> unit result" where
  "outbox_policy_Validate p =
    (if op_MaximumAttempts p < 1 \<or> 100 < op_MaximumAttempts p
     then Inl (Plain ''maximum attempts must be between 1 and 100'')
     else if op_InitialBackoff p \<le> 0 \<or> op_MaximumBackoff p < op_InitialBackoff p
     then Inl (Plain ''invalid retry backoff'')
     else if op_LockTimeout p \<le> 0 then Inl (Plain ''lock timeout must be positive'')
     else refuse_if (op_JitterFraction p < 0 \<or> 1 / 2 < op_JitterFraction p)
       (Plain ''jitter fraction must be between 0 and 0.5''))"

definition effective_policy :: "OutboxPolicy \<Rightarrow> OutboxPolicy" where
  "effective_policy p = (if is_ok (outbox_policy_Validate p) then p else DefaultRetryPolicy)"

text \<open>The conversion of a \<^verbatim>\<open>float64\<close> to an integer cuts off the fraction.\<close>

definition truncate :: "rat \<Rightarrow> int" where
  "truncate x = (if x < 0 then - \<lfloor>- x\<rfloor> else \<lfloor>x\<rfloor>)"

definition Backoff :: "(rat \<Rightarrow> rat) \<Rightarrow> OutboxPolicy \<Rightarrow> int \<Rightarrow> rat \<Rightarrow> Duration" where
  "Backoff rnd p0 attempt0 entropy0 =
    (let p = effective_policy p0;
         attempt = (if attempt0 < 1 then 1 else attempt0);
         exponent = (if 30 < attempt - 1 then 30 else attempt - 1);
         scaled = rnd (rnd (of_int (op_InitialBackoff p)) * 2 ^ nat exponent);
         base = (if rnd (of_int (op_MaximumBackoff p)) < scaled then rnd (of_int (op_MaximumBackoff p)) else scaled);
         entropy = (let e = (if entropy0 < 0 then 0 else entropy0) in if 1 < e then 1 else e);
         spread = rnd (base * op_JitterFraction p);
         adjustment = rnd (rnd (rnd (entropy * 2) - 1) * spread)
     in truncate (rnd (base + adjustment)))"

definition StatusAfterFailure :: "OutboxPolicy \<Rightarrow> int \<Rightarrow> string" where
  "StatusAfterFailure p attempt = (if op_MaximumAttempts p \<le> attempt then ''failed'' else ''retry'')"

section \<open>The statements of the worker\<close>

definition job_ready :: "Time \<Rightarrow> string list \<Rightarrow> Job \<Rightarrow> bool" where
  "job_ready now held j \<longleftrightarrow> j_Status j \<in> {''pending'', ''retry''} \<and> j_AvailableAt j \<le> now \<and> j_ID j \<notin> set held"

definition claimed_ids :: "Time \<Rightarrow> nat \<Rightarrow> string list \<Rightarrow> Job list \<Rightarrow> string list" where
  "claimed_ids now batch held jobs =
    map j_ID (take batch (sort_slice (lex2 j_AvailableAt j_ID) (filter (job_ready now held) jobs)))"

definition lock_job :: "Time \<Rightarrow> string \<Rightarrow> Job \<Rightarrow> Job" where
  "lock_job now worker j = j\<lparr>j_Status := ''running'', j_LockedAt := Some now, j_LockedBy := worker, j_UpdatedAt := now\<rparr>"

definition claim_jobs :: "Time \<Rightarrow> string \<Rightarrow> nat \<Rightarrow> string list \<Rightarrow> Job list \<Rightarrow> Job list \<times> Job list" where
  "claim_jobs now worker batch held jobs =
    (let ids = claimed_ids now batch held jobs;
         jobs1 = map (\<lambda>j. if j_ID j \<in> set ids then lock_job now worker j else j) jobs
     in (filter (\<lambda>j. j_ID j \<in> set ids) jobs1, jobs1))"

definition failed_attempts :: "string \<Rightarrow> string \<Rightarrow> Job list \<Rightarrow> int result" where
  "failed_attempts worker jid jobs =
    (case List.find (\<lambda>j. j_ID j = jid \<and> j_LockedBy j = worker) jobs of
       None \<Rightarrow> Inl (Plain ''no rows in result set'')
     | Some j \<Rightarrow> Inr (j_Attempts j + 1))"

definition settle_job :: "Time \<Rightarrow> string \<Rightarrow> string \<Rightarrow> string \<Rightarrow> string \<Rightarrow> Time \<Rightarrow> Job list \<Rightarrow> Job list" where
  "settle_job now worker jid status lastError availableAt jobs =
    map (\<lambda>j. if j_ID j = jid \<and> j_LockedBy j = worker
      then j\<lparr>j_Status := status, j_Attempts := j_Attempts j + 1, j_LastError := lastError, j_LockedAt := None,
        j_LockedBy := [], j_AvailableAt := availableAt, j_UpdatedAt := now\<rparr> else j) jobs"

section \<open>A round\<close>

type_synonym 'w publisher = "'w \<Rightarrow> string \<Rightarrow> string \<Rightarrow> unit result \<times> 'w"

text \<open>The settlement of one claimed job by the outcome of its publication.\<close>

definition settle_outcome ::
    "(rat \<Rightarrow> rat) \<Rightarrow> (Time \<Rightarrow> Time) \<Rightarrow> Time \<Rightarrow> string \<Rightarrow> OutboxPolicy \<Rightarrow> string \<Rightarrow> unit result \<Rightarrow> Job list \<Rightarrow> Job list result" where
  "settle_outcome rnd stored now worker p jid outcome jobs =
    (case outcome of
       Inr _ \<Rightarrow> Inr (settle_job (stored now) worker jid ''delivered'' [] (stored now) jobs)
     | Inl e \<Rightarrow> bindR (failed_attempts worker jid jobs) (\<lambda>attempts.
         Inr (settle_job (stored now) worker jid (StatusAfterFailure p attempts) (error_text e)
           (stored (now + Backoff rnd p attempts (1 / 2))) jobs)))"

fun publish_loop ::
    "(rat \<Rightarrow> rat) \<Rightarrow> (Time \<Rightarrow> Time) \<Rightarrow> 'w publisher \<Rightarrow> Time \<Rightarrow> string \<Rightarrow> OutboxPolicy \<Rightarrow> Job list \<Rightarrow> Job list \<Rightarrow> 'w \<Rightarrow>
     unit result \<times> Job list \<times> 'w" where
  "publish_loop rnd stored publish now worker p [] jobs w = (Inr (), jobs, w)"
| "publish_loop rnd stored publish now worker p (current # rest) jobs w =
    (let (outcome, w1) = publish w (j_Topic current) (j_Payload current)
     in case settle_outcome rnd stored now worker p (j_ID current) outcome jobs of
          Inl e \<Rightarrow> (Inl e, jobs, w1)
        | Inr jobs1 \<Rightarrow> publish_loop rnd stored publish now worker p rest jobs1 w1)"

text \<open>\<open>worker0\<close> is the configured identifier and \<open>process_id\<close> the one made of the process number.\<close>

definition RunOnce ::
    "(rat \<Rightarrow> rat) \<Rightarrow> (Time \<Rightarrow> Time) \<Rightarrow> 'w publisher option \<Rightarrow> Time \<Rightarrow> string \<Rightarrow> string \<Rightarrow> int \<Rightarrow> OutboxPolicy \<Rightarrow> string list \<Rightarrow>
     Job list \<Rightarrow> 'w \<Rightarrow> unit result \<times> Job list \<times> 'w" where
  "RunOnce rnd stored publisher now process_id worker0 batch0 p0 held jobs w =
    (case publisher of
       None \<Rightarrow> (Inl (Plain ''outbox database and publisher are required''), jobs, w)
     | Some publish \<Rightarrow>
         let batch = (if batch0 \<le> 0 then 20 else batch0);
             worker = (if worker0 = [] then process_id else worker0);
             p = effective_policy p0;
             (claimed, jobs1) = claim_jobs (stored now) worker (nat batch) held jobs
         in publish_loop rnd stored publish now worker p claimed jobs1 w)"

section \<open>Recovery\<close>

definition lock_expired :: "Time \<Rightarrow> Job \<Rightarrow> bool" where
  "lock_expired cutoff j \<longleftrightarrow> j_Status j = ''running'' \<and> (case j_LockedAt j of None \<Rightarrow> False | Some t \<Rightarrow> t < cutoff)"

definition recover_job :: "Time \<Rightarrow> int \<Rightarrow> Job \<Rightarrow> Job" where
  "recover_job now maximum j = j\<lparr>j_Status := (if maximum \<le> j_Attempts j then ''failed'' else ''retry''),
    j_LockedAt := None, j_LockedBy := [],
    j_LastError := (if j_LastError j = [] then ''worker lock expired'' else j_LastError j),
    j_AvailableAt := now, j_UpdatedAt := now\<rparr>"

definition RecoverExpiredLocks :: "(Time \<Rightarrow> Time) \<Rightarrow> OutboxPolicy \<Rightarrow> Time \<Rightarrow> Job list \<Rightarrow> int \<times> Job list" where
  "RecoverExpiredLocks stored p0 now jobs =
    (let p = effective_policy p0; cutoff = stored (now - op_LockTimeout p)
     in (int (length (filter (lock_expired cutoff) jobs)),
         map (\<lambda>j. if lock_expired cutoff j then recover_job (stored now) (op_MaximumAttempts p) j else j) jobs))"

definition DeleteDeliveredBefore :: "(Time \<Rightarrow> Time) \<Rightarrow> Time \<Rightarrow> int \<Rightarrow> Job list \<Rightarrow> (int \<times> Job list) result" where
  "DeleteDeliveredBefore stored before batch0 jobs =
    (if before = 0 then Inl (Plain ''cleanup database and cutoff are required'')
     else
       let batch = (if batch0 \<le> 0 then 500 else batch0);
           old = filter (\<lambda>j. j_Status j = ''delivered'' \<and> j_UpdatedAt j < stored before) jobs;
           ids = map j_ID (take (nat batch) (sort_slice (lex2 j_UpdatedAt j_ID) old))
       in Inr (int (length (filter (\<lambda>j. j_ID j \<in> set ids) jobs)), filter (\<lambda>j. j_ID j \<notin> set ids) jobs))"

definition CountByStatus :: "Job list \<Rightarrow> string \<rightharpoonup> int" where
  "CountByStatus jobs status =
    (let n = length (filter (\<lambda>j. j_Status j = status) jobs) in if n = 0 then None else Some (int n))"

section \<open>Workers side by side\<close>

text \<open>
  Where a worker stands in its round: the instant of the round and the claimed jobs it has still to
  publish, or, once a publication failed, the number of attempts it read for that job. A worker is
  named by its identifier, so two processes never share one.
\<close>

datatype worker_pc =
    Idle
  | Publishing Time "Job list"
  | Failing Time Job int error "Job list"

type_synonym outbox = "Job list \<times> (string \<Rightarrow> worker_pc)"

text \<open>
  Each step is one statement sent to the database: the claim of a worker, its settlement of a
  published job, the two statements after a failed publication, the recovery, the cleanup and the
  insertion by a workflow transaction. \<open>stop\<close> is the end of a round, its abortion by an error, or
  the death and restart of the process, at any point.
\<close>

inductive outbox_step :: "(rat \<Rightarrow> rat) \<Rightarrow> (Time \<Rightarrow> Time) \<Rightarrow> OutboxPolicy \<Rightarrow> outbox \<Rightarrow> outbox \<Rightarrow> bool"
    for rnd stored p where
  claim: "pc w = Idle \<Longrightarrow> w \<noteq> [] \<Longrightarrow> claim_jobs (stored now) w batch held jobs = (claimed, jobs1) \<Longrightarrow>
    outbox_step rnd stored p (jobs, pc) (jobs1, pc(w := Publishing now claimed))"
| published: "pc w = Publishing now (c # rest) \<Longrightarrow>
    outbox_step rnd stored p (jobs, pc)
      (settle_job (stored now) w (j_ID c) ''delivered'' [] (stored now) jobs, pc(w := Publishing now rest))"
| refused: "pc w = Publishing now (c # rest) \<Longrightarrow> failed_attempts w (j_ID c) jobs = Inr n \<Longrightarrow>
    outbox_step rnd stored p (jobs, pc) (jobs, pc(w := Failing now c n e rest))"
| postponed: "pc w = Failing now c n e rest \<Longrightarrow>
    outbox_step rnd stored p (jobs, pc)
      (settle_job (stored now) w (j_ID c) (StatusAfterFailure p n) (error_text e)
        (stored (now + Backoff rnd p n (1 / 2))) jobs, pc(w := Publishing now rest))"
| stop: "outbox_step rnd stored p (jobs, pc) (jobs, pc(w := Idle))"
| recover: "outbox_step rnd stored p (jobs, pc) (snd (RecoverExpiredLocks stored p now jobs), pc)"
| cleanup: "DeleteDeliveredBefore stored before batch0 jobs = Inr (deleted, jobs1) \<Longrightarrow>
    outbox_step rnd stored p (jobs, pc) (jobs1, pc)"
| enqueue: "insert_job stored jid tenant topic payload t db = Inr db1 \<Longrightarrow> t_jobs db = jobs \<Longrightarrow>
    outbox_step rnd stored p (jobs, pc) (t_jobs db1, pc)"

end
