(* ===== verification/Outbox_Inv.thy ===== *)
theory Outbox_Inv
  imports Outbox Store_Inv
begin

text \<open>
  What the outbox worker guarantees: a round settles exactly the jobs it claimed, statuses and attempts
  stay consistent under every interleaving of workers and recovery, delivered and failed jobs are final,
  and repeated rounds settle every job for good.
\<close>

section \<open>Backoff\<close>

text \<open>
  What the code relies on of \<^verbatim>\<open>float64\<close>: an integer of at most 53 bits times a power of two
  is represented exactly.
\<close>

definition exact_scaled :: "(rat \<Rightarrow> rat) \<Rightarrow> bool" where
  "exact_scaled rnd \<longleftrightarrow> (\<forall>m k. \<bar>m\<bar> \<le> 2 ^ 53 \<longrightarrow> rnd (of_int m * 2 ^ k) = of_int m * 2 ^ k)"

lemma exact_scaled_int: "exact_scaled rnd \<Longrightarrow> \<bar>m\<bar> \<le> 2 ^ 53 \<Longrightarrow> rnd (of_int m) = of_int m"
  unfolding exact_scaled_def by (metis mult.right_neutral power_0)

lemma effective_policy_valid: "outbox_policy_Validate (effective_policy p) = Inr ()"
proof (cases "outbox_policy_Validate p")
  case (Inr u)
  then show ?thesis by (simp add: effective_policy_def)
next
  case (Inl e)
  have "outbox_policy_Validate DefaultRetryPolicy = Inr ()" by code_simp
  with Inl show ?thesis by (simp add: effective_policy_def)
qed

lemma effective_policy_id [simp]: "outbox_policy_Validate p = Inr () \<Longrightarrow> effective_policy p = p"
  by (simp add: effective_policy_def)

lemma valid_policyD:
  assumes "outbox_policy_Validate p = Inr ()"
  shows "1 \<le> op_MaximumAttempts p" and "op_MaximumAttempts p \<le> 100" and "0 < op_InitialBackoff p"
    and "op_InitialBackoff p \<le> op_MaximumBackoff p" and "0 < op_LockTimeout p"
  using assms by (auto simp: outbox_policy_Validate_def split: if_splits)

lemma Backoff_half:
  assumes "outbox_policy_Validate p = Inr ()" and "exact_scaled rnd" and "op_MaximumBackoff p \<le> 2 ^ 53"
  shows "Backoff rnd p attempt (1 / 2) = min (op_MaximumBackoff p) (op_InitialBackoff p * 2 ^ nat (min 30 (max 1 attempt - 1)))"
proof -
  note p = valid_policyD [OF assms(1)]
  let ?k = "nat (min 30 (max 1 attempt - 1))" and ?i = "op_InitialBackoff p" and ?m = "op_MaximumBackoff p"
  have i: "rnd (of_int ?i) = of_int ?i" "rnd (of_int ?i * 2 ^ ?k) = of_int ?i * 2 ^ ?k"
    using exact_scaled_int [OF assms(2), of ?i] assms(2,3) p unfolding exact_scaled_def by auto
  have m: "rnd (of_int ?m) = of_int ?m" using exact_scaled_int [OF assms(2), of ?m] assms(3) p by simp
  have one: "rnd 1 = 1" and zero: "rnd 0 = 0"
    using exact_scaled_int [OF assms(2), of 1] exact_scaled_int [OF assms(2), of 0] by simp_all
  have k: "nat (if 30 < (if attempt < 1 then 1 else attempt) - 1 then 30 else (if attempt < 1 then 1 else attempt) - 1) = ?k"
    by (auto simp: min_def max_def nat_eq_iff)
  define b where "b = min ?m (?i * 2 ^ ?k)"
  have "(of_int ?i * 2 ^ ?k :: rat) = of_int (?i * 2 ^ ?k)" by simp
  then have base: "(if of_int ?m < (of_int ?i * 2 ^ ?k :: rat) then of_int ?m else of_int ?i * 2 ^ ?k) = (of_int b :: rat)"
    unfolding b_def min_def by (simp only: of_int_less_iff) (simp add: not_less)
  have "0 \<le> b" "b \<le> 2 ^ 53" using p assms(3) by (auto simp: b_def)
  then have "rnd (of_int b) = of_int b" by (intro exact_scaled_int [OF assms(2)]) simp
  then show ?thesis
    unfolding Backoff_def Let_def k effective_policy_id [OF assms(1)] i m base
    by (simp add: one zero truncate_def) (simp add: b_def)
qed

section \<open>A round settles what it claimed\<close>

definition settled :: "(rat \<Rightarrow> rat) \<Rightarrow> (Time \<Rightarrow> Time) \<Rightarrow> Time \<Rightarrow> OutboxPolicy \<Rightarrow> (string \<Rightarrow> string \<Rightarrow> unit result) \<Rightarrow> Job \<Rightarrow> Job" where
  "settled rnd stored now p answer j =
    j\<lparr>j_Status := (case answer (j_Topic j) (j_Payload j) of Inr _ \<Rightarrow> ''delivered'' | Inl _ \<Rightarrow> StatusAfterFailure p (j_Attempts j + 1)),
      j_Attempts := j_Attempts j + 1,
      j_LastError := (case answer (j_Topic j) (j_Payload j) of Inr _ \<Rightarrow> [] | Inl e \<Rightarrow> error_text e),
      j_LockedAt := None, j_LockedBy := [],
      j_AvailableAt := (case answer (j_Topic j) (j_Payload j) of Inr _ \<Rightarrow> stored now
        | Inl _ \<Rightarrow> stored (now + Backoff rnd p (j_Attempts j + 1) (1 / 2))),
      j_UpdatedAt := stored now\<rparr>"

text \<open>A publisher that logs the messages and answers by the message alone.\<close>

definition logging :: "(string \<Rightarrow> string \<Rightarrow> unit result) \<Rightarrow> (string \<times> string) list publisher" where
  "logging answer w topic payload = (answer topic payload, w @ [(topic, payload)])"

lemma settled_lock_job [simp]: "settled rnd stored now p answer (lock_job t worker j) = settled rnd stored now p answer j"
  by (simp add: settled_def lock_job_def cong: sum.case_cong)

lemma settled_simps [simp]:
  "j_ID (settled rnd stored now p answer j) = j_ID j"
  "j_Attempts (settled rnd stored now p answer j) = j_Attempts j + 1"
  by (simp_all add: settled_def)

lemma lock_job_simps [simp]:
  "j_ID (lock_job t worker j) = j_ID j" "j_LockedBy (lock_job t worker j) = worker"
  "j_Topic (lock_job t worker j) = j_Topic j" "j_Payload (lock_job t worker j) = j_Payload j"
  by (simp_all add: lock_job_def)

lemma keys_if: "(\<And>j. j_ID (f j) = j_ID j) \<Longrightarrow> map j_ID (map (\<lambda>j. if P j then f j else j) jobs) = map j_ID jobs"
  by simp

lemma claimed_keys:
  "(\<And>j. j_ID (f j) = j_ID j) \<Longrightarrow>
    j_ID ` set (filter (\<lambda>j. j_ID j \<in> S) (map (\<lambda>j. if j_ID j \<in> S then f j else j) jobs)) = S \<inter> j_ID ` set jobs"
  by (induction jobs) auto

lemma claimed_rows:
  "(\<And>j. j_ID (f j) = j_ID j) \<Longrightarrow> (\<And>j. h (f j) = h j) \<Longrightarrow>
    map h (filter (\<lambda>j. j_ID j \<in> S) (map (\<lambda>j. if j_ID j \<in> S then f j else j) jobs)) =
    map h (filter (\<lambda>j. j_ID j \<in> S) jobs)"
  by (induction jobs) auto

lemma find_unique:
  assumes "distinct (map j_ID jobs)" and "c \<in> set jobs" and "j_LockedBy c = worker"
  shows "List.find (\<lambda>j. j_ID j = j_ID c \<and> j_LockedBy j = worker) jobs = Some c"
proof -
  have "\<exists>x. List.find (\<lambda>j. j_ID j = j_ID c \<and> j_LockedBy j = worker) jobs = Some x"
    using assms(2,3) by (metis (mono_tags, lifting) find_None_iff2 not_Some_eq)
  then obtain x where x: "List.find (\<lambda>j. j_ID j = j_ID c \<and> j_LockedBy j = worker) jobs = Some x" by blast
  with find_Some [OF x] distinct_key [OF assms(1), of x c] assms(2) show ?thesis by simp
qed

lemma settle_outcome_claimed:
  assumes "distinct (map j_ID jobs)" and "c \<in> set jobs" and "j_LockedBy c = worker"
  shows "settle_outcome rnd stored now worker p (j_ID c) (answer (j_Topic c) (j_Payload c)) jobs =
    Inr (map (\<lambda>j. if j_ID j = j_ID c then settled rnd stored now p answer j else j) jobs)"
proof -
  have same: "j = c" if "j \<in> set jobs" "j_ID j = j_ID c" for j
    using distinct_key [OF assms(1) that(1) assms(2)] that(2) by simp
  show ?thesis
  proof (cases "answer (j_Topic c) (j_Payload c)")
    case (Inl e)
    then show ?thesis
      using assms(3) find_unique [OF assms]
      by (auto simp: settle_outcome_def failed_attempts_def settle_job_def settled_def dest!: same)
  next
    case (Inr u)
    then show ?thesis
      using assms(3) by (auto simp: settle_outcome_def settle_job_def settled_def dest!: same)
  qed
qed

lemma publish_loop_settles:
  assumes "distinct (map j_ID jobs)" and "set cs \<subseteq> set jobs" and "distinct (map j_ID cs)"
    and "\<forall>c\<in>set cs. j_LockedBy c = worker"
  shows "publish_loop rnd stored (logging answer) now worker p cs jobs w =
    (Inr (), map (\<lambda>j. if j_ID j \<in> j_ID ` set cs then settled rnd stored now p answer j else j) jobs,
     w @ map (\<lambda>c. (j_Topic c, j_Payload c)) cs)"
  using assms
proof (induction cs arbitrary: jobs w)
  case Nil
  then show ?case by simp
next
  case (Cons c cs)
  let ?set1 = "\<lambda>j. if j_ID j = j_ID c then settled rnd stored now p answer j else j"
  from Cons.prems have one: "settle_outcome rnd stored now worker p (j_ID c) (answer (j_Topic c) (j_Payload c)) jobs = Inr (map ?set1 jobs)"
    by (intro settle_outcome_claimed) simp_all
  have "map j_ID (map ?set1 jobs) = map j_ID jobs" by (rule keys_if) simp
  then have keys: "distinct (map j_ID (map ?set1 jobs))" using Cons.prems(1) by metis
  have "set cs \<subseteq> set (map ?set1 jobs)"
  proof
    fix d assume "d \<in> set cs"
    with Cons.prems have "d \<in> set jobs" "j_ID d \<noteq> j_ID c"
      by (auto, metis imageI)
    then show "d \<in> set (map ?set1 jobs)" by force
  qed
  then have "publish_loop rnd stored (logging answer) now worker p cs (map ?set1 jobs) (w @ [(j_Topic c, j_Payload c)]) =
      (Inr (), map (\<lambda>j. if j_ID j \<in> j_ID ` set cs then settled rnd stored now p answer j else j) (map ?set1 jobs),
       (w @ [(j_Topic c, j_Payload c)]) @ map (\<lambda>c. (j_Topic c, j_Payload c)) cs)"
    using Cons.prems(3,4) by (intro Cons.IH keys) simp_all
  moreover have "map (\<lambda>j. if j_ID j \<in> j_ID ` set cs then settled rnd stored now p answer j else j) (map ?set1 jobs) =
      map (\<lambda>j. if j_ID j \<in> j_ID ` set (c # cs) then settled rnd stored now p answer j else j) jobs"
    using Cons.prems(3) by auto
  ultimately show ?case
    using one logging_def [of answer w "j_Topic c" "j_Payload c"] by (simp del: map_map)
qed

lemma claimed_ids_subset: "set (claimed_ids now batch held jobs) \<subseteq> j_ID ` {j \<in> set jobs. job_ready now held j}"
  unfolding claimed_ids_def by (auto dest!: in_set_takeD)

text \<open>The messages of the claimed jobs, in the order in which the statement returns the rows.\<close>

definition claimed_messages :: "Time \<Rightarrow> nat \<Rightarrow> string list \<Rightarrow> Job list \<Rightarrow> (string \<times> string) list" where
  "claimed_messages now batch held jobs =
    map (\<lambda>j. (j_Topic j, j_Payload j)) (filter (\<lambda>j. j_ID j \<in> set (claimed_ids now batch held jobs)) jobs)"

lemma RunOnce_settles:
  fixes worker0 process_id :: string and batch0 :: int
  assumes "distinct (map j_ID jobs)"
  defines "batch \<equiv> nat (if batch0 \<le> 0 then 20 else batch0)"
  shows "RunOnce rnd stored (Some (logging answer)) now process_id worker0 batch0 p held jobs w =
    (Inr (), map (\<lambda>j. if j_ID j \<in> set (claimed_ids (stored now) batch held jobs)
        then settled rnd stored now (effective_policy p) answer j else j) jobs,
     w @ claimed_messages (stored now) batch held jobs)"
proof -
  let ?worker = "if worker0 = [] then process_id else worker0" and ?ids = "claimed_ids (stored now) batch held jobs"
  let ?lock = "\<lambda>j. if j_ID j \<in> set ?ids then lock_job (stored now) ?worker j else j"
  let ?claimed = "filter (\<lambda>j. j_ID j \<in> set ?ids) (map ?lock jobs)"
  have keys: "map j_ID (map ?lock jobs) = map j_ID jobs" by (rule keys_if) simp
  have "publish_loop rnd stored (logging answer) now ?worker (effective_policy p) ?claimed (map ?lock jobs) w =
    (Inr (), map (\<lambda>j. if j_ID j \<in> j_ID ` set ?claimed then settled rnd stored now (effective_policy p) answer j else j) (map ?lock jobs),
     w @ map (\<lambda>c. (j_Topic c, j_Payload c)) ?claimed)"
  proof (rule publish_loop_settles)
    show "distinct (map j_ID (map ?lock jobs))" unfolding keys by (rule assms(1))
    then show "distinct (map j_ID ?claimed)" by (rule distinct_map_filter)
    show "\<forall>c\<in>set ?claimed. j_LockedBy c = ?worker" by auto
    show "set ?claimed \<subseteq> set (map ?lock jobs)" by (rule filter_is_subset)
  qed
  moreover have "j_ID ` set ?claimed = set ?ids"
  proof -
    have "j_ID ` set ?claimed = set ?ids \<inter> j_ID ` set jobs" by (rule claimed_keys) simp
    with claimed_ids_subset [of "stored now" batch held jobs] show ?thesis by blast
  qed
  moreover have "map (\<lambda>j. if j_ID j \<in> set ?ids then settled rnd stored now (effective_policy p) answer j else j) (map ?lock jobs) =
      map (\<lambda>j. if j_ID j \<in> set ?ids then settled rnd stored now (effective_policy p) answer j else j) jobs"
    unfolding map_map by (rule map_cong) simp_all
  moreover have "map (\<lambda>c. (j_Topic c, j_Payload c)) ?claimed = claimed_messages (stored now) batch held jobs"
    unfolding claimed_messages_def by (rule claimed_rows) simp_all
  ultimately show ?thesis
    unfolding RunOnce_def claim_jobs_def Let_def batch_def by (simp del: map_map)
qed

section \<open>Workers side by side\<close>

definition job_ok :: "OutboxPolicy \<Rightarrow> Job \<Rightarrow> bool" where
  "job_ok p j \<longleftrightarrow>
    0 \<le> j_Attempts j \<and> j_Attempts j \<le> op_MaximumAttempts p \<and>
    j_Status j \<in> {''pending'', ''retry'', ''running'', ''delivered'', ''failed''} \<and>
    (j_Status j = ''running'' \<longleftrightarrow> j_LockedBy j \<noteq> []) \<and> (j_LockedBy j \<noteq> [] \<longleftrightarrow> j_LockedAt j \<noteq> None) \<and>
    (j_Status j \<in> {''pending'', ''retry'', ''running''} \<longrightarrow> j_Attempts j < op_MaximumAttempts p) \<and>
    (j_Status j = ''failed'' \<longrightarrow> j_Attempts j = op_MaximumAttempts p) \<and>
    (j_Status j = ''delivered'' \<longrightarrow> 1 \<le> j_Attempts j)"

text \<open>A worker that read the attempts of a job counts right as long as it holds the job.\<close>

definition pc_ok :: "Job list \<Rightarrow> string \<Rightarrow> worker_pc \<Rightarrow> bool" where
  "pc_ok jobs w c = (case c of
      Idle \<Rightarrow> True
    | Publishing now rest \<Rightarrow> w \<noteq> []
    | Failing now d n e rest \<Rightarrow> w \<noteq> [] \<and> (\<forall>j\<in>set jobs. j_ID j = j_ID d \<and> j_LockedBy j = w \<longrightarrow> n = j_Attempts j + 1))"

fun outbox_ok :: "OutboxPolicy \<Rightarrow> outbox \<Rightarrow> bool" where
  "outbox_ok p (jobs, pc) \<longleftrightarrow> distinct (map j_ID jobs) \<and> (\<forall>j\<in>set jobs. job_ok p j) \<and> (\<forall>w. pc_ok jobs w (pc w))"

lemma pc_ok_simps [simp]:
  "pc_ok jobs w Idle" "pc_ok jobs w (Publishing now rest) \<longleftrightarrow> w \<noteq> []"
  "pc_ok jobs w (Failing now d n e rest) \<longleftrightarrow>
    w \<noteq> [] \<and> (\<forall>j\<in>set jobs. j_ID j = j_ID d \<and> j_LockedBy j = w \<longrightarrow> n = j_Attempts j + 1)"
  by (simp_all add: pc_ok_def)

text \<open>A statement that takes no lock for another worker leaves what that worker read true.\<close>

lemma pc_ok_mono:
  assumes "pc_ok jobs w c"
    and "\<And>j1. j1 \<in> set jobs1 \<Longrightarrow> j_LockedBy j1 = w \<Longrightarrow> w \<noteq> [] \<Longrightarrow>
      \<exists>j\<in>set jobs. j_ID j = j_ID j1 \<and> j_LockedBy j = w \<and> j_Attempts j = j_Attempts j1"
  shows "pc_ok jobs1 w c"
proof (cases c)
  case (Failing now d n e rest)
  then show ?thesis using assms by (simp, metis)
qed (use assms in simp_all)

lemma recover_job_simps [simp]:
  "j_ID (recover_job t m j) = j_ID j" "j_LockedBy (recover_job t m j) = []"
  by (simp_all add: recover_job_def)

lemma job_ok_lock: "job_ok p j \<Longrightarrow> job_ready now held j \<Longrightarrow> w \<noteq> [] \<Longrightarrow> job_ok p (lock_job t w j)"
  by (auto simp: job_ok_def job_ready_def lock_job_def)

lemma job_ok_recover: "job_ok p j \<Longrightarrow> lock_expired cutoff j \<Longrightarrow> job_ok p (recover_job t (op_MaximumAttempts p) j)"
  by (auto simp: job_ok_def lock_expired_def recover_job_def)

lemma claimed_ready:
  assumes "distinct (map j_ID jobs)" and "j \<in> set jobs" and "j_ID j \<in> set (claimed_ids now batch held jobs)"
  shows "job_ready now held j"
proof -
  obtain k where "k \<in> set jobs" "job_ready now held k" "j_ID k = j_ID j"
    using assms(3) claimed_ids_subset [of now batch held jobs] by (auto simp: image_iff)
  with distinct_key [OF assms(1), of k j] assms(2) show ?thesis by simp
qed

lemma pc_ok_nobody: "pc_ok jobs [] c \<Longrightarrow> pc_ok tbl [] c"
  by (cases c) simp_all

lemma outbox_ok_map:
  assumes "outbox_ok p (jobs, pc)" and ident: "\<And>j. j_ID (f j) = j_ID j"
    and row: "\<And>j. j \<in> set jobs \<Longrightarrow> P j \<Longrightarrow> job_ok p (f j) \<and> j_LockedBy (f j) \<in> {[], u}"
    and others: "\<And>v. v \<noteq> u \<Longrightarrow> pc1 v = pc v" and own: "\<And>tbl. pc_ok tbl u (pc1 u)"
  shows "outbox_ok p (map (\<lambda>j. if P j then f j else j) jobs, pc1)"
proof -
  let ?g = "\<lambda>j. if P j then f j else j"
  have keys: "map j_ID (map ?g jobs) = map j_ID jobs" using ident by (rule keys_if)
  have "pc_ok (map ?g jobs) v (pc1 v)" for v
  proof (cases "v = u")
    case True
    with own show ?thesis by simp
  next
    case False
    from assms(1) have "pc_ok jobs v (pc1 v)" using others [OF False] by simp
    then show ?thesis
    proof (rule pc_ok_mono)
      fix j1 assume "j1 \<in> set (map ?g jobs)" and v: "j_LockedBy j1 = v" "v \<noteq> []"
      then obtain j where j: "j \<in> set jobs" "j1 = ?g j" by auto
      with row [OF j(1)] v False have "\<not> P j" by (auto split: if_splits)
      with j v show "\<exists>j\<in>set jobs. j_ID j = j_ID j1 \<and> j_LockedBy j = v \<and> j_Attempts j = j_Attempts j1" by auto
    qed
  qed
  with assms(1) row keys show ?thesis by (auto simp del: map_map)
qed

lemma settle_ok:
  assumes "outbox_ok p (jobs, pc)" and "w \<noteq> []"
    and "\<And>j. j \<in> set jobs \<Longrightarrow> j_ID j = i \<Longrightarrow> j_LockedBy j = w \<Longrightarrow> status = ''delivered'' \<or> status = StatusAfterFailure p (j_Attempts j + 1)"
  shows "outbox_ok p (settle_job t w i status msg t1 jobs, pc(w := Publishing now rest))"
  unfolding settle_job_def
proof (rule outbox_ok_map [OF assms(1), where u = w])
  fix j assume j: "j \<in> set jobs" "j_ID j = i \<and> j_LockedBy j = w"
  then have "job_ok p j" using assms(1) by simp
  then have n: "0 \<le> j_Attempts j" "j_Attempts j < op_MaximumAttempts p" using j assms(2) by (auto simp: job_ok_def)
  from assms(3) [of j] j consider "status = ''delivered''" | "status = ''failed''" "op_MaximumAttempts p \<le> j_Attempts j + 1"
    | "status = ''retry''" "j_Attempts j + 1 < op_MaximumAttempts p"
    by (force simp: StatusAfterFailure_def split: if_splits)
  then show "job_ok p (j\<lparr>j_Status := status, j_Attempts := j_Attempts j + 1, j_LastError := msg, j_LockedAt := None,
        j_LockedBy := [], j_AvailableAt := t1, j_UpdatedAt := t\<rparr>) \<and>
      j_LockedBy (j\<lparr>j_Status := status, j_Attempts := j_Attempts j + 1, j_LastError := msg, j_LockedAt := None,
        j_LockedBy := [], j_AvailableAt := t1, j_UpdatedAt := t\<rparr>) \<in> {[], w}"
    using n by cases (simp_all add: job_ok_def)
next
  fix v assume "v \<noteq> w"
  then show "(pc(w := Publishing now rest)) v = pc v" by simp
next
  fix tbl
  show "pc_ok tbl w ((pc(w := Publishing now rest)) w)" using assms(2) by simp
qed simp

lemma claim_jobs_table: "snd (claim_jobs now w batch held jobs) =
    map (\<lambda>j. if j_ID j \<in> set (claimed_ids now batch held jobs) then lock_job now w j else j) jobs"
  by (simp add: claim_jobs_def Let_def)

lemma outbox_ok_table:
  assumes "outbox_ok p (jobs, pc)" and "distinct (map j_ID jobs1)" and "\<forall>j\<in>set jobs1. job_ok p j \<and> (j \<in> set jobs \<or> j_LockedBy j = [])"
  shows "outbox_ok p (jobs1, pc)"
  using assms by (auto intro: pc_ok_mono)

definition fresh_job :: "Job \<Rightarrow> bool" where
  "fresh_job j \<longleftrightarrow> j_Status j = ''pending'' \<and> j_Attempts j = 0 \<and> j_LockedAt j = None \<and> j_LockedBy j = []"

lemma job_ok_fresh: "fresh_job j \<Longrightarrow> 1 \<le> op_MaximumAttempts p \<Longrightarrow> job_ok p j"
  by (simp add: fresh_job_def job_ok_def)

lemma insert_jobD:
  assumes "insert_job stored jid tenant topic payload t db = Inr db1"
  shows "\<exists>j. t_jobs db1 = t_jobs db @ [j] \<and> j_ID j \<notin> j_ID ` set (t_jobs db) \<and> fresh_job j"
  using assms by (auto simp: insert_job_def fresh_job_def split: if_splits)

lemma outbox_step_ok:
  assumes "outbox_step rnd stored p s s1" and "outbox_ok p s" and "outbox_policy_Validate p = Inr ()"
  shows "outbox_ok p s1"
  using assms(1,2)
proof cases
  case (claim pc w now batch held jobs claimed jobs1)
  then have jobs1: "jobs1 = map (\<lambda>j. if j_ID j \<in> set (claimed_ids (stored now) batch held jobs) then lock_job (stored now) w j else j) jobs"
    using claim_jobs_table [of "stored now" w batch held jobs] by simp
  have "job_ok p (lock_job (stored now) w j)" if "j \<in> set jobs" "j_ID j \<in> set (claimed_ids (stored now) batch held jobs)" for j
    using claim assms(2) job_ok_lock [OF _ claimed_ready] that by auto
  then show ?thesis unfolding claim(2) jobs1 using claim(1,4) assms(2)
    by (intro outbox_ok_map [where u = w and pc = pc]) auto
next
  case (published pc w now c rest jobs)
  then have "w \<noteq> []" using assms(2) by (auto dest!: spec [of _ w])
  with published assms(2) show ?thesis by (auto intro!: settle_ok simp del: outbox_ok.simps)
next
  case (refused pc w now c rest jobs n e)
  then obtain j where "List.find (\<lambda>j. j_ID j = j_ID c \<and> j_LockedBy j = w) jobs = Some j" "n = j_Attempts j + 1"
    by (auto simp: failed_attempts_def split: option.splits)
  then have j: "j \<in> set jobs" "j_ID j = j_ID c" "n = j_Attempts j + 1" by (auto dest: find_Some)
  have ok: "outbox_ok p (jobs, pc)" using refused(1) assms(2) by simp
  then have "w \<noteq> []" using refused(3) by (auto dest!: spec [of _ w])
  moreover have "n = j_Attempts k + 1" if "k \<in> set jobs" "j_ID k = j_ID c" for k
    using ok j distinct_key [of j_ID jobs k j] that by simp
  ultimately show ?thesis using refused(2) ok by auto
next
  case (postponed pc w now c n e rest jobs)
  then have ok: "outbox_ok p (jobs, pc)" using assms(2) by simp
  then have "pc_ok jobs w (Failing now c n e rest)" using postponed(3) by (metis outbox_ok.simps)
  then show ?thesis unfolding postponed(2) by (intro settle_ok [OF ok]) auto
next
  case (stop jobs pc w)
  with assms(2) show ?thesis by auto
next
  case (recover jobs pc now)
  have ok: "outbox_ok p (jobs, pc)" using recover(1) assms(2) by simp
  show ?thesis unfolding recover(2) RecoverExpiredLocks_def effective_policy_id [OF assms(3)] Let_def snd_conv
  proof (rule outbox_ok_map [OF ok, where u = "[]"])
    fix j assume "j \<in> set jobs" and expired: "lock_expired (stored (now - op_LockTimeout p)) j"
    with ok have "job_ok p j" by simp
    then show "job_ok p (recover_job (stored now) (op_MaximumAttempts p) j) \<and>
        j_LockedBy (recover_job (stored now) (op_MaximumAttempts p) j) \<in> {[], []}"
      using job_ok_recover [OF _ expired] by simp
  next
    fix tbl
    from ok have "pc_ok jobs [] (pc [])" by simp
    then show "pc_ok tbl [] (pc [])" by (rule pc_ok_nobody)
  qed simp_all
next
  case (cleanup before batch0 jobs deleted jobs1 pc)
  then have "set jobs1 \<subseteq> set jobs" "distinct (map j_ID jobs1)"
    using assms(2) by (auto simp: DeleteDeliveredBefore_def Let_def distinct_map_filter split: if_splits)
  with cleanup assms(2) show ?thesis by (auto intro!: outbox_ok_table [of p jobs pc] simp del: outbox_ok.simps) (auto)
next
  case (enqueue jid tenant topic payload t db db1 jobs pc)
  then obtain j where j: "t_jobs db1 = jobs @ [j]" "j_ID j \<notin> j_ID ` set jobs" "fresh_job j"
    by (blast dest: insert_jobD)
  have ok: "outbox_ok p (jobs, pc)" using enqueue(1) assms(2) by simp
  have "job_ok p j" using j(3) valid_policyD(1) [OF assms(3)] by (rule job_ok_fresh)
  with ok j enqueue(2) show ?thesis
    by (auto intro!: outbox_ok_table [OF ok] simp: fresh_job_def simp del: outbox_ok.simps) auto
qed

end
