(* ===== verification/Outbox_Properties.thy ===== *)
theory Outbox_Properties
  imports Outbox_Inv
begin

text \<open>
  The guarantees of the outbox: the invariants of every interleaving, the refinement of the interleaved
  steps by the round of one worker, the exact effect of a round and of the recovery, and that rounds
  at a sufficient distance settle every job for good.
\<close>

section \<open>Every interleaving\<close>

lemma outbox_steps_ok:
  assumes "(outbox_step rnd stored p)\<^sup>*\<^sup>* s s1" and "outbox_ok p s" and "outbox_policy_Validate p = Inr ()"
  shows "outbox_ok p s1"
  using assms(1,2) by induction (auto intro: outbox_step_ok [OF _ _ assms(3)] simp del: outbox_ok.simps)

lemma outbox_reachable_ok:
  "(outbox_step rnd stored p)\<^sup>*\<^sup>* ([], \<lambda>w. Idle) s \<Longrightarrow> outbox_policy_Validate p = Inr () \<Longrightarrow> outbox_ok p s"
  by (erule outbox_steps_ok) simp_all

lemma example_policy_valid: "outbox_policy_Validate DefaultRetryPolicy = Inr ()"
  by code_simp


definition example_job :: Job where
  "example_job = \<lparr>j_ID = ''job-1'', j_TenantID = ''t'', j_Topic = ''voyage.declared'', j_Payload = ''{}'',
    j_Status = ''pending'', j_Attempts = 0, j_AvailableAt = 5, j_LockedAt = None, j_LockedBy = [],
    j_LastError = [], j_CreatedAt = 5, j_UpdatedAt = 5\<rparr>"

lemma example_enqueue: "outbox_step rnd (\<lambda>t. t) p ([], pc) ([example_job], pc)"
  using outbox_step.enqueue [of "\<lambda>t. t" "''job-1''" "''t''" "''voyage.declared''" "''{}''" 5 empty_db _ "[]" rnd p pc]
  by (simp add: insert_job_def empty_db_def example_job_def)


section \<open>No job is lost and settled jobs are final\<close>

definition follows :: "Job \<Rightarrow> Job list \<Rightarrow> bool" where
  "follows j jobs1 \<longleftrightarrow>
    (if j_Status j = ''failed'' then j \<in> set jobs1
     else if j_Status j = ''delivered'' then j \<in> set jobs1 \<or> j_ID j \<notin> j_ID ` set jobs1
     else \<exists>j1\<in>set jobs1. j_ID j1 = j_ID j \<and>
       (j_Attempts j1 = j_Attempts j \<or> j_Attempts j1 = j_Attempts j + 1 \<and> j_Status j = ''running''))"

lemma follows_same: "j \<in> set jobs1 \<Longrightarrow> follows j jobs1"
  by (auto simp: follows_def)

lemma follows_map:
  assumes "j \<in> set jobs"
    and "P j \<Longrightarrow> j_Status j \<notin> {''failed'', ''delivered''} \<and> j_ID (f j) = j_ID j \<and>
      (j_Attempts (f j) = j_Attempts j \<or> j_Attempts (f j) = j_Attempts j + 1 \<and> j_Status j = ''running'')"
  shows "follows j (map (\<lambda>j. if P j then f j else j) jobs)"
proof (cases "P j")
  case True
  with assms have "f j \<in> set (map (\<lambda>j. if P j then f j else j) jobs)" by force
  with assms(2) [OF True] show ?thesis by (auto simp: follows_def)
next
  case False
  with assms(1) have "j \<in> set (map (\<lambda>j. if P j then f j else j) jobs)" by force
  then show ?thesis by (rule follows_same)
qed

lemma follows_settle:
  assumes "j \<in> set jobs" and "job_ok p j" and "w \<noteq> []"
  shows "follows j (settle_job t w i status msg t1 jobs)"
  unfolding settle_job_def by (rule follows_map) (use assms in \<open>auto simp: job_ok_def\<close>)

lemma deleted_delivered:
  assumes "DeleteDeliveredBefore stored before batch0 jobs = Inr (n, jobs1)" and "distinct (map j_ID jobs)" and "j \<in> set jobs"
  shows "j \<in> set jobs1 \<or> j_Status j = ''delivered'' \<and> j_ID j \<notin> j_ID ` set jobs1"
proof -
  define old where "old = filter (\<lambda>j. j_Status j = ''delivered'' \<and> j_UpdatedAt j < stored before) jobs"
  define gone where "gone = set (map j_ID (take (nat (if batch0 \<le> 0 then 500 else batch0)) (sort_slice (lex2 j_UpdatedAt j_ID) old)))"
  have jobs1: "jobs1 = filter (\<lambda>j. j_ID j \<notin> gone) jobs"
    using assms(1) by (simp add: DeleteDeliveredBefore_def Let_def gone_def old_def split: if_splits)
  have "gone \<subseteq> j_ID ` set old" unfolding gone_def by (auto dest!: in_set_takeD)
  then have "j_Status j = ''delivered''" if "j_ID j \<in> gone"
    using that distinct_key [OF assms(2,3)] by (auto simp: old_def)
  with assms(3) show ?thesis unfolding jobs1 by auto
qed

lemma outbox_step_follows:
  assumes "outbox_step rnd stored p (jobs, pc) (jobs1, pc1)" and ok: "outbox_ok p (jobs, pc)" and j: "j \<in> set jobs"
  shows "follows j jobs1"
proof -
  from ok j have jok: "job_ok p j" by simp
  from assms(1) show ?thesis
  proof cases
    case (claim w now batch held claimed)
    then have "jobs1 = map (\<lambda>j. if j_ID j \<in> set (claimed_ids (stored now) batch held jobs) then lock_job (stored now) w j else j) jobs"
      using claim_jobs_table [of "stored now" w batch held jobs] by simp
    moreover have "j_Status j \<notin> {''failed'', ''delivered''}" if "j_ID j \<in> set (claimed_ids (stored now) batch held jobs)"
      using claimed_ready [OF _ j that] ok by (auto simp: job_ready_def)
    ultimately show ?thesis by simp_all (rule follows_map [OF j], simp add: lock_job_def)
  next
    case (published w now c rest)
    moreover from this ok have "w \<noteq> []" by (auto dest!: spec [of _ w])
    ultimately show ?thesis using follows_settle [OF j jok] by simp
  next
    case (postponed w now c n e rest)
    moreover from this ok have "w \<noteq> []" by (auto dest!: spec [of _ w])
    ultimately show ?thesis using follows_settle [OF j jok] by simp
  next
    case (recover now)
    show ?thesis unfolding recover RecoverExpiredLocks_def Let_def snd_conv
      by (rule follows_map [OF j]) (auto simp: lock_expired_def recover_job_def)
  next
    case (cleanup before batch0 deleted)
    from deleted_delivered [OF cleanup(2)] j ok have "j \<in> set jobs1 \<or> j_Status j = ''delivered'' \<and> j_ID j \<notin> j_ID ` set jobs1" by simp
    then show ?thesis using follows_same by (auto simp: follows_def)
  next
    case (enqueue jid tenant topic payload t db db1)
    then show ?thesis using j follows_same by (auto dest!: insert_jobD)
  qed (use j follows_same in auto)
qed

text \<open>
  C16: In whatever order the statements interleave, no job is lost: from each step to the next a failed
  job stays exactly as it is, a delivered job stays as it is until the cleanup deletes it, and any
  other job stays in the table with as many attempts as before, or one more if a worker held it.
\<close>

theorem jobs_are_never_lost:
  assumes "outbox_policy_Validate p = Inr ()"
    and "(outbox_step rnd stored p)\<^sup>*\<^sup>* ([], \<lambda>w. Idle) (jobs, pc)"
    and "outbox_step rnd stored p (jobs, pc) (jobs1, pc1)"
  shows "\<forall>j\<in>set jobs. follows j jobs1"
  using outbox_step_follows [OF assms(3) outbox_reachable_ok [OF assms(2,1)]] by blast

lemma jobs_are_never_lost_witness: "follows example_job (snd (RecoverExpiredLocks (\<lambda>t. t) DefaultRetryPolicy 9 [example_job]))"
proof -
  have "(outbox_step (\<lambda>x. x) (\<lambda>t. t) DefaultRetryPolicy)\<^sup>*\<^sup>* ([], \<lambda>w. Idle) ([example_job], \<lambda>w. Idle)"
    using example_enqueue by (rule r_into_rtranclp)
  from jobs_are_never_lost [OF example_policy_valid this outbox_step.recover] show ?thesis by simp
qed

section \<open>Recovery\<close>

text \<open>
  On a consistent table \<^verbatim>\<open>RecoverExpiredLocks\<close> turns exactly the running jobs whose
  lock is older than the timeout into jobs to be retried at once, keeps their attempts, leaves every
  other job as it is and returns how many it turned. It never fails a job, whatever the number of workers
  that died over it.
\<close>

theorem RecoverExpiredLocks_correct:
  assumes "list_all (job_ok (effective_policy p)) jobs"
  shows "RecoverExpiredLocks stored p now jobs =
    (let expired = (\<lambda>j. j_Status j = ''running'' \<and> the (j_LockedAt j) < stored (now - op_LockTimeout (effective_policy p)))
     in (int (length (filter expired jobs)),
         map (\<lambda>j. if expired j
           then j\<lparr>j_Status := ''retry'', j_LockedAt := None, j_LockedBy := [], j_AvailableAt := stored now, j_UpdatedAt := stored now,
             j_LastError := (if j_LastError j = [] then ''worker lock expired'' else j_LastError j)\<rparr>
           else j) jobs))"
proof -
  let ?cut = "stored (now - op_LockTimeout (effective_policy p))"
  have "lock_expired ?cut j \<longleftrightarrow> j_Status j = ''running'' \<and> the (j_LockedAt j) < ?cut"
    and "j_Status j = ''running'' \<Longrightarrow> \<not> op_MaximumAttempts (effective_policy p) \<le> j_Attempts j" if "j \<in> set jobs" for j
    using assms that by (auto simp: list_all_iff job_ok_def lock_expired_def)
  then show ?thesis
    by (auto simp: RecoverExpiredLocks_def Let_def recover_job_def intro!: arg_cong [where f = length] filter_cong)
qed

lemma RecoverExpiredLocks_correct_witness:
  "fst (RecoverExpiredLocks (\<lambda>t. t) DefaultRetryPolicy (10 * Minute) [lock_job 5 ''w'' example_job]) = 1"
proof -
  have ok: "list_all (job_ok (effective_policy DefaultRetryPolicy)) [lock_job 5 ''w'' example_job]" by code_simp
  have now: "5 < 10 * Minute - op_LockTimeout (effective_policy DefaultRetryPolicy)" by code_simp
  show ?thesis unfolding RecoverExpiredLocks_correct [OF ok] using now by (simp add: lock_job_def Let_def)
qed

section \<open>A round is a path of the interleaving\<close>

lemma publish_loop_steps:
  "publish_loop rnd stored publish now w p cs jobs st = (r, jobs1, st1) \<Longrightarrow>
    (outbox_step rnd stored p)\<^sup>*\<^sup>* (jobs, pc(w := Publishing now cs)) (jobs1, pc(w := Idle))"
proof (induction cs arbitrary: jobs st)
  case Nil
  then show ?case using outbox_step.stop [of rnd stored p jobs "pc(w := Publishing now [])" w]
    by (auto intro: r_into_rtranclp simp del: fun_upd_apply)
next
  case (Cons c cs)
  let ?pc = "pc(w := Publishing now (c # cs))"
  have at: "?pc w = Publishing now (c # cs)" by simp
  obtain outcome st2 where pub: "publish st (j_Topic c) (j_Payload c) = (outcome, st2)" by fastforce
  show ?case
  proof (cases "settle_outcome rnd stored now w p (j_ID c) outcome jobs")
    case (Inl e)
    with Cons.prems pub have "jobs1 = jobs" by auto
    then show ?thesis using outbox_step.stop [of rnd stored p jobs ?pc w]
      by (auto intro: r_into_rtranclp simp del: fun_upd_apply)
  next
    case (Inr jobs2)
    have "(outbox_step rnd stored p)\<^sup>*\<^sup>* (jobs, ?pc) (jobs2, pc(w := Publishing now cs))"
    proof (cases outcome)
      case (Inr u)
      with \<open>settle_outcome rnd stored now w p (j_ID c) outcome jobs = Inr jobs2\<close>
        outbox_step.published [of ?pc w now c cs rnd stored p jobs, OF at] show ?thesis by (auto simp: settle_outcome_def simp del: fun_upd_apply)
    next
      case (Inl e)
      with \<open>settle_outcome rnd stored now w p (j_ID c) outcome jobs = Inr jobs2\<close>
      obtain n where n: "failed_attempts w (j_ID c) jobs = Inr n"
        "jobs2 = settle_job (stored now) w (j_ID c) (StatusAfterFailure p n) (error_text e) (stored (now + Backoff rnd p n (1 / 2))) jobs"
        by (auto simp: settle_outcome_def bindR_Inr_iff)
      have at2: "(?pc(w := Failing now c n e cs)) w = Failing now c n e cs" by simp
      show ?thesis
        using outbox_step.refused [of ?pc w now c cs jobs n rnd stored p e, OF at n(1)]
          outbox_step.postponed [of "?pc(w := Failing now c n e cs)" w now c n e cs rnd stored p jobs, OF at2]
        by (auto simp: n(2) intro: converse_rtranclp_into_rtranclp simp del: fun_upd_apply)
    qed
    moreover have "publish_loop rnd stored publish now w p cs jobs2 st2 = (r, jobs1, st1)" using Inr Cons.prems pub by simp
    from Cons.IH [OF this] have "(outbox_step rnd stored p)\<^sup>*\<^sup>* (jobs2, pc(w := Publishing now cs)) (jobs1, pc(w := Idle))" .
    ultimately show ?thesis by (rule rtranclp_trans)
  qed
qed

text \<open>
  C21: \<^verbatim>\<open>RunOnce\<close>, with any publisher and whether it ends well or with an error, refines the
  interleaved steps: an idle worker with its identifier reaches the table that \<^verbatim>\<open>RunOnce\<close>
  leaves and is idle again.
\<close>

theorem RunOnce_refines_steps:
  fixes worker0 process_id w :: string
  assumes w_def: "w = (if worker0 = [] then process_id else worker0)"
    and "RunOnce rnd stored (Some publish) now process_id worker0 batch0 p held jobs st = (r, jobs1, st1)"
    and "w \<noteq> []" and "pc w = Idle"
  shows "(outbox_step rnd stored (effective_policy p))\<^sup>*\<^sup>* (jobs, pc) (jobs1, pc)"
proof -
  obtain claimed jobs2 where c: "claim_jobs (stored now) w (nat (if batch0 \<le> 0 then 20 else batch0)) held jobs = (claimed, jobs2)"
    by fastforce
  have loop: "publish_loop rnd stored publish now w (effective_policy p) claimed jobs2 st = (r, jobs1, st1)"
    using assms(2) c unfolding RunOnce_def w_def [symmetric] by (simp add: Let_def)
  have "outbox_step rnd stored (effective_policy p) (jobs, pc) (jobs2, pc(w := Publishing now claimed))"
    using assms(4,3) c by (rule outbox_step.claim)
  also note publish_loop_steps [OF loop, of pc]
  also have "pc(w := Idle) = pc" using assms(4) by auto
  finally show ?thesis .
qed

lemma RunOnce_refines_steps_witness:
  "(outbox_step (\<lambda>x. x) (\<lambda>t. t) (effective_policy DefaultRetryPolicy))\<^sup>*\<^sup>* ([example_job], \<lambda>w. Idle)
    (fst (snd (RunOnce (\<lambda>x. x) (\<lambda>t. t) (Some (logging (\<lambda>topic payload. Inr ()))) 9 ''worker-7'' [] 20 DefaultRetryPolicy [] [example_job] [])),
     \<lambda>w. Idle)"
proof -
  let ?run = "RunOnce (\<lambda>x. x) (\<lambda>t. t) (Some (logging (\<lambda>topic payload. Inr ()))) 9 ''worker-7'' [] 20 DefaultRetryPolicy [] [example_job] []"
  obtain r u st where run: "?run = (r, u, st)" by (metis prod.exhaust)
  have "(outbox_step (\<lambda>x. x) (\<lambda>t. t) (effective_policy DefaultRetryPolicy))\<^sup>*\<^sup>* ([example_job], \<lambda>w. Idle) (u, \<lambda>w. Idle)"
    by (rule RunOnce_refines_steps [OF refl run]) simp_all
  then show ?thesis using run by simp
qed

section \<open>One round\<close>

text \<open>
  C22: A round of \<^verbatim>\<open>RunOnce\<close> on a table with unique keys and no interference computes the same
  as this reference: exactly the first \<open>batch\<close> jobs that are pending or to be retried, are due and are
  not held by others, the oldest first, are settled, each by the answer to its own message: delivered, or
  failed or to be retried after the backoff of its attempts. Every message is sent once and every other job is left as it is.
\<close>

theorem RunOnce_correct:
  assumes "distinct (map j_ID jobs)"
  shows "RunOnce rnd stored (Some (logging answer)) now process_id worker0 batch0 p held jobs w =
    (let due = filter (\<lambda>j. j_Status j \<in> {''pending'', ''retry''} \<and> j_AvailableAt j \<le> stored now \<and> j_ID j \<notin> set held) jobs;
         chosen = set (take (nat (if batch0 \<le> 0 then 20 else batch0)) (sort_slice (lex2 j_AvailableAt j_ID) due))
     in (Inr (),
         map (\<lambda>j. if j \<in> chosen then settled rnd stored now (effective_policy p) answer j else j) jobs,
         w @ map (\<lambda>j. (j_Topic j, j_Payload j)) (filter (\<lambda>j. j \<in> chosen) jobs)))"
proof -
  let ?batch = "nat (if batch0 \<le> 0 then 20 else batch0)"
  define chosen where "chosen = set (take ?batch (sort_slice (lex2 j_AvailableAt j_ID) (filter (job_ready (stored now) held) jobs)))"
  have due: "filter (\<lambda>j. j_Status j \<in> {''pending'', ''retry''} \<and> j_AvailableAt j \<le> stored now \<and> j_ID j \<notin> set held) jobs =
      filter (job_ready (stored now) held) jobs"
    by (rule filter_cong) (simp_all only: job_ready_def)
  have ids: "set (claimed_ids (stored now) ?batch held jobs) = j_ID ` chosen"
    by (simp add: claimed_ids_def chosen_def)
  have "chosen \<subseteq> set jobs" unfolding chosen_def by (auto dest!: in_set_takeD)
  then have mem: "j_ID j \<in> j_ID ` chosen \<longleftrightarrow> j \<in> chosen" if "j \<in> set jobs" for j
    using that distinct_key [OF assms that] by blast
  show ?thesis
    unfolding RunOnce_settles [OF assms] claimed_messages_def ids due Let_def chosen_def [symmetric]
    using mem by (auto cong: filter_cong)
qed

lemma RunOnce_correct_witness:
  "fst (snd (RunOnce (\<lambda>x. x) (\<lambda>t. t) (Some (logging (\<lambda>topic payload. Inr ()))) 9 ''worker-7'' [] 20 DefaultRetryPolicy [] [example_job] [])) =
    [settled (\<lambda>x. x) (\<lambda>t. t) 9 (effective_policy DefaultRetryPolicy) (\<lambda>topic payload. Inr ()) example_job]"
  by (subst RunOnce_correct) (simp_all add: Let_def example_job_def)

section \<open>Rounds settle every job\<close>

text \<open>Rounds at their instants; the publisher answers each time as it likes.\<close>

fun rounds :: "(rat \<Rightarrow> rat) \<Rightarrow> (Time \<Rightarrow> Time) \<Rightarrow> string \<Rightarrow> int \<Rightarrow> OutboxPolicy \<Rightarrow> (Time \<times> (string \<Rightarrow> string \<Rightarrow> unit result)) list \<Rightarrow> Job list \<Rightarrow> Job list" where
  "rounds rnd stored worker batch p [] jobs = jobs"
| "rounds rnd stored worker batch p ((now, answer) # rs) jobs =
    rounds rnd stored worker batch p rs (fst (snd (RunOnce rnd stored (Some (logging answer)) now worker worker batch p [] jobs [])))"

fun spaced :: "Duration \<Rightarrow> Time \<Rightarrow> (Time \<times> 'a) list \<Rightarrow> bool" where
  "spaced gap t [] = True"
| "spaced gap t ((now, answer) # rs) = (t \<le> now \<and> spaced gap (now + gap) rs)"

definition tries_left :: "OutboxPolicy \<Rightarrow> Job \<Rightarrow> nat" where
  "tries_left p j = (if j_Status j \<in> {''pending'', ''retry''} then nat (op_MaximumAttempts p - j_Attempts j) else 0)"

definition waiting :: "OutboxPolicy \<Rightarrow> Time \<Rightarrow> Job \<Rightarrow> bool" where
  "waiting p t j \<longleftrightarrow> job_ok p j \<and> j_Status j \<noteq> ''running'' \<and> (j_Status j \<in> {''pending'', ''retry''} \<longrightarrow> j_AvailableAt j \<le> t)"

lemma sum_list_less:
  fixes g :: "'a \<Rightarrow> nat"
  shows "(\<And>x. x \<in> set xs \<Longrightarrow> g (f x) \<le> g x) \<Longrightarrow> x \<in> set xs \<Longrightarrow> g (f x) < g x \<Longrightarrow>
    sum_list (map g (map f xs)) < sum_list (map g xs)"
proof (induction xs)
  case (Cons y ys)
  have "sum_list (map g (map f ys)) \<le> sum_list (map g ys)"
    unfolding map_map by (rule sum_list_mono) (use Cons.prems(1) in simp)
  with Cons show ?case by (cases "x = y") (auto simp: add_le_less_mono add_less_le_mono)
qed simp

lemma settled_waiting:
  assumes "waiting p t j" and "j_Status j \<in> {''pending'', ''retry''}" and "mono stored" and "outbox_policy_Validate p = Inr ()"
    and "exact_scaled rnd" and "op_MaximumBackoff p \<le> 2 ^ 53"
  shows "waiting p (stored (now + op_MaximumBackoff p)) (settled rnd stored now p answer j)"
    and "tries_left p (settled rnd stored now p answer j) < tries_left p j"
proof -
  have a: "0 \<le> j_Attempts j" "j_Attempts j < op_MaximumAttempts p" using assms(1,2) by (auto simp: waiting_def job_ok_def)
  have "Backoff rnd p n (1 / 2) \<le> op_MaximumBackoff p" for n
    unfolding Backoff_half [OF assms(4-6)] by simp
  then have late: "stored (now + Backoff rnd p n (1 / 2)) \<le> stored (now + op_MaximumBackoff p)" for n
    by (intro monoD [OF assms(3)]) simp
  have here: "stored now \<le> stored (now + op_MaximumBackoff p)"
    using valid_policyD [OF assms(4)] by (intro monoD [OF assms(3)]) simp
  have "job_ok p (settled rnd stored now p answer j) \<and> j_Status (settled rnd stored now p answer j) \<noteq> ''running'' \<and>
      j_AvailableAt (settled rnd stored now p answer j) \<le> stored (now + op_MaximumBackoff p)"
    using a late here by (cases "answer (j_Topic j) (j_Payload j)") (simp_all add: settled_def job_ok_def StatusAfterFailure_def)
  then show "waiting p (stored (now + op_MaximumBackoff p)) (settled rnd stored now p answer j)" by (simp add: waiting_def)
  show "tries_left p (settled rnd stored now p answer j) < tries_left p j"
    using a assms(2) by (simp add: tries_left_def del: insert_iff)
qed

lemma waiting_mono: "waiting p t j \<Longrightarrow> t \<le> t1 \<Longrightarrow> waiting p t1 j"
  by (auto simp: waiting_def)

lemma round_progress:
  fixes worker :: string and batch :: int and answer :: "string \<Rightarrow> string \<Rightarrow> unit result"
  assumes p: "outbox_policy_Validate p = Inr ()" and rnd: "exact_scaled rnd" "op_MaximumBackoff p \<le> 2 ^ 53" and stored: "mono stored"
    and keys: "distinct (map j_ID jobs)" and wait: "\<forall>j\<in>set jobs. waiting p (stored t) j" and now: "t \<le> now"
  defines "jobs1 \<equiv> fst (snd (RunOnce rnd stored (Some (logging answer)) now worker worker batch p [] jobs []))"
  shows "distinct (map j_ID jobs1) \<and> (\<forall>j\<in>set jobs1. waiting p (stored (now + op_MaximumBackoff p)) j) \<and>
    sum_list (map (tries_left p) jobs1) \<le> sum_list (map (tries_left p) jobs) - 1"
proof -
  let ?n = "nat (if batch \<le> 0 then 20 else batch)" and ?settle = "settled rnd stored now p answer"
  let ?ids = "claimed_ids (stored now) ?n [] jobs"
  let ?f = "\<lambda>j. if j_ID j \<in> set ?ids then ?settle j else j"
  have jobs1: "jobs1 = map ?f jobs"
    unfolding jobs1_def RunOnce_settles [OF keys] effective_policy_id [OF p] by simp
  have later: "stored t \<le> stored now" "stored now \<le> stored (now + op_MaximumBackoff p)"
    using now valid_policyD [OF p] by (auto intro!: monoD [OF stored])
  have claimed: "j_Status j \<in> {''pending'', ''retry''}" if "j \<in> set jobs" "j_ID j \<in> set ?ids" for j
    using claimed_ready [OF keys that] by (simp add: job_ready_def)
  have f: "waiting p (stored (now + op_MaximumBackoff p)) (?f j) \<and> tries_left p (?f j) \<le> tries_left p j" if j: "j \<in> set jobs" for j
  proof (cases "j_ID j \<in> set ?ids")
    case True
    with settled_waiting [OF bspec [OF wait j] claimed [OF j True] stored p rnd, of now answer] show ?thesis by simp
  next
    case False
    with waiting_mono [OF bspec [OF wait j]] later show ?thesis by auto
  qed
  have "sum_list (map (tries_left p) jobs1) \<le> sum_list (map (tries_left p) jobs) - 1"
  proof (cases ?ids)
    case Nil
    have "?n \<noteq> 0" by (auto simp: nat_eq_iff)
    with Nil have "filter (job_ready (stored now) []) jobs = []" unfolding claimed_ids_def by simp
    then have "tries_left p j = 0" if "j \<in> set jobs" for j
      using bspec [OF wait that] that later(1) by (force simp: waiting_def tries_left_def job_ready_def filter_empty_conv)
    then have "sum_list (map (tries_left p) jobs) = 0" by simp
    moreover have "jobs1 = jobs" unfolding jobs1 Nil by simp
    ultimately show ?thesis by (simp only:)
  next
    case (Cons i ids)
    then have i: "i \<in> set ?ids" by simp
    then obtain j where j: "j \<in> set jobs" "j_ID j = i" using claimed_ids_subset by blast
    then have "tries_left p (?f j) < tries_left p j"
      using settled_waiting(2) [OF bspec [OF wait j(1)] claimed [OF j(1)] stored p rnd] i by simp
    then have "sum_list (map (tries_left p) (map ?f jobs)) < sum_list (map (tries_left p) jobs)"
      using f j(1) by (intro sum_list_less) auto
    then show ?thesis unfolding jobs1 by simp
  qed
  moreover have "map j_ID jobs1 = map j_ID jobs" unfolding jobs1 by (rule keys_if) simp
  moreover have "\<forall>j\<in>set jobs1. waiting p (stored (now + op_MaximumBackoff p)) j" using f unfolding jobs1 set_map by blast
  ultimately show ?thesis using keys by metis
qed

text \<open>
  Rounds of one worker that start when every waiting job is due and follow each other at a distance of at
  least the maximum backoff settle every job for good, delivered or failed, in as many rounds as the jobs
  have tries left in all, whatever the publisher answers and however small the batch.
\<close>

theorem outbox_drains:
  assumes "outbox_policy_Validate p = Inr ()" and "exact_scaled rnd" and "op_MaximumBackoff p \<le> 2 ^ 53" and "mono stored"
    and "distinct (map j_ID jobs)" and "list_all (waiting p (stored t)) jobs"
    and "spaced (op_MaximumBackoff p) t rs" and "sum_list (map (tries_left p) jobs) \<le> length rs"
  shows "list_all (\<lambda>j. j_Status j \<in> {''delivered'', ''failed''}) (rounds rnd stored worker batch p rs jobs)"
  using assms(5-8)
proof (induction rs arbitrary: jobs t)
  case Nil
  have "j_Status j \<in> {''delivered'', ''failed''}" if "j \<in> set jobs" for j
  proof -
    have "tries_left p j = 0" using Nil that by simp
    moreover have "waiting p (stored t) j" using Nil that by (simp add: list_all_iff)
    ultimately show ?thesis by (auto simp: waiting_def tries_left_def job_ok_def split: if_splits)
  qed
  then show ?case by (simp add: list_all_iff)
next
  case (Cons r rs)
  obtain now answer where r: "r = (now, answer)" by fastforce
  have "t \<le> now" "\<forall>j\<in>set jobs. waiting p (stored t) j" using Cons.prems r by (simp_all add: list_all_iff)
  from round_progress [OF assms(1-4) Cons.prems(1) this(2,1), of answer worker batch] Cons.prems(3,4)
  show ?case unfolding r rounds.simps by (intro Cons.IH [where t = "now + op_MaximumBackoff p"]) (auto simp: r list_all_iff)
qed

lemma outbox_drains_witness:
  "list_all (\<lambda>j. j_Status j \<in> {''delivered'', ''failed''})
    (rounds (\<lambda>x. x) (\<lambda>t. t) ''w'' 1 DefaultRetryPolicy (map (\<lambda>k. (int k * 5 * Minute + 5, \<lambda>topic payload. Inl (Plain ''down''))) [0..<8]) [example_job])"
proof (rule outbox_drains [where t = 5])
  show "exact_scaled (\<lambda>x. x)" by (simp add: exact_scaled_def)
  show "op_MaximumBackoff DefaultRetryPolicy \<le> 2 ^ 53" by code_simp
  show "list_all (waiting DefaultRetryPolicy 5) [example_job]" by code_simp
  show "spaced (op_MaximumBackoff DefaultRetryPolicy) 5 (map (\<lambda>k. (int k * 5 * Minute + 5, \<lambda>topic payload. Inl (Plain ''down''))) [0..<8])"
    by (simp add: upt_rec DefaultRetryPolicy_def)
  show "sum_list (map (tries_left DefaultRetryPolicy) [example_job]) \<le>
      length (map (\<lambda>k. (int k * 5 * Minute + 5, \<lambda>topic payload. Inl (Plain ''down'') :: unit result)) [0..<8])"
    by (simp add: example_job_def tries_left_def DefaultRetryPolicy_def)
qed (simp_all add: example_policy_valid mono_def)

end
