(* ===== verification/Session_Store.thy ===== *)
theory Session_Store
  imports Auth Store_Inv
begin

text \<open>
  \<^verbatim>\<open>internal/store/auth.go\<close>, \<^verbatim>\<open>session_lifecycle.go\<close> and
  \<^verbatim>\<open>internal/worker/session_reaper.go\<close> on the tables of users and sessions. \<open>stored\<close> is what
  a column of instants keeps of an instant. \<open>auth_step\<close> is the step relation of all operations; the
  lemmas say that the tables stay well formed, what a login makes of them, that revoking what the policy
  names enforces its limit, and that the reaper cannot be noticed.
\<close>

record AuthDB =
  a_users :: "User list"
  a_sessions :: "Session list"

section \<open>Users and sessions on the tables\<close>

definition insert_user :: "User \<Rightarrow> AuthDB \<Rightarrow> AuthDB result" where
  "insert_user u db =
    (if u_Email u \<in> u_Email ` set (a_users db) then Inr db
     else if u_ID u \<in> u_ID ` set (a_users db) then Inl (db_error ''users_pkey'')
     else Inr (db\<lparr>a_users := a_users db @ [u]\<rparr>))"

text \<open>The statements are transactions of their own: an error leaves the users inserted before it.\<close>

fun insert_users :: "User list \<Rightarrow> AuthDB \<Rightarrow> unit result \<times> AuthDB" where
  "insert_users [] db = (Inr (), db)"
| "insert_users (u # us) db = (case insert_user u db of Inl e \<Rightarrow> (Inl e, db) | Inr db1 \<Rightarrow> insert_users us db1)"

definition demo_user :: "string \<Rightarrow> string \<Rightarrow> string \<Rightarrow> Role \<Rightarrow> User" where
  "demo_user passwordHash uid email role = \<lparr>u_ID = uid, u_TenantID = ''demo-port'', u_Email = email,
    u_PasswordHash = passwordHash, u_Role = role, u_Disabled = False, u_Version = 1\<rparr>"

definition Bootstrap :: "(string \<Rightarrow> string result) \<Rightarrow> AuthDB \<Rightarrow> unit result \<times> AuthDB" where
  "Bootstrap generate db =
    (case HashPassword generate ''canalclear-demo-password'' of
       Inl e \<Rightarrow> (Inl e, db)
     | Inr h \<Rightarrow> insert_users
        [demo_user h ''carrier-demo'' ''carrier@canalclear.test'' RoleCarrier,
         demo_user h ''dispatcher-demo'' ''dispatcher@canalclear.test'' RoleDispatcher,
         demo_user h ''customs-demo'' ''customs@canalclear.test'' RoleCustoms,
         demo_user h ''lock-demo'' ''lock@canalclear.test'' RoleLock,
         demo_user h ''auditor-demo'' ''auditor@canalclear.test'' RoleAuditor] db)"

definition insert_session :: "(Time \<Rightarrow> Time) \<Rightarrow> Session \<Rightarrow> AuthDB \<Rightarrow> AuthDB result" where
  "insert_session stored s db =
    (if s_ID s \<in> s_ID ` set (a_sessions db) then Inl (db_error ''sessions_pkey'')
     else if s_TokenHash s \<in> s_TokenHash ` set (a_sessions db) then Inl (db_error ''sessions_token_hash_key'')
     else if s_UserID s \<notin> u_ID ` set (a_users db) then Inl (db_error ''sessions_user_id_fkey'')
     else Inr (db\<lparr>a_sessions := a_sessions db @
       [s\<lparr>s_CreatedAt := stored (s_CreatedAt s), s_ExpiresAt := stored (s_ExpiresAt s), s_RevokedAt := None\<rparr>]\<rparr>))"

definition Login ::
    "(string \<Rightarrow> string \<Rightarrow> bool) \<Rightarrow> (Time \<Rightarrow> Time) \<Rightarrow> string result \<Rightarrow> string result \<Rightarrow> string \<Rightarrow> string \<Rightarrow> Time \<Rightarrow> Duration \<Rightarrow>
     AuthDB \<Rightarrow> ((string \<times> Session) \<times> AuthDB) result" where
  "Login compare stored token_bytes id_bytes email password now ttl db =
    (case List.find (\<lambda>u. u_Email u = email) (a_users db) of
       None \<Rightarrow> Inl (Sentinel ErrForbidden)
     | Some user \<Rightarrow>
         if \<not> is_ok (VerifyPassword compare (u_PasswordHash user) password) \<or> u_Disabled user then Inl (Sentinel ErrForbidden)
         else bindR (NewSession user now ttl token_bytes id_bytes) (\<lambda>(session, token).
           bindR (insert_session stored session db) (\<lambda>db1. Inr ((token, session), db1))))"

definition store_Authenticate :: "string \<Rightarrow> Time \<Rightarrow> AuthDB \<Rightarrow> (User \<times> Session) result" where
  "store_Authenticate token now db =
    (case List.find (\<lambda>s. s_TokenHash s = TokenHash token) (a_sessions db) of
       None \<Rightarrow> Inl (Sentinel ErrForbidden)
     | Some session \<Rightarrow>
         (case List.find (\<lambda>u. u_ID u = s_UserID session) (a_users db) of
            None \<Rightarrow> Inl (Sentinel ErrForbidden)
          | Some user \<Rightarrow> bindR (Authenticate session user token now) (\<lambda>_. Inr (user, session))))"

text \<open>\<^verbatim>\<open>revoked_at=COALESCE(revoked_at,$n)\<close>\<close>

definition revoke_row :: "Time \<Rightarrow> Session \<Rightarrow> Session" where
  "revoke_row t s = s\<lparr>s_RevokedAt := Some (case s_RevokedAt s of None \<Rightarrow> t | Some r \<Rightarrow> r)\<rparr>"

definition Logout :: "(Time \<Rightarrow> Time) \<Rightarrow> string \<Rightarrow> Time \<Rightarrow> AuthDB \<Rightarrow> AuthDB result" where
  "Logout stored token now db =
    (let hit = (\<lambda>s. s_TokenHash s = TokenHash token)
     in if filter hit (a_sessions db) = [] then Inl (errorf ErrNotFound ''session'')
        else Inr (db\<lparr>a_sessions := map (\<lambda>s. if hit s then revoke_row (stored now) s else s) (a_sessions db)\<rparr>))"

definition ActiveSessions :: "(Time \<Rightarrow> Time) \<Rightarrow> string \<Rightarrow> Time \<Rightarrow> AuthDB \<Rightarrow> Session list result" where
  "ActiveSessions stored userID now db =
    (if userID = [] \<or> now = 0 then Inl (Sentinel ErrInvalid)
     else Inr (sort_slice (lex2 s_CreatedAt s_ID)
       (filter (\<lambda>s. s_UserID s = userID \<and> s_RevokedAt s = None \<and> stored now < s_ExpiresAt s) (a_sessions db))))"

definition RevokeSessions :: "(Time \<Rightarrow> Time) \<Rightarrow> string \<Rightarrow> string list \<Rightarrow> Time \<Rightarrow> AuthDB \<Rightarrow> (int \<times> AuthDB) result" where
  "RevokeSessions stored userID sessionIDs now db =
    (if userID = [] \<or> sessionIDs = [] \<or> now = 0 then Inl (Sentinel ErrInvalid)
     else let hit = (\<lambda>s. s_UserID s = userID \<and> s_ID s \<in> set sessionIDs)
       in Inr (int (length (filter hit (a_sessions db))),
         db\<lparr>a_sessions := map (\<lambda>s. if hit s then revoke_row (stored now) s else s) (a_sessions db)\<rparr>))"

definition DeleteExpiredSessions :: "(Time \<Rightarrow> Time) \<Rightarrow> Time \<Rightarrow> int \<Rightarrow> AuthDB \<Rightarrow> (int \<times> AuthDB) result" where
  "DeleteExpiredSessions stored before limit0 db =
    (if before = 0 then Inl (Sentinel ErrInvalid)
     else
       let limit = (if limit0 \<le> 0 then 500 else limit0);
           dead = filter (\<lambda>s. s_ExpiresAt s < stored before \<or>
             (case s_RevokedAt s of None \<Rightarrow> False | Some r \<Rightarrow> r < stored before)) (a_sessions db);
           ids = map s_ID (take (nat limit) (sort_slice (lex2 s_ExpiresAt s_ID) dead))
       in Inr (int (length (filter (\<lambda>s. s_ID s \<in> set ids) (a_sessions db))),
         db\<lparr>a_sessions := filter (\<lambda>s. s_ID s \<notin> set ids) (a_sessions db)\<rparr>))"

text \<open>One round of the reaper; the loop around it is in \<open>Worker_Loops\<close>.\<close>

definition reaper_RunOnce :: "(Time \<Rightarrow> Time) \<Rightarrow> Duration \<Rightarrow> int \<Rightarrow> Time \<Rightarrow> AuthDB \<Rightarrow> (int \<times> AuthDB) result" where
  "reaper_RunOnce stored retention0 batch0 now db =
    (let retention = (if retention0 \<le> 0 then 30 * 24 * Hour else retention0);
         batch = (if batch0 \<le> 0 then 500 else batch0)
     in DeleteExpiredSessions stored (now - retention) batch db)"

section \<open>The tables stay well formed\<close>

inductive auth_step :: "(string \<Rightarrow> string \<Rightarrow> bool) \<Rightarrow> (Time \<Rightarrow> Time) \<Rightarrow> AuthDB \<Rightarrow> AuthDB \<Rightarrow> bool" for compare stored where
  bootstrap: "Bootstrap generate db = (r, db1) \<Longrightarrow> auth_step compare stored db db1"
| login: "Login compare stored token_bytes id_bytes email password now ttl db = Inr (out, db1) \<Longrightarrow> auth_step compare stored db db1"
| logout: "Logout stored token now db = Inr db1 \<Longrightarrow> auth_step compare stored db db1"
| revoke: "RevokeSessions stored userID ids now db = Inr (n, db1) \<Longrightarrow> auth_step compare stored db db1"
| reap: "reaper_RunOnce stored retention batch now db = Inr (n, db1) \<Longrightarrow> auth_step compare stored db db1"

text \<open>A session is typed by its user: it carries that user's identity, tenant and valid role, and a digest.\<close>

definition session_ok :: "AuthDB \<Rightarrow> Session \<Rightarrow> bool" where
  "session_ok db s \<longleftrightarrow> (\<exists>u\<in>set (a_users db). u_ID u = s_UserID s \<and> u_TenantID u = s_TenantID s \<and> u_Role u = s_Role s) \<and>
    validRole (s_Role s) \<and> length (s_TokenHash s) = 64 \<and> s_CreatedAt s \<le> s_ExpiresAt s"

definition auth_ok :: "AuthDB \<Rightarrow> bool" where
  "auth_ok db \<longleftrightarrow> distinct (map u_ID (a_users db)) \<and> distinct (map u_Email (a_users db)) \<and>
    distinct (map s_ID (a_sessions db)) \<and> distinct (map s_TokenHash (a_sessions db)) \<and> (\<forall>s\<in>set (a_sessions db). session_ok db s)"

lemma insert_users_ok: "auth_ok db \<Longrightarrow> insert_users us db = (r, db1) \<Longrightarrow> auth_ok db1 \<and> a_sessions db1 = a_sessions db \<and> set (a_users db) \<subseteq> set (a_users db1)"
proof (induction us arbitrary: db)
  case (Cons u us)
  show ?case
  proof (cases "insert_user u db")
    case (Inl e)
    with Cons.prems show ?thesis by simp
  next
    case (Inr db2)
    with Cons.prems(1) have "auth_ok db2 \<and> a_sessions db2 = a_sessions db \<and> set (a_users db) \<subseteq> set (a_users db2)"
      by (auto simp: insert_user_def auth_ok_def session_ok_def split: if_splits)
    with Cons.IH [of db2] Cons.prems(2) Inr show ?thesis by auto
  qed
qed simp

lemma revoke_row_simps [simp]:
  "s_ID (revoke_row t s) = s_ID s" "s_TokenHash (revoke_row t s) = s_TokenHash s" "s_UserID (revoke_row t s) = s_UserID s"
  "s_RevokedAt (revoke_row t s) \<noteq> None" "session_ok db (revoke_row t s) = session_ok db s"
  by (simp_all add: revoke_row_def session_ok_def)

lemma auth_ok_revoke:
  assumes "auth_ok db"
  shows "auth_ok (db\<lparr>a_sessions := map (\<lambda>s. if P s then revoke_row t s else s) (a_sessions db)\<rparr>)"
proof -
  let ?f = "\<lambda>s. if P s then revoke_row t s else s"
  have "map s_ID (map ?f (a_sessions db)) = map s_ID (a_sessions db)"
    and "map s_TokenHash (map ?f (a_sessions db)) = map s_TokenHash (a_sessions db)" by simp_all
  moreover have "session_ok (db\<lparr>a_sessions := ss\<rparr>) s = session_ok db s" for ss s by (simp add: session_ok_def)
  ultimately show ?thesis using assms by (auto simp: auth_ok_def simp del: map_map)
qed

lemma auth_ok_filter: "auth_ok db \<Longrightarrow> auth_ok (db\<lparr>a_sessions := filter P (a_sessions db)\<rparr>)"
  by (auto simp: auth_ok_def session_ok_def distinct_map_filter)

lemma Login_D:
  assumes "Login compare stored token_bytes id_bytes email password now ttl db = Inr ((token, s), db1)"
  obtains user where "user \<in> set (a_users db)" and "u_Email user = email" and "compare (u_PasswordHash user) password"
    and "\<not> u_Disabled user" and "NewSession user now ttl token_bytes id_bytes = Inr (s, token)" and "insert_session stored s db = Inr db1"
proof -
  from assms obtain user where find: "List.find (\<lambda>u. u_Email u = email) (a_users db) = Some user"
    by (auto simp: Login_def split: option.splits)
  then have "user \<in> set (a_users db)" "u_Email user = email" by (auto simp: find_Some_iff)
  with assms find that show thesis
    by (auto simp: Login_def VerifyPassword_def bindR_Inr_iff is_ok_iff split: if_splits)
qed

lemma NewSession_D:
  assumes "NewSession user now ttl token_bytes id_bytes = Inr (s, token)"
  shows "s_UserID s = u_ID user" "s_TenantID s = u_TenantID user" "s_Role s = u_Role user" "validRole (u_Role user)"
    "s_TokenHash s = TokenHash token" "s_CreatedAt s = now" "s_ExpiresAt s = now + ttl" "0 < ttl" "trim_space token = token" "s_RevokedAt s = None"
    "\<not> u_Disabled user"
  using assms by (auto simp: NewSession_def bindR_Inr_iff Let_def split: if_splits)

lemma auth_ok_login:
  assumes "Login compare stored token_bytes id_bytes email password now ttl db = Inr ((token, s), db1)" and "auth_ok db" and "mono stored"
  shows "auth_ok db1"
proof -
  from assms(1) obtain user where user: "user \<in> set (a_users db)" and new: "NewSession user now ttl token_bytes id_bytes = Inr (s, token)"
    and ins: "insert_session stored s db = Inr db1" by (rule Login_D)
  have "stored (s_CreatedAt s) \<le> stored (s_ExpiresAt s)"
    using NewSession_D [OF new] by (intro monoD [OF assms(3)]) simp
  with user NewSession_D [OF new] have row: "session_ok db (s\<lparr>s_CreatedAt := stored (s_CreatedAt s), s_ExpiresAt := stored (s_ExpiresAt s), s_RevokedAt := None\<rparr>)"
    by (auto simp: session_ok_def TokenHash_def)
  have "session_ok (db\<lparr>a_sessions := ss\<rparr>) r = session_ok db r" for ss r by (simp add: session_ok_def)
  with row ins assms(2) show ?thesis by (auto simp: insert_session_def auth_ok_def split: if_splits)
qed

lemma DeleteExpiredSessions_D:
  assumes "DeleteExpiredSessions stored before limit db = Inr (n, db1)"
  shows "\<exists>P. db1 = db\<lparr>a_sessions := filter P (a_sessions db)\<rparr> \<and> n = int (length (filter (\<lambda>s. \<not> P s) (a_sessions db))) \<and>
    (auth_ok db \<longrightarrow> (\<forall>s\<in>set (a_sessions db). \<not> P s \<longrightarrow> s_ExpiresAt s < stored before \<or> s_RevokedAt s \<noteq> None))"
proof -
  define dead where "dead = filter (\<lambda>s. s_ExpiresAt s < stored before \<or>
             (case s_RevokedAt s of None \<Rightarrow> False | Some r \<Rightarrow> r < stored before)) (a_sessions db)"
  define ids where "ids = map s_ID (take (nat (if limit \<le> 0 then 500 else limit)) (sort_slice (lex2 s_ExpiresAt s_ID) dead))"
  have D: "db1 = db\<lparr>a_sessions := filter (\<lambda>s. s_ID s \<notin> set ids) (a_sessions db)\<rparr>"
    "n = int (length (filter (\<lambda>s. s_ID s \<in> set ids) (a_sessions db)))"
    using assms by (simp_all add: DeleteExpiredSessions_def Let_def ids_def dead_def split: if_splits)
  have sub: "set ids \<subseteq> s_ID ` set dead"
    unfolding ids_def set_map by (intro image_mono order_trans [OF set_take_subset]) simp
  have "s_ExpiresAt s < stored before \<or> s_RevokedAt s \<noteq> None" if "auth_ok db" "s \<in> set (a_sessions db)" "s_ID s \<in> set ids" for s
  proof -
    obtain d where d: "d \<in> set dead" "s_ID d = s_ID s" using subsetD [OF sub \<open>s_ID s \<in> set ids\<close>] by force
    moreover have "distinct (map s_ID (a_sessions db))" using \<open>auth_ok db\<close> by (simp add: auth_ok_def)
    ultimately have "d = s" using distinct_key [of s_ID "a_sessions db" d s] that(2) by (simp add: dead_def)
    with d(1) show ?thesis by (auto simp: dead_def split: option.splits)
  qed
  with D show ?thesis by (intro exI [of _ "\<lambda>s. s_ID s \<notin> set ids"]) simp
qed

lemma auth_step_ok:
  assumes "auth_step compare stored db db1" and "auth_ok db" and "mono stored"
  shows "auth_ok db1"
  using assms(1)
proof cases
  case (bootstrap generate r)
  with insert_users_ok [OF assms(2)] assms(2) show ?thesis
    by (auto simp: Bootstrap_def simp del: insert_users.simps split: sum.splits)
next
  case (login token_bytes id_bytes email password now ttl out)
  then show ?thesis using auth_ok_login [OF _ assms(2,3)] by (cases out) auto
next
  case (logout token now)
  then show ?thesis using auth_ok_revoke [OF assms(2)] by (auto simp: Logout_def Let_def split: if_splits)
next
  case (revoke userID ids now n)
  then show ?thesis using auth_ok_revoke [OF assms(2)] by (auto simp: RevokeSessions_def Let_def split: if_splits)
next
  case (reap retention batch now n)
  then obtain P where "db1 = db\<lparr>a_sessions := filter P (a_sessions db)\<rparr>"
    by (metis DeleteExpiredSessions_D reaper_RunOnce_def)
  then show ?thesis using auth_ok_filter [OF assms(2)] by simp
qed

text \<open>
  C31: The tables of users and sessions stay well formed from the empty database on: users have unique identifiers and
  addresses, sessions unique identifiers and digests, and every session carries the identity, the tenant and the
  role of an existing user, a valid role, a digest of 64 characters, and does not end before it begins.
\<close>

theorem auth_tables_well_formed:
  assumes "mono stored" and "(auth_step compare stored)\<^sup>*\<^sup>* \<lparr>a_users = [], a_sessions = []\<rparr> db"
  shows "auth_ok db"
  using assms(2)
proof induction
  case base
  show ?case by (simp add: auth_ok_def)
next
  case (step db1 db2)
  with auth_step_ok assms(1) show ?case by blast
qed

definition example_db :: AuthDB where
  "example_db = snd (Bootstrap (\<lambda>password. Inr password) \<lparr>a_users = [], a_sessions = []\<rparr>)"

lemma example_bootstrap: "auth_step compare stored \<lparr>a_users = [], a_sessions = []\<rparr> example_db"
  unfolding example_db_def
  by (rule auth_step.bootstrap [where r = "fst (Bootstrap (\<lambda>password. Inr password) \<lparr>a_users = [], a_sessions = []\<rparr>)"]) simp

lemma example_users: "map u_ID (a_users example_db) = [''carrier-demo'', ''dispatcher-demo'', ''customs-demo'', ''lock-demo'', ''auditor-demo'']"
  by (simp add: example_db_def Bootstrap_def HashPassword_def insert_user_def demo_user_def)

lemma auth_tables_well_formed_witness: "auth_ok example_db \<and> length (a_users example_db) = 5"
proof
  have "mono (\<lambda>t::Time. t)" by (simp add: mono_def)
  then show "auth_ok example_db"
    by (rule auth_tables_well_formed [where compare = "\<lambda>_ _. True"]) (blast intro: r_into_rtranclp example_bootstrap)
  show "length (a_users example_db) = 5" using arg_cong [OF example_users, of length] by simp
qed

section \<open>A login and what follows it\<close>

lemma find_key:
  assumes "distinct (map f xs)" and "x \<in> set xs"
  shows "List.find (\<lambda>y. f y = f x) xs = Some x"
  using assms by (induction xs) (auto simp: rev_image_eqI)

lemma find_key_iff:
  "distinct (map f xs) \<Longrightarrow> List.find (\<lambda>y. f y = k) xs = Some x \<longleftrightarrow> x \<in> set xs \<and> f x = k"
  using find_key [of f xs x] by (auto simp: find_Some_iff)

lemma store_Authenticate_row:
  assumes "auth_ok db" and "s \<in> set (a_sessions db)" and "s_TokenHash s = TokenHash token" and "u \<in> set (a_users db)" and "u_ID u = s_UserID s"
  shows "store_Authenticate token now db = bindR (Authenticate s u token now) (\<lambda>_. Inr (u, s))"
proof -
  have d: "distinct (map u_ID (a_users db))" "distinct (map s_TokenHash (a_sessions db))" using assms by (simp_all add: auth_ok_def)
  have "List.find (\<lambda>s. s_TokenHash s = TokenHash token) (a_sessions db) = Some s"
    unfolding find_key_iff [OF d(2)] using assms(2,3) ..
  moreover have "List.find (\<lambda>u. u_ID u = s_UserID s) (a_users db) = Some u"
    unfolding find_key_iff [OF d(1)] using assms(4,5) ..
  ultimately show ?thesis by (simp add: store_Authenticate_def)
qed

lemma store_Authenticate_iff:
  assumes "auth_ok db"
  shows "store_Authenticate token now db = Inr (u, s) \<longleftrightarrow>
    s \<in> set (a_sessions db) \<and> s_TokenHash s = TokenHash token \<and> u \<in> set (a_users db) \<and> u_ID u = s_UserID s \<and>
    Authenticate s u token now = Inr ()"
proof
  assume "store_Authenticate token now db = Inr (u, s)"
  then show "s \<in> set (a_sessions db) \<and> s_TokenHash s = TokenHash token \<and> u \<in> set (a_users db) \<and> u_ID u = s_UserID s \<and>
      Authenticate s u token now = Inr ()"
    by (auto simp: store_Authenticate_def bindR_Inr_iff find_Some_iff split: option.splits)
next
  assume "s \<in> set (a_sessions db) \<and> s_TokenHash s = TokenHash token \<and> u \<in> set (a_users db) \<and> u_ID u = s_UserID s \<and>
      Authenticate s u token now = Inr ()"
  with store_Authenticate_row [OF assms, of s token u now] show "store_Authenticate token now db = Inr (u, s)" by simp
qed

text \<open>
  C32: A login succeeds only for an enabled user with that address whose password compares, and opens one session: its
  token authenticates as that user until the stored expiry and is refused as expired from then on, every token
  that authenticated before still does, and after a logout with the token, which succeeds, the token is
  refused as forbidden for ever, while every other token authenticates as before.
\<close>

theorem login_session_logout:
  assumes "auth_ok db" and "mono stored"
    and "Login compare stored token_bytes id_bytes email password now ttl db = Inr ((token, s), db1)"
  shows "\<exists>user\<in>set (a_users db). u_Email user = email \<and> compare (u_PasswordHash user) password \<and> \<not> u_Disabled user \<and>
    (\<exists>row. \<forall>t. store_Authenticate token t db1 = (if t < stored (now + ttl) then Inr (user, row) else Inl (Sentinel ErrExpired))) \<and>
    (\<forall>other t x. store_Authenticate other t db = Inr x \<longrightarrow> store_Authenticate other t db1 = Inr x) \<and>
    (\<exists>db2. Logout stored token t0 db1 = Inr db2 \<and>
      (\<forall>t. store_Authenticate token t db2 = Inl (Sentinel ErrForbidden)) \<and>
      (\<forall>other t x. TokenHash other \<noteq> TokenHash token \<longrightarrow>
        (store_Authenticate other t db2 = Inr x \<longleftrightarrow> store_Authenticate other t db1 = Inr x)))"
proof -
  from assms(3) obtain user where user: "user \<in> set (a_users db)" "u_Email user = email" "compare (u_PasswordHash user) password" "\<not> u_Disabled user"
    and new: "NewSession user now ttl token_bytes id_bytes = Inr (s, token)" and ins: "insert_session stored s db = Inr db1" by (rule Login_D)
  note N = NewSession_D [OF new]
  define row where "row = s\<lparr>s_CreatedAt := stored now, s_ExpiresAt := stored (now + ttl), s_RevokedAt := None\<rparr>"
  have db1: "db1 = db\<lparr>a_sessions := a_sessions db @ [row]\<rparr>"
    using ins N by (auto simp: insert_session_def row_def split: if_splits)
  have ok1: "auth_ok db1" by (rule auth_ok_login [OF assms(3,1,2)])
  have auth: "Authenticate row user token t = (if t < stored (now + ttl) then Inr () else Inl (Sentinel ErrExpired))" for t
    using N by (simp add: Authenticate_def row_def)
  have "store_Authenticate token t db1 = (if t < stored (now + ttl) then Inr (user, row) else Inl (Sentinel ErrExpired))" for t
    using store_Authenticate_row [OF ok1, of row token user t] user N auth by (simp add: db1 row_def)
  moreover have "store_Authenticate other t db = Inr x \<Longrightarrow> store_Authenticate other t db1 = Inr x" for other t x
    by (cases x) (simp add: store_Authenticate_iff [OF ok1] store_Authenticate_iff [OF assms(1)], simp add: db1)
  moreover define db2 where "db2 = db1\<lparr>a_sessions := map (\<lambda>r. if s_TokenHash r = TokenHash token then revoke_row (stored t0) r else r) (a_sessions db1)\<rparr>"
  have ok2: "auth_ok db2" unfolding db2_def by (rule auth_ok_revoke [OF ok1])
  have "Logout stored token t0 db1 = Inr db2"
    using N by (simp add: Logout_def Let_def db2_def) (simp add: db1 row_def)
  moreover have "store_Authenticate token t db2 = Inl (Sentinel ErrForbidden)" for t
  proof -
    have "revoke_row (stored t0) row \<in> set (a_sessions db2)" using N by (simp add: db2_def db1) (simp add: row_def)
    with store_Authenticate_row [OF ok2 this, of token user t] user N show ?thesis
      by (simp add: Authenticate_def) (simp add: row_def db2_def db1)
  qed
  moreover have "store_Authenticate other t db2 = Inr x \<longleftrightarrow> store_Authenticate other t db1 = Inr x" if "TokenHash other \<noteq> TokenHash token" for other t x
    using that by (cases x) (auto simp add: store_Authenticate_iff [OF ok1] store_Authenticate_iff [OF ok2], auto simp: db2_def)
  ultimately show ?thesis using user by blast
qed

lemma example_db_ok: "auth_ok example_db"
proof (rule auth_step_ok [OF example_bootstrap])
  show "auth_ok \<lparr>a_users = [], a_sessions = []\<rparr>" by (simp add: auth_ok_def)
  show "mono (\<lambda>t::Time. t)" by (simp add: mono_def)
qed

lemma example_db_find:
  "List.find (\<lambda>u. u_Email u = ''customs@canalclear.test'') (a_users example_db) =
    Some (demo_user ''canalclear-demo-password'' ''customs-demo'' ''customs@canalclear.test'' RoleCustoms)"
  by (simp add: example_db_def Bootstrap_def HashPassword_def insert_user_def demo_user_def)

lemma insert_users_sessions: "a_sessions (snd (insert_users us db)) = a_sessions db"
  by (induction us arbitrary: db) (auto simp: insert_user_def split: sum.splits if_splits)

lemma Login_opens:
  assumes "List.find (\<lambda>u. u_Email u = email) (a_users db) = Some user" and "compare (u_PasswordHash user) password"
    and "u_ID user \<noteq> []" "u_TenantID user \<noteq> []" "\<not> u_Disabled user" "validRole (u_Role user)" "0 < ttl" and "a_sessions db = []"
  shows "\<exists>token s db1. Login compare stored (Inr bytes) (Inr idBytes) email password now ttl db = Inr ((token, s), db1)"
proof -
  have "u_ID user \<in> u_ID ` set (a_users db)" using assms(1) by (auto simp: find_Some_iff)
  with assms show ?thesis by (simp add: Login_def VerifyPassword_def NewSession_def insert_session_def Let_def)
qed

lemma example_login:
  "\<exists>token s db1. Login (\<lambda>h p. h = p) (\<lambda>t. t) (Inr ''0123456789abcdef0123456789abcdef'') (Inr ''0123456789abcdef'')
    ''customs@canalclear.test'' ''canalclear-demo-password'' 100 Hour example_db = Inr ((token, s), db1)"
proof -
  have "a_sessions example_db = []"
    by (simp add: example_db_def Bootstrap_def insert_users_sessions del: insert_users.simps split: sum.split)
  then show ?thesis by (intro Login_opens [OF example_db_find]) (simp_all add: demo_user_def validRole_def)
qed

lemma login_session_logout_witness:
  "\<exists>token s db1 row user. Login (\<lambda>h p. h = p) (\<lambda>t. t) (Inr ''0123456789abcdef0123456789abcdef'') (Inr ''0123456789abcdef'')
      ''customs@canalclear.test'' ''canalclear-demo-password'' 100 Hour example_db = Inr ((token, s), db1) \<and>
    store_Authenticate token 101 db1 = Inr (user, row)"
proof -
  obtain token s db1 where login: "Login (\<lambda>h p. h = p) (\<lambda>t. t) (Inr ''0123456789abcdef0123456789abcdef'') (Inr ''0123456789abcdef'')
      ''customs@canalclear.test'' ''canalclear-demo-password'' 100 Hour example_db = Inr ((token, s), db1)" using example_login by blast
  have "mono (\<lambda>t::Time. t)" by (simp add: mono_def)
  from login_session_logout [OF example_db_ok this login, of 200] obtain user row where
    "\<forall>t. store_Authenticate token t db1 = (if t < 100 + Hour then Inr (user, row) else Inl (Sentinel ErrExpired))" by blast
  then have "store_Authenticate token 101 db1 = Inr (user, row)" by simp
  with login show ?thesis by blast
qed

section \<open>The limit on sessions\<close>

lemma ActiveSessions_D:
  assumes "ActiveSessions stored uid now db = Inr active"
  shows "mset active = mset (filter (\<lambda>s. s_UserID s = uid \<and> s_RevokedAt s = None \<and> stored now < s_ExpiresAt s) (a_sessions db))"
    and "uid \<noteq> []" and "now \<noteq> 0"
  using assms by (auto simp: ActiveSessions_def split: if_splits)

text \<open>
  The policy on the tables: after a user's active sessions are read, those that the policy names among them are
  revoked and the rest read again, the rest are the ones not named, fewer than the maximum, so that one more
  may be opened; as many rows are changed as were named; and the sessions of other users are as before.
\<close>

theorem revoking_enforces_the_limit:
  assumes "auth_ok db" and "stored now = now"
    and "ActiveSessions stored uid now db = Inr active" and "SessionsToRevoke active policy now = Inr out"
    and "RevokeSessions stored uid (map s_ID out) now db = Inr (n, db1)"
  shows "n = int (length out) \<and>
    (\<exists>rest. ActiveSessions stored uid now db1 = Inr rest \<and> mset active = mset out + mset rest \<and>
      int (length rest) < p_MaximumActive policy) \<and>
    (\<forall>other. other \<noteq> uid \<longrightarrow> filter (\<lambda>s. s_UserID s = other) (a_sessions db1) = filter (\<lambda>s. s_UserID s = other) (a_sessions db))"
proof -
  let ?live = "\<lambda>s. s_UserID s = uid \<and> s_RevokedAt s = None \<and> now < s_ExpiresAt s"
  let ?hit = "\<lambda>s. s_UserID s = uid \<and> s_ID s \<in> set (map s_ID out)"
  let ?f = "\<lambda>s. if ?hit s then revoke_row now s else s"
  note A = ActiveSessions_D [OF assms(3), unfolded assms(2)]
  have ids: "distinct (map s_ID (a_sessions db))" using assms(1) by (simp add: auth_ok_def)
  from SessionsToRevoke_correct [OF assms(4)] obtain kept where
    kept: "mset (filter (session_active now) active) = mset out + mset kept" "int (length kept) < p_MaximumActive policy" by blast
  have "filter (session_active now) active = active"
    using mset_eq_setD [OF A(1)] by (auto simp: session_active_def filter_id_conv)
  with kept(1) have split: "mset active = mset out + mset kept" by simp
  have db1: "db1 = db\<lparr>a_sessions := map ?f (a_sessions db)\<rparr>" and n: "n = int (length (filter ?hit (a_sessions db)))"
    using assms(5) by (auto simp: RevokeSessions_def Let_def assms(2) split: if_splits)
  have outs: "set out \<subseteq> {s \<in> set (a_sessions db). ?live s}"
    using mset_eq_setD [OF A(1)] arg_cong [OF split, of set_mset] by auto
  have hit: "?hit s \<longleftrightarrow> s \<in> set out" if "s \<in> set (a_sessions db)" for s
    using distinct_key [OF ids that] outs by auto
  have "filter ?live (map ?f (a_sessions db)) = filter (\<lambda>s. ?live s \<and> s \<notin> set out) (a_sessions db)"
  proof -
    have "filter ?live (map ?f xs) = filter (\<lambda>s. ?live s \<and> s \<notin> set out) xs" if "set xs \<subseteq> set (a_sessions db)" for xs
      using that by (induction xs) (auto simp: hit simp del: set_map)
    then show ?thesis by simp
  qed
  moreover have "mset (filter (\<lambda>s. ?live s \<and> s \<notin> set out) (a_sessions db)) = mset kept"
  proof -
    have "distinct (filter ?live (a_sessions db))" using ids by (simp add: distinct_map)
    then have "distinct active" using mset_eq_imp_distinct_iff [OF A(1)] by simp
    then have "distinct out" "distinct kept" "set out \<inter> set kept = {}"
      using split mset_eq_imp_distinct_iff [of active "out @ kept"] by auto
    then have "filter_mset (\<lambda>s. s \<notin> set out) (mset kept) = mset kept" and "filter_mset (\<lambda>s. s \<notin> set out) (mset out) = {#}"
      by (auto simp: filter_mset_eq_conv simp flip: set_mset_eq_empty_iff)
    then have "mset kept = filter_mset (\<lambda>s. s \<notin> set out) (mset active)" unfolding split by simp
    also have "\<dots> = mset (filter (\<lambda>s. ?live s \<and> s \<notin> set out) (a_sessions db))"
      unfolding A(1) mset_filter filter_filter_mset by (rule filter_mset_cong) auto
    finally show ?thesis by simp
  qed
  ultimately have "mset (filter ?live (a_sessions db1)) = mset kept" by (simp add: db1)
  then have "length (filter ?live (a_sessions db1)) = length kept" by (metis size_mset)
  then have "\<exists>rest. ActiveSessions stored uid now db1 = Inr rest \<and> mset active = mset out + mset rest \<and>
      int (length rest) < p_MaximumActive policy"
    using A(2,3) kept(2) split \<open>mset (filter ?live (a_sessions db1)) = mset kept\<close> by (simp add: ActiveSessions_def assms(2))
  moreover have "n = int (length out)"
  proof -
    have "distinct out" using A(1) split ids by (metis (no_types, lifting) distinct_append distinct_filter distinct_map mset_append mset_eq_imp_distinct_iff)
    moreover have "set (filter ?hit (a_sessions db)) = set out" using hit outs by auto
    moreover have "distinct (filter ?hit (a_sessions db))" using ids by (simp add: distinct_map)
    ultimately show ?thesis unfolding n by (metis distinct_card)
  qed
  moreover have "filter (\<lambda>s. s_UserID s = other) (map ?f xs) = filter (\<lambda>s. s_UserID s = other) xs" if "other \<noteq> uid" for other xs
    using that by (induction xs) auto
  ultimately show ?thesis unfolding db1 by simp
qed

definition example_sessions :: AuthDB where
  "example_sessions = \<lparr>a_users = [example_user],
    a_sessions = [(example_session ''a'' 3)\<lparr>s_TokenHash := replicate 64 CHR ''a''\<rparr>]\<rparr>"

lemma example_sessions_ok: "auth_ok example_sessions"
  by (simp add: example_sessions_def auth_ok_def session_ok_def example_session_def example_user_def validRole_def)

lemma revoking_enforces_the_limit_witness:
  "\<exists>n db1 rest. RevokeSessions (\<lambda>t. t) ''user-1'' [''a''] 10 example_sessions = Inr (n, db1) \<and>
    ActiveSessions (\<lambda>t. t) ''user-1'' 10 db1 = Inr rest \<and> length rest < 1 \<and> n = 1"
proof -
  let ?row = "(example_session ''a'' 3)\<lparr>s_TokenHash := replicate 64 CHR ''a''\<rparr>" and ?policy = "DefaultSessionPolicy\<lparr>p_MaximumActive := 1\<rparr>"
  have active: "ActiveSessions (\<lambda>t. t) ''user-1'' 10 example_sessions = Inr [?row]"
    by (simp add: ActiveSessions_def example_sessions_def example_session_def)
  have out: "SessionsToRevoke [?row] ?policy 10 = Inr [?row]" by code_simp
  obtain n db1 where revoke: "RevokeSessions (\<lambda>t. t) ''user-1'' (map s_ID [?row]) 10 example_sessions = Inr (n, db1)"
    by (simp add: RevokeSessions_def Let_def)
  from revoking_enforces_the_limit [OF example_sessions_ok refl active out revoke] revoke
  show ?thesis by (auto simp: example_session_def)
qed

section \<open>The reaper cannot be noticed\<close>

text \<open>
  The reaper deletes only what is dead: after a round at an instant, every token authenticates at every instant from the
  instant before which the reaper deletes on exactly if it did before, with the same user and session, and the users are
  untouched.
\<close>

theorem reaper_is_not_noticed:
  assumes "auth_ok db" and "reaper_RunOnce stored retention batch now db = Inr (n, db1)" and "stored (now - (if retention \<le> 0 then 30 * 24 * Hour else retention)) \<le> t"
  shows "a_users db1 = a_users db \<and> set (a_sessions db1) \<subseteq> set (a_sessions db) \<and>
    int (length (a_sessions db)) = int (length (a_sessions db1)) + n \<and>
    (\<forall>token u s. store_Authenticate token t db1 = Inr (u, s) \<longleftrightarrow> store_Authenticate token t db = Inr (u, s))"
proof -
  let ?before = "now - (if retention \<le> 0 then 30 * 24 * Hour else retention)"
  from assms(2) have del: "DeleteExpiredSessions stored ?before (if batch \<le> 0 then 500 else batch) db = Inr (n, db1)"
    by (simp add: reaper_RunOnce_def Let_def)
  from DeleteExpiredSessions_D [OF del] assms(1) obtain P where db1: "db1 = db\<lparr>a_sessions := filter P (a_sessions db)\<rparr>"
    and n: "n = int (length (filter (\<lambda>s. \<not> P s) (a_sessions db)))"
    and dead: "\<forall>s\<in>set (a_sessions db). \<not> P s \<longrightarrow> s_ExpiresAt s < stored ?before \<or> s_RevokedAt s \<noteq> None" by blast
  have ok1: "auth_ok db1" unfolding db1 by (rule auth_ok_filter [OF assms(1)])
  have "Authenticate s u token t \<noteq> Inr ()" if "s \<in> set (a_sessions db)" "\<not> P s" for s u token
    using bspec [OF dead that(1)] that(2) assms(3) by (auto simp: Authenticate_def)
  then have "store_Authenticate token t db1 = Inr (u, s) \<longleftrightarrow> store_Authenticate token t db = Inr (u, s)" for token u s
    unfolding store_Authenticate_iff [OF ok1] store_Authenticate_iff [OF assms(1)] by (auto simp: db1)
  moreover have "int (length (a_sessions db)) = int (length (a_sessions db1)) + n"
    using sum_length_filter_compl [of P "a_sessions db"] by (simp add: db1 n)
  ultimately show ?thesis by (auto simp: db1)
qed

lemma reaper_is_not_noticed_witness:
  "\<exists>n db1. reaper_RunOnce (\<lambda>t. t) 0 0 (60 * 24 * Hour) example_sessions = Inr (n, db1) \<and> int (length (a_sessions db1)) + n = 1"
proof -
  have "60 * 24 * Hour - (if (0::int) \<le> 0 then 30 * 24 * Hour else 0) \<noteq> 0" by simp
  then obtain n db1 where run: "reaper_RunOnce (\<lambda>t. t) 0 0 (60 * 24 * Hour) example_sessions = Inr (n, db1)"
    by (simp add: reaper_RunOnce_def DeleteExpiredSessions_def Let_def)
  from reaper_is_not_noticed [OF example_sessions_ok run order_refl] have "int (length (a_sessions example_sessions)) = int (length (a_sessions db1)) + n"
    by blast
  with run show ?thesis by (simp add: example_sessions_def)
qed

end
