(* ===== verification/Batch.thy ===== *)
theory Batch
  imports Service_Store
begin

text \<open>
  \<^verbatim>\<open>internal/service/batch.go\<close>: declaring many voyages by a pool of workers. As in
  Notification, the order in which the workers handle the commands is an argument, and so is the index at which
  the context was found done, if any; \<open>ctx_err i\<close> is what the declaration of command \<open>i\<close> found of the
  context. A worker declares a voyage in one step of the model. The theorem says, for every order, what is in the slots of the result and what was committed.
\<close>

record BatchDeclarationResult =
  br_Index :: nat
  br_VoyageID :: string
  br_Voyage :: "Voyage option"
  br_Error :: "error option"

fun check_commands :: "DeclareVoyageCommand list \<Rightarrow> string list \<Rightarrow> unit result" where
  "check_commands [] seen = Inr ()"
| "check_commands (c # cs) seen =
    (if dc_ID c = [] then Inl (errorf ErrInvalid ''voyage id'')
     else if dc_ID c \<in> set seen then Inl (errorf ErrConflict (''duplicate voyage '' @ dc_ID c))
     else check_commands cs (dc_ID c # seen))"

text \<open>The number of workers, which does not matter for what they do in some order.\<close>

definition batch_workers :: "int \<Rightarrow> int" where
  "batch_workers concurrency =
    (let c = (if concurrency \<le> 0 then 4 else concurrency) in if 16 < c then 16 else c)"

definition batch_one :: "'w Coordinator \<Rightarrow> error option \<Rightarrow> User \<Rightarrow> DeclareVoyageCommand list \<Rightarrow> nat \<Rightarrow> 'w \<Rightarrow> BatchDeclarationResult \<times> 'w" where
  "batch_one co ctx_err actor commands i w =
    (let command = commands ! i;
         result = \<lparr>br_Index = i, br_VoyageID = dc_ID command, br_Voyage = None, br_Error = None\<rparr>
     in case coordinator_Declare co ctx_err actor command w of
          (Inl e, w1) \<Rightarrow> (result\<lparr>br_Error := Some e\<rparr>, w1)
        | (Inr v, w1) \<Rightarrow> (result\<lparr>br_Voyage := Some v\<rparr>, w1))"

fun batch_loop :: "'w Coordinator \<Rightarrow> (nat \<Rightarrow> error option) \<Rightarrow> User \<Rightarrow> DeclareVoyageCommand list \<Rightarrow> nat list \<Rightarrow>
    BatchDeclarationResult list \<Rightarrow> 'w \<Rightarrow> BatchDeclarationResult list \<times> 'w" where
  "batch_loop co ctx_err actor commands [] results w = (results, w)"
| "batch_loop co ctx_err actor commands (i # order) results w =
    (let (result, w1) = batch_one co (ctx_err i) actor commands i w
     in batch_loop co ctx_err actor commands order (results[i := result]) w1)"

definition zero_batch_result :: BatchDeclarationResult where
  "zero_batch_result = \<lparr>br_Index = 0, br_VoyageID = [], br_Voyage = None, br_Error = None\<rparr>"

definition DeclareBatch ::
    "'w Coordinator \<Rightarrow> (nat \<Rightarrow> error option) \<Rightarrow> User \<Rightarrow> DeclareVoyageCommand list \<Rightarrow> (nat \<times> error) option \<Rightarrow> nat list \<Rightarrow> 'w \<Rightarrow>
     (BatchDeclarationResult list \<times> error option) \<times> 'w" where
  "DeclareBatch co ctx_err actor commands cancelled order w =
    (case bindR (coordinator_validate co) (\<lambda>_.
          bindR (Authorize actor (u_TenantID actor) PermissionVoyageDeclare) (\<lambda>_.
          bindR (refuse_if (commands = [] \<or> 100 < length commands) (errorf ErrInvalid ''declaration batch size'')) (\<lambda>_.
          check_commands commands []))) of
       Inl e \<Rightarrow> (([], Some e), w)
     | Inr _ \<Rightarrow>
         (let (results, w1) = batch_loop co ctx_err actor commands order (replicate (length commands) zero_batch_result) w
          in case cancelled of
               None \<Rightarrow> ((results, None), w1)
             | Some (k, e) \<Rightarrow>
                 ((take k results @ map (\<lambda>i. \<lparr>br_Index = i, br_VoyageID = dc_ID (commands ! i), br_Voyage = None, br_Error = Some e\<rparr>)
                    [k..<length results], Some e), w1)))"

definition SuccessfulDeclarations :: "BatchDeclarationResult list \<Rightarrow> Voyage list" where
  "SuccessfulDeclarations results =
    concat (map (\<lambda>r. case (br_Error r, br_Voyage r) of (None, Some v) \<Rightarrow> [v] | _ \<Rightarrow> []) results)"

section \<open>Lemmas\<close>

lemma batch_workers_bounds: "1 \<le> batch_workers c \<and> batch_workers c \<le> 16"
  by (simp add: batch_workers_def Let_def)

lemma check_commands_ok:
  "check_commands cs seen = Inr () \<longleftrightarrow> (\<forall>c\<in>set cs. dc_ID c \<noteq> [] \<and> dc_ID c \<notin> set seen) \<and> distinct (map dc_ID cs)"
  by (induction cs arbitrary: seen) (auto, metis image_eqI)

lemma length_batch_loop [simp]: "length (fst (batch_loop co ctx_err actor cs order results w)) = length results"
  by (induction order arbitrary: results w) (auto simp: Let_def split: prod.splits)

lemma batch_loop_other: "i \<notin> set order \<Longrightarrow> fst (batch_loop co ctx_err actor cs order results w) ! i = results ! i"
  by (induction order arbitrary: results w) (auto simp: Let_def split: prod.splits)

lemma batch_loop_slot:
  "i \<in> set order \<Longrightarrow> distinct order \<Longrightarrow> i < length results \<Longrightarrow>
    \<exists>w1. fst (batch_loop co ctx_err actor cs order results w) ! i = fst (batch_one co (ctx_err i) actor cs i w1)"
proof (induction order arbitrary: results w)
  case (Cons j order)
  obtain r w1 where one: "batch_one co (ctx_err j) actor cs j w = (r, w1)" by fastforce
  show ?case
  proof (cases "i = j")
    case True
    with Cons.prems have "fst (batch_loop co ctx_err actor cs order (results[j := r]) w1) ! i = r" by (simp add: batch_loop_other)
    with True one show ?thesis by (intro exI [of _ w]) simp
  next
    case False
    with Cons one show ?thesis by simp
  qed
qed simp

lemma batch_one_facts:
  assumes "r = fst (batch_one co e actor cs i w)"
  shows "br_Index r = i" and "br_VoyageID r = dc_ID (cs ! i)" and "br_Voyage r = None \<longleftrightarrow> br_Error r \<noteq> None"
  using assms by (auto simp: batch_one_def Let_def split: prod.splits sum.splits)

text \<open>A declaration that succeeds without a key has put its voyage into the database.\<close>

lemma batch_loop_reach:
  assumes "wired co" and "reach (w_stored w) (\<lambda>_. True) (w_db w)"
  shows "reach (w_stored (snd (batch_loop co ctx_err actor cs order results w))) (\<lambda>_. True) (w_db (snd (batch_loop co ctx_err actor cs order results w)))"
  using assms(2)
proof (induction order arbitrary: results w)
  case (Cons i order)
  obtain r w1 where one: "batch_one co (ctx_err i) actor cs i w = (r, w1)" by fastforce
  then have "w1 = snd (run_call co (ctx_err i) actor (CallDeclare (cs ! i)) w)"
    by (auto simp: batch_one_def Let_def split: prod.splits sum.splits)
  then have "commits actor w w1" using run_call_commits [OF assms(1), of actor w "ctx_err i" "CallDeclare (cs ! i)"] by simp
  then have "reach (w_stored w1) (\<lambda>_. True) (w_db w1)" using Cons.prems unfolding commits_def by (metis reach_step)
  with Cons.IH one show ?case by simp
qed simp

definition cancelled_result :: "DeclareVoyageCommand list \<Rightarrow> nat \<Rightarrow> error \<Rightarrow> BatchDeclarationResult" where
  "cancelled_result commands i e = \<lparr>br_Index = i, br_VoyageID = dc_ID (commands ! i), br_Voyage = None, br_Error = Some e\<rparr>"

lemma DeclareBatch_D:
  assumes "coordinator_validate co = Inr ()" and "Authorize actor (u_TenantID actor) PermissionVoyageDeclare = Inr ()"
    and "commands \<noteq> []" and "length commands \<le> 100" and "check_commands commands [] = Inr ()"
    and "k \<le> length commands" and "cancelled = None \<longrightarrow> k = length commands" and "\<forall>j e. cancelled = Some (j, e) \<longrightarrow> j = k"
    and "DeclareBatch co ctx_err actor commands cancelled order w = ((results, err), w1)"
    and run: "batch_loop co ctx_err actor commands order (replicate (length commands) zero_batch_result) w = (handled, w2)"
  shows "w1 = w2" and "err = map_option snd cancelled" and "length results = length commands"
    and "i < k \<Longrightarrow> results ! i = handled ! i"
    and "k \<le> i \<Longrightarrow> i < length commands \<Longrightarrow> \<exists>e. cancelled = Some (k, e) \<and> results ! i = cancelled_result commands i e"
proof -
  have len: "length handled = length commands"
    using length_batch_loop [of co ctx_err actor commands order "replicate (length commands) zero_batch_result" w] run by simp
  have results: "results = (case cancelled of None \<Rightarrow> handled | Some (j, e) \<Rightarrow> take k handled @ map (\<lambda>i. cancelled_result commands i e) [k..<length commands])"
    and "w1 = w2" "err = map_option snd cancelled"
    using assms(1-5,8,9) run len by (auto simp: DeclareBatch_def cancelled_result_def Let_def split: option.splits)
  then show "w1 = w2" "err = map_option snd cancelled" by simp_all
  show "length results = length commands" and "i < k \<Longrightarrow> results ! i = handled ! i"
    using assms(6) len by (auto simp: results nth_append split: option.splits)
  show "\<exists>e. cancelled = Some (k, e) \<and> results ! i = cancelled_result commands i e" if "k \<le> i" "i < length commands"
    using that assms(6-8) len by (cases cancelled) (auto simp: results nth_append)
qed

text \<open>
  C24: A batch of declarations accounts for every command. In whatever order the workers take the commands,
  the result has one slot per command, in the order of the commands and with its index and voyage; every slot
  has either a voyage or an error; a command that was handed out has in its slot what one declaration of it
  returned, and the others, when the context was done, the error of the context; and the database is one that
  transactions of the store can reach.
\<close>

theorem DeclareBatch_accounts:
  assumes "coordinator_validate co = Inr ()" and "Authorize actor (u_TenantID actor) PermissionVoyageDeclare = Inr ()"
    and "commands \<noteq> []" and "length commands \<le> 100" and "check_commands commands [] = Inr ()"
    and "mset order = mset [0..<k]" and "k \<le> length commands"
    and "cancelled = None \<longrightarrow> k = length commands" and "\<And>j e. cancelled = Some (j, e) \<Longrightarrow> j = k"
    and "DeclareBatch co ctx_err actor commands cancelled order w = ((results, err), w1)"
  shows "length results = length commands \<and> err = map_option snd cancelled \<and>
    (\<forall>i<length commands. br_Index (results ! i) = i \<and> br_VoyageID (results ! i) = dc_ID (commands ! i) \<and>
      (br_Voyage (results ! i) = None \<longleftrightarrow> br_Error (results ! i) \<noteq> None)) \<and>
    (\<forall>i<k. \<exists>u. results ! i = fst (batch_one co (ctx_err i) actor commands i u)) \<and>
    (\<forall>i. k \<le> i \<and> i < length commands \<longrightarrow> br_Error (results ! i) = map_option snd cancelled) \<and>
    (wired co \<and> reach (w_stored w) (\<lambda>_. True) (w_db w) \<longrightarrow> reach (w_stored w1) (\<lambda>_. True) (w_db w1))"
proof -
  obtain handled w2 where run: "batch_loop co ctx_err actor commands order (replicate (length commands) zero_batch_result) w = (handled, w2)"
    by fastforce
  have "\<forall>j e. cancelled = Some (j, e) \<longrightarrow> j = k" using assms(9) by blast
  note D = DeclareBatch_D [OF assms(1-5,7,8) this assms(10) run]
  have order: "distinct order" "set order = {..<k}"
    using mset_eq_imp_distinct_iff [OF assms(6)] mset_eq_setD [OF assms(6)] by (simp_all add: atLeast0LessThan)
  have slot: "\<exists>u. results ! i = fst (batch_one co (ctx_err i) actor commands i u)" if "i < k" for i
    using batch_loop_slot [of i order "replicate (length commands) zero_batch_result" co ctx_err actor commands w] order that assms(7)
      D(4) [OF that] by (auto simp: run)
  have each: "br_Index (results ! i) = i \<and> br_VoyageID (results ! i) = dc_ID (commands ! i) \<and>
      (br_Voyage (results ! i) = None \<longleftrightarrow> br_Error (results ! i) \<noteq> None)" if "i < length commands" for i
  proof (cases "i < k")
    case True
    from slot [OF this] obtain u where "results ! i = fst (batch_one co (ctx_err i) actor commands i u)" ..
    from batch_one_facts [OF this] show ?thesis by simp
  next
    case False
    with D(5) [of i] that show ?thesis by (auto simp: cancelled_result_def)
  qed
  have late: "br_Error (results ! i) = map_option snd cancelled" if "k \<le> i \<and> i < length commands" for i
    using D(5) [of i] that by (auto simp: cancelled_result_def)
  have reached: "wired co \<and> reach (w_stored w) (\<lambda>_. True) (w_db w) \<longrightarrow> reach (w_stored w1) (\<lambda>_. True) (w_db w1)"
    using batch_loop_reach [of co w ctx_err actor commands order "replicate (length commands) zero_batch_result"] by (simp add: D(1) run)
  show ?thesis using D(2,3) each slot late reached by blast
qed

theorem DeclareBatch_accounts_witness:
  "\<exists>results err w1. DeclareBatch example_coordinator (\<lambda>_. None) example_user
      [example_command, example_command\<lparr>dc_ID := ''voyage-2'', dc_IdempotencyKey := ''key-00002''\<rparr>] None [1, 0] example_world = ((results, err), w1) \<and>
    length results = 2 \<and> err = None \<and> reach (w_stored w1) (\<lambda>_. True) (w_db w1)"
proof -
  define cs where "cs = [example_command, example_command\<lparr>dc_ID := ''voyage-2'', dc_IdempotencyKey := ''key-00002''\<rparr>]"
  obtain results err w1 where run: "DeclareBatch example_coordinator (\<lambda>_. None) example_user cs None [1, 0] example_world = ((results, err), w1)"
    by (metis prod.exhaust)
  have checks: "coordinator_validate example_coordinator = Inr ()" "Authorize example_user (u_TenantID example_user) PermissionVoyageDeclare = Inr ()"
    by (simp add: coordinator_validate_def example_coordinator_def, code_simp)
  have cmds: "check_commands cs [] = Inr ()" by (simp add: cs_def example_command_def)
  have "[0..<2] = [0, 1 :: nat]" by (simp add: upt_rec)
  then have order: "mset [1, 0] = mset [0..<2 :: nat]" by (simp only: mset.simps add_mset_commute)
  have len: "cs \<noteq> []" "length cs \<le> 100" "2 \<le> length cs" "(None :: (nat \<times> error) option) = None \<longrightarrow> 2 = length cs" by (simp_all add: cs_def)
  have start: "reach (w_stored example_world) (\<lambda>_. True) (w_db example_world)" by (simp add: example_world_def reach_empty)
  note all = DeclareBatch_accounts [OF checks len(1,2) cmds order len(3,4) _ run, simplified option.simps]
  have "length results = length cs" "err = map_option snd None" "reach (w_stored w1) (\<lambda>_. True) (w_db w1)"
    using all example_wired start by blast+
  with run show ?thesis unfolding cs_def by auto
qed

end
