(* ===== verification/Identifier.thy ===== *)
theory Identifier
  imports Prelude
begin

text \<open>
  \<^verbatim>\<open>internal/domain/identifier.go\<close>: the normal forms of identifiers and the check digit of
  container numbers. The regular expressions are anchored at both ends; each is a predicate on the text. The
  theorems: what is accepted is in normal form and normalising it again changes nothing, and a
  container number with one wrong digit is refused, unless its check digit is 0, which stands for the
  remainders 0 and 10.
\<close>

section \<open>Patterns\<close>

text \<open>
  The pattern of resource identifiers, read from left to right: \<open>seen\<close> says whether the segment between two
  hyphens has a character already.
\<close>

fun resource_rest :: "bool \<Rightarrow> string \<Rightarrow> bool" where
  "resource_rest seen [] = seen"
| "resource_rest seen (c # s) =
    (if c = CHR ''-'' then seen \<and> resource_rest False s
     else (is_lower c \<or> is_digit c) \<and> resource_rest True s)"

definition resourceIDPattern :: "string \<Rightarrow> bool" where
  "resourceIDPattern s = (case s of [] \<Rightarrow> False | c # r \<Rightarrow> is_lower c \<and> resource_rest True r)"

definition portCodePattern :: "string \<Rightarrow> bool" where
  "portCodePattern s \<longleftrightarrow> length s = 5 \<and> list_all is_upper s"

definition imoPattern :: "string \<Rightarrow> bool" where
  "imoPattern s \<longleftrightarrow> length s = 10 \<and> take 3 s = ''IMO'' \<and> list_all is_digit (drop 3 s)"

definition containerPattern :: "string \<Rightarrow> bool" where
  "containerPattern s \<longleftrightarrow> length s = 11 \<and> list_all is_upper (take 3 s) \<and> s ! 3 = CHR ''U'' \<and> list_all is_digit (drop 4 s)"

section \<open>Normal forms\<close>

definition NormalizeResourceID :: "string \<Rightarrow> string result" where
  "NormalizeResourceID s =
    (let v = to_lower (trim_space s)
     in if length v < 3 \<or> 64 < length v \<or> \<not> resourceIDPattern v then Inl (errorf ErrInvalid ''resource id'') else Inr v)"

definition NormalizePortCode :: "string \<Rightarrow> string result" where
  "NormalizePortCode s =
    (let v = to_upper (trim_space s) in if \<not> portCodePattern v then Inl (errorf ErrInvalid ''UN/LOCODE'') else Inr v)"

definition NormalizeIMO :: "string \<Rightarrow> string result" where
  "NormalizeIMO s =
    (let v = to_upper (trim_space s) in if \<not> imoPattern v then Inl (errorf ErrInvalid ''vessel IMO'') else Inr v)"

text \<open>The value of a letter, computed on bytes: 10 for A, leaving out the multiples of 11.\<close>

definition letterValue :: "char \<Rightarrow> int" where
  "letterValue c = (let v = (of_char c - 65) mod 256 + 10 in v + (v - 1) div 10)"

definition symbol_value :: "char \<Rightarrow> int" where
  "symbol_value c = (if is_digit c then of_char c - 48 else letterValue c)"

definition check_total :: "string \<Rightarrow> int" where
  "check_total s = sum_list (map (\<lambda>i. symbol_value (s ! i) * 2 ^ i) [0..<10])"

definition validContainerCheckDigit :: "string \<Rightarrow> bool" where
  "validContainerCheckDigit s =
    (if length s \<noteq> 11 then False
     else
       let check = check_total s mod 11; check = (if check = 10 then 0 else check)
       in check = (of_char (s ! 10) - 48) mod 256)"

definition NormalizeContainerNumber :: "string \<Rightarrow> string result" where
  "NormalizeContainerNumber s =
    (let v = to_upper (filter (\<lambda>c. c \<noteq> CHR '' '') (trim_space s))
     in if \<not> containerPattern v \<or> \<not> validContainerCheckDigit v then Inl (errorf ErrInvalid ''container number'') else Inr v)"

section \<open>Lemmas\<close>

lemma char_classes:
  "is_lower c \<Longrightarrow> \<not> is_upper c \<and> \<not> is_space c" "is_upper c \<Longrightarrow> \<not> is_lower c \<and> \<not> is_space c"
  "is_digit c \<Longrightarrow> \<not> is_lower c \<and> \<not> is_upper c \<and> \<not> is_space c"
proof -
  have "list_all (\<lambda>d. \<not> is_lower d \<and> \<not> is_upper d \<and> \<not> is_digit d) [CHR 0x09, CHR 0x0A, CHR 0x0B, CHR 0x0C, CHR 0x0D, CHR 0x20]"
    by code_simp
  then have space: "is_space c \<Longrightarrow> \<not> is_lower c \<and> \<not> is_upper c \<and> \<not> is_digit c" by (auto simp: is_space_def)
  have "\<not> CHR ''a'' \<le> CHR ''Z''" "\<not> CHR ''A'' \<le> CHR ''9''" "\<not> CHR ''a'' \<le> CHR ''9''" by code_simp+
  then have apart: "\<not> (is_lower c \<and> is_upper c)" "\<not> (is_digit c \<and> is_upper c)" "\<not> (is_digit c \<and> is_lower c)"
    unfolding is_lower_def is_upper_def is_digit_def by (meson order_trans)+
  show "is_lower c \<Longrightarrow> \<not> is_upper c \<and> \<not> is_space c" "is_upper c \<Longrightarrow> \<not> is_lower c \<and> \<not> is_space c"
    "is_digit c \<Longrightarrow> \<not> is_lower c \<and> \<not> is_upper c \<and> \<not> is_space c"
    using space apart by blast+
qed

lemma to_upper_id: "\<forall>c\<in>set s. \<not> is_lower c \<Longrightarrow> to_upper s = s" and to_lower_id: "\<forall>c\<in>set s. \<not> is_upper c \<Longrightarrow> to_lower s = s"
  by (simp_all add: to_upper_def to_lower_def upper_char_def lower_char_def map_idI)

lemma resource_rest_chars: "resource_rest b s \<Longrightarrow> c \<in> set s \<Longrightarrow> c = CHR ''-'' \<or> is_lower c \<or> is_digit c"
  by (induction s arbitrary: b) (auto split: if_splits)

lemma resource_pattern_chars: "resourceIDPattern s \<Longrightarrow> c \<in> set s \<Longrightarrow> \<not> is_upper c \<and> \<not> is_space c"
proof -
  assume pattern: "resourceIDPattern s" and c: "c \<in> set s"
  have "\<not> is_upper CHR ''-''" "\<not> is_space CHR ''-''" by code_simp+
  moreover have "c = CHR ''-'' \<or> is_lower c \<or> is_digit c"
    using pattern c resource_rest_chars by (cases s) (auto simp: resourceIDPattern_def)
  ultimately show ?thesis using char_classes by blast
qed

lemma upper_pattern_chars:
  "portCodePattern s \<Longrightarrow> c \<in> set s \<Longrightarrow> \<not> is_lower c \<and> \<not> is_space c"
  "imoPattern s \<Longrightarrow> c \<in> set s \<Longrightarrow> \<not> is_lower c \<and> \<not> is_space c"
  "containerPattern s \<Longrightarrow> c \<in> set s \<Longrightarrow> \<not> is_lower c \<and> \<not> is_space c"
proof -
  show "portCodePattern s \<Longrightarrow> c \<in> set s \<Longrightarrow> \<not> is_lower c \<and> \<not> is_space c"
    using char_classes by (auto simp: portCodePattern_def list_all_iff)
  have split: "c \<in> set (take n s) \<or> c \<in> set (drop n s)" if "c \<in> set s" for n
    using that by (metis Un_iff append_take_drop_id set_append)
  have "list_all (\<lambda>c. \<not> is_lower c \<and> \<not> is_space c) ''IMOU''" by code_simp
  then have letters: "\<not> is_lower c \<and> \<not> is_space c" if "c \<in> set ''IMOU''" for c using that by (auto simp: list_all_iff)
  show "\<not> is_lower c \<and> \<not> is_space c" if "imoPattern s" "c \<in> set s"
    using that(1) split [OF that(2), of 3] char_classes letters [of c] by (auto simp: imoPattern_def list_all_iff)
  show "\<not> is_lower c \<and> \<not> is_space c" if "containerPattern s" "c \<in> set s"
  proof -
    have "take 4 s = take 3 s @ [s ! 3]" using that(1) by (simp add: containerPattern_def take_Suc_conv_app_nth [of 3 s, simplified])
    then have "c \<in> set (take 3 s) \<or> c = CHR ''U'' \<or> c \<in> set (drop 4 s)" using split [OF that(2), of 4] that(1) by (auto simp: containerPattern_def)
    then show ?thesis using that(1) char_classes letters [of c] by (auto simp: containerPattern_def list_all_iff)
  qed
qed

text \<open>A wrong digit changes the sum by a multiple of a power of two, which 11 does not divide.\<close>

lemma check_total_update:
  assumes "length s = 11" and "i < 10"
  shows "check_total (s[i := d]) = check_total s + (symbol_value d - symbol_value (s ! i)) * 2 ^ i"
proof -
  have split: "[0..<10] = [0..<i] @ [i] @ [Suc i..<10]"
    using assms(2) by (metis append_Cons append_Nil le_add_diff_inverse less_imp_le upt_add_eq_append upt_conv_Cons zero_le)
  have other: "map (\<lambda>j. symbol_value (s[i := d] ! j) * 2 ^ j) xs = map (\<lambda>j. symbol_value (s ! j) * 2 ^ j) xs"
    if "i \<notin> set xs" for xs
    using that by (intro map_cong refl) (metis nth_list_update_neq)
  show ?thesis
    unfolding check_total_def split using assms by (simp add: other) (simp add: algebra_simps)
qed

lemma digit_value:
  assumes "is_digit c" shows "0 \<le> symbol_value c" "symbol_value c \<le> 9" "(of_char c - 48) mod 256 = symbol_value c"
proof -
  have "(of_char c :: int) = int (of_char c)" by (simp only: of_nat_of_char)
  then have "48 \<le> (of_char c :: int)" "(of_char c :: int) \<le> 57"
    using assms by (auto simp: is_digit_def less_eq_char_def simp del: of_nat_of_char)
  with assms show "0 \<le> symbol_value c" "symbol_value c \<le> 9" "(of_char c - 48) mod 256 = symbol_value c"
    by (auto simp: symbol_value_def)
qed

lemma digit_value_inj: "is_digit c \<Longrightarrow> is_digit d \<Longrightarrow> symbol_value c = symbol_value d \<Longrightarrow> c = d"
  by (simp add: symbol_value_def)

lemma power_two_mod_11: "(11::int) dvd x * 2 ^ i \<Longrightarrow> 11 dvd x"
proof (induction i)
  case (Suc i)
  have "(11::int) dvd 2 * y \<Longrightarrow> 11 dvd y" for y by presburger
  moreover have "11 dvd 2 * (x * 2 ^ i)" using Suc.prems by (simp add: algebra_simps)
  ultimately show ?case using Suc.IH by blast
qed simp

lemma one_wrong_digit:
  assumes "length s = 11" and "i < 11" and digits: "is_digit (s ! i)" "is_digit d" "is_digit (s ! 10)" and "d \<noteq> s ! i"
    and ok: "validContainerCheckDigit s" "validContainerCheckDigit (s[i := d])"
  shows "i < 10 \<and> s ! 10 = CHR ''0''"
proof -
  define check where "check s = (let c = check_total s mod 11 in if c = 10 then 0 else c)" for s
  have valid: "validContainerCheckDigit x \<longleftrightarrow> check x = symbol_value (x ! 10)" if "length x = 11" "is_digit (x ! 10)" for x
    using that digit_value(3) [OF that(2)] by (simp add: validContainerCheckDigit_def check_def Let_def)
  show ?thesis
  proof (cases "i = 10")
    case True
    have "check_total (s[10 := d]) = check_total s" unfolding check_total_def by (intro arg_cong [where f = sum_list] map_cong) auto
    then have "check (s[10 := d]) = check s" by (simp add: check_def)
    then have "symbol_value d = symbol_value (s ! 10)"
      using ok digits True assms(1) valid [of s] valid [of "s[10 := d]"] by simp
    then show ?thesis using digits True \<open>d \<noteq> s ! i\<close> digit_value_inj by metis
  next
    case False
    with \<open>i < 11\<close> have i: "i < 10" by simp
    define x where "x = symbol_value d - symbol_value (s ! i)"
    have same: "check (s[i := d]) = check s"
      using ok digits assms(1) i valid [of s] valid [of "s[i := d]"] by simp
    have "x \<noteq> 0" "\<bar>x\<bar> < 11"
      using digit_value [OF digits(1)] digit_value [OF digits(2)] digit_value_inj [OF digits(2,1)] \<open>d \<noteq> s ! i\<close>
      by (auto simp: x_def)
    then have "\<not> 11 dvd x" using dvd_imp_le_int by fastforce
    then have "\<not> 11 dvd check_total (s[i := d]) - check_total s"
      using check_total_update [OF assms(1) i, of d] power_two_mod_11 [of x i] by (metis add_diff_cancel_left' x_def)
    then have "check_total (s[i := d]) mod 11 \<noteq> check_total s mod 11" by (simp add: mod_eq_dvd_iff)
    then have "check s = 0" using same by (auto simp: check_def Let_def split: if_splits)
    then have "symbol_value (s ! 10) = symbol_value CHR ''0''"
      using valid [of s] ok digits assms(1) by (simp add: symbol_value_def is_digit_def)
    moreover have "is_digit CHR ''0''" by code_simp
    ultimately show ?thesis using i digits digit_value_inj by blast
  qed
qed

lemma upper_normal:
  "portCodePattern s \<or> imoPattern s \<or> containerPattern s \<Longrightarrow> trim_space s = s \<and> to_upper s = s \<and> filter (\<lambda>c. c \<noteq> CHR '' '') s = s"
proof (intro conjI)
  assume "portCodePattern s \<or> imoPattern s \<or> containerPattern s"
  then have chars: "\<not> is_lower c \<and> \<not> is_space c" if "c \<in> set s" for c using upper_pattern_chars that by blast
  then show "trim_space s = s" "to_upper s = s" by (auto intro: trim_space_self to_upper_id)
  have "is_space CHR '' ''" by code_simp
  then show "filter (\<lambda>c. c \<noteq> CHR '' '') s = s" using chars by (auto simp: filter_id_conv)
qed

lemma containerPattern_update: "containerPattern v \<Longrightarrow> 4 \<le> i \<Longrightarrow> is_digit d \<Longrightarrow> containerPattern (v[i := d])"
  by (auto simp: containerPattern_def list_all_iff drop_update_swap dest!: set_update_subset_insert [THEN subsetD])

text \<open>
  C36: What a normaliser accepts is in normal form: it has the shape the pattern asks for, in the case the
  normaliser gives, and normalising it again gives it back. A container number with one digit changed is refused,
  unless its check digit is 0, which stands for two remainders.
\<close>

theorem normal_identifiers:
  "(NormalizeResourceID s = Inr v \<longrightarrow> resourceIDPattern v \<and> 3 \<le> length v \<and> length v \<le> 64 \<and> NormalizeResourceID v = Inr v) \<and>
   (NormalizePortCode s = Inr v \<longrightarrow> portCodePattern v \<and> NormalizePortCode v = Inr v) \<and>
   (NormalizeIMO s = Inr v \<longrightarrow> imoPattern v \<and> NormalizeIMO v = Inr v) \<and>
   (NormalizeContainerNumber s = Inr v \<longrightarrow> containerPattern v \<and> validContainerCheckDigit v \<and> NormalizeContainerNumber v = Inr v) \<and>
   (NormalizeContainerNumber s = Inr v \<and> v ! 10 \<noteq> CHR ''0'' \<and> 4 \<le> i \<and> i < 11 \<and> is_digit d \<and> d \<noteq> v ! i \<longrightarrow>
     NormalizeContainerNumber (v[i := d]) = Inl (errorf ErrInvalid ''container number''))"
proof (rule conj5I; rule impI)
  assume ok: "NormalizeResourceID s = Inr v"
  then have v: "resourceIDPattern v" "3 \<le> length v" "length v \<le> 64" by (auto simp: NormalizeResourceID_def Let_def split: if_splits)
  then have "trim_space v = v" "to_lower v = v" using resource_pattern_chars by (auto intro: trim_space_self to_lower_id)
  with v show "resourceIDPattern v \<and> 3 \<le> length v \<and> length v \<le> 64 \<and> NormalizeResourceID v = Inr v"
    by (simp add: NormalizeResourceID_def)
next
  assume "NormalizePortCode s = Inr v"
  then have "portCodePattern v" by (auto simp: NormalizePortCode_def Let_def split: if_splits)
  with upper_normal [of v] show "portCodePattern v \<and> NormalizePortCode v = Inr v" by (simp add: NormalizePortCode_def)
next
  assume "NormalizeIMO s = Inr v"
  then have "imoPattern v" by (auto simp: NormalizeIMO_def Let_def split: if_splits)
  with upper_normal [of v] show "imoPattern v \<and> NormalizeIMO v = Inr v" by (simp add: NormalizeIMO_def)
next
  assume "NormalizeContainerNumber s = Inr v"
  then have "containerPattern v" "validContainerCheckDigit v" by (auto simp: NormalizeContainerNumber_def Let_def split: if_splits)
  with upper_normal [of v] show "containerPattern v \<and> validContainerCheckDigit v \<and> NormalizeContainerNumber v = Inr v"
    by (simp add: NormalizeContainerNumber_def)
next
  assume change: "NormalizeContainerNumber s = Inr v \<and> v ! 10 \<noteq> CHR ''0'' \<and> 4 \<le> i \<and> i < 11 \<and> is_digit d \<and> d \<noteq> v ! i"
  then have v: "containerPattern v" "validContainerCheckDigit v" by (auto simp: NormalizeContainerNumber_def Let_def split: if_splits)
  then have digits: "is_digit (v ! j)" if "4 \<le> j" "j < 11" for j
    using that nth_mem [of "j - 4" "drop 4 v"] by (simp add: containerPattern_def list_all_iff)
  have "\<not> validContainerCheckDigit (v[i := d])"
    using one_wrong_digit [of v i d] change v digits [of i] digits [of 10] by (auto simp: containerPattern_def)
  with upper_normal [of "v[i := d]"] containerPattern_update [OF v(1)] change
  show "NormalizeContainerNumber (v[i := d]) = Inl (errorf ErrInvalid ''container number'')"
    by (simp add: NormalizeContainerNumber_def)
qed

text \<open>The example of ISO 6346: its number is accepted with a space in it, and refused with a wrong last digit.\<close>

theorem normal_identifiers_witness:
  "NormalizeResourceID ''Voyage-1'' = Inr ''voyage-1'' \<and> NormalizePortCode ''nlrtm'' = Inr ''NLRTM'' \<and>
   NormalizeIMO '' imo9074729'' = Inr ''IMO9074729'' \<and> NormalizeContainerNumber ''csqu305438 3'' = Inr ''CSQU3054383'' \<and>
   NormalizeContainerNumber ''CSQU3054384'' = Inl (errorf ErrInvalid ''container number'')"
proof -
  have ok: "NormalizeResourceID ''Voyage-1'' = Inr ''voyage-1''" "NormalizePortCode ''nlrtm'' = Inr ''NLRTM''"
    "NormalizeIMO '' imo9074729'' = Inr ''IMO9074729''" "NormalizeContainerNumber ''csqu305438 3'' = Inr ''CSQU3054383''"
    "is_digit CHR ''4''"
    by code_simp+
  moreover have "''CSQU3054383''[10 := CHR ''4''] = ''CSQU3054384''" by simp
  ultimately show ?thesis
    using normal_identifiers [of "''csqu305438 3''" "''CSQU3054383''" 10 "CHR ''4''"] by simp
qed

end
