(* ===== verification/Http_Middleware.thy ===== *)
theory Http_Middleware
  imports Http_Codec Session_Store
begin

text \<open>
  \<^verbatim>\<open>internal/httpapi/middleware.go\<close> and \<^verbatim>\<open>contract.go\<close>: the writer of a
  response with the semantics of \<^verbatim>\<open>net/http\<close> (the first \<^verbatim>\<open>WriteHeader\<close>
  counts and fixes the headers), the four middlewares, request identifiers and the answer to an error. A handler
  is a function of the context, the request, the writer and the world; it returns or panics. Readings of the
  clock, of random bytes and of the state of the database are functions of how many were taken before.
  Names of headers are in the canonical form that \<^verbatim>\<open>net/http\<close> gives them.
\<close>

section \<open>Requests, responses and the world\<close>

record Request =
  rq_Method :: string
  rq_Path :: string
  rq_Header :: "(string \<times> string) list"
  rq_RawQuery :: string
  rq_Body :: string

record Response =
  rp_Header :: "(string \<times> string) list"
  rp_Status :: int
  rp_Body :: string

text \<open>A status of 0 is a response whose header has not been written.\<close>

definition zero_response :: Response where
  "zero_response = \<lparr>rp_Header = [], rp_Status = 0, rp_Body = []\<rparr>"

datatype LogEntry =
  AccessLog (log_id: string) (log_method: string) (log_path: string) (log_status: int) (log_bytes: int)
| PanicLog (log_id: string) (log_method: string) (log_path: string) (log_panic: string)

record ServerWorld =
  sw_stored :: "Time \<Rightarrow> Time"
  sw_db :: DB
  sw_auth :: AuthDB
  sw_now :: "nat \<Rightarrow> Time"
  sw_random :: "nat \<Rightarrow> nat \<Rightarrow> string result"
  sw_ready :: "nat \<Rightarrow> unit result"
  sw_tick :: nat
  sw_log :: "LogEntry list"

definition reading :: "(ServerWorld \<Rightarrow> nat \<Rightarrow> 'a) \<Rightarrow> ServerWorld \<Rightarrow> 'a \<times> ServerWorld" where
  "reading f w = (f w (sw_tick w), w\<lparr>sw_tick := Suc (sw_tick w)\<rparr>)"

definition log_entry :: "LogEntry \<Rightarrow> ServerWorld \<Rightarrow> ServerWorld" where
  "log_entry e w = w\<lparr>sw_log := sw_log w @ [e]\<rparr>"

definition header_get :: "string \<Rightarrow> (string \<times> string) list \<Rightarrow> string" where
  "header_get k hs = (case map_of hs k of None \<Rightarrow> [] | Some v \<Rightarrow> v)"

definition header_set :: "string \<Rightarrow> string \<Rightarrow> (string \<times> string) list \<Rightarrow> (string \<times> string) list" where
  "header_set k v hs = (k, v) # filter (\<lambda>p. fst p \<noteq> k) hs"

section \<open>Writers\<close>

text \<open>The writer of the server, or \<^verbatim>\<open>responseCapture\<close> around it with its status and count.\<close>

datatype Writer = Direct Response | Captured int int Response

fun response_of :: "Writer \<Rightarrow> Response" where
  "response_of (Direct r) = r"
| "response_of (Captured status written r) = r"

fun map_response :: "(Response \<Rightarrow> Response) \<Rightarrow> Writer \<Rightarrow> Writer" where
  "map_response f (Direct r) = Direct (f r)"
| "map_response f (Captured status written r) = Captured status written (f r)"

definition set_header :: "string \<Rightarrow> string \<Rightarrow> Response \<Rightarrow> Response" where
  "set_header k v r = (if rp_Status r = 0 then r\<lparr>rp_Header := header_set k v (rp_Header r)\<rparr> else r)"

definition write_header :: "int \<Rightarrow> Response \<Rightarrow> Response" where
  "write_header status r = (if rp_Status r = 0 then r\<lparr>rp_Status := status\<rparr> else r)"

definition write_body :: "string \<Rightarrow> Response \<Rightarrow> Response" where
  "write_body body r = (let r1 = write_header 200 r in r1\<lparr>rp_Body := rp_Body r1 @ body\<rparr>)"

fun WriteHeader :: "int \<Rightarrow> Writer \<Rightarrow> Writer" where
  "WriteHeader status (Direct r) = Direct (write_header status r)"
| "WriteHeader status (Captured captured written r) =
    (if captured \<noteq> 0 then Captured captured written r else Captured status written (write_header status r))"

fun Write :: "string \<Rightarrow> Writer \<Rightarrow> Writer" where
  "Write body (Direct r) = Direct (write_body body r)"
| "Write body (Captured captured written r) =
    (case (if captured = 0 then WriteHeader 200 (Captured captured written r) else Captured captured written r) of
       Captured captured1 written1 r1 \<Rightarrow> Captured captured1 (written1 + int (length body)) (write_body body r1)
     | other \<Rightarrow> other)"

definition writeJSON :: "int \<Rightarrow> string option \<Rightarrow> Writer \<Rightarrow> Writer" where
  "writeJSON status body w =
    (let w1 = WriteHeader status (map_response (set_header ''Content-Type'' ''application/json'') w)
     in case body of None \<Rightarrow> w1 | Some t \<Rightarrow> Write (t @ [CHR 0x0A]) w1)"

section \<open>Handlers\<close>

record Context =
  cx_RequestID :: "string option"
  cx_identity :: "(User \<times> string) option"
  cx_Params :: "(string \<times> string) list"

definition zero_context :: Context where
  "zero_context = \<lparr>cx_RequestID = None, cx_identity = None, cx_Params = []\<rparr>"

datatype Flow = Returned | Panicked string

type_synonym handler = "Context \<Rightarrow> Request \<Rightarrow> Writer \<times> ServerWorld \<Rightarrow> Flow \<times> Writer \<times> ServerWorld"

definition RequestID :: "Context \<Rightarrow> string" where
  "RequestID cx = (case cx_RequestID cx of None \<Rightarrow> [] | Some r \<Rightarrow> r)"

section \<open>Errors\<close>

definition internalError :: error where
  "internalError = Plain ''internal server error''"

definition classifyError :: "error \<Rightarrow> int \<times> string \<times> string" where
  "classifyError e =
    (if is_sentinel e ErrInvalid then (400, ''invalid_request'', ''The request is invalid.'')
     else if is_sentinel e ErrForbidden then (403, ''forbidden'', ''You are not allowed to perform this operation.'')
     else if is_sentinel e ErrNotFound then (404, ''not_found'', ''The requested resource was not found.'')
     else if is_sentinel e ErrConflict then (409, ''conflict'', ''The operation conflicts with current state.'')
     else if is_sentinel e ErrState
     then (409, ''invalid_state'', ''The resource is not in a valid state for this operation.'')
     else if is_sentinel e ErrExpired then (401, ''session_expired'', ''The session has expired.'')
     else (500, ''internal_error'', ''The service could not complete the request.''))"

definition error_body :: "string \<Rightarrow> string \<Rightarrow> string \<Rightarrow> json" where
  "error_body code message requestID =
    JObj [(''error'', JObj [(''code'', JStr code), (''message'', JStr message), (''request_id'', JStr requestID)])]"

definition writeError :: "Context \<Rightarrow> error \<Rightarrow> Writer \<Rightarrow> Writer" where
  "writeError cx e w =
    (let (status, code, message) = classifyError e
     in writeJSON status (Some (json_encode (error_body code message (RequestID cx)))) w)"

section \<open>Request identifiers\<close>

definition id_char :: "char \<Rightarrow> bool" where
  "id_char c \<longleftrightarrow> is_lower c \<or> is_upper c \<or> is_digit c \<or> c = CHR ''-'' \<or> c = CHR ''_''"

definition normalizeRequestID :: "string \<Rightarrow> string" where
  "normalizeRequestID s =
    (let v = trim_space s in if length v < 8 \<or> 128 < length v \<or> \<not> list_all id_char v then [] else v)"

definition newRequestID :: "ServerWorld \<Rightarrow> string \<times> ServerWorld" where
  "newRequestID w =
    (case reading (\<lambda>w n. sw_random w n 16) w of
       (Inr buffer, w1) \<Rightarrow> (hex_encode buffer, w1)
     | (Inl _, w1) \<Rightarrow> (case reading sw_now w1 of (now, w2) \<Rightarrow> (take 32 (hex_encode (rfc3339_nano now)), w2)))"

section \<open>Middlewares\<close>

definition requestContext :: "handler \<Rightarrow> handler" where
  "requestContext next cx rq = (\<lambda>(wr, w).
    let given = normalizeRequestID (header_get ''X-Request-Id'' (rq_Header rq));
        (requestID, w1) = (if given = [] then newRequestID w else (given, w))
    in next (cx\<lparr>cx_RequestID := Some requestID\<rparr>) rq (map_response (set_header ''X-Request-Id'' requestID) wr, w1))"

definition recoverPanic :: "handler \<Rightarrow> handler" where
  "recoverPanic next cx rq s =
    (case next cx rq s of
       (Panicked p, wr, w) \<Rightarrow>
         (Returned, writeError cx internalError wr, log_entry (PanicLog (RequestID cx) (rq_Method rq) (rq_Path rq) p) w)
     | (Returned, wr, w) \<Rightarrow> (Returned, wr, w))"

text \<open>A panic passes through without an entry in the log.\<close>

definition accessLog :: "handler \<Rightarrow> handler" where
  "accessLog next cx rq = (\<lambda>(wr, w).
    case next cx rq (Captured 0 0 (response_of wr), w) of
      (Returned, Captured captured written r, w1) \<Rightarrow>
        (Returned, Direct r, log_entry (AccessLog (RequestID cx) (rq_Method rq) (rq_Path rq) (if captured = 0 then 200 else captured) written) w1)
    | (flow, wr1, w1) \<Rightarrow> (flow, Direct (response_of wr1), w1))"

definition securityHeaders :: "handler \<Rightarrow> handler" where
  "securityHeaders next cx rq = (\<lambda>(wr, w).
    next cx rq
      (map_response (set_header ''Content-Security-Policy'' (''default-src 'none'; frame-ancestors 'none'' @ [CHR 0x27]))
        (map_response (set_header ''Cache-Control'' ''no-store'')
          (map_response (set_header ''X-Content-Type-Options'' ''nosniff'') wr)), w))"

end
