(* ===== verification/Http_Api.thy ===== *)
theory Http_Api
  imports Http_Middleware Store_Pages
begin

text \<open>
  \<^verbatim>\<open>internal/httpapi/server.go\<close> and \<^verbatim>\<open>read_handlers.go\<close>: the handlers, the
  authentication in front of them, the table of routes and the chain of middlewares. The router
  (\<^verbatim>\<open>go-chi\<close>) is a parameter: what it matches, with the parameters of the path, and what it
  answers to a request that no route matches. A panic is the failed assertion on the identity in the context.
\<close>

section \<open>The server\<close>

record Server =
  srv_compare :: "string \<Rightarrow> string \<Rightarrow> bool"
  srv_format :: "rat \<Rightarrow> string"
  srv_sessionTTL :: Duration

record Mux =
  mux_Match :: "(string \<times> string) list \<Rightarrow> Request \<Rightarrow> (nat \<times> (string \<times> string) list) option"
  mux_Miss :: "Request \<Rightarrow> Writer \<Rightarrow> Writer"

definition URLParam :: "Context \<Rightarrow> string \<Rightarrow> string" where
  "URLParam cx k = header_get k (cx_Params cx)"

definition server_now :: "ServerWorld \<Rightarrow> Time \<times> ServerWorld" where
  "server_now w = reading sw_now w"

text \<open>A transaction on the tables of the workflow, and one on the tables of users and sessions.\<close>

definition run_db :: "((Time \<Rightarrow> Time) \<Rightarrow> 'a tx) \<Rightarrow> ServerWorld \<Rightarrow> 'a result \<times> ServerWorld" where
  "run_db f w =
    (case f (sw_stored w) (sw_db w) of
       Inl e \<Rightarrow> (Inl e, w)
     | Inr (x, db) \<Rightarrow> (Inr x, w\<lparr>sw_db := db\<rparr>))"

definition run_auth :: "((Time \<Rightarrow> Time) \<Rightarrow> AuthDB \<Rightarrow> ('a \<times> AuthDB) result) \<Rightarrow> ServerWorld \<Rightarrow> 'a result \<times> ServerWorld" where
  "run_auth f w =
    (case f (sw_stored w) (sw_auth w) of
       Inl e \<Rightarrow> (Inl e, w)
     | Inr (x, auth) \<Rightarrow> (Inr x, w\<lparr>sw_auth := auth\<rparr>))"

text \<open>What every handler does with its result.\<close>

definition answer :: "Context \<Rightarrow> int \<Rightarrow> ('a \<Rightarrow> string option) \<Rightarrow> 'a result \<Rightarrow> Writer \<Rightarrow> Writer" where
  "answer cx status body r wr =
    (case r of Inl e \<Rightarrow> writeError cx e wr | Inr x \<Rightarrow> writeJSON status (body x) wr)"

definition with_identity :: "(User \<Rightarrow> string \<Rightarrow> handler) \<Rightarrow> handler" where
  "with_identity f cx rq s =
    (case cx_identity cx of
       None \<Rightarrow> (Panicked ''interface conversion: interface {} is nil, not httpapi.identity'', s)
     | Some (user, token) \<Rightarrow> f user token cx rq s)"

definition with_body :: "(string \<Rightarrow> jvalue \<Rightarrow> 'b \<Rightarrow> 'b option) \<Rightarrow> 'b \<Rightarrow> ('b \<Rightarrow> handler) \<Rightarrow> handler" where
  "with_body decode_field zero f cx rq = (\<lambda>(wr, w).
    case decodeJSON decode_field zero (rq_Body rq) of
      Inl e \<Rightarrow> (Returned, writeError cx e wr, w)
    | Inr b \<Rightarrow> f b cx rq (wr, w))"

section \<open>Handlers\<close>

definition health :: handler where
  "health cx rq = (\<lambda>(wr, w). (Returned, writeJSON 200 (Some (json_encode (JObj [(''ok'', JBool True)]))) wr, w))"

definition ready :: handler where
  "ready cx rq = (\<lambda>(wr, w).
    case reading sw_ready w of
      (r, w1) \<Rightarrow> (Returned, answer cx 200 (\<lambda>_. Some (json_encode (JObj [(''ready'', JBool True)]))) r wr, w1))"

definition session_json :: "string \<times> Session \<Rightarrow> json option" where
  "session_json = (\<lambda>(token, session).
    map_option (\<lambda>t. JObj [(''expires_at'', t), (''role'', JStr (s_Role session)), (''token'', JStr token)])
      (json_time (s_ExpiresAt session)))"

text \<open>The random bytes that a new session may need are read before it is known whether there is one.\<close>

definition login :: "Server \<Rightarrow> handler" where
  "login srv = with_body login_field \<lparr>lb_Email = [], lb_Password = []\<rparr> (\<lambda>b cx rq (wr, w).
    let (now, w1) = server_now w;
        (token_bytes, w2) = reading (\<lambda>w n. sw_random w n 32) w1;
        (id_bytes, w3) = reading (\<lambda>w n. sw_random w n 16) w2;
        (r, w4) = run_auth (\<lambda>stored. Login (srv_compare srv) stored token_bytes id_bytes (lb_Email b) (lb_Password b) now
          (srv_sessionTTL srv)) w3
    in (Returned, answer cx 200 (\<lambda>x. map_option json_encode (session_json x)) r wr, w4))"

definition logout :: handler where
  "logout = with_identity (\<lambda>user token cx rq (wr, w).
    let (now, w1) = server_now w;
        (r, w2) = run_auth (\<lambda>stored auth. map_sum id (Pair ()) (Logout stored token now auth)) w1
    in (Returned, case r of Inl e \<Rightarrow> writeError cx e wr | Inr _ \<Rightarrow> WriteHeader 204 wr, w2))"

definition declareVoyage :: handler where
  "declareVoyage = with_identity (\<lambda>user token.
    with_body declare_field \<lparr>vb_ID = [], vb_VesselIMO = [], vb_VesselName = [], vb_OriginPort = [], vb_DestinationPort = [],
      vb_ETA = 0, vb_Items = ([], 0)\<rparr> (\<lambda>b cx rq (wr, w).
    let (now, w1) = server_now w;
        (r, w2) = run_db (\<lambda>stored. store_DeclareVoyage stored user
          \<lparr>dr_ID = vb_ID b, dr_VesselIMO = vb_VesselIMO b, dr_VesselName = vb_VesselName b, dr_OriginPort = vb_OriginPort b,
           dr_DestinationPort = vb_DestinationPort b, dr_ETA = vb_ETA b, dr_Items = take (snd (vb_Items b)) (fst (vb_Items b)),
           dr_At = now\<rparr>) w1
    in (Returned, answer cx 201 (\<lambda>v. map_option json_encode (voyage_json v)) r wr, w2)))"

definition getVoyage :: handler where
  "getVoyage = with_identity (\<lambda>user token cx rq (wr, w).
    (Returned, answer cx 200 (\<lambda>v. map_option json_encode (voyage_json v))
      (GetVoyage (u_TenantID user) (URLParam cx ''id'') (sw_db w)) wr, w))"

definition openInspection :: handler where
  "openInspection = with_identity (\<lambda>user token.
    with_body inspection_field \<lparr>ib_ID = [], ib_Kind = []\<rparr> (\<lambda>b cx rq (wr, w).
    let (now, w1) = server_now w;
        (r, w2) = run_db (\<lambda>stored. store_OpenInspection stored user (ib_ID b) (URLParam cx ''id'') (ib_Kind b) now) w1
    in (Returned, answer cx 201 (\<lambda>(i, v). case (inspection_json i, voyage_json v) of
          (Some ij, Some vj) \<Rightarrow> Some (json_encode (JObj [(''inspection'', ij), (''voyage'', vj)]))
        | _ \<Rightarrow> None) r wr, w2)))"

definition passInspection :: handler where
  "passInspection = with_identity (\<lambda>user token.
    with_body finding_field [] (\<lambda>finding cx rq (wr, w).
    let (now, w1) = server_now w;
        (r, w2) = run_db (\<lambda>stored. PassInspectionAndRelease stored user (URLParam cx ''id'') finding now) w1
    in (Returned, answer cx 200 (\<lambda>v. map_option json_encode (voyage_json v)) r wr, w2)))"

definition reservePassage :: "Server \<Rightarrow> handler" where
  "reservePassage srv = with_identity (\<lambda>user token.
    with_body reserve_field \<lparr>rb_ID = [], rb_ChamberID = [], rb_StartsAt = 0, rb_EndsAt = 0, rb_LengthM = Fin 0, rb_BeamM = Fin 0,
      rb_DraftM = Fin 0\<rparr> (\<lambda>b cx rq (wr, w).
    let (now, w1) = server_now w;
        (r, w2) = run_db (\<lambda>stored.
          let chamber = \<lparr>ch_ID = rb_ChamberID b, ch_Name = rb_ChamberID b, ch_MaxLengthM = Fin 220, ch_MaxBeamM = Fin 34,
                ch_MaxDraftM = Fin 8, ch_MaintenanceFrom = None, ch_MaintenanceTo = None\<rparr>
          in ReservePassage stored user (rb_ID b) (URLParam cx ''id'') chamber (rb_StartsAt b) (rb_EndsAt b)
          (rb_LengthM b) (rb_BeamM b) (rb_DraftM b) now) w1
    in (Returned, answer cx 201 (reservation_text (srv_format srv)) r wr, w2)))"

section \<open>Handlers of the lists\<close>

definition pageRequest :: "(string \<times> string) list \<Rightarrow> PageRequest" where
  "pageRequest q = \<lparr>pr_Limit = atoi (query_get ''limit'' q), pr_Cursor = query_get ''cursor'' q\<rparr>"

definition query_statuses :: "(string \<times> string) list \<Rightarrow> VoyageStatus list" where
  "query_statuses q =
    filter (\<lambda>v. v \<noteq> []) (map trim_space (concat (map (split_on CHR '','') (query_values ''status'' q))))"

definition query_instant :: "string \<Rightarrow> (string \<times> string) list \<Rightarrow> Time option result" where
  "query_instant k q =
    (if query_get k q = [] then Inr None
     else (case time_Parse (query_get k q) of None \<Rightarrow> Inl (Sentinel ErrInvalid) | Some t \<Rightarrow> Inr (Some t)))"

definition listVoyages :: handler where
  "listVoyages = with_identity (\<lambda>user token cx rq (wr, w).
    let q = parse_query (rq_RawQuery rq)
    in (Returned, answer cx 200 (\<lambda>page. map_option json_encode (page_json JNull voyage_json page))
      (bindR (Authorize user (u_TenantID user) PermissionVoyageRead) (\<lambda>_.
       bindR (query_instant ''eta_from'' q) (\<lambda>eta_from.
       bindR (query_instant ''eta_to'' q) (\<lambda>eta_to.
       ListVoyages (sw_stored w) (u_TenantID user)
         \<lparr>vf_Statuses = query_statuses q, vf_Port = query_get ''port'' q, vf_ETAFrom = eta_from, vf_ETATo = eta_to,
          vf_VesselText = query_get ''vessel'' q\<rparr>
         (pageRequest q) (sw_db w))))) wr, w))"

definition listAudit :: handler where
  "listAudit = with_identity (\<lambda>user token cx rq (wr, w).
    let q = parse_query (rq_RawQuery rq)
    in (Returned, answer cx 200 (\<lambda>page. map_option json_encode (page_json (JArr []) event_json page))
      (bindR (Authorize user (u_TenantID user) PermissionAuditRead) (\<lambda>_.
       bindR (ListAuditEvents (sw_stored w) (u_TenantID user)
         (no_filter\<lparr>af_ActorID := query_get ''actor_id'' q, af_Action := query_get ''action'' q,
          af_ObjectID := query_get ''object_id'' q, af_Outcome := query_get ''outcome'' q\<rparr>)
         (pageRequest q) (sw_db w)) (\<lambda>page.
       Inr (page\<lparr>pg_Items := SanitizeEvents (pg_Items page) DefaultDetailSanitizer\<rparr>)))) wr, w))"

section \<open>Authentication and routes\<close>

definition bearer_token :: "Request \<Rightarrow> string option" where
  "bearer_token rq =
    (let header = trim_space (header_get ''Authorization'' (rq_Header rq))
     in if take 7 header \<noteq> ''Bearer '' then None else Some (trim_space (drop 7 header)))"

definition authenticate :: "handler \<Rightarrow> handler" where
  "authenticate next cx rq = (\<lambda>(wr, w).
    case bearer_token rq of
      None \<Rightarrow> (Returned, writeError cx (Sentinel ErrForbidden) wr, w)
    | Some token \<Rightarrow>
        (case server_now w of
           (now, w1) \<Rightarrow>
             (case store_Authenticate token now (sw_auth w1) of
                Inl e \<Rightarrow> (Returned, writeError cx e wr, w1)
              | Inr (user, _) \<Rightarrow> next (cx\<lparr>cx_identity := Some (user, token)\<rparr>) rq (wr, w1))))"

datatype Endpoint =
  Health | Ready | LoginE | LogoutE | DeclareE | ListVoyagesE | GetVoyageE | ListAuditE | OpenE | PassE | ReserveE

definition routes :: "((string \<times> string) \<times> Endpoint) list" where
  "routes =
    [((''GET'', ''/healthz''), Health), ((''GET'', ''/readyz''), Ready), ((''POST'', ''/v1/auth/login''), LoginE),
     ((''POST'', ''/v1/auth/logout''), LogoutE), ((''POST'', ''/v1/voyages''), DeclareE), ((''GET'', ''/v1/voyages''), ListVoyagesE),
     ((''GET'', ''/v1/voyages/{id}''), GetVoyageE), ((''GET'', ''/v1/audit/events''), ListAuditE),
     ((''POST'', ''/v1/voyages/{id}/inspections''), OpenE), ((''POST'', ''/v1/inspections/{id}/pass''), PassE),
     ((''POST'', ''/v1/voyages/{id}/passage-reservations''), ReserveE)]"

fun endpoint_handler :: "Server \<Rightarrow> Endpoint \<Rightarrow> handler" where
  "endpoint_handler srv Health = health"
| "endpoint_handler srv Ready = ready"
| "endpoint_handler srv LoginE = login srv"
| "endpoint_handler srv LogoutE = logout"
| "endpoint_handler srv DeclareE = declareVoyage"
| "endpoint_handler srv ListVoyagesE = listVoyages"
| "endpoint_handler srv GetVoyageE = getVoyage"
| "endpoint_handler srv ListAuditE = listAudit"
| "endpoint_handler srv OpenE = openInspection"
| "endpoint_handler srv PassE = passInspection"
| "endpoint_handler srv ReserveE = reservePassage srv"

definition protected :: "Endpoint \<Rightarrow> bool" where
  "protected e \<longleftrightarrow> e \<notin> {Health, Ready, LoginE}"

definition endpoint :: "Server \<Rightarrow> Endpoint \<Rightarrow> handler" where
  "endpoint srv e = (if protected e then authenticate (endpoint_handler srv e) else endpoint_handler srv e)"

definition dispatch :: "Server \<Rightarrow> Mux \<Rightarrow> handler" where
  "dispatch srv mux cx rq = (\<lambda>(wr, w).
    case mux_Match mux (map fst routes) rq of
      None \<Rightarrow> (Returned, mux_Miss mux rq wr, w)
    | Some (i, params) \<Rightarrow> endpoint srv (snd (routes ! i)) (cx\<lparr>cx_Params := params\<rparr>) rq (wr, w))"

definition Handler :: "Server \<Rightarrow> Mux \<Rightarrow> handler" where
  "Handler srv mux = requestContext (securityHeaders (recoverPanic (accessLog (dispatch srv mux))))"

text \<open>What the server of \<^verbatim>\<open>net/http\<close> sends: a handler that wrote nothing answers 200.\<close>

definition serve :: "Server \<Rightarrow> Mux \<Rightarrow> Request \<Rightarrow> ServerWorld \<Rightarrow> Response \<times> ServerWorld" where
  "serve srv mux rq w =
    (case Handler srv mux zero_context rq (Direct zero_response, w) of (flow, wr, w1) \<Rightarrow> (write_header 200 (response_of wr), w1))"

end
