(* ===== verification/Http_Properties.thy ===== *)
theory Http_Properties
  imports Http_Api
begin

text \<open>
  What the API promises: every handler returns and answers once; what it answers tells what it did to the tables;
  nothing behind the authentication happens without a valid session; and every response is labelled with a
  request identifier and logged.
\<close>

section \<open>What a handler writes\<close>

definition statuses :: "int set" where
  "statuses = {200, 201, 204, 400, 401, 403, 404, 409, 500}"

text \<open>A response that was empty and has been given a status, at most one header and a body.\<close>

definition filled :: "int \<Rightarrow> string \<Rightarrow> Response \<Rightarrow> Writer \<Rightarrow> bool" where
  "filled status body r wr \<longleftrightarrow>
    (\<exists>hs. wr = Captured status (int (length body)) (r\<lparr>rp_Header := hs, rp_Status := status, rp_Body := rp_Body r @ body\<rparr>) \<and>
      (hs = rp_Header r \<or> hs = header_set ''Content-Type'' ''application/json'' (rp_Header r)))"

definition same_tables :: "ServerWorld \<Rightarrow> ServerWorld \<Rightarrow> bool" where
  "same_tables w w1 \<longleftrightarrow> sw_db w1 = sw_db w \<and> sw_auth w1 = sw_auth w"

text \<open>What no handler touches.\<close>

definition same_rest :: "ServerWorld \<Rightarrow> ServerWorld \<Rightarrow> bool" where
  "same_rest w w1 \<longleftrightarrow> sw_stored w1 = sw_stored w \<and> sw_now w1 = sw_now w \<and> sw_random w1 = sw_random w \<and>
    sw_ready w1 = sw_ready w \<and> sw_log w1 = sw_log w"

text \<open>The body of an error: its class and the identifier of the request, nothing of the error itself.\<close>

definition error_response :: "string \<Rightarrow> int \<Rightarrow> string \<Rightarrow> bool" where
  "error_response rid status body \<longleftrightarrow>
    (\<exists>code message. (status, code, message) \<in> range classifyError \<and> body = json_encode (error_body code message rid) @ [CHR 0x0A])"

definition served :: "string \<Rightarrow> int set \<Rightarrow> (ServerWorld \<Rightarrow> ServerWorld \<Rightarrow> bool) \<Rightarrow> ServerWorld \<Rightarrow> Response \<Rightarrow> Flow \<times> Writer \<times> ServerWorld \<Rightarrow> bool" where
  "served rid S R w r x \<longleftrightarrow>
    (\<exists>status body wr w1. x = (Returned, wr, w1) \<and> filled status body r wr \<and> status \<in> S \<and> same_rest w w1 \<and>
      (if status < 400 then R w w1 else same_tables w w1 \<and> error_response rid status body))"

lemma writeJSON_fresh:
  assumes "rp_Status r = 0" and "status \<noteq> 0"
  shows "filled status (case body of None \<Rightarrow> [] | Some t \<Rightarrow> t @ [CHR 0x0A]) r (writeJSON status body (Captured 0 0 r))"
  using assms by (cases body) (auto simp: filled_def writeJSON_def write_header_def write_body_def set_header_def Let_def)

lemma classifyError_cases: "fst (classifyError e) \<in> {400, 401, 403, 404, 409, 500}"
  by (simp add: classifyError_def)

lemma writeError_fresh:
  "rp_Status r = 0 \<Longrightarrow>
    \<exists>body. filled (fst (classifyError e)) body r (writeError cx e (Captured 0 0 r)) \<and>
      error_response (RequestID cx) (fst (classifyError e)) body"
proof -
  obtain status code message where c: "classifyError e = (status, code, message)" by (cases "classifyError e")
  assume "rp_Status r = 0"
  moreover have "status \<noteq> 0" using classifyError_cases [of e] c by auto
  ultimately show ?thesis using writeJSON_fresh [of r status "Some (json_encode (error_body code message (RequestID cx)))"]
    unfolding writeError_def c error_response_def by (simp, metis c rangeI)
qed

lemma same_tables_refl [simp]: "same_tables w w" "same_rest w w"
  by (simp_all add: same_tables_def same_rest_def)

lemma served_error: "rp_Status r = 0 \<Longrightarrow> same_tables w w1 \<Longrightarrow> same_rest w w1 \<Longrightarrow> served (RequestID cx) statuses R w r (Returned, writeError cx e (Captured 0 0 r), w1)"
  using writeError_fresh [of r e cx] classifyError_cases [of e] unfolding served_def statuses_def
  by (intro exI [of _ "fst (classifyError e)"]) auto

lemma served_answer:
  assumes "rp_Status r = 0" and "status \<in> {200, 201}" and "same_rest w w1"
    and "\<And>e. x = Inl e \<Longrightarrow> same_tables w w1" and "\<And>y. x = Inr y \<Longrightarrow> R w w1"
  shows "served (RequestID cx) statuses R w r (Returned, answer cx status body x (Captured 0 0 r), w1)"
proof (cases x)
  case (Inl e)
  then show ?thesis using assms served_error by (simp add: answer_def)
next
  case (Inr y)
  have "filled status (case body y of None \<Rightarrow> [] | Some t \<Rightarrow> t @ [CHR 0x0A]) r (writeJSON status (body y) (Captured 0 0 r))"
    using assms(1,2) by (intro writeJSON_fresh) auto
  moreover have "status < 400" "status \<in> statuses" using assms(2) by (auto simp: statuses_def)
  ultimately show ?thesis using assms(3,5) Inr unfolding served_def answer_def by (simp, blast)
qed

lemma reading_facts [simp]:
  "reading f w = (x, w1) \<Longrightarrow> same_tables w w1 \<and> same_rest w w1 \<and> x = f w (sw_tick w)"
  by (auto simp: reading_def same_tables_def same_rest_def)


section \<open>What a handler does to the tables\<close>

definition commits_as :: "User \<Rightarrow> ServerWorld \<Rightarrow> ServerWorld \<Rightarrow> bool" where
  "commits_as user w w1 \<longleftrightarrow> sw_auth w1 = sw_auth w \<and> (\<exists>n. db_step (sw_stored w) user (sw_now w n) (sw_db w) (sw_db w1))"

definition changes_sessions :: "Server \<Rightarrow> ServerWorld \<Rightarrow> ServerWorld \<Rightarrow> bool" where
  "changes_sessions srv w w1 \<longleftrightarrow>
    sw_db w1 = sw_db w \<and> auth_step (srv_compare srv) (sw_stored w) (sw_auth w) (sw_auth w1)"

fun effect :: "Server \<Rightarrow> Endpoint \<Rightarrow> User \<Rightarrow> ServerWorld \<Rightarrow> ServerWorld \<Rightarrow> bool" where
  "effect srv LoginE user = changes_sessions srv"
| "effect srv LogoutE user = changes_sessions srv"
| "effect srv DeclareE user = commits_as user"
| "effect srv OpenE user = commits_as user"
| "effect srv PassE user = commits_as user"
| "effect srv ReserveE user = commits_as user"
| "effect srv e user = same_tables"

lemma run_db_cases:
  obtains (fails) e where "run_db f w = (Inl e, w)"
  | (succeeds) x db where "run_db f w = (Inr x, w\<lparr>sw_db := db\<rparr>)" and "f (sw_stored w) (sw_db w) = Inr (x, db)"
  by (cases "f (sw_stored w) (sw_db w)") (auto simp: run_db_def)

lemma run_auth_cases:
  obtains (fails) e where "run_auth f w = (Inl e, w)"
  | (succeeds) x auth where "run_auth f w = (Inr x, w\<lparr>sw_auth := auth\<rparr>)" and "f (sw_stored w) (sw_auth w) = Inr (x, auth)"
  by (cases "f (sw_stored w) (sw_auth w)") (auto simp: run_auth_def)

lemma served_transaction:
  assumes "rp_Status r = 0" and "status \<in> {200, 201}"
    and "\<And>now x db. f now (sw_stored w) (sw_db w) = Inr (x, db) \<Longrightarrow> db_step (sw_stored w) user now (sw_db w) db"
  shows "served (RequestID cx) statuses (commits_as user) w r
    (let (now, w1) = server_now w; (x, w2) = run_db (f now) w1 in (Returned, answer cx status body x (Captured 0 0 r), w2))"
proof -
  let ?w1 = "w\<lparr>sw_tick := Suc (sw_tick w)\<rparr>" and ?now = "sw_now w (sw_tick w)"
  have now: "server_now w = (?now, ?w1)" by (simp add: server_now_def reading_def)
  show ?thesis
  proof (cases rule: run_db_cases [of "f ?now" ?w1])
    case (fails e)
    then show ?thesis using assms(1,2) by (auto simp: now same_tables_def same_rest_def intro!: served_answer)
  next
    case (succeeds x db)
    then have "commits_as user w (?w1\<lparr>sw_db := db\<rparr>)" using assms(3) by (auto simp: commits_as_def)
    then show ?thesis using assms(1,2) succeeds(1) by (auto simp: now same_tables_def same_rest_def intro!: served_answer)
  qed
qed

lemma served_body:
  assumes "rp_Status r = 0" and "\<And>b. served (RequestID cx) statuses R w r (f b cx rq (Captured 0 0 r, w))"
  shows "served (RequestID cx) statuses R w r (with_body decode_field zero f cx rq (Captured 0 0 r, w))"
  using assms served_error [of r w w] by (auto simp: with_body_def split: sum.splits)

lemma served_login:
  assumes "rp_Status r = 0"
  shows "served (RequestID cx) statuses (changes_sessions srv) w r (login srv cx rq (Captured 0 0 r, w))"
  unfolding login_def
proof (rule served_body [OF assms], simp only: prod.case)
  fix b
  let ?w3 = "w\<lparr>sw_tick := Suc (Suc (Suc (sw_tick w)))\<rparr>"
  let ?f = "\<lambda>stored. Login (srv_compare srv) stored (sw_random w (Suc (sw_tick w)) 32) (sw_random w (Suc (Suc (sw_tick w))) 16)
    (lb_Email b) (lb_Password b) (sw_now w (sw_tick w)) (srv_sessionTTL srv)"
  show "served (RequestID cx) statuses (changes_sessions srv) w r (let (now, w1) = server_now w;
        (token_bytes, w2) = reading (\<lambda>w n. sw_random w n 32) w1; (id_bytes, w3) = reading (\<lambda>w n. sw_random w n 16) w2;
        (x, w4) = run_auth (\<lambda>stored. Login (srv_compare srv) stored token_bytes id_bytes (lb_Email b) (lb_Password b) now
          (srv_sessionTTL srv)) w3
    in (Returned, answer cx 200 (\<lambda>x. map_option json_encode (session_json x)) x (Captured 0 0 r), w4))"
  proof (cases rule: run_auth_cases [of ?f ?w3])
    case (fails e)
    then show ?thesis using assms by (auto simp: server_now_def reading_def same_tables_def same_rest_def intro!: served_answer)
  next
    case (succeeds x auth)
    then have "changes_sessions srv w (?w3\<lparr>sw_auth := auth\<rparr>)" by (auto simp: changes_sessions_def intro: auth_step.login)
    then show ?thesis using assms succeeds(1)
      by (auto simp: server_now_def reading_def same_tables_def same_rest_def intro!: served_answer)
  qed
qed

lemma served_logout:
  assumes "rp_Status r = 0" and "cx_identity cx = Some (user, token)"
  shows "served (RequestID cx) statuses (changes_sessions srv) w r (logout cx rq (Captured 0 0 r, w))"
proof -
  let ?w1 = "w\<lparr>sw_tick := Suc (sw_tick w)\<rparr>"
  let ?f = "\<lambda>stored auth. map_sum id (Pair ()) (Logout stored token (sw_now w (sw_tick w)) auth)"
  have run: "logout cx rq (Captured 0 0 r, w) =
      (case run_auth ?f ?w1 of (x, w2) \<Rightarrow>
        (Returned, case x of Inl e \<Rightarrow> writeError cx e (Captured 0 0 r) | Inr _ \<Rightarrow> WriteHeader 204 (Captured 0 0 r), w2))"
    using assms(2) by (simp add: logout_def with_identity_def server_now_def reading_def)
  show ?thesis
  proof (cases rule: run_auth_cases [of ?f ?w1])
    case (fails e)
    then show ?thesis using served_error [OF assms(1), of w ?w1] by (simp add: run same_tables_def same_rest_def)
  next
    case (succeeds x auth)
    then have "Logout (sw_stored w) token (sw_now w (sw_tick w)) (sw_auth w) = Inr auth"
      by (cases "Logout (sw_stored w) token (sw_now w (sw_tick w)) (sw_auth w)") auto
    then have "changes_sessions srv w (?w1\<lparr>sw_auth := auth\<rparr>)" by (auto simp: changes_sessions_def intro: auth_step.logout)
    moreover have "filled 204 [] r (WriteHeader 204 (Captured 0 0 r))"
      using assms(1) by (simp add: filled_def write_header_def exI [of _ "rp_Header r"])
    ultimately show ?thesis using succeeds(1) unfolding run served_def statuses_def
      by (intro exI [of _ 204] exI [of _ "[]"]) (simp add: same_rest_def)
  qed
qed

lemma served_reader:
  "rp_Status r = 0 \<Longrightarrow> served (RequestID cx) statuses same_tables w r (Returned, answer cx 200 body x (Captured 0 0 r), w)"
  by (rule served_answer) simp_all

lemma handler_served:
  assumes "rp_Status r = 0" and "protected e \<Longrightarrow> cx_identity cx = Some (user, token)"
  shows "served (RequestID cx) statuses (effect srv e user) w r (endpoint_handler srv e cx rq (Captured 0 0 r, w))"
proof (cases e)
  case Health
  then show ?thesis
    using served_reader [OF assms(1), of cx w "\<lambda>_. Some (json_encode (JObj [(''ok'', JBool True)]))" "Inr ()"]
    by (simp add: health_def answer_def)
next
  case Ready
  then show ?thesis using assms(1)
    by (auto simp: ready_def reading_def same_tables_def same_rest_def intro!: served_answer)
next
  case LoginE
  then show ?thesis using served_login [OF assms(1)] by simp
next
  case LogoutE
  then show ?thesis using served_logout [OF assms(1)] assms(2) by (simp add: protected_def)
next
  case DeclareE
  then have user: "cx_identity cx = Some (user, token)" using assms(2) by (simp add: protected_def)
  show ?thesis
    unfolding DeclareE declareVoyage_def with_identity_def user endpoint_handler.simps effect.simps option.case prod.case
    by (rule served_body [OF assms(1)], unfold prod.case, rule served_transaction [OF assms(1)])
      (auto simp: Let_def dest: step_declare)
next
  case OpenE
  then have user: "cx_identity cx = Some (user, token)" using assms(2) by (simp add: protected_def)
  show ?thesis
    unfolding OpenE openInspection_def with_identity_def user endpoint_handler.simps effect.simps option.case prod.case
    by (rule served_body [OF assms(1)], unfold prod.case, rule served_transaction [OF assms(1)])
      (auto simp: Let_def intro: step_open)
next
  case PassE
  then have user: "cx_identity cx = Some (user, token)" using assms(2) by (simp add: protected_def)
  show ?thesis
    unfolding PassE passInspection_def with_identity_def user endpoint_handler.simps effect.simps option.case prod.case
    by (rule served_body [OF assms(1)], unfold prod.case, rule served_transaction [OF assms(1)])
      (auto simp: Let_def intro: step_release)
next
  case ReserveE
  then have user: "cx_identity cx = Some (user, token)" using assms(2) by (simp add: protected_def)
  show ?thesis
    unfolding ReserveE reservePassage_def with_identity_def user endpoint_handler.simps effect.simps option.case prod.case
    by (rule served_body [OF assms(1)], unfold prod.case, rule served_transaction [OF assms(1)])
      (auto simp: Let_def intro: step_reserve)
qed (use assms served_reader [OF assms(1)] in \<open>auto simp: protected_def with_identity_def listVoyages_def getVoyage_def listAudit_def Let_def\<close>)

section \<open>Behind the authentication\<close>

definition session_user :: "Request \<Rightarrow> Time \<Rightarrow> AuthDB \<Rightarrow> User option" where
  "session_user rq now auth =
    (case bearer_token rq of
       None \<Rightarrow> None
     | Some token \<Rightarrow> (case store_Authenticate token now auth of Inl _ \<Rightarrow> None | Inr (user, _) \<Rightarrow> Some user))"

lemma store_Authenticate_error: "store_Authenticate token now auth = Inl e \<Longrightarrow> e = Sentinel ErrForbidden \<or> e = Sentinel ErrExpired"
  by (auto simp: store_Authenticate_def Authenticate_def bindR_Inl_iff split: option.splits if_splits)

lemma served_refusal:
  assumes "rp_Status r = 0" and "e = Sentinel ErrForbidden \<or> e = Sentinel ErrExpired" and "same_tables w w1" and "same_rest w w1"
  shows "served (RequestID cx) {401, 403} R w r (Returned, writeError cx e (Captured 0 0 r), w1)"
proof -
  have "fst (classifyError e) \<in> {401, 403}" using assms(2) by (auto simp: classifyError_def)
  then show ?thesis using writeError_fresh [OF assms(1), of e cx] assms(3,4) unfolding served_def
    by (intro exI [of _ "fst (classifyError e)"]) auto
qed

lemma authenticate_refuses:
  assumes "rp_Status r = 0" and "session_user rq (sw_now w (sw_tick w)) (sw_auth w) = None"
  shows "served (RequestID cx) {401, 403} R w r (authenticate next cx rq (Captured 0 0 r, w))"
proof (cases "bearer_token rq")
  case None
  then show ?thesis using served_refusal [OF assms(1), of _ w w] by (simp add: authenticate_def)
next
  case (Some token)
  then obtain e where e: "store_Authenticate token (sw_now w (sw_tick w)) (sw_auth w) = Inl e"
    using assms(2) by (auto simp: session_user_def split: sum.splits)
  with Some show ?thesis
    using served_refusal [OF assms(1) store_Authenticate_error [OF e], of w "w\<lparr>sw_tick := Suc (sw_tick w)\<rparr>"]
    by (simp add: authenticate_def server_now_def reading_def same_tables_def same_rest_def)
qed

lemma authenticate_passes:
  assumes "session_user rq (sw_now w (sw_tick w)) (sw_auth w) = Some user"
  obtains token where "authenticate next cx rq (wr, w) = next (cx\<lparr>cx_identity := Some (user, token)\<rparr>) rq (wr, w\<lparr>sw_tick := Suc (sw_tick w)\<rparr>)"
  using assms that
  by (auto simp: session_user_def authenticate_def server_now_def reading_def split: option.splits sum.splits)

definition rightful :: "Server \<Rightarrow> Endpoint \<Rightarrow> Request \<Rightarrow> ServerWorld \<Rightarrow> ServerWorld \<Rightarrow> bool" where
  "rightful srv e rq w w1 \<longleftrightarrow>
    (\<exists>user. (protected e \<longrightarrow> session_user rq (sw_now w (sw_tick w)) (sw_auth w) = Some user) \<and> effect srv e user w w1)"

lemma served_weaken:
  assumes "served rid S R w0 r x" and "S \<subseteq> S'" and "\<And>w1. same_tables w0 w1 \<Longrightarrow> same_tables w w1"
    and "\<And>w1. same_rest w0 w1 \<Longrightarrow> same_rest w w1" and "\<And>status w1. status \<in> S \<Longrightarrow> status < 400 \<Longrightarrow> R w0 w1 \<Longrightarrow> T w w1"
  shows "served rid S' T w r x"
proof -
  obtain status body wr w1 where x: "x = (Returned, wr, w1)" "filled status body r wr" "status \<in> S" "same_rest w0 w1"
      "if status < 400 then R w0 w1 else same_tables w0 w1 \<and> error_response rid status body"
    using assms(1) unfolding served_def by blast
  show ?thesis unfolding served_def
    by (intro exI [of _ status] exI [of _ body] exI [of _ wr] exI [of _ w1] conjI) (use x assms(2-5) in \<open>auto split: if_splits\<close>)
qed

lemma effect_tick: "effect srv e user (w\<lparr>sw_tick := k\<rparr>) w1 \<Longrightarrow> effect srv e user w w1"
  by (cases e) (auto simp: commits_as_def changes_sessions_def same_tables_def)

lemma endpoint_served:
  assumes r: "rp_Status r = 0"
  shows "served (RequestID cx) statuses (rightful srv e rq) w r (endpoint srv e cx rq (Captured 0 0 r, w))"
proof (cases "protected e")
  case False
  then have "served (RequestID cx) statuses (effect srv e undefined) w r (endpoint_handler srv e cx rq (Captured 0 0 r, w))"
    using handler_served [OF r] by blast
  then have "served (RequestID cx) statuses (rightful srv e rq) w r (endpoint_handler srv e cx rq (Captured 0 0 r, w))"
    by (rule served_weaken) (use False in \<open>auto simp: rightful_def\<close>)
  with False show ?thesis by (simp add: endpoint_def)
next
  case protected: True
  show ?thesis
  proof (cases "session_user rq (sw_now w (sw_tick w)) (sw_auth w)")
    case None
    have "served (RequestID cx) statuses (rightful srv e rq) w r (authenticate (endpoint_handler srv e) cx rq (Captured 0 0 r, w))"
      by (rule served_weaken [OF authenticate_refuses [OF r None, where R = "\<lambda>_ _. False"]]) (auto simp: statuses_def)
    with protected show ?thesis by (simp add: endpoint_def)
  next
    case (Some user)
    let ?w1 = "w\<lparr>sw_tick := Suc (sw_tick w)\<rparr>"
    obtain token where pass: "authenticate (endpoint_handler srv e) cx rq (Captured 0 0 r, w) =
        endpoint_handler srv e (cx\<lparr>cx_identity := Some (user, token)\<rparr>) rq (Captured 0 0 r, ?w1)"
      using authenticate_passes [OF Some] by blast
    have "served (RequestID cx) statuses (effect srv e user) ?w1 r (endpoint srv e cx rq (Captured 0 0 r, w))"
      using handler_served [OF r, of e "cx\<lparr>cx_identity := Some (user, token)\<rparr>" user token] protected
      by (simp add: endpoint_def pass RequestID_def)
    then show ?thesis
      by (rule served_weaken) (use Some effect_tick in \<open>auto simp: rightful_def same_tables_def same_rest_def\<close>)
  qed
qed

section \<open>The chain of middlewares\<close>

definition assigned_id :: "Request \<Rightarrow> ServerWorld \<Rightarrow> string \<times> ServerWorld" where
  "assigned_id rq w =
    (let given = normalizeRequestID (header_get ''X-Request-Id'' (rq_Header rq)) in if given = [] then newRequestID w else (given, w))"

lemma map_of_header_set [simp]: "map_of (header_set k v hs) j = (if j = k then Some v else map_of hs j)"
  by (induction hs) (auto simp: header_set_def)

definition labelled :: "string \<Rightarrow> Response \<Rightarrow> bool" where
  "labelled requestID r \<longleftrightarrow> map_of (rp_Header r) ''X-Request-Id'' = Some requestID \<and>
    map_of (rp_Header r) ''X-Content-Type-Options'' = Some ''nosniff'' \<and> map_of (rp_Header r) ''Cache-Control'' = Some ''no-store'' \<and>
    map_of (rp_Header r) ''Content-Security-Policy'' = Some (''default-src 'none'; frame-ancestors 'none'' @ [CHR 0x27])"

lemma filled_labelled: "filled status body r wr \<Longrightarrow> labelled rid r \<Longrightarrow> labelled rid (response_of wr)"
  by (auto simp: filled_def labelled_def)

lemma request_id_world: "assigned_id rq w = (rid, w1) \<Longrightarrow> same_tables w w1 \<and> same_rest w w1"
  by (auto simp: assigned_id_def newRequestID_def reading_def Let_def same_tables_def same_rest_def split: if_splits sum.splits)

lemma serve_endpoint:
  assumes match: "mux_Match mux (map fst routes) rq = Some (i, params)" and rid: "assigned_id rq w = (rid, w1)" and S: "0 \<notin> S"
    and served: "\<And>cx r. rp_Status r = 0 \<Longrightarrow> served (RequestID cx) S R w1 r (endpoint srv (snd (routes ! i)) cx rq (Captured 0 0 r, w1))"
  obtains resp w2 where "serve srv mux rq w =
      (resp, log_entry (AccessLog rid (rq_Method rq) (rq_Path rq) (rp_Status resp) (int (length (rp_Body resp)))) w2)"
    and "labelled rid resp" and "rp_Status resp \<in> S" and "same_rest w1 w2"
    and "if rp_Status resp < 400 then R w1 w2 else same_tables w1 w2 \<and> error_response rid (rp_Status resp) (rp_Body resp)"
proof -
  define r where "r = set_header ''Content-Security-Policy'' (''default-src 'none'; frame-ancestors 'none'' @ [CHR 0x27])
    (set_header ''Cache-Control'' ''no-store'' (set_header ''X-Content-Type-Options'' ''nosniff''
      (set_header ''X-Request-Id'' rid zero_response)))"
  have r: "rp_Status r = 0" "rp_Body r = []" "labelled rid r" by (simp_all add: r_def set_header_def zero_response_def labelled_def)
  define cx where "cx = zero_context\<lparr>cx_RequestID := Some rid\<rparr>"
  have ridcx: "RequestID (cx\<lparr>cx_Params := params\<rparr>) = rid" by (simp add: cx_def RequestID_def)
  obtain status body wr w2 where x: "endpoint srv (snd (routes ! i)) (cx\<lparr>cx_Params := params\<rparr>) rq (Captured 0 0 r, w1) = (Returned, wr, w2)"
    and wr: "filled status body r wr" and st: "status \<in> S" "same_rest w1 w2" "if status < 400 then R w1 w2 else same_tables w1 w2 \<and> error_response rid status body"
    using served [OF r(1), of "cx\<lparr>cx_Params := params\<rparr>"] unfolding served_def ridcx by blast
  from wr r(2) obtain resp where resp: "wr = Captured status (int (length body)) resp" "rp_Status resp = status" "rp_Body resp = body"
    by (auto simp: filled_def)
  have "Handler srv mux zero_context rq (Direct zero_response, w) =
      (Returned, Direct resp, log_entry (AccessLog rid (rq_Method rq) (rq_Path rq) status (int (length body))) w2)"
    using rid x st(1) S
    by (auto simp: Handler_def requestContext_def assigned_id_def securityHeaders_def recoverPanic_def accessLog_def dispatch_def match
        resp(1) RequestID_def cx_def r_def Let_def split: prod.splits if_splits)
  moreover have "labelled rid resp" using filled_labelled [OF wr r(3)] resp(1) by simp
  moreover have "rp_Status resp \<noteq> 0" using st(1) S resp(2) by metis
  ultimately show thesis using that [of resp w2] st resp by (simp add: serve_def write_header_def)
qed

section \<open>What serving a request does\<close>

definition same_environment :: "ServerWorld \<Rightarrow> ServerWorld \<Rightarrow> bool" where
  "same_environment w w1 \<longleftrightarrow> sw_stored w1 = sw_stored w \<and> sw_now w1 = sw_now w \<and> sw_random w1 = sw_random w \<and> sw_ready w1 = sw_ready w"

lemma serve_effect:
  assumes "mux_Match mux (map fst routes) rq = Some (i, params)" and "serve srv mux rq w = (resp, w1)"
  shows "rp_Status resp \<in> statuses" and "same_environment w w1"
    and "400 \<le> rp_Status resp \<Longrightarrow> same_tables w w1"
    and "rp_Status resp < 400 \<Longrightarrow> \<exists>user n. (protected (snd (routes ! i)) \<longrightarrow> session_user rq (sw_now w n) (sw_auth w) = Some user) \<and>
      effect srv (snd (routes ! i)) user w w1"
proof -
  let ?e = "snd (routes ! i)"
  obtain rid w0 where rid: "assigned_id rq w = (rid, w0)" by fastforce
  have w0: "same_tables w w0" "same_rest w w0" using request_id_world [OF rid] by simp_all
  have zero: "0 \<notin> statuses" by (simp add: statuses_def)
  obtain w2 where serve: "w1 = log_entry (AccessLog rid (rq_Method rq) (rq_Path rq) (rp_Status resp) (int (length (rp_Body resp)))) w2"
    and st: "rp_Status resp \<in> statuses" and rest: "same_rest w0 w2"
    and did: "if rp_Status resp < 400 then rightful srv ?e rq w0 w2 else same_tables w0 w2 \<and> error_response rid (rp_Status resp) (rp_Body resp)"
    by (rule serve_endpoint [OF assms(1) rid zero, of "rightful srv ?e rq" srv])
      (use assms(2) endpoint_served in auto)
  have step: "effect srv ?e user w w1" if "effect srv ?e user w0 w2" for user
    using that w0 by (cases ?e) (auto simp: serve log_entry_def commits_as_def changes_sessions_def same_tables_def same_rest_def)
  show "rp_Status resp \<in> statuses" by (rule st)
  show "same_environment w w1" using rest w0 by (simp add: serve log_entry_def same_rest_def same_environment_def)
  show "\<exists>user n. (protected ?e \<longrightarrow> session_user rq (sw_now w n) (sw_auth w) = Some user) \<and> effect srv ?e user w w1"
    if "rp_Status resp < 400"
    using did that step w0 unfolding rightful_def same_tables_def same_rest_def by auto
  show "same_tables w w1" if "400 \<le> rp_Status resp"
    using did that w0 by (simp add: serve log_entry_def same_tables_def)
qed

lemma serve_miss:
  assumes "mux_Match mux (map fst routes) rq = None" and "serve srv mux rq w = (resp, w1)"
  shows "same_tables w w1" and "same_environment w w1"
proof -
  obtain rid w0 where rid: "assigned_id rq w = (rid, w0)" by fastforce
  have w0: "same_tables w w0" "same_rest w w0" using request_id_world [OF rid] by simp_all
  have "same_tables w0 w1 \<and> same_environment w0 w1"
    using assms rid
    by (auto simp: serve_def Handler_def requestContext_def assigned_id_def securityHeaders_def recoverPanic_def accessLog_def dispatch_def
        Let_def log_entry_def same_tables_def same_environment_def split: prod.splits if_splits Flow.splits Writer.splits)
  with w0 show "same_tables w w1" "same_environment w w1"
    by (auto simp: same_tables_def same_environment_def same_rest_def)
qed

text \<open>Seen from the tables, any request is nothing, one transaction, or one step of the sessions.\<close>

lemma serve_cases:
  assumes "serve srv mux rq w = (resp, w1)"
  obtains (unchanged) "same_tables w w1" "same_environment w w1"
  | (transaction) user n where "sw_auth w1 = sw_auth w" "db_step (sw_stored w) user (sw_now w n) (sw_db w) (sw_db w1)" "same_environment w w1"
  | (sessions) "sw_db w1 = sw_db w" "auth_step (srv_compare srv) (sw_stored w) (sw_auth w) (sw_auth w1)" "same_environment w w1"
proof (cases "mux_Match mux (map fst routes) rq")
  case None
  show ?thesis by (rule unchanged [OF serve_miss [OF None assms]])
next
  case (Some m)
  obtain i params where match: "mux_Match mux (map fst routes) rq = Some (i, params)" using Some by (cases m) simp
  note effect = serve_effect [OF match assms]
  show ?thesis
  proof (cases "rp_Status resp < 400")
    case True
    with effect(4) obtain user where "effect srv (snd (routes ! i)) user w w1" by blast
    then show ?thesis using unchanged transaction sessions effect(2)
      by (cases "snd (routes ! i)") (auto simp: commits_as_def changes_sessions_def)
  qed (use effect unchanged in force)
qed

section \<open>Properties of the API\<close>

text \<open>
  C7: The API is a front of the store, and what it answers tells what it did. A request that a route matches is
  answered with one of nine statuses. An error status means that neither the workflow nor the sessions
  changed. Otherwise, behind the authentication the request carries the token of a valid session, and a
  command has committed one transaction of that session's user, at an instant of the server's clock; a login or logout has changed the
  sessions by one step of theirs; and a read has changed nothing. So a database that transactions at
  instants of the server's clock can reach stays one.
\<close>

theorem http_refines_store:
  assumes "mux_Match mux (map fst routes) rq = Some (i, params)" and "i < length routes"
    and "serve srv mux rq w = (resp, w1)"
  shows "rp_Status resp \<in> statuses \<and>
    (400 \<le> rp_Status resp \<longrightarrow> same_tables w w1) \<and>
    (rp_Status resp < 400 \<longrightarrow>
      (\<exists>user n. (protected (snd (routes ! i)) \<longrightarrow> session_user rq (sw_now w n) (sw_auth w) = Some user) \<and>
        effect srv (snd (routes ! i)) user w w1)) \<and>
    (reach (sw_stored w) (\<lambda>t. t \<in> range (sw_now w)) (sw_db w) \<longrightarrow> reach (sw_stored w1) (\<lambda>t. t \<in> range (sw_now w)) (sw_db w1))"
proof -
  note effect = serve_effect [OF assms(1,3)]
  have "reach (sw_stored w1) (\<lambda>t. t \<in> range (sw_now w)) (sw_db w1)" if "reach (sw_stored w) (\<lambda>t. t \<in> range (sw_now w)) (sw_db w)"
    by (rule serve_cases [OF assms(3)])
      (use that reach_step [OF that] in \<open>auto simp: same_tables_def same_environment_def\<close>)
  with effect show ?thesis by blast
qed

text \<open>
  C10: Nothing behind the authentication is served without a valid session: whatever the route and the request, it is
  answered with 401 or 403 and neither the workflow nor the sessions change.
\<close>

theorem no_session_no_access:
  assumes "mux_Match mux (map fst routes) rq = Some (i, params)" and "i < length routes" and "protected (snd (routes ! i))"
    and "\<And>n. session_user rq (sw_now w n) (sw_auth w) = None" and "serve srv mux rq w = (resp, w1)"
  shows "rp_Status resp \<in> {401, 403} \<and> same_tables w w1"
proof -
  let ?e = "snd (routes ! i)"
  obtain rid w0 where rid: "assigned_id rq w = (rid, w0)" by fastforce
  have w0: "same_tables w w0" "same_rest w w0" using request_id_world [OF rid] by simp_all
  then have "session_user rq (sw_now w0 (sw_tick w0)) (sw_auth w0) = None" using assms(4) by (simp add: same_tables_def same_rest_def)
  then have refused: "served (RequestID cx) {401, 403} (\<lambda>_ _. False) w0 r (endpoint srv ?e cx rq (Captured 0 0 r, w0))" if "rp_Status r = 0" for cx r
    using authenticate_refuses [OF that] assms(3) by (simp add: endpoint_def)
  have zero: "0 \<notin> {401, 403::int}" by simp
  obtain w2 where serve: "w1 = log_entry (AccessLog rid (rq_Method rq) (rq_Path rq) (rp_Status resp) (int (length (rp_Body resp)))) w2"
    and st: "rp_Status resp \<in> {401, 403}"
    and did: "if rp_Status resp < 400 then False else same_tables w0 w2 \<and> error_response rid (rp_Status resp) (rp_Body resp)"
    by (rule serve_endpoint [OF assms(1) rid zero, of "\<lambda>_ _. False" srv])
      (use assms(5) refused in auto)
  have "same_tables w w1" using did w0 by (simp add: serve log_entry_def same_tables_def split: if_splits)
  with st show ?thesis by blast
qed

lemma id_chars: "list_all id_char (hex_encode s)"
proof -
  have digits: "list_all (\<lambda>n. id_char (hex_digit n)) [0..<16]" by code_simp
  have "id_char (hex_digit n)" if "n < 16" for n using digits that by (simp add: list_all_iff)
  moreover have "(of_char c :: nat) div 16 < 16" for c :: char by (simp add: less_mult_imp_div_less)
  ultimately show ?thesis by (auto simp: hex_encode_def hex_byte_def list_all_iff)
qed


section \<open>An example\<close>

text \<open>A router that matches a path only literally; it serves the routes without parameters.\<close>

definition example_mux :: Mux where
  "example_mux = \<lparr>mux_Match = (\<lambda>patterns rq.
      map_option (\<lambda>i. (i, [])) (List.find (\<lambda>i. patterns ! i = (rq_Method rq, rq_Path rq)) [0..<length patterns])),
    mux_Miss = (\<lambda>rq wr. writeJSON 404 None wr)\<rparr>"

definition example_server :: Server where
  "example_server = \<lparr>srv_compare = (\<lambda>h p. h = p), srv_format = (\<lambda>x. dec_int \<lfloor>x\<rfloor>), srv_sessionTTL = 8 * Hour\<rparr>"

definition logout_request :: Request where
  "logout_request = \<lparr>rq_Method = ''POST'', rq_Path = ''/v1/auth/logout'',
    rq_Header = [(''Authorization'', ''Bearer secret''), (''X-Request-Id'', ''request-1'')], rq_RawQuery = [], rq_Body = []\<rparr>"

definition server_world :: "AuthDB \<Rightarrow> ServerWorld" where
  "server_world auth = \<lparr>sw_stored = (\<lambda>t. t), sw_db = empty_db, sw_auth = auth, sw_now = (\<lambda>n. 100 + int n),
    sw_random = (\<lambda>n size. Inl (Plain ''no entropy'')), sw_ready = (\<lambda>n. Inr ()), sw_tick = 0, sw_log = []\<rparr>"

definition secret_session :: AuthDB where
  "secret_session = \<lparr>a_users = [example_user], a_sessions = [(example_session ''a'' 3)\<lparr>s_TokenHash := TokenHash ''secret''\<rparr>]\<rparr>"

lemma example_match: "mux_Match example_mux (map fst routes) logout_request = Some (3, [])"
  by code_simp

lemma example_endpoint: "3 < length routes" "snd (routes ! 3) = LogoutE" "protected LogoutE"
  by (simp_all add: routes_def protected_def)

lemma example_bearer: "bearer_token logout_request = Some ''secret''" "trim_space ''secret'' = ''secret''"
  "assigned_id logout_request w = (''request-1'', w)"
proof -
  show "bearer_token logout_request = Some ''secret''" "trim_space ''secret'' = ''secret''" by code_simp+
  have "normalizeRequestID (header_get ''X-Request-Id'' (rq_Header logout_request)) = ''request-1''" by code_simp
  then show "assigned_id logout_request w = (''request-1'', w)" by (simp add: assigned_id_def)
qed

lemma example_logout: "\<exists>resp w1. serve example_server example_mux logout_request (server_world secret_session) = (resp, w1) \<and> rp_Status resp = 204"
proof -
  let ?w = "server_world secret_session"
  have hash: "store_Authenticate ''secret'' 100 secret_session = Inr (example_user, (example_session ''a'' 3)\<lparr>s_TokenHash := TokenHash ''secret''\<rparr>)"
    by (simp add: store_Authenticate_def secret_session_def Authenticate_def example_session_def example_user_def example_bearer)
  obtain auth where out: "Logout (\<lambda>t. t) ''secret'' 101 secret_session = Inr auth"
    by (simp add: Logout_def secret_session_def Let_def)
  have run: "endpoint example_server LogoutE cx logout_request (Captured 0 0 r, ?w) =
      (Returned, WriteHeader 204 (Captured 0 0 r), ?w\<lparr>sw_tick := 2, sw_auth := auth\<rparr>)" for cx r
    using hash out by (simp add: endpoint_def protected_def authenticate_def example_bearer server_now_def reading_def
        server_world_def logout_def with_identity_def run_auth_def)
  have "served (RequestID cx) {204} (\<lambda>_ _. True) ?w r (endpoint example_server LogoutE cx logout_request (Captured 0 0 r, ?w))"
    if "rp_Status r = 0" for cx r
  proof -
    have "filled 204 [] r (WriteHeader 204 (Captured 0 0 r))"
      using that by (simp add: filled_def write_header_def exI [of _ "rp_Header r"])
    then show ?thesis unfolding run served_def
      by (intro exI [of _ 204] exI [of _ "[]"]) (simp add: same_rest_def)
  qed
  then have served: "served (RequestID cx) {204} (\<lambda>_ _. True) ?w r
      (endpoint example_server (snd (routes ! 3)) cx logout_request (Captured 0 0 r, ?w))" if "rp_Status r = 0" for cx r
    using that by (simp add: example_endpoint)
  obtain resp w1 where "serve example_server example_mux logout_request ?w = (resp, w1)" and "rp_Status resp \<in> {204}"
    by (rule serve_endpoint [OF example_match example_bearer(3) _ served]) simp_all
  then show ?thesis by blast
qed

theorem http_refines_store_witness:
  "\<exists>resp w1. serve example_server example_mux logout_request (server_world secret_session) = (resp, w1) \<and> rp_Status resp = 204 \<and>
    effect example_server LogoutE example_user (server_world secret_session) w1 \<and> sw_db w1 = empty_db"
proof -
  obtain resp w1 where run: "serve example_server example_mux logout_request (server_world secret_session) = (resp, w1)"
    and st: "rp_Status resp = 204" using example_logout by blast
  obtain user where "effect example_server LogoutE user (server_world secret_session) w1"
    using http_refines_store [OF example_match example_endpoint(1) run] st example_endpoint(2) by auto
  then have e: "effect example_server LogoutE example_user (server_world secret_session) w1" by simp
  then have "sw_db w1 = empty_db" by (simp add: changes_sessions_def server_world_def)
  with run st e show ?thesis by auto
qed

theorem no_session_no_access_witness:
  "\<exists>resp w1. serve example_server example_mux logout_request (server_world \<lparr>a_users = [], a_sessions = []\<rparr>) = (resp, w1) \<and>
    rp_Status resp \<in> {401, 403} \<and> sw_auth w1 = \<lparr>a_users = [], a_sessions = []\<rparr>"
proof -
  let ?w = "server_world \<lparr>a_users = [], a_sessions = []\<rparr>"
  obtain resp w1 where run: "serve example_server example_mux logout_request ?w = (resp, w1)" by fastforce
  have "session_user logout_request (sw_now ?w n) (sw_auth ?w) = None" for n
    by (simp add: session_user_def example_bearer store_Authenticate_def server_world_def)
  from no_session_no_access [OF example_match example_endpoint(1) _ this run] run example_endpoint(2,3)
  show ?thesis by (auto simp: same_tables_def server_world_def)
qed


end
