(* ===== verification/Job_Frame.thy ===== *)
theory Job_Frame
  imports Workflow_Properties Outbox_Inv
begin

text \<open>
  The transactions of the workflow next to the worker of the outbox, which changes the rows of the jobs between them:
  a transaction does the same on tables that differ only in the state of their jobs. So what holds of every
  database that transactions reach alone also holds of the databases that they and the worker reach together.
\<close>

section \<open>Transactions do not look at the state of the jobs\<close>

definition job_key :: "Job \<Rightarrow> string \<times> string \<times> string \<times> string \<times> Time" where
  "job_key j = (j_ID j, j_TenantID j, j_Topic j, j_Payload j, j_CreatedAt j)"

lemma same_keys_ids:
  assumes "map job_key js = map job_key ks"
  shows "map j_ID js = map j_ID ks"
proof -
  have "map fst (map job_key js) = map fst (map job_key ks)" using assms by (rule arg_cong)
  then show ?thesis by (simp add: job_key_def comp_def)
qed

abbreviation with_jobs :: "Job list \<Rightarrow> DB \<Rightarrow> DB" where
  "with_jobs js db \<equiv> db\<lparr>t_jobs := js\<rparr>"

lemma bindR_map_sum: "bindR (map_sum id g r) f = bindR r (\<lambda>x. f (g x))"
  and map_sum_bindR: "map_sum id h (bindR r k) = bindR r (\<lambda>x. map_sum id h (k x))"
  and map_error_map_sum: "map_error m (map_sum id g r) = map_sum id g (map_error m r)"
  by (cases r; simp add: map_error_def)+

lemma readers_with_jobs:
  "getVoyageTx t v (with_jobs js db) = getVoyageTx t v db" "getInspectionTx i (with_jobs js db) = getInspectionTx i db"
  "listInspectionsTx v (with_jobs js db) = listInspectionsTx v db" "getReservationTx t r (with_jobs js db) = getReservationTx t r db"
  "listReservationsTx stored ch s e (with_jobs js db) = listReservationsTx stored ch s e db"
  by (simp_all add: getVoyageTx_def getInspectionTx_def listInspectionsTx_def getReservationTx_def listReservationsTx_def)

lemma insert_audit_with_jobs: "insert_audit stored event (with_jobs js db) = map_sum id (with_jobs js) (insert_audit stored event db)"
  by (simp add: insert_audit_def)

lemma writers_with_jobs:
  "insert_voyage stored voyage (with_jobs js db) = map_sum id (with_jobs js) (insert_voyage stored voyage db)"
  "insert_manifest manifest (with_jobs js db) = map_sum id (with_jobs js) (insert_manifest manifest db)"
  "insert_inspection stored inspection (with_jobs js db) = map_sum id (with_jobs js) (insert_inspection stored inspection db)"
  "saveVoyageTx stored voyage expected (with_jobs js db) = map_sum id (with_jobs js) (saveVoyageTx stored voyage expected db)"
  "insert_reservation stored r (with_jobs js db) = map_sum id (with_jobs js) (insert_reservation stored r db)"
  "update_reservation r expected (with_jobs js db) = map_sum id (with_jobs js) (update_reservation r expected db)"
  "insert_movement stored m (with_jobs js db) = map_sum id (with_jobs js) (insert_movement stored m db)"
  "appendAuditTx stored c (with_jobs js db) = map_sum id (with_jobs js) (appendAuditTx stored c db)"
  "update_inspection stored inspection (with_jobs js db) = with_jobs js (update_inspection stored inspection db)"
  by (simp_all add: insert_voyage_def insert_manifest_def insert_inspection_def saveVoyageTx_def insert_reservation_def update_reservation_def
      insert_movement_def appendAuditTx_def insert_audit_with_jobs update_inspection_def last_event_def Let_def map_sum_bindR split: option.splits)

text \<open>The transactions that insert no job do the same, whatever the jobs.\<close>

lemmas frame_rules = readers_with_jobs writers_with_jobs bindR_map_sum map_sum_bindR map_error_map_sum

lemma OpenInspection_with_jobs:
  "store_OpenInspection stored actor iid vid kind t (with_jobs js db) =
    map_sum id (map_prod id (with_jobs js)) (store_OpenInspection stored actor iid vid kind t db)"
  by (simp add: store_OpenInspection_def frame_rules case_prod_unfold)

lemma ReservePassage_with_jobs:
  "ReservePassage stored actor rid vid ch s e len beam draft t (with_jobs js db) =
    map_sum id (map_prod id (with_jobs js)) (ReservePassage stored actor rid vid ch s e len beam draft t db)"
  by (simp add: ReservePassage_def frame_rules if_distrib [of "map_sum id (map_prod id (with_jobs js))"] cong: if_cong)

lemma MovePassage_with_jobs:
  "MovePassage stored actor rid st t remark (with_jobs js db) =
    map_sum id (map_prod id (with_jobs js)) (MovePassage stored actor rid st t remark db)"
  by (simp add: MovePassage_def frame_rules case_prod_unfold)

text \<open>The other two insert one, if no job has its key.\<close>

lemma insert_job_with_jobs:
  assumes "insert_job stored jid tenant topic payload t db = Inr db1" and "map job_key js = map job_key (t_jobs db)"
  shows "\<exists>j. insert_job stored jid tenant topic payload t (with_jobs js db) = Inr (with_jobs (js @ [j]) db1) \<and> t_jobs db1 = t_jobs db @ [j]"
proof -
  have "j_ID ` set js = j_ID ` set (t_jobs db)" using same_keys_ids [OF assms(2)] by (metis set_map)
  with assms(1) show ?thesis by (auto simp: insert_job_def split: if_splits)
qed

definition enqueues :: "(Time \<Rightarrow> Time) \<Rightarrow> Job list \<Rightarrow> Job list \<Rightarrow> bool" where
  "enqueues stored jobs jobs1 \<longleftrightarrow>
    (\<exists>jid tenant topic payload t db db1. insert_job stored jid tenant topic payload t db = Inr db1 \<and> t_jobs db = jobs \<and> t_jobs db1 = jobs1)"

lemma writers_keep_jobs:
  "insert_voyage stored voyage db = Inr db1 \<Longrightarrow> t_jobs db1 = t_jobs db"
  "insert_manifest manifest db = Inr db1 \<Longrightarrow> t_jobs db1 = t_jobs db"
  "saveVoyageTx stored voyage expected db = Inr db1 \<Longrightarrow> t_jobs db1 = t_jobs db"
  "appendAuditTx stored c db = Inr db1 \<Longrightarrow> t_jobs db1 = t_jobs db"
  "t_jobs (update_inspection stored inspection db) = t_jobs db"
  by (auto simp: insert_voyage_def insert_manifest_def saveVoyageTx_def appendAuditTx_def insert_audit_def update_inspection_def Let_def
      bindR_Inr_iff split: if_splits)

lemma DeclareVoyage_with_jobs:
  assumes "store_DeclareVoyage stored actor q db = Inr (v, db1)" and "map job_key js = map job_key (t_jobs db)"
  shows "\<exists>j. store_DeclareVoyage stored actor q (with_jobs js db) = Inr (v, with_jobs (js @ [j]) db1) \<and> t_jobs db1 = t_jobs db @ [j] \<and>
    enqueues stored (t_jobs db) (t_jobs db1)"
proof -
  from assms(1) obtain draft manifest db2 db3 db4 c where
    pure: "NewVoyage (dr_ID q) (u_TenantID actor) (dr_VesselIMO q) (dr_VesselName q) (dr_OriginPort q) (dr_DestinationPort q) (dr_ETA q) = Inr draft"
      "BuildManifest (v_ID draft) (dr_Items q) = Inr manifest" "Declare draft manifest (dr_At q) (v_Version draft) = Inr v"
    and role: "(u_Role actor \<noteq> RoleCarrier \<and> u_Role actor \<noteq> RoleDispatcher) = False"
    and db2: "map_error mapConstraint (insert_voyage stored v db) = Inr db2" and db3: "insert_manifest manifest db2 = Inr db3"
    and db4: "appendAuditTx stored c db3 = Inr db4"
    and c: "c = audit_entry (''audit-declare-'' @ v_ID v) (v_TenantID v) (u_ID actor) ''voyage.declared'' ''voyage'' (v_ID v)
      [(''manifest_hash'', m_Hash manifest)] (dr_At q)"
    and job: "insert_job stored (''outbox-declare-'' @ v_ID v) (v_TenantID v) ''voyage.declared'' (status_payload v) (dr_At q) db4 = Inr db1"
    by (auto simp: store_DeclareVoyage_def bindR_Inr_iff split: if_splits)
  have "insert_voyage stored v db = Inr db2" using db2 by (auto simp: map_error_def split: sum.splits)
  then have jobs: "t_jobs db4 = t_jobs db" using db3 db4 writers_keep_jobs by metis
  obtain j where j: "insert_job stored (''outbox-declare-'' @ v_ID v) (v_TenantID v) ''voyage.declared'' (status_payload v) (dr_At q) (with_jobs js db4) =
      Inr (with_jobs (js @ [j]) db1)" "t_jobs db1 = t_jobs db4 @ [j]"
    using insert_job_with_jobs [OF job] assms(2) jobs by metis
  have "store_DeclareVoyage stored actor q (with_jobs js db) = Inr (v, with_jobs (js @ [j]) db1)"
    by (simp only: store_DeclareVoyage_def role if_False frame_rules pure bindR.simps db2 db3 c [symmetric] db4 j(1))
  with j(2) jobs job show ?thesis unfolding enqueues_def by metis
qed

lemma PassInspection_with_jobs:
  assumes "PassInspectionAndRelease stored actor iid finding t db = Inr (v, db1)" and "map job_key js = map job_key (t_jobs db)"
  shows "\<exists>j. PassInspectionAndRelease stored actor iid finding t (with_jobs js db) = Inr (v, with_jobs (js @ [j]) db1) \<and> t_jobs db1 = t_jobs db @ [j] \<and>
    enqueues stored (t_jobs db) (t_jobs db1)"
proof -
  from assms(1) obtain inspection0 voyage inspection db3 db4 c where
    role: "(u_Role actor \<noteq> RoleCustoms) = False" and pure: "getInspectionTx iid db = Inr inspection0"
      "getVoyageTx (u_TenantID actor) (i_VoyageID inspection0) db = Inr voyage"
      "CloseInspection inspection0 finding True t (i_Version inspection0) = Inr inspection"
      "Release voyage (listInspectionsTx (v_ID voyage) (update_inspection stored inspection db)) t (v_Version voyage) = Inr v"
    and db3: "saveVoyageTx stored v (v_Version voyage) (update_inspection stored inspection db) = Inr db3"
    and db4: "appendAuditTx stored c db3 = Inr db4"
    and c: "c = audit_entry (''audit-release-'' @ v_ID voyage) (u_TenantID actor) (u_ID actor) ''voyage.released'' ''voyage'' (v_ID voyage)
      [(''inspection'', i_ID inspection)] t"
    and job: "insert_job stored (''outbox-release-'' @ v_ID voyage) (v_TenantID voyage) ''voyage.released'' (status_payload v) t db4 = Inr db1"
    by (auto simp: PassInspectionAndRelease_def bindR_Inr_iff Let_def split: if_splits)
  have jobs: "t_jobs db4 = t_jobs db" using db3 db4 writers_keep_jobs by metis
  obtain j where j: "insert_job stored (''outbox-release-'' @ v_ID voyage) (v_TenantID voyage) ''voyage.released'' (status_payload v) t (with_jobs js db4) =
      Inr (with_jobs (js @ [j]) db1)" "t_jobs db1 = t_jobs db4 @ [j]"
    using insert_job_with_jobs [OF job] assms(2) jobs by metis
  have "PassInspectionAndRelease stored actor iid finding t (with_jobs js db) = Inr (v, with_jobs (js @ [j]) db1)"
    by (simp only: PassInspectionAndRelease_def Let_def role if_False frame_rules pure bindR.simps db3 c [symmetric] db4 j(1))
  with j(2) jobs job show ?thesis unfolding enqueues_def by metis
qed

section \<open>Reaching a database together\<close>

lemma with_jobs_same: "db1 = with_jobs js db1 \<Longrightarrow> t_jobs db1 = js"
  by (drule arg_cong [of _ _ t_jobs]) simp


text \<open>A database that transactions reach, but for the state of its jobs.\<close>

definition reach_jobs :: "(Time \<Rightarrow> Time) \<Rightarrow> (Time \<Rightarrow> bool) \<Rightarrow> DB \<Rightarrow> bool" where
  "reach_jobs stored P db \<longleftrightarrow> (\<exists>js. reach stored P (with_jobs js db) \<and> map job_key js = map job_key (t_jobs db))"

lemma db_step_with_jobs:
  assumes "db_step stored actor t db db1" and "map job_key js = map job_key (t_jobs db)"
  shows "\<exists>js1. db_step stored actor t (with_jobs js db) (with_jobs js1 db1) \<and> map job_key js1 = map job_key (t_jobs db1) \<and>
    (t_jobs db1 = t_jobs db \<or> enqueues stored (t_jobs db) (t_jobs db1))"
  using assms(1)
proof cases
  case (step_declare q v)
  from DeclareVoyage_with_jobs [OF this(2) assms(2)] obtain j where
    j: "store_DeclareVoyage stored actor q (with_jobs js db) = Inr (v, with_jobs (js @ [j]) db1)" "t_jobs db1 = t_jobs db @ [j]"
      "enqueues stored (t_jobs db) (t_jobs db1)" by blast
  with db_step.step_declare [OF j(1)] step_declare(1) assms(2) show ?thesis by (intro exI [of _ "js @ [j]"]) simp
next
  case (step_release iid finding v)
  from PassInspection_with_jobs [OF this assms(2)] obtain j where
    j: "PassInspectionAndRelease stored actor iid finding t (with_jobs js db) = Inr (v, with_jobs (js @ [j]) db1)" "t_jobs db1 = t_jobs db @ [j]"
      "enqueues stored (t_jobs db) (t_jobs db1)" by blast
  with db_step.step_release [OF j(1)] assms(2) show ?thesis by (intro exI [of _ "js @ [j]"]) simp
next
  case (step_open iid vid kind iv)
  have "store_OpenInspection stored actor iid vid kind t (with_jobs js db) = Inr (iv, with_jobs js db1)"
    using step_open by (simp add: OpenInspection_with_jobs)
  moreover have "t_jobs db1 = t_jobs db"
    by (rule with_jobs_same) (use OpenInspection_with_jobs [of stored actor iid vid kind t "t_jobs db" db] step_open in simp)
  ultimately show ?thesis using assms(2) by (intro exI [of _ js]) (auto intro: db_step.step_open)
next
  case (step_reserve rid vid ch s e len beam draft r)
  have "ReservePassage stored actor rid vid ch s e len beam draft t (with_jobs js db) = Inr (r, with_jobs js db1)"
    using step_reserve by (simp add: ReservePassage_with_jobs)
  moreover have "t_jobs db1 = t_jobs db"
    by (rule with_jobs_same) (use ReservePassage_with_jobs [of stored actor rid vid ch s e len beam draft t "t_jobs db" db] step_reserve in simp)
  ultimately show ?thesis using assms(2) by (intro exI [of _ js]) (auto intro: db_step.step_reserve)
next
  case (step_move rid st remark r)
  have "MovePassage stored actor rid st t remark (with_jobs js db) = Inr (r, with_jobs js db1)"
    using step_move by (simp add: MovePassage_with_jobs)
  moreover have "t_jobs db1 = t_jobs db"
    by (rule with_jobs_same) (use MovePassage_with_jobs [of stored actor rid st t remark "t_jobs db" db] step_move in simp)
  ultimately show ?thesis using assms(2) by (intro exI [of _ js]) (auto intro: db_step.step_move)
qed

lemma reach_jobs_empty: "reach_jobs stored P empty_db"
  unfolding reach_jobs_def by (intro exI [of _ "[]"]) (simp add: empty_db_def reach_empty [unfolded empty_db_def])

lemma reach_jobs_step:
  assumes "reach_jobs stored P db" and "db_step stored actor t db db1" and "P t"
  shows "reach_jobs stored P db1"
  using assms db_step_with_jobs [OF assms(2)] unfolding reach_jobs_def by (meson reach_step)

lemma reach_jobs_worker:
  assumes "reach_jobs stored P db" and "map job_key jobs1 = map job_key (t_jobs db)"
  shows "reach_jobs stored P (with_jobs jobs1 db)"
  using assms by (simp add: reach_jobs_def)

end
