(* ===== verification/Worker_Loops.thy ===== *)
theory Worker_Loops
  imports Outbox_Properties Session_Store
begin

text \<open>
  The loops around the rounds of the two workers, in \<^verbatim>\<open>internal/worker\<close>: \<^verbatim>\<open>Outbox.Run\<close>
  and \<^verbatim>\<open>SessionReaper.Run\<close>. What the \<^verbatim>\<open>select\<close> of a loop receives is a list of
  events, ticks of the ticker and at some point the end of the context; a loop whose list has run out is
  still waiting. The ticker is a parameter, from its interval to the events, so a loop says which interval it
  asks for. The theorems: the outbox worker settles every job, and the reaper deletes every session that was dead
  when it started, while nobody who signs in notices.
\<close>

section \<open>Events\<close>

datatype 'e event = Tick 'e | Cancelled error

text \<open>
  What a tick finds: the instant that the worker's \<^verbatim>\<open>Now\<close> gives it, whether the database
  answers, and what happened to the world meanwhile; a worker of the outbox also finds the rows that
  others hold locked.
\<close>

record tick =
  tk_Now :: Time
  tk_Database :: "unit result"

record 'w outbox_tick = tick +
  tk_Held :: "string list"
  tk_World :: "'w \<Rightarrow> 'w"

section \<open>The outbox worker\<close>

record 'w OutboxWorker =
  ob_HasDB :: bool
  ob_Publisher :: "'w publisher option"
  ob_Batch :: int
  ob_WorkerID :: string
  ob_Policy :: OutboxPolicy

text \<open>A round with the checks that come first; an unreachable database fails the claim, before anything changes.\<close>

definition outbox_RunOnce ::
    "(rat \<Rightarrow> rat) \<Rightarrow> (Time \<Rightarrow> Time) \<Rightarrow> string \<Rightarrow> 'w OutboxWorker \<Rightarrow> 'w outbox_tick \<Rightarrow> Job list \<times> 'w \<Rightarrow> unit result \<times> Job list \<times> 'w" where
  "outbox_RunOnce rnd stored process_id ob tk s =
    (let (jobs, w0) = s; w = tk_World tk w0 in
     if \<not> ob_HasDB ob \<or> ob_Publisher ob = None then (Inl (Plain ''outbox database and publisher are required''), jobs, w)
     else (case tk_Database tk of
         Inl e \<Rightarrow> (Inl e, jobs, w)
       | Inr _ \<Rightarrow> RunOnce rnd stored (ob_Publisher ob) (tk_Now tk) process_id (ob_WorkerID ob) (ob_Batch ob) (ob_Policy ob) (tk_Held tk) jobs w))"

text \<open>The loop: whether it has returned, and the state. The error of a round is dropped.\<close>

fun outbox_loop :: "('e \<Rightarrow> 's \<Rightarrow> 'a result \<times> 's) \<Rightarrow> 'e event list \<Rightarrow> 's \<Rightarrow> bool \<times> 's" where
  "outbox_loop once [] s = (False, s)"
| "outbox_loop once (Cancelled e # es) s = (True, s)"
| "outbox_loop once (Tick x # es) s = outbox_loop once es (snd (once x s))"

definition outbox_Run ::
    "(rat \<Rightarrow> rat) \<Rightarrow> (Time \<Rightarrow> Time) \<Rightarrow> string \<Rightarrow> 'w OutboxWorker \<Rightarrow> Duration \<Rightarrow> (Duration \<Rightarrow> 'w outbox_tick event list) \<Rightarrow> Job list \<times> 'w \<Rightarrow>
     bool \<times> Job list \<times> 'w" where
  "outbox_Run rnd stored process_id ob interval ticker s =
    outbox_loop (outbox_RunOnce rnd stored process_id ob) (ticker (if interval \<le> 0 then 2 * Second else interval)) s"

text \<open>The publisher of the server only looks at its context.\<close>

definition LogPublisher :: "('w \<Rightarrow> error option) \<Rightarrow> 'w publisher" where
  "LogPublisher ctx_Err w topic payload = (case ctx_Err w of Some e \<Rightarrow> (Inl e, w) | None \<Rightarrow> (Inr (), w))"

section \<open>The session reaper\<close>

record Reaper =
  sr_HasDB :: bool
  sr_Batch :: int
  sr_Retention :: Duration

definition reaper_round :: "(Time \<Rightarrow> Time) \<Rightarrow> Reaper \<Rightarrow> tick \<Rightarrow> AuthDB \<Rightarrow> int result \<times> AuthDB" where
  "reaper_round stored sr tk db =
    (if \<not> sr_HasDB sr then (Inl (Plain ''session reaper database is required''), db)
     else (case bindR (tk_Database tk) (\<lambda>_. reaper_RunOnce stored (sr_Retention sr) (sr_Batch sr) (tk_Now tk) db) of
         Inl e \<Rightarrow> (Inl e, db)
       | Inr (n, db1) \<Rightarrow> (Inr n, db1)))"

text \<open>The loop: the error it returned with, if it has returned; the error of a round ends it.\<close>

fun reaper_loop :: "('e \<Rightarrow> 's \<Rightarrow> 'a result \<times> 's) \<Rightarrow> 'e event list \<Rightarrow> 's \<Rightarrow> error option \<times> 's" where
  "reaper_loop once [] s = (None, s)"
| "reaper_loop once (Cancelled e # es) s = (Some e, s)"
| "reaper_loop once (Tick x # es) s =
    (case once x s of
       (Inl e, s1) \<Rightarrow> (Some e, s1)
     | (Inr _, s1) \<Rightarrow> reaper_loop once es s1)"

definition reaper_Run :: "(Time \<Rightarrow> Time) \<Rightarrow> Reaper \<Rightarrow> Duration \<Rightarrow> (Duration \<Rightarrow> tick event list) \<Rightarrow> AuthDB \<Rightarrow> error option \<times> AuthDB" where
  "reaper_Run stored sr interval ticker db =
    (if \<not> sr_HasDB sr then (Some (Plain ''session reaper database is required''), db)
     else reaper_loop (reaper_round stored sr) (ticker (if interval \<le> 0 then Hour else interval)) db)"

section \<open>The loop of the outbox is its rounds\<close>

text \<open>A publisher whose answers the world decides, and the ticks at which it is given new ones.\<close>

type_synonym publishing = "(string \<Rightarrow> string \<Rightarrow> unit result) \<times> (string \<times> string) list"

definition answering :: "publishing publisher" where
  "answering w topic payload = (fst w topic payload, (fst w, snd w @ [(topic, payload)]))"

definition answer_tick :: "Time \<times> (string \<Rightarrow> string \<Rightarrow> unit result) \<Rightarrow> publishing outbox_tick" where
  "answer_tick r = \<lparr>tk_Now = fst r, tk_Database = Inr (), tk_Held = [], tk_World = (\<lambda>w. (snd r, snd w))\<rparr>"

lemma publish_loop_answering:
  "publish_loop rnd stored answering now worker p cs jobs (answer, l) =
    (case publish_loop rnd stored (logging answer) now worker p cs jobs l of (r, jobs1, l1) \<Rightarrow> (r, jobs1, (answer, l1)))"
  by (induction cs arbitrary: jobs l) (simp_all add: answering_def logging_def split: sum.splits)

lemma RunOnce_answering:
  assumes "distinct (map j_ID jobs)"
  shows "\<exists>l1. snd (RunOnce rnd stored (Some answering) now process_id worker0 batch p held jobs (answer, l)) =
    (fst (snd (RunOnce rnd stored (Some (logging answer)) now process_id worker0 batch p held jobs [])), (answer, l1))"
proof -
  have "RunOnce rnd stored (Some answering) now process_id worker0 batch p held jobs (answer, l) =
      (case RunOnce rnd stored (Some (logging answer)) now process_id worker0 batch p held jobs l of (r, jobs1, l1) \<Rightarrow> (r, jobs1, (answer, l1)))"
    by (simp add: RunOnce_def Let_def publish_loop_answering split: prod.splits)
  then show ?thesis by (simp add: RunOnce_settles [OF assms])
qed

lemma RunOnce_keys:
  "distinct (map j_ID jobs) \<Longrightarrow> map j_ID (fst (snd (RunOnce rnd stored (Some (logging answer)) now pid worker batch p held jobs w))) = map j_ID jobs"
  by (simp add: RunOnce_settles settled_def keys_if del: map_map)

definition answering_worker :: "string \<Rightarrow> int \<Rightarrow> OutboxPolicy \<Rightarrow> publishing OutboxWorker" where
  "answering_worker worker batch p = \<lparr>ob_HasDB = True, ob_Publisher = Some answering, ob_Batch = batch, ob_WorkerID = worker, ob_Policy = p\<rparr>"

lemma outbox_loop_rounds:
  assumes "distinct (map j_ID jobs)"
  shows "\<exists>w. outbox_loop (outbox_RunOnce rnd stored pid (answering_worker worker batch p)) (map (\<lambda>r. Tick (answer_tick r)) rs) (jobs, w0) =
    (False, rounds rnd stored worker batch p rs jobs, w)"
  using assms
proof (induction rs arbitrary: jobs w0)
  case (Cons r rs)
  obtain now answer where r: "r = (now, answer)" by fastforce
  let ?jobs1 = "fst (snd (RunOnce rnd stored (Some (logging answer)) now worker worker batch p [] jobs []))"
  obtain l1 where "snd (RunOnce rnd stored (Some answering) now pid worker batch p [] jobs (answer, snd w0)) =
      (fst (snd (RunOnce rnd stored (Some (logging answer)) now pid worker batch p [] jobs [])), (answer, l1))"
    using RunOnce_answering [OF Cons.prems] by blast
  then have once: "snd (outbox_RunOnce rnd stored pid (answering_worker worker batch p) (answer_tick r) (jobs, w0)) = (?jobs1, (answer, l1))"
    by (simp add: outbox_RunOnce_def answering_worker_def answer_tick_def r RunOnce_settles [OF Cons.prems])
  have "distinct (map j_ID ?jobs1)" using RunOnce_keys [OF Cons.prems] Cons.prems by metis
  from Cons.IH [OF this] once show ?case by (simp add: r)
qed simp



section \<open>The reaper clears what was dead\<close>

definition dead_at :: "Time \<Rightarrow> Session \<Rightarrow> bool" where
  "dead_at cutoff s \<longleftrightarrow> s_ExpiresAt s < cutoff \<or> (case s_RevokedAt s of None \<Rightarrow> False | Some r \<Rightarrow> r < cutoff)"

lemma dead_at_mono: "dead_at c s \<Longrightarrow> c \<le> d \<Longrightarrow> dead_at d s"
  by (auto simp: dead_at_def split: option.splits)

definition dead_count :: "Time \<Rightarrow> AuthDB \<Rightarrow> nat" where
  "dead_count cutoff db = length (filter (dead_at cutoff) (a_sessions db))"

definition reaper_retention :: "Reaper \<Rightarrow> Duration" where
  "reaper_retention sr = (if sr_Retention sr \<le> 0 then 30 * 24 * Hour else sr_Retention sr)"

definition reaper_cutoff :: "(Time \<Rightarrow> Time) \<Rightarrow> Reaper \<Rightarrow> Time \<Rightarrow> Time" where
  "reaper_cutoff stored sr now = stored (now - reaper_retention sr)"

definition reaper_batch :: "Reaper \<Rightarrow> nat" where
  "reaper_batch sr = nat (if sr_Batch sr \<le> 0 then 500 else sr_Batch sr)"

lemma reaper_RunOnce_deletes:
  assumes "now \<noteq> reaper_retention sr"
  obtains n db1 where "reaper_RunOnce stored (sr_Retention sr) (sr_Batch sr) now db = Inr (n, db1)"
    and "DeleteExpiredSessions stored (now - reaper_retention sr) (if sr_Batch sr \<le> 0 then 500 else sr_Batch sr) db = Inr (n, db1)"
proof -
  have "now - reaper_retention sr \<noteq> 0" using assms by simp
  then obtain n db1 where del: "DeleteExpiredSessions stored (now - reaper_retention sr) (if sr_Batch sr \<le> 0 then 500 else sr_Batch sr) db = Inr (n, db1)"
    by (auto simp: DeleteExpiredSessions_def Let_def)
  then show thesis using that by (simp add: reaper_RunOnce_def Let_def reaper_retention_def)
qed

text \<open>A round deletes a batch of the dead, or all of them, and nothing else.\<close>

lemma length_filter_keys:
  assumes "distinct (map k xs)" and "set ys \<subseteq> set xs" and "distinct (map k ys)"
  shows "length (filter (\<lambda>x. k x \<in> k ` set ys) xs) = length ys"
proof -
  have same: "x \<in> set ys" if "x \<in> set xs" "k x \<in> k ` set ys" for x
    using assms(1,2) that by (metis distinct_map image_iff inj_on_eq_iff subsetD)
  have "set (filter (\<lambda>x. k x \<in> k ` set ys) xs) = set ys" using assms(2) same by auto
  moreover have "distinct xs" "distinct ys" using assms(1,3) by (simp_all add: distinct_map)
  ultimately show ?thesis by (metis distinct_card distinct_filter)
qed

lemma DeleteExpiredSessions_progress:
  assumes "auth_ok db" and "DeleteExpiredSessions stored before limit db = Inr (n, db1)" and "0 < limit"
  shows "\<exists>P. db1 = db\<lparr>a_sessions := filter P (a_sessions db)\<rparr> \<and> (\<forall>s\<in>set (a_sessions db). \<not> P s \<longrightarrow> dead_at (stored before) s) \<and>
    length (filter (\<lambda>s. \<not> P s) (a_sessions db)) = min (nat limit) (dead_count (stored before) db)"
proof -
  define dead where "dead = filter (dead_at (stored before)) (a_sessions db)"
  define gone where "gone = take (nat limit) (sort_slice (lex2 s_ExpiresAt s_ID) dead)"
  have db1: "db1 = db\<lparr>a_sessions := filter (\<lambda>s. s_ID s \<notin> s_ID ` set gone) (a_sessions db)\<rparr>"
    using assms(2,3) unfolding DeleteExpiredSessions_def Let_def gone_def dead_def dead_at_def [abs_def]
    by (simp split: if_splits)
  have sub: "set gone \<subseteq> set dead" "set dead \<subseteq> set (a_sessions db)" unfolding gone_def dead_def using set_take_subset by fastforce+
  have ids: "distinct (map s_ID (a_sessions db))" using assms(1) by (simp add: auth_ok_def)
  then have "distinct (map s_ID dead)" unfolding dead_def by (rule distinct_map_filter)
  then have "distinct (map s_ID (sort_slice (lex2 s_ExpiresAt s_ID) dead))"
    by (metis distinct_map distinct_sort_slice set_sort_slice)
  then have gone: "distinct (map s_ID gone)" unfolding gone_def by (metis distinct_take take_map)
  have "length (filter (\<lambda>s. s_ID s \<in> s_ID ` set gone) (a_sessions db)) = length gone"
    by (rule length_filter_keys [OF ids order_trans [OF sub] gone])
  also have "\<dots> = min (nat limit) (dead_count (stored before) db)" by (simp add: gone_def dead_def dead_count_def min_def)
  finally have count: "length (filter (\<lambda>s. \<not> s_ID s \<notin> s_ID ` set gone) (a_sessions db)) = min (nat limit) (dead_count (stored before) db)" by simp
  have "dead_at (stored before) s" if "s \<in> set (a_sessions db)" "s_ID s \<in> s_ID ` set gone" for s
  proof -
    obtain d where "d \<in> set gone" "s_ID d = s_ID s" using \<open>s_ID s \<in> s_ID ` set gone\<close> by auto
    moreover from this have "d = s" using ids sub that(1) by (metis distinct_map inj_on_eq_iff subsetD)
    ultimately show ?thesis using sub(1) by (auto simp: dead_def)
  qed
  with db1 count show ?thesis by (intro exI [of _ "\<lambda>s. s_ID s \<notin> s_ID ` set gone"]) auto
qed

lemma dead_count_filter:
  assumes "\<forall>s\<in>set (a_sessions db). \<not> P s \<longrightarrow> dead_at c s"
  shows "dead_count c (db\<lparr>a_sessions := filter P (a_sessions db)\<rparr>) = dead_count c db - length (filter (\<lambda>s. \<not> P s) (a_sessions db))"
proof -
  have "length (filter (dead_at c) xs) = length (filter (dead_at c) (filter P xs)) + length (filter (\<lambda>s. \<not> P s) xs)"
    if "\<forall>s\<in>set xs. \<not> P s \<longrightarrow> dead_at c s" for xs using that by (induction xs) auto
  from this [OF assms] show ?thesis by (simp add: dead_count_def)
qed

lemma dead_count_mono: "c \<le> d \<Longrightarrow> dead_count c db \<le> dead_count d db"
proof -
  assume "c \<le> d"
  then have "length (filter (dead_at c) xs) \<le> length (filter (dead_at d) xs)" for xs
    by (induction xs) (auto dest: dead_at_mono)
  then show ?thesis by (simp add: dead_count_def)
qed

lemma dead_count_filter_le: "dead_count c (db\<lparr>a_sessions := filter P (a_sessions db)\<rparr>) \<le> dead_count c db"
proof -
  have "length (filter Q (filter P xs)) \<le> length (filter Q xs)" for Q xs by (induction xs) simp_all
  then show ?thesis by (simp add: dead_count_def)
qed

lemma reaper_round_progress:
  assumes "auth_ok db" and "sr_HasDB sr" and "now \<noteq> reaper_retention sr"
    and "c0 \<le> reaper_cutoff stored sr now" and "reaper_cutoff stored sr now \<le> c1"
  shows "\<exists>n db1. reaper_RunOnce stored (sr_Retention sr) (sr_Batch sr) now db = Inr (n, db1) \<and>
    reaper_round stored sr \<lparr>tk_Now = now, tk_Database = Inr ()\<rparr> db = (Inr n, db1) \<and> auth_ok db1 \<and>
    (dead_count c1 db1 \<le> dead_count c1 db - reaper_batch sr \<or> dead_count c0 db1 = 0) \<and> dead_count c0 db1 \<le> dead_count c0 db"
proof -
  let ?cut = "reaper_cutoff stored sr now"
  obtain n db1 where once: "reaper_RunOnce stored (sr_Retention sr) (sr_Batch sr) now db = Inr (n, db1)"
    and del: "DeleteExpiredSessions stored (now - reaper_retention sr) (if sr_Batch sr \<le> 0 then 500 else sr_Batch sr) db = Inr (n, db1)"
    by (rule reaper_RunOnce_deletes [OF assms(3)])
  have "0 < (if sr_Batch sr \<le> 0 then 500 else sr_Batch sr)" by simp
  from DeleteExpiredSessions_progress [OF assms(1) del this]
  obtain P where db1: "db1 = db\<lparr>a_sessions := filter P (a_sessions db)\<rparr>" and dead: "\<forall>s\<in>set (a_sessions db). \<not> P s \<longrightarrow> dead_at ?cut s"
    and gone: "length (filter (\<lambda>s. \<not> P s) (a_sessions db)) = min (reaper_batch sr) (dead_count ?cut db)"
    unfolding reaper_cutoff_def reaper_batch_def by blast
  have dead1: "\<forall>s\<in>set (a_sessions db). \<not> P s \<longrightarrow> dead_at c1 s" using dead dead_at_mono [OF _ assms(5)] by blast
  have "dead_count c1 db1 \<le> dead_count c1 db - reaper_batch sr \<or> dead_count c0 db1 = 0"
  proof (cases "reaper_batch sr \<le> dead_count ?cut db")
    case True
    with dead_count_filter [OF dead1] gone show ?thesis unfolding db1 by simp
  next
    case False
    with dead_count_filter [OF dead] gone have "dead_count ?cut db1 = 0" unfolding db1 by simp
    with dead_count_mono [OF assms(4), of db1] show ?thesis by simp
  qed
  moreover have "auth_ok db1" unfolding db1 by (rule auth_ok_filter [OF assms(1)])
  ultimately show ?thesis using once assms(2) dead_count_filter_le [of c0 P db]
    by (intro exI [of _ n] exI [of _ db1]) (simp add: reaper_round_def db1)
qed

lemma reaper_loop_clears:
  assumes "auth_ok db" and "sr_HasDB sr"
    and "\<forall>now\<in>set nows. now \<noteq> reaper_retention sr \<and>
      c0 \<le> reaper_cutoff stored sr now \<and> reaper_cutoff stored sr now \<le> c1"
  shows "\<exists>db1. reaper_loop (reaper_round stored sr) (map (\<lambda>now. Tick \<lparr>tk_Now = now, tk_Database = Inr ()\<rparr>) nows @ es) db =
      reaper_loop (reaper_round stored sr) es db1 \<and> auth_ok db1 \<and> a_users db1 = a_users db \<and>
    (\<forall>t token u s. c1 \<le> t \<longrightarrow> (store_Authenticate token t db1 = Inr (u, s) \<longleftrightarrow> store_Authenticate token t db = Inr (u, s))) \<and>
    (dead_count c1 db \<le> length nows * reaper_batch sr \<or> dead_count c0 db = 0 \<longrightarrow> c0 \<le> c1 \<longrightarrow> dead_count c0 db1 = 0)"
  using assms(1,3)
proof (induction nows arbitrary: db)
  case Nil
  then show ?case using dead_count_mono [of c0 c1 db] by (intro exI [of _ db]) auto
next
  case (Cons now nows)
  let ?t = "\<lparr>tk_Now = now, tk_Database = Inr ()\<rparr>"
  have cut: "now \<noteq> reaper_retention sr" "c0 \<le> reaper_cutoff stored sr now"
    "reaper_cutoff stored sr now \<le> c1" using Cons.prems(2) by simp_all
  obtain n db2 where once: "reaper_RunOnce stored (sr_Retention sr) (sr_Batch sr) now db = Inr (n, db2)"
    and step: "reaper_round stored sr ?t db = (Inr n, db2)" and ok: "auth_ok db2"
    and less: "dead_count c1 db2 \<le> dead_count c1 db - reaper_batch sr \<or> dead_count c0 db2 = 0" "dead_count c0 db2 \<le> dead_count c0 db"
    using reaper_round_progress [OF Cons.prems(1) assms(2) cut] by blast
  have same: "a_users db2 = a_users db" "\<forall>t token u s. c1 \<le> t \<longrightarrow>
      (store_Authenticate token t db2 = Inr (u, s) \<longleftrightarrow> store_Authenticate token t db = Inr (u, s))"
    using reaper_is_not_noticed [OF Cons.prems(1) once] cut(3) [unfolded reaper_cutoff_def reaper_retention_def] by (simp, meson order_trans)
  obtain db1 where db1: "reaper_loop (reaper_round stored sr) (map (\<lambda>now. Tick \<lparr>tk_Now = now, tk_Database = Inr ()\<rparr>) nows @ es) db2 =
      reaper_loop (reaper_round stored sr) es db1" "auth_ok db1" "a_users db1 = a_users db2"
    "\<forall>t token u s. c1 \<le> t \<longrightarrow> (store_Authenticate token t db1 = Inr (u, s) \<longleftrightarrow> store_Authenticate token t db2 = Inr (u, s))"
    "dead_count c1 db2 \<le> length nows * reaper_batch sr \<or> dead_count c0 db2 = 0 \<longrightarrow> c0 \<le> c1 \<longrightarrow> dead_count c0 db1 = 0"
    using Cons.IH [OF ok] Cons.prems(2) by auto
  have cleared: "dead_count c1 db \<le> length (now # nows) * reaper_batch sr \<or> dead_count c0 db = 0 \<longrightarrow> c0 \<le> c1 \<longrightarrow> dead_count c0 db1 = 0"
  proof (intro impI)
    assume "dead_count c1 db \<le> length (now # nows) * reaper_batch sr \<or> dead_count c0 db = 0" and le: "c0 \<le> c1"
    then have "dead_count c1 db2 \<le> length nows * reaper_batch sr \<or> dead_count c0 db2 = 0" using less by auto
    from mp [OF mp [OF db1(5) this] le] show "dead_count c0 db1 = 0" .
  qed
  show ?case
  proof (intro exI conjI)
    show "reaper_loop (reaper_round stored sr) (map (\<lambda>now. Tick \<lparr>tk_Now = now, tk_Database = Inr ()\<rparr>) (now # nows) @ es) db =
        reaper_loop (reaper_round stored sr) es db1" using step db1(1) by simp
    show "a_users db1 = a_users db" using db1(3) same(1) by simp
    show "\<forall>t token u s. c1 \<le> t \<longrightarrow> (store_Authenticate token t db1 = Inr (u, s) \<longleftrightarrow> store_Authenticate token t db = Inr (u, s))"
      using db1(4) same(2) by simp
  qed (rule db1(2), rule cleared)
qed

text \<open>
  C39: The reaper does its work and nobody notices. While the database answers, its loop runs on until its context is
  cancelled and returns that error; the users stay, the tables stay well formed, and a token authenticates the same
  user with the same session as without the reaper, at every instant from the cutoff of the last round on; and
  when the rounds have had room for every session that is dead by that cutoff, no session that was dead
  at the first one is left. An error of the database, however, ends the loop for good.
\<close>

theorem reaper_clears_unnoticed:
  assumes "auth_ok db" and "sr_HasDB sr" and "mono stored" and "sorted nows" and "nows \<noteq> []"
    and "\<forall>now\<in>set nows. now \<noteq> reaper_retention sr"
    and "ticker (if interval \<le> 0 then Hour else interval) = map (\<lambda>now. Tick \<lparr>tk_Now = now, tk_Database = Inr ()\<rparr>) nows @ es"
  shows "\<exists>db1. auth_ok db1 \<and> a_users db1 = a_users db \<and>
    (\<forall>t token u s. reaper_cutoff stored sr (last nows) \<le> t \<longrightarrow>
      (store_Authenticate token t db1 = Inr (u, s) \<longleftrightarrow> store_Authenticate token t db = Inr (u, s))) \<and>
    (dead_count (reaper_cutoff stored sr (last nows)) db \<le> length nows * reaper_batch sr \<longrightarrow>
      dead_count (reaper_cutoff stored sr (hd nows)) db1 = 0) \<and>
    (es = [] \<longrightarrow> reaper_Run stored sr interval ticker db = (None, db1)) \<and>
    (\<forall>e rest. es = Cancelled e # rest \<longrightarrow> reaper_Run stored sr interval ticker db = (Some e, db1)) \<and>
    (\<forall>now e rest. es = Tick \<lparr>tk_Now = now, tk_Database = Inl e\<rparr> # rest \<longrightarrow> reaper_Run stored sr interval ticker db = (Some e, db1))"
proof -
  have "hd nows \<le> now \<and> now \<le> last nows" if "now \<in> set nows" for now
    using that assms(4) by (induction nows) (auto simp: sorted_append)
  then have between: "\<forall>now\<in>set nows. now \<noteq> reaper_retention sr \<and> reaper_cutoff stored sr (hd nows) \<le> reaper_cutoff stored sr now \<and>
      reaper_cutoff stored sr now \<le> reaper_cutoff stored sr (last nows)"
    using assms(6) by (auto simp: reaper_cutoff_def intro!: monoD [OF assms(3)])
  have "reaper_cutoff stored sr (hd nows) \<le> reaper_cutoff stored sr (last nows)" using between assms(5) last_in_set by blast
  moreover obtain db1 where "reaper_loop (reaper_round stored sr) (map (\<lambda>now. Tick \<lparr>tk_Now = now, tk_Database = Inr ()\<rparr>) nows @ es) db =
      reaper_loop (reaper_round stored sr) es db1" "auth_ok db1" "a_users db1 = a_users db"
    "\<forall>t token u s. reaper_cutoff stored sr (last nows) \<le> t \<longrightarrow> (store_Authenticate token t db1 = Inr (u, s) \<longleftrightarrow> store_Authenticate token t db = Inr (u, s))"
    "dead_count (reaper_cutoff stored sr (last nows)) db \<le> length nows * reaper_batch sr \<or> dead_count (reaper_cutoff stored sr (hd nows)) db = 0 \<longrightarrow>
      reaper_cutoff stored sr (hd nows) \<le> reaper_cutoff stored sr (last nows) \<longrightarrow> dead_count (reaper_cutoff stored sr (hd nows)) db1 = 0"
    using reaper_loop_clears [OF assms(1,2) between, of es] by (elim exE conjE) (rule that)
  ultimately show ?thesis
    by (intro exI [of _ db1]) (auto simp: reaper_Run_def assms(2,7) reaper_round_def)
qed

theorem reaper_clears_unnoticed_witness:
  "\<exists>db1. reaper_Run (\<lambda>t. t) \<lparr>sr_HasDB = True, sr_Batch = 0, sr_Retention = 0\<rparr> Hour
      (\<lambda>i. [Tick \<lparr>tk_Now = 60 * 24 * Hour, tk_Database = Inr ()\<rparr>, Cancelled ContextCanceled]) example_sessions = (Some ContextCanceled, db1) \<and>
    dead_count (30 * 24 * Hour) db1 = 0 \<and> dead_count (30 * 24 * Hour) example_sessions = 1"
proof -
  let ?sr = "\<lparr>sr_HasDB = True, sr_Batch = 0, sr_Retention = 0\<rparr>"
  have one: "dead_count (30 * 24 * Hour) example_sessions = 1"
    by (simp add: dead_count_def example_sessions_def example_session_def dead_at_def)
  have "\<forall>now\<in>set [60 * 24 * Hour]. now \<noteq> reaper_retention ?sr" by (simp add: reaper_retention_def)
  moreover have "mono (\<lambda>t :: Time. t)" by (simp add: mono_def)
  ultimately show ?thesis
    using reaper_clears_unnoticed [of example_sessions ?sr "\<lambda>t. t" "[60 * 24 * Hour]"
        "\<lambda>i. [Tick \<lparr>tk_Now = 60 * 24 * Hour, tk_Database = Inr ()\<rparr>, Cancelled ContextCanceled]" Hour "[Cancelled ContextCanceled]"]
      example_sessions_ok one by (auto simp: reaper_cutoff_def reaper_batch_def reaper_retention_def)
qed

end
