(* ===== verification/Config.thy ===== *)
theory Config
  imports Http_Codec Url Session_Store
begin

text \<open>
  \<^verbatim>\<open>internal/config\<close>: reading the configuration from the environment and validating it, with
  what it uses of the standard library: \<^verbatim>\<open>time.ParseDuration\<close>
  and \<^verbatim>\<open>net.SplitHostPort\<close>; \<^verbatim>\<open>url.Parse\<close> is in \<open>Url\<close>.
  The environment is a function. The theorem: whatever it holds, a configuration that loads is within its bounds.
\<close>

section \<open>Durations\<close>

definition unit_value :: "string \<Rightarrow> int option" where
  "unit_value = map_of [(''ns'', 1), (''us'', 1000), ([CHR 0xC2, CHR 0xB5, CHR ''s''], 1000), ([CHR 0xCE, CHR 0xBC, CHR ''s''], 1000),
    (''ms'', 1000000), (''s'', 1000000000), (''m'', 60 * 1000000000), (''h'', 3600 * 1000000000)]"

text \<open>The digits of a fraction, up to where they would overflow, and their scale.\<close>

fun leading_fraction :: "string \<Rightarrow> int \<Rightarrow> int \<Rightarrow> int \<times> int" where
  "leading_fraction [] x scale = (x, scale)"
| "leading_fraction (c # s) x scale =
    (let y = 10 * x + int (digit_value c)
     in if (2 ^ 63 - 1) div 10 < x \<or> 2 ^ 63 < y then (x, scale) else leading_fraction s y (10 * scale))"

definition f64_value :: "rat \<Rightarrow> rat" where
  "f64_value x = (case round64 x of Fin y \<Rightarrow> y | _ \<Rightarrow> 0)"

text \<open>\<^verbatim>\<open>uint64(float64(f) * (float64(unit) / scale))\<close>\<close>

definition fraction_value :: "int \<Rightarrow> int \<Rightarrow> int \<Rightarrow> int" where
  "fraction_value f scale unit = \<lfloor>f64_value (f64_value (of_int f) * f64_value (of_int unit / of_int scale))\<rfloor>"

definition unit_char :: "char \<Rightarrow> bool" where
  "unit_char c \<longleftrightarrow> c \<noteq> CHR ''.'' \<and> \<not> is_digit c"

text \<open>A number with its unit, at the start of a text, and the rest.\<close>

definition parse_segment :: "string \<Rightarrow> (int \<times> string) option" where
  "parse_segment s =
    (let whole = takeWhile is_digit s; s1 = dropWhile is_digit s;
         point = (s1 \<noteq> [] \<and> hd s1 = CHR ''.'');
         digits = (if point then takeWhile is_digit (tl s1) else []);
         s2 = (if point then dropWhile is_digit (tl s1) else s1);
         v = int (read_nat whole); (f, scale) = leading_fraction digits 0 1;
         unit = takeWhile unit_char s2; rest = dropWhile unit_char s2
     in if 2 ^ 63 < v \<or> whole = [] \<and> digits = [] \<or> unit = [] then None
        else (case unit_value unit of
            None \<Rightarrow> None
          | Some u \<Rightarrow>
              if 2 ^ 63 div u < v then None
              else
                let v1 = v * u + (if 0 < f then fraction_value f scale u else 0)
                in if 2 ^ 63 < v1 then None else Some (v1, rest)))"

lemma parse_segment_shorter: "parse_segment s = Some (v, r) \<Longrightarrow> length r < length s"
proof -
  assume "parse_segment s = Some (v, r)"
  then obtain s2 where r: "r = dropWhile unit_char s2" and unit: "takeWhile unit_char s2 \<noteq> []"
    and s2: "s2 = dropWhile is_digit s \<or> s2 = dropWhile is_digit (tl (dropWhile is_digit s))"
    by (auto simp: parse_segment_def Let_def split: prod.splits option.splits if_splits)
  have "length s2 = length (takeWhile unit_char s2) + length r"
    using r by (metis length_append takeWhile_dropWhile_id)
  moreover have "length (takeWhile unit_char s2) \<noteq> 0" using unit by simp
  moreover have "length s2 \<le> length s"
    using s2 length_dropWhile_le [of is_digit s] length_dropWhile_le [of is_digit "tl (dropWhile is_digit s)"] by auto
  ultimately show ?thesis by linarith
qed

function parse_segments :: "string \<Rightarrow> int \<Rightarrow> int option" where
  "parse_segments s d =
    (if s = [] then Some d
     else (case parse_segment s of
         None \<Rightarrow> None
       | Some (v, r) \<Rightarrow> if 2 ^ 63 < d + v then None else parse_segments r (d + v)))"
  by pat_completeness auto
termination
  by (relation "measure (length \<circ> fst)") (auto dest: parse_segment_shorter)

declare parse_segments.simps [simp del]

definition ParseDuration :: "string \<Rightarrow> Duration option" where
  "ParseDuration s =
    (let neg = (s \<noteq> [] \<and> hd s = CHR ''-''); s1 = (if s \<noteq> [] \<and> (hd s = CHR ''-'' \<or> hd s = CHR ''+'') then tl s else s)
     in if s1 = ''0'' then Some 0
        else if s1 = [] then None
        else (case parse_segments s1 0 of
            None \<Rightarrow> None
          | Some d \<Rightarrow> if neg then Some (- d) else if max_int64 < d then None else Some d))"

section \<open>Addresses\<close>

definition SplitHostPort :: "string \<Rightarrow> (string \<times> string) option" where
  "SplitHostPort s =
    (if CHR '':'' \<notin> set s then None
     else
       let (before, port) = last_colon s
       in if hd s = CHR ''[''
          then
            (let host = takeWhile (\<lambda>c. c \<noteq> CHR '']'') s
             in if before \<noteq> host @ '']'' \<or> CHR ''['' \<in> set (tl s) \<or> CHR '']'' \<in> set port then None
                else Some (tl host, port))
          else if CHR '':'' \<in> set before \<or> CHR ''['' \<in> set s \<or> CHR '']'' \<in> set s then None
          else Some (before, port))"

section \<open>The configuration\<close>

record Config =
  cfg_DatabaseURL :: string
  cfg_HTTPAddr :: string
  cfg_SessionTTL :: Duration
  cfg_WorkerEvery :: Duration

definition config_Validate :: "Config \<Rightarrow> unit result" where
  "config_Validate cfg =
    (if (case url_Parse (cfg_DatabaseURL cfg) of
          None \<Rightarrow> True
        | Some (scheme, host, path) \<Rightarrow> scheme \<noteq> ''postgres'' \<and> scheme \<noteq> ''postgresql'' \<or> host = [] \<or> path \<in> {[], ''/''})
     then Inl (Plain ''DATABASE_URL must identify a PostgreSQL database'')
     else if cfg_HTTPAddr cfg = [] then Inl (Plain ''HTTP address is required'')
     else if (case SplitHostPort (cfg_HTTPAddr cfg) of None \<Rightarrow> True | Some (host, port) \<Rightarrow> port = [])
     then Inl (Plain ''HTTP address must include a port'')
     else if cfg_SessionTTL cfg < 5 * Minute \<or> 24 * Hour < cfg_SessionTTL cfg
     then Inl (Plain ''session TTL must be between 5m and 24h'')
     else refuse_if (cfg_WorkerEvery cfg < 100 * Millisecond \<or> Hour < cfg_WorkerEvery cfg)
       (Plain ''worker interval must be between 100ms and 1h''))"

definition env :: "(string \<Rightarrow> string) \<Rightarrow> string \<Rightarrow> string \<Rightarrow> string" where
  "env getenv key fallback = (if getenv key \<noteq> [] then getenv key else fallback)"

definition duration_of :: "(string \<Rightarrow> string) \<Rightarrow> string \<Rightarrow> Duration \<Rightarrow> Duration" where
  "duration_of getenv key fallback =
    (if getenv key = [] then fallback
     else (case ParseDuration (getenv key) of None \<Rightarrow> fallback | Some d \<Rightarrow> if d \<le> 0 then fallback else d))"

definition Load :: "(string \<Rightarrow> string) \<Rightarrow> Config result" where
  "Load getenv =
    (let cfg = \<lparr>cfg_DatabaseURL = getenv ''DATABASE_URL'', cfg_HTTPAddr = env getenv ''CANALCLEAR_ADDR'' '':8080'',
       cfg_SessionTTL = duration_of getenv ''CANALCLEAR_SESSION_TTL'' (8 * Hour),
       cfg_WorkerEvery = duration_of getenv ''CANALCLEAR_WORKER_EVERY'' (2 * Second)\<rparr>
     in if cfg_DatabaseURL cfg = [] then Inl (Plain ''DATABASE_URL is required'')
        else bindR (config_Validate cfg) (\<lambda>_. Inr cfg))"

section \<open>A configuration that loads\<close>

lemma Load_D:
  assumes "Load getenv = Inr cfg"
  shows "5 * Minute \<le> cfg_SessionTTL cfg" "cfg_SessionTTL cfg \<le> 24 * Hour" "100 * Millisecond \<le> cfg_WorkerEvery cfg"
    "cfg_WorkerEvery cfg \<le> Hour" "\<exists>host port. SplitHostPort (cfg_HTTPAddr cfg) = Some (host, port) \<and> port \<noteq> []"
    "\<exists>scheme host path. url_Parse (cfg_DatabaseURL cfg) = Some (scheme, host, path) \<and> scheme \<in> {''postgres'', ''postgresql''} \<and> host \<noteq> []"
  using assms by (auto simp: Load_def config_Validate_def Let_def bindR_Inr_iff split: if_splits option.splits)

text \<open>A duration that does not parse, or is not positive, is the default without a word.\<close>

lemma malformed_duration_is_default:
  "ParseDuration v = None \<or> (\<exists>d. ParseDuration v = Some d \<and> d \<le> 0) \<Longrightarrow> v \<noteq> [] \<Longrightarrow>
    duration_of (getenv(key := v)) key fallback = fallback"
  by (auto simp: duration_of_def)

lemma duration_examples:
  "ParseDuration ''1h30m'' = Some (90 * Minute)" "ParseDuration ''-5m'' = Some (- (5 * Minute))" "ParseDuration ''8hours'' = None"
  "ParseDuration ''100ms'' = Some (100 * Millisecond)"
  by code_simp+

text \<open>
  Whatever the environment holds, the server that starts with it is within its bounds: a session it opens
  authenticates its user for at least five minutes and never after a day; the worker runs at an interval
  between 100 milliseconds and an hour; and the address it listens on has a port.
\<close>

theorem configured_server_is_bounded:
  assumes "Load getenv = Inr cfg" and "NewSession user now (cfg_SessionTTL cfg) token_bytes id_bytes = Inr (s, token)"
  shows "(t < now + 5 * Minute \<longrightarrow> Authenticate s user token t = Inr ()) \<and>
    (now + 24 * Hour \<le> t \<longrightarrow> Authenticate s user token t = Inl (Sentinel ErrExpired)) \<and>
    100 * Millisecond \<le> cfg_WorkerEvery cfg \<and> cfg_WorkerEvery cfg \<le> Hour \<and>
    (\<exists>host port. SplitHostPort (cfg_HTTPAddr cfg) = Some (host, port) \<and> port \<noteq> [])"
proof (rule conj5I)
  note N = NewSession_D [OF assms(2)] and L = Load_D [OF assms(1)]
  have auth: "Authenticate s user token t = (if t < now + cfg_SessionTTL cfg then Inr () else Inl (Sentinel ErrExpired))" for t
    using N by (simp add: Authenticate_def)
  show "t < now + 5 * Minute \<longrightarrow> Authenticate s user token t = Inr ()"
    and "now + 24 * Hour \<le> t \<longrightarrow> Authenticate s user token t = Inl (Sentinel ErrExpired)"
    using L(1,2) by (auto simp: auth)
qed (use Load_D [OF assms(1)] in simp_all)

definition example_env :: "string \<Rightarrow> string" where
  "example_env = (\<lambda>_. [])(''DATABASE_URL'' := ''postgres://canal:secret@db:5432/canalclear?sslmode=disable'', ''CANALCLEAR_SESSION_TTL'' := ''1h30m'')"

lemma example_env_loads: "Load example_env = Inr \<lparr>cfg_DatabaseURL = ''postgres://canal:secret@db:5432/canalclear?sslmode=disable'',
    cfg_HTTPAddr = '':8080'', cfg_SessionTTL = 90 * Minute, cfg_WorkerEvery = 2 * Second\<rparr>"
proof -
  have "config_Validate \<lparr>cfg_DatabaseURL = ''postgres://canal:secret@db:5432/canalclear?sslmode=disable'', cfg_HTTPAddr = '':8080'',
      cfg_SessionTTL = 90 * Minute, cfg_WorkerEvery = 2 * Second\<rparr> = Inr ()" by code_simp
  then show ?thesis by (simp add: Load_def example_env_def env_def duration_of_def duration_examples)
qed

theorem configured_server_is_bounded_witness:
  "\<exists>cfg s token. Load example_env = Inr cfg \<and> cfg_SessionTTL cfg = 90 * Minute \<and>
    NewSession example_user 7 (90 * Minute) (Inr ''0123456789abcdef0123456789abcdef'') (Inr ''0123456789abcdef'') = Inr (s, token) \<and>
    Authenticate s example_user token 8 = Inr ()"
proof -
  obtain s token where new: "NewSession example_user 7 (90 * Minute) (Inr ''0123456789abcdef0123456789abcdef'') (Inr ''0123456789abcdef'') = Inr (s, token)"
    by (simp add: NewSession_def example_user_def validRole_def Let_def)
  with configured_server_is_bounded [OF example_env_loads, of example_user 7 _ _ s token 8] example_env_loads show ?thesis by simp
qed

end
