(* ===== verification/Database.thy ===== *)
theory Database
  imports Sort_Slice Json
begin

text \<open>
  \<^verbatim>\<open>internal/store/database.go\<close>: a transaction as \<^verbatim>\<open>WithTx\<close> runs it, the runner of
  the migrations, and the connection, which is a pool that is open or closed. What PostgreSQL does with the
  text of a migration is the parameter \<open>exec\<close>; whether a
  transaction begins and commits is a function of the migration. The theorem: however often the runner is started and
  wherever it fails, the database is what the first migrations make of it in order, each applied once.
\<close>

section \<open>Transactions\<close>

text \<open>An error of the function or of the commit leaves the database as it was: \<^verbatim>\<open>defer tx.Rollback\<close>.\<close>

definition WithTx :: "unit result \<Rightarrow> unit result \<Rightarrow> ('s \<Rightarrow> ('a \<times> 's) result) \<Rightarrow> 's \<Rightarrow> 'a result \<times> 's" where
  "WithTx begins commits fn s =
    (case begins of
       Inl e \<Rightarrow> (Inl e, s)
     | Inr _ \<Rightarrow>
         (case fn s of
            Inl e \<Rightarrow> (Inl e, s)
          | Inr (x, s1) \<Rightarrow> (case commits of Inl e \<Rightarrow> (Inl e, s) | Inr _ \<Rightarrow> (Inr x, s1))))"

section \<open>Migrations\<close>

text \<open>The versions in \<^verbatim>\<open>schema_migrations\<close>, in the order of insertion, and everything else.\<close>

record 's Schema =
  sc_versions :: "int list"
  sc_tables :: 's

definition ParseInt :: "string \<Rightarrow> int option" where
  "ParseInt s =
    (let digits = (if s \<noteq> [] \<and> (hd s = CHR ''-'' \<or> hd s = CHR ''+'') then tl s else s);
         n = (if s \<noteq> [] \<and> hd s = CHR ''-'' then - int (read_nat digits) else int (read_nat digits))
     in if digits = [] \<or> \<not> list_all is_digit digits \<or> \<not> in_int64 n then None else Some n)"

definition migration_version :: "string \<Rightarrow> int option" where
  "migration_version name = ParseInt (takeWhile (\<lambda>c. c \<noteq> CHR ''_'') name)"

definition migrate_tx :: "(string \<Rightarrow> 's \<Rightarrow> 's result) \<Rightarrow> int \<Rightarrow> string \<Rightarrow> 's Schema \<Rightarrow> (unit \<times> 's Schema) result" where
  "migrate_tx exec version contents0 db =
    (if version \<in> set (sc_versions db) then Inr ((), db)
     else bindR (exec contents0 (sc_tables db)) (\<lambda>t.
       Inr ((), db\<lparr>sc_tables := t, sc_versions := sc_versions db @ [version]\<rparr>)))"

fun migrate_loop ::
    "(string \<Rightarrow> 's \<Rightarrow> 's result) \<Rightarrow> (string \<Rightarrow> unit result \<times> unit result) \<Rightarrow> (string \<times> string) list \<Rightarrow> 's Schema \<Rightarrow> unit result \<times> 's Schema" where
  "migrate_loop exec tx [] db = (Inr (), db)"
| "migrate_loop exec tx ((name, contents0) # entries) db =
    (case migration_version name of
       None \<Rightarrow> (Inl (Wrapped (''migration '' @ name @ '': '') (Plain ''strconv.ParseInt'') []), db)
     | Some version \<Rightarrow>
         (case WithTx (fst (tx name)) (snd (tx name)) (migrate_tx exec version contents0) db of
            (Inl e, db1) \<Rightarrow> (Inl (Wrapped (''migration '' @ name @ '': '') e []), db1)
          | (Inr _, db1) \<Rightarrow> migrate_loop exec tx entries db1))"

text \<open>\<open>extension\<close> is what \<^verbatim>\<open>CREATE EXTENSION IF NOT EXISTS btree_gist\<close> returns.\<close>

definition Migrate ::
    "unit result \<Rightarrow> (string \<Rightarrow> 's \<Rightarrow> 's result) \<Rightarrow> (string \<Rightarrow> unit result \<times> unit result) \<Rightarrow> (string \<times> string) list \<Rightarrow> 's Schema \<Rightarrow>
     unit result \<times> 's Schema" where
  "Migrate extension exec tx files db =
    (case extension of
       Inl e \<Rightarrow> (Inl e, db)
     | Inr _ \<Rightarrow> migrate_loop exec tx (sort_slice (by_key fst) files) db)"

section \<open>The connection\<close>

text \<open>
  Opening connects, pings and migrates, and leaves the pool open only if all of it succeeds; the flag is
  whether the pool is open. \<open>connect\<close> is what \<^verbatim>\<open>pgxpool.New\<close> returns and \<open>ping\<close> what \<^verbatim>\<open>Ping\<close> does.
\<close>

definition Open ::
    "unit result \<Rightarrow> unit result \<Rightarrow> unit result \<Rightarrow> (string \<Rightarrow> 's \<Rightarrow> 's result) \<Rightarrow> (string \<Rightarrow> unit result \<times> unit result) \<Rightarrow>
     (string \<times> string) list \<Rightarrow> 's Schema \<Rightarrow> unit result \<times> bool \<times> 's Schema" where
  "Open connect ping extension exec tx files db =
    (case connect of
       Inl e \<Rightarrow> (Inl e, False, db)
     | Inr _ \<Rightarrow>
         (case ping of
            Inl e \<Rightarrow> (Inl e, False, db)
          | Inr _ \<Rightarrow>
              (case Migrate extension exec tx files db of
                 (Inl e, db1) \<Rightarrow> (Inl e, False, db1)
               | (Inr _, db1) \<Rightarrow> (Inr (), True, db1))))"

definition database_Close :: "bool \<Rightarrow> bool" where
  "database_Close pool = False"

definition database_Ready :: "unit result \<Rightarrow> unit result" where
  "database_Ready ping = ping"

lemma Open_pool: "Open connect ping extension exec tx files db = (r, pool, db1) \<Longrightarrow> pool \<longleftrightarrow> r = Inr ()"
  by (auto simp: Open_def split: sum.splits prod.splits)

lemma Open_migrates: "Open connect ping extension exec tx files db = (Inr (), pool, db1) \<Longrightarrow> Migrate extension exec tx files db = (Inr (), db1)"
  by (auto simp: Open_def split: sum.splits prod.splits)

section \<open>Any number of runs\<close>

inductive migrated :: "(string \<Rightarrow> 's \<Rightarrow> 's result) \<Rightarrow> (string \<times> string) list \<Rightarrow> 's Schema \<Rightarrow> 's Schema \<Rightarrow> bool" for exec files db where
  start: "migrated exec files db db"
| run: "migrated exec files db db1 \<Longrightarrow> Migrate extension exec tx files db1 = (r, db2) \<Longrightarrow> migrated exec files db db2"

text \<open>What the first migrations make of a database, each applied once and in order.\<close>

fun apply_all :: "(string \<Rightarrow> 's \<Rightarrow> 's result) \<Rightarrow> (string \<times> string) list \<Rightarrow> 's Schema \<Rightarrow> 's Schema option" where
  "apply_all exec [] db = Some db"
| "apply_all exec ((name, contents0) # entries) db =
    (case (migration_version name, exec contents0 (sc_tables db)) of
       (Some v, Inr t) \<Rightarrow> apply_all exec entries (db\<lparr>sc_tables := t, sc_versions := sc_versions db @ [v]\<rparr>)
     | _ \<Rightarrow> None)"

abbreviation entry_version :: "string \<times> string \<Rightarrow> int option" where
  "entry_version f \<equiv> migration_version (fst f)"

definition fresh_versions :: "(string \<times> string) list \<Rightarrow> 's Schema \<Rightarrow> bool" where
  "fresh_versions entries db \<longleftrightarrow> distinct (map entry_version entries) \<and>
    (\<forall>v\<in>set (sc_versions db). Some v \<notin> entry_version ` set entries)"

lemma apply_all_append: "apply_all exec (xs @ ys) db = Option.bind (apply_all exec xs db) (apply_all exec ys)"
  by (induction xs arbitrary: db) (auto split: option.splits sum.splits)

lemma apply_all_versions: "apply_all exec xs db = Some db1 \<Longrightarrow> map Some (sc_versions db1) = map Some (sc_versions db) @ map entry_version xs"
  by (induction xs arbitrary: db) (auto split: option.splits sum.splits)

lemma WithTx_cases:
  obtains (fails) e where "WithTx begins commits fn s = (Inl e, s)"
  | (succeeds) x s1 where "WithTx begins commits fn s = (Inr x, s1)" and "fn s = Inr (x, s1)"
proof (cases begins)
  case (Inl e)
  then show thesis using fails by (simp add: WithTx_def)
next
  case begun: (Inr u)
  show thesis
  proof (cases "fn s")
    case (Inl e)
    with begun show thesis using fails by (simp add: WithTx_def)
  next
    case (Inr y)
    with begun fails succeeds show thesis by (cases commits; cases y) (simp_all add: WithTx_def)
  qed
qed

text \<open>Entries whose versions are there are skipped, unless a transaction fails.\<close>

lemma migrate_loop_skips:
  assumes "\<forall>f\<in>set qs. entry_version f \<in> Some ` set (sc_versions db)" and "migrate_loop exec tx (qs @ rs) db = (r, db1)"
  shows "db1 = db \<and> r \<noteq> Inr () \<or> migrate_loop exec tx rs db = (r, db1)"
  using assms
proof (induction qs)
  case (Cons f qs)
  obtain name contents0 where f: "f = (name, contents0)" by fastforce
  from Cons.prems(1) f obtain v where v: "migration_version name = Some v" "v \<in> set (sc_versions db)" by auto
  show ?case
  proof (cases rule: WithTx_cases [of "fst (tx name)" "snd (tx name)" "migrate_tx exec v contents0" db])
    case (fails e)
    with Cons.prems(2) f v show ?thesis by auto
  next
    case (succeeds x s1)
    then have "s1 = db" using v by (simp add: migrate_tx_def)
    with Cons succeeds(1) f v show ?thesis by simp
  qed
qed simp

lemma migrate_loop_applies:
  assumes "fresh_versions rs db" and "migrate_loop exec tx rs db = (r, db1)"
  shows "\<exists>k\<le>length rs. apply_all exec (take k rs) db = Some db1 \<and> (r = Inr () \<longrightarrow> k = length rs)"
  using assms
proof (induction rs arbitrary: db)
  case (Cons f rs)
  obtain name contents0 where f: "f = (name, contents0)" by fastforce
  have stop: ?case if "db1 = db" "r \<noteq> Inr ()" using that by (intro exI [of _ 0]) simp
  show ?case
  proof (cases "migration_version name")
    case None
    with Cons.prems(2) f stop show ?thesis by auto
  next
    case v: (Some v)
    show ?thesis
    proof (cases rule: WithTx_cases [of "fst (tx name)" "snd (tx name)" "migrate_tx exec v contents0" db])
      case (fails e)
      with Cons.prems(2) f v stop show ?thesis by auto
    next
      case (succeeds x s1)
      have "v \<notin> set (sc_versions db)" using Cons.prems(1) f v by (auto simp: fresh_versions_def)
      then obtain t where t: "exec contents0 (sc_tables db) = Inr t"
        and s1: "s1 = db\<lparr>sc_tables := t, sc_versions := sc_versions db @ [v]\<rparr>"
        using succeeds(2) by (auto simp: migrate_tx_def bindR_Inr_iff)
      have "fresh_versions rs s1" using Cons.prems(1) f v by (auto simp: fresh_versions_def s1)
      from Cons.IH [OF this] Cons.prems(2) f v succeeds(1) obtain k where
        "k \<le> length rs" "apply_all exec (take k rs) s1 = Some db1" "r = Inr () \<longrightarrow> k = length rs" by auto
      then show ?thesis using f v t s1 by (intro exI [of _ "Suc k"]) simp
    qed
  qed
qed simp

lemma migrate_loop_resumes:
  assumes fresh: "fresh_versions entries db" and k: "k \<le> length entries" "apply_all exec (take k entries) db = Some db1"
    and loop: "migrate_loop exec tx entries db1 = (r, db2)"
  shows "\<exists>j\<le>length entries. k \<le> j \<and> apply_all exec (take j entries) db = Some db2 \<and> (r = Inr () \<longrightarrow> j = length entries)"
proof -
  have versions: "Some ` set (sc_versions db1) = Some ` set (sc_versions db) \<union> entry_version ` set (take k entries)"
    using arg_cong [OF apply_all_versions [OF k(2)], of set] by simp
  have entries: "take k entries @ drop k entries = entries" by simp
  have "\<forall>f\<in>set (take k entries). entry_version f \<in> Some ` set (sc_versions db1)" using versions by auto
  from migrate_loop_skips [OF this, of exec tx "drop k entries"] loop
  consider "db2 = db1" "r \<noteq> Inr ()" | "migrate_loop exec tx (drop k entries) db1 = (r, db2)" by auto
  then show ?thesis
  proof cases
    case 1
    with k show ?thesis by blast
  next
    case 2
    have "distinct (map entry_version (take k entries) @ map entry_version (drop k entries))"
      using fresh entries by (metis fresh_versions_def map_append)
    moreover have "entry_version ` set (drop k entries) \<subseteq> entry_version ` set entries" by (auto dest: in_set_dropD)
    moreover have "Some v \<notin> entry_version ` set entries" if "v \<in> set (sc_versions db)" for v
      using fresh that by (simp add: fresh_versions_def)
    moreover have "Some v \<in> Some ` set (sc_versions db) \<or> Some v \<in> entry_version ` set (take k entries)" if "v \<in> set (sc_versions db1)" for v
      using versions that by blast
    ultimately have "fresh_versions (drop k entries) db1"
      unfolding fresh_versions_def by (metis (no_types, lifting) disjoint_iff distinct_append image_iff option.inject set_map subsetD)
    from migrate_loop_applies [OF this 2] obtain i where i: "i \<le> length entries - k"
      "apply_all exec (take i (drop k entries)) db1 = Some db2" "r = Inr () \<longrightarrow> i = length entries - k" by auto
    then have "apply_all exec (take (k + i) entries) db = Some db2"
      using k by (simp add: take_add apply_all_append)
    with i k show ?thesis by (intro exI [of _ "k + i"]) auto
  qed
qed

text \<open>
  C37: Migrations are applied once, in the order of their names, however often the runner is started and wherever it fails.
  After any runs the database is what the first so many migrations make of the database at the start; it is
  what all of them make as soon as one run succeeds; and from then on no run changes it.
\<close>

theorem migrations_run_once:
  assumes "migrated exec files db db1" and "fresh_versions (sort_slice (by_key fst) files) db"
  shows "(\<exists>k\<le>length files. apply_all exec (take k (sort_slice (by_key fst) files)) db = Some db1) \<and>
    (Migrate extension exec tx files db1 = (Inr (), db2) \<longrightarrow>
      apply_all exec (sort_slice (by_key fst) files) db = Some db2 \<and> snd (Migrate extension2 exec tx2 files db2) = db2)"
proof -
  let ?entries = "sort_slice (by_key fst) files"
  have resume: "\<exists>j\<le>length files. k \<le> j \<and> apply_all exec (take j ?entries) db = Some db3 \<and> (r = Inr () \<longrightarrow> j = length files)"
    if "k \<le> length files" "apply_all exec (take k ?entries) db = Some db2" "Migrate ext exec tx files db2 = (r, db3)" for k db2 ext tx r db3
    using that migrate_loop_resumes [OF assms(2), of k exec db2 tx r db3] by (cases ext) (auto simp: Migrate_def)
  have reached: "\<exists>k\<le>length files. apply_all exec (take k ?entries) db = Some db1"
    using assms(1)
  proof induction
    case start
    show ?case by (intro exI [of _ 0]) simp
  next
    case (run db1 extension tx r db2)
    with resume show ?case by blast
  qed
  moreover have "apply_all exec ?entries db = Some db2 \<and> snd (Migrate extension2 exec tx2 files db2) = db2"
    if "Migrate extension exec tx files db1 = (Inr (), db2)"
  proof -
    have all: "apply_all exec (take (length files) ?entries) db = Some db2" using reached resume that by blast
    obtain r db3 where again: "Migrate extension2 exec tx2 files db2 = (r, db3)" by fastforce
    from resume [OF _ all this] have "apply_all exec (take (length files) ?entries) db = Some db3" by force
    with all again show ?thesis by simp
  qed
  ultimately show ?thesis by blast
qed

text \<open>The three migrations of the program, run once with a failing commit of the second and then again.\<close>

definition migration_files :: "(string \<times> string) list" where
  "migration_files = [(''003_passage_movements.sql'', ''c''), (''001_init.sql'', ''a''), (''002_idempotency.sql'', ''b'')]"

theorem migrations_run_once_witness:
  "\<exists>db1 db2. Migrate (Inr ()) (\<lambda>c t. Inr (t @ c)) (\<lambda>name. (Inr (), if name = ''002_idempotency.sql'' then Inl (Plain ''commit'') else Inr ()))
      migration_files \<lparr>sc_versions = [], sc_tables = []\<rparr> = (Inl (Wrapped ''migration 002_idempotency.sql: '' (Plain ''commit'') []), db1) \<and>
    Migrate (Inr ()) (\<lambda>c t. Inr (t @ c)) (\<lambda>name. (Inr (), Inr ())) migration_files db1 = (Inr (), db2) \<and>
    db2 = \<lparr>sc_versions = [1, 2, 3], sc_tables = ''abc''\<rparr> \<and>
    snd (Migrate (Inr ()) (\<lambda>c t. Inr (t @ c)) (\<lambda>name. (Inr (), Inr ())) migration_files db2) = db2"
proof -
  let ?exec = "\<lambda>c t. Inr (t @ c)" and ?tx = "\<lambda>name. (Inr (), if name = ''002_idempotency.sql'' then Inl (Plain ''commit'') else Inr ())"
  let ?db = "\<lparr>sc_versions = [], sc_tables = []\<rparr>" and ?db1 = "\<lparr>sc_versions = [1], sc_tables = ''a''\<rparr>"
  let ?db2 = "\<lparr>sc_versions = [1, 2, 3], sc_tables = ''abc''\<rparr>"
  have first: "Migrate (Inr ()) ?exec ?tx migration_files ?db = (Inl (Wrapped ''migration 002_idempotency.sql: '' (Plain ''commit'') []), ?db1)"
    and second: "Migrate (Inr ()) ?exec (\<lambda>name. (Inr (), Inr ())) migration_files ?db1 = (Inr (), ?db2)"
    and fresh: "fresh_versions (sort_slice (by_key fst) migration_files) ?db"
    by code_simp+
  have "migrated ?exec migration_files ?db ?db1" by (rule migrated.run [OF migrated.start first])
  from migrations_run_once [OF this fresh] second first show ?thesis by blast
qed

end
