(* ===== verification/Server_System.thy ===== *)
theory Server_System
  imports Job_Frame Http_Properties Worker_Loops Config Database
begin

text \<open>
  \<^verbatim>\<open>cmd/server/main.go\<close>: how a server starts and what runs in it. Starting reads the configuration, opens
  the database, creates the first users, and wires up the two workers and the HTTP server. Then its parts share one
  world: requests commit transactions and change sessions, the outbox worker settles jobs in between, statement
  by statement, the reaper deletes sessions, and the process may be restarted at any moment. The theorems:
  nothing is served before everything is ready, and whatever the interleaving, what holds of every part alone holds
  of the whole.
\<close>

section \<open>Starting\<close>

abbreviation http_ErrServerClosed :: error where
  "http_ErrServerClosed \<equiv> Plain ''http: Server closed''"

text \<open>What \<^verbatim>\<open>run\<close> puts together: the workers with their intervals, and the HTTP server with its limits.\<close>

record 'w Wiring =
  wi_Outbox :: "'w OutboxWorker"
  wi_WorkerEvery :: Duration
  wi_Reaper :: Reaper
  wi_ReaperEvery :: Duration
  wi_Addr :: string
  wi_SessionTTL :: Duration
  wi_ReadHeaderTimeout :: Duration
  wi_IdleTimeout :: Duration
  wi_ShutdownTimeout :: Duration

definition wiring :: "('w \<Rightarrow> error option) \<Rightarrow> Config \<Rightarrow> 'w Wiring" where
  "wiring ctx_Err cfg =
    \<lparr>wi_Outbox = \<lparr>ob_HasDB = True, ob_Publisher = Some (LogPublisher ctx_Err), ob_Batch = 20, ob_WorkerID = [], ob_Policy = DefaultRetryPolicy\<rparr>,
     wi_WorkerEvery = cfg_WorkerEvery cfg,
     wi_Reaper = \<lparr>sr_HasDB = True, sr_Batch = 0, sr_Retention = 30 * 24 * Hour\<rparr>, wi_ReaperEvery = Hour,
     wi_Addr = cfg_HTTPAddr cfg, wi_SessionTTL = cfg_SessionTTL cfg,
     wi_ReadHeaderTimeout = 5 * Second, wi_IdleTimeout = 60 * Second, wi_ShutdownTimeout = 10 * Second\<rparr>"

text \<open>
  The site of a server: whether its pool is open, the schema of the database, and the world of its parts. What
  happens while it listens, and the error that listening ends with, is the parameter \<open>listen\<close>.
\<close>

record 's Site =
  st_Pool :: bool
  st_Schema :: "'s Schema"
  st_World :: ServerWorld

text \<open>What the environment answers while the server starts.\<close>

record ('s, 'w) Surroundings =
  su_getenv :: "string \<Rightarrow> string"
  su_connect :: "unit result"
  su_ping :: "unit result"
  su_extension :: "unit result"
  su_exec :: "string \<Rightarrow> 's \<Rightarrow> 's result"
  su_tx :: "string \<Rightarrow> unit result \<times> unit result"
  su_files :: "(string \<times> string) list"
  su_generate :: "string \<Rightarrow> string result"
  su_ctxErr :: "'w \<Rightarrow> error option"
  su_listen :: "'w Wiring \<Rightarrow> ServerWorld \<Rightarrow> error \<times> ServerWorld"

definition server_run :: "('s, 'w) Surroundings \<Rightarrow> 's Site \<Rightarrow> unit result \<times> 's Site" where
  "server_run su site =
    (case Load (su_getenv su) of
       Inl e \<Rightarrow> (Inl e, site)
     | Inr cfg \<Rightarrow>
         (case Open (su_connect su) (su_ping su) (su_extension su) (su_exec su) (su_tx su) (su_files su) (st_Schema site) of
            (Inl e, pool, schema) \<Rightarrow> (Inl e, site\<lparr>st_Pool := pool, st_Schema := schema\<rparr>)
          | (Inr _, pool, schema) \<Rightarrow>
              (case Bootstrap (su_generate su) (sw_auth (st_World site)) of
                 (Inl e, auth) \<Rightarrow>
                   (Inl e, \<lparr>st_Pool = database_Close pool, st_Schema = schema, st_World = (st_World site)\<lparr>sw_auth := auth\<rparr>\<rparr>)
               | (Inr _, auth) \<Rightarrow>
                   (let (e, w) = su_listen su (wiring (su_ctxErr su) cfg) ((st_World site)\<lparr>sw_auth := auth\<rparr>)
                    in (if errors_is e http_ErrServerClosed then Inr () else Inl e,
                        \<lparr>st_Pool = database_Close pool, st_Schema = schema, st_World = w\<rparr>)))))"

text \<open>The exit status of the process.\<close>

definition server_main :: "('s, 'w) Surroundings \<Rightarrow> 's Site \<Rightarrow> int \<times> 's Site" where
  "server_main su site = (case server_run su site of (r, site1) \<Rightarrow> (if is_ok r then 0 else 1, site1))"

text \<open>Listening was reached, or the tables of the workflow and the sessions were not touched.\<close>

lemma server_run_cases:
  assumes "server_run su site = (r, site1)"
  obtains (refused) e where "r = Inl e" and "sw_db (st_World site1) = sw_db (st_World site)"
      and "a_sessions (sw_auth (st_World site1)) = a_sessions (sw_auth (st_World site))" and "st_Pool site1 \<longrightarrow> st_Pool site"
  | (served) cfg auth e where "Load (su_getenv su) = Inr cfg"
      and "Migrate (su_extension su) (su_exec su) (su_tx su) (su_files su) (st_Schema site) = (Inr (), st_Schema site1)"
      and "Bootstrap (su_generate su) (sw_auth (st_World site)) = (Inr (), auth)"
      and "su_listen su (wiring (su_ctxErr su) cfg) ((st_World site)\<lparr>sw_auth := auth\<rparr>) = (e, st_World site1)"
      and "r = (if errors_is e http_ErrServerClosed then Inr () else Inl e)" and "\<not> st_Pool site1"
proof (cases "Load (su_getenv su)")
  case (Inl e)
  with assms refused show thesis by (auto simp: server_run_def)
next
  case cfg: (Inr cfg)
  obtain o1 pool schema where opened: "Open (su_connect su) (su_ping su) (su_extension su) (su_exec su) (su_tx su) (su_files su) (st_Schema site) = (o1, pool, schema)"
    by (metis prod.exhaust)
  obtain b auth where boot: "Bootstrap (su_generate su) (sw_auth (st_World site)) = (b, auth)" by fastforce
  then have sessions: "a_sessions auth = a_sessions (sw_auth (st_World site))"
    using insert_users_sessions by (auto simp: Bootstrap_def simp del: insert_users.simps split: sum.splits) (metis snd_conv)
  show thesis
  proof (cases "o1 = Inr () \<and> b = Inr ()")
    case True
    obtain e w where "su_listen su (wiring (su_ctxErr su) cfg) ((st_World site)\<lparr>sw_auth := auth\<rparr>) = (e, w)" by fastforce
    moreover have "Migrate (su_extension su) (su_exec su) (su_tx su) (su_files su) (st_Schema site) = (Inr (), schema)"
      using opened True by (auto intro: Open_migrates)
    ultimately show thesis using assms cfg opened boot True
      by (intro served [OF cfg, of auth e]) (auto simp: server_run_def database_Close_def)
  next
    case False
    show thesis
    proof (cases o1)
      case (Inl e)
      with assms cfg opened refused [of e] Open_pool [OF opened] show thesis by (auto simp: server_run_def)
    next
      case (Inr u)
      with False obtain e where "b = Inl e" by (cases b) auto
      with assms cfg opened boot Inr refused [of e] sessions show thesis by (auto simp: server_run_def database_Close_def)
    qed
  qed
qed


definition example_surroundings :: "(string, unit) Surroundings" where
  "example_surroundings = \<lparr>su_getenv = example_env, su_connect = Inr (), su_ping = Inr (), su_extension = Inr (),
    su_exec = (\<lambda>c t. Inr (t @ c)), su_tx = (\<lambda>name. (Inr (), Inr ())), su_files = migration_files, su_generate = (\<lambda>p. Inr ''digest''),
    su_ctxErr = (\<lambda>_. None), su_listen = (\<lambda>wi w. (http_ErrServerClosed, w))\<rparr>"

definition example_site :: "string Site" where
  "example_site = \<lparr>st_Pool = False, st_Schema = \<lparr>sc_versions = [], sc_tables = []\<rparr>, st_World = server_world \<lparr>a_users = [], a_sessions = []\<rparr>\<rparr>"


section \<open>Running\<close>

text \<open>
  One step of a running server, on the world that its parts share and the positions of the outbox workers: a
  request; a statement of a worker, or its recovery, neither of which inserts or deletes a job; a round of the
  reaper; or a restart, which loses the positions and stores the first users again.
\<close>

inductive system_step ::
    "Server \<Rightarrow> Mux \<Rightarrow> (rat \<Rightarrow> rat) \<Rightarrow> Reaper \<Rightarrow> ServerWorld \<times> (string \<Rightarrow> worker_pc) \<Rightarrow> ServerWorld \<times> (string \<Rightarrow> worker_pc) \<Rightarrow> bool"
    for srv mux rnd reaper where
  request: "serve srv mux rq w = (resp, w1) \<Longrightarrow> system_step srv mux rnd reaper (w, pc) (w1, pc)"
| worker: "outbox_step rnd (sw_stored w) DefaultRetryPolicy (t_jobs (sw_db w), pc) (jobs1, pc1) \<Longrightarrow>
    map job_key jobs1 = map job_key (t_jobs (sw_db w)) \<Longrightarrow>
    system_step srv mux rnd reaper (w, pc) (w\<lparr>sw_db := with_jobs jobs1 (sw_db w)\<rparr>, pc1)"
| reap: "reaper_round (sw_stored w) reaper tk (sw_auth w) = (r, auth) \<Longrightarrow>
    system_step srv mux rnd reaper (w, pc) (w\<lparr>sw_auth := auth\<rparr>, pc)"
| restart: "Bootstrap generate (sw_auth w) = (r, auth) \<Longrightarrow>
    system_step srv mux rnd reaper (w, pc) (w\<lparr>sw_auth := auth\<rparr>, \<lambda>_. Idle)"

inductive_cases system_stepE: "system_step srv mux rnd reaper (w, pc) s1"

fun system_ok :: "ServerWorld \<times> (string \<Rightarrow> worker_pc) \<Rightarrow> bool" where
  "system_ok (w, pc) \<longleftrightarrow> mono (sw_stored w) \<and> auth_ok (sw_auth w) \<and> outbox_ok DefaultRetryPolicy (t_jobs (sw_db w), pc) \<and>
    reach_jobs (sw_stored w) (\<lambda>t. t \<in> range (sw_now w)) (sw_db w)"

lemma outbox_enqueue_ok:
  assumes "outbox_ok DefaultRetryPolicy (jobs, pc)" and "enqueues stored jobs jobs1"
  shows "outbox_ok DefaultRetryPolicy (jobs1, pc)"
proof -
  from assms(2) have "outbox_step (\<lambda>x. x) stored DefaultRetryPolicy (jobs, pc) (jobs1, pc)"
    unfolding enqueues_def by (blast intro: outbox_step.enqueue)
  from outbox_step_ok [OF this assms(1) example_policy_valid] show ?thesis .
qed

lemma reaper_round_auth: "reaper_round stored reaper tk auth = (r, auth1) \<Longrightarrow> auth1 = auth \<or> auth_step compare stored auth auth1"
  by (auto simp: reaper_round_def bindR_Inr_iff intro: auth_step.reap split: if_splits sum.splits)

lemma serve_system_ok:
  assumes "serve srv mux rq w = (resp, w1)" and "system_ok (w, pc)"
  shows "system_ok (w1, pc)"
  using assms(1)
proof (cases rule: serve_cases)
  case unchanged
  with assms(2) show ?thesis by (simp add: same_tables_def same_environment_def)
next
  case (transaction user n)
  have reach: "reach_jobs (sw_stored w) (\<lambda>t. t \<in> range (sw_now w)) (sw_db w)" using assms(2) by simp
  then obtain js where "map job_key js = map job_key (t_jobs (sw_db w))" by (auto simp: reach_jobs_def)
  from db_step_with_jobs [OF transaction(2) this]
  have "t_jobs (sw_db w1) = t_jobs (sw_db w) \<or> enqueues (sw_stored w) (t_jobs (sw_db w)) (t_jobs (sw_db w1))" by blast
  then have "outbox_ok DefaultRetryPolicy (t_jobs (sw_db w1), pc)" using assms(2) outbox_enqueue_ok by (metis system_ok.simps)
  moreover have "reach_jobs (sw_stored w) (\<lambda>t. t \<in> range (sw_now w)) (sw_db w1)" by (rule reach_jobs_step [OF reach transaction(2)]) simp
  ultimately show ?thesis using assms(2) transaction(1,3) by (simp add: same_environment_def)
next
  case sessions
  have "auth_ok (sw_auth w1)" by (rule auth_step_ok [OF sessions(2)]) (use assms(2) in simp_all)
  then show ?thesis using assms(2) sessions(1,3) by (simp add: same_environment_def)
qed

lemma system_step_ok:
  assumes "system_step srv mux rnd reaper s s1" and "system_ok s"
  shows "system_ok s1"
  using assms
proof cases
  case (request rq w resp w1 pc)
  then show ?thesis using serve_system_ok assms(2) by blast
next
  case (worker w pc jobs1 pc1)
  then have "outbox_ok DefaultRetryPolicy (jobs1, pc1)"
    using outbox_step_ok [OF worker(3) _ example_policy_valid] assms(2) by simp
  with worker assms(2) reach_jobs_worker show ?thesis by simp
next
  case (reap w tk r auth pc)
  have "auth_ok auth"
    using reaper_round_auth [OF reap(3)] auth_step_ok assms(2) reap(1) by (metis system_ok.simps)
  with reap assms(2) show ?thesis by simp
next
  case (restart generate w r auth pc)
  have "auth_ok auth" by (rule auth_step_ok [OF auth_step.bootstrap [OF restart(3)], where stored = "sw_stored w"]) (use restart(1) assms(2) in simp_all)
  with restart assms(2) show ?thesis by simp
qed

text \<open>What a good state means for the tables: the facts of the transactions, read off a database without the worker.\<close>

lemma system_ok_tables:
  assumes "system_ok (w, pc)"
  shows "int (length (t_audit (sw_db w))) \<le> max_int64 \<Longrightarrow> (\<And>n. sw_stored w (sw_now w n) = sw_now w n) \<Longrightarrow>
      VerifyAuditChain tenant (sw_db w) = Inr ()"
    and "q \<in> set (t_reservations (sw_db w)) \<Longrightarrow> r \<in> set (t_reservations (sw_db w)) \<Longrightarrow> q \<noteq> r \<Longrightarrow>
      \<not> excluded q r \<and> r_VoyageID q \<noteq> r_VoyageID r"
    and "v \<in> set (t_voyages (sw_db w)) \<Longrightarrow> v_Status v \<in> {VoyageCleared, VoyageScheduled} \<Longrightarrow>
      passed_inspections (sw_db w) (v_ID v) \<and> has_job (sw_db w) (''outbox-release-'' @ v_ID v) ''voyage.released''"
proof -
  let ?P = "\<lambda>t. t \<in> range (sw_now w)"
  obtain js where reach: "reach (sw_stored w) ?P (with_jobs js (sw_db w))" and keys: "map job_key js = map job_key (t_jobs (sw_db w))"
    using assms by (auto simp: reach_jobs_def)
  note inv = reach_inv [OF reach]
  show "VerifyAuditChain tenant (sw_db w) = Inr ()"
    if "int (length (t_audit (sw_db w))) \<le> max_int64" "\<And>n. sw_stored w (sw_now w n) = sw_now w n"
  proof -
    have "linked [] 0 (tenant_events tenant (with_jobs js (sw_db w)))"
      by (rule reach_linked [OF reach]) (use that in auto)
    then have "linked [] 0 (tenant_events tenant (sw_db w))" by (simp add: tenant_events_def)
    then show ?thesis using that(1) by (rule linked_verifies)
  qed
  show "\<not> excluded q r \<and> r_VoyageID q \<noteq> r_VoyageID r"
    if "q \<in> set (t_reservations (sw_db w))" "r \<in> set (t_reservations (sw_db w))" "q \<noteq> r"
    using slots_inv_pair [of "with_jobs js (sw_db w)" r q] inv that by simp
  show "passed_inspections (sw_db w) (v_ID v) \<and> has_job (sw_db w) (''outbox-release-'' @ v_ID v) ''voyage.released''"
    if "v \<in> set (t_voyages (sw_db w))" "v_Status v \<in> {VoyageCleared, VoyageScheduled}"
  proof -
    have "voyage_inv (with_jobs js (sw_db w)) v" using inv that(1) by (intro voyages_invD) simp_all
    then have "passed_inspections (with_jobs js (sw_db w)) (v_ID v)" "has_job (with_jobs js (sw_db w)) (''outbox-release-'' @ v_ID v) ''voyage.released''"
      using that(2) by (auto simp: voyage_inv_def)
    moreover have "has_job (sw_db w) jid topic" if "has_job (with_jobs js (sw_db w)) jid topic" for jid topic
    proof -
      obtain j where "j \<in> set js" "j_ID j = jid" "j_Topic j = topic" using \<open>has_job (with_jobs js (sw_db w)) jid topic\<close> by (auto simp: has_job_def)
      moreover have "job_key ` set js = job_key ` set (t_jobs (sw_db w))" using arg_cong [OF keys, of set] by simp
      ultimately have "job_key j \<in> job_key ` set (t_jobs (sw_db w))" by blast
      then obtain k where "k \<in> set (t_jobs (sw_db w))" "job_key k = job_key j" by auto
      with \<open>j_ID j = jid\<close> \<open>j_Topic j = topic\<close> show ?thesis by (auto simp: has_job_def job_key_def)
    qed
    ultimately show ?thesis by (simp add: passed_inspections_def)
  qed
qed

text \<open>
  C6: The running system stays consistent, whatever the interleaving of requests, of the statements of outbox workers, of the
  reaper and of restarts, from empty tables on. Users and sessions stay well formed, and so does the outbox; no
  two reservations collide; a voyage that is cleared or scheduled has been inspected and its release is
  announced; and the audit trail of every tenant verifies, if the database keeps the instants of the clock exactly.
\<close>

theorem running_system_is_consistent:
  assumes "(system_step srv mux rnd reaper)\<^sup>*\<^sup>* (w0, \<lambda>_. Idle) (w, pc)" and "mono (sw_stored w0)"
    and "sw_db w0 = empty_db" and "sw_auth w0 = \<lparr>a_users = [], a_sessions = []\<rparr>"
  shows "auth_ok (sw_auth w) \<and> outbox_ok DefaultRetryPolicy (t_jobs (sw_db w), pc) \<and>
    (\<forall>q r. q \<in> set (t_reservations (sw_db w)) \<and> r \<in> set (t_reservations (sw_db w)) \<and> q \<noteq> r \<longrightarrow>
      \<not> excluded q r \<and> r_VoyageID q \<noteq> r_VoyageID r) \<and>
    (\<forall>v. v \<in> set (t_voyages (sw_db w)) \<and> v_Status v \<in> {VoyageCleared, VoyageScheduled} \<longrightarrow>
      passed_inspections (sw_db w) (v_ID v) \<and> has_job (sw_db w) (''outbox-release-'' @ v_ID v) ''voyage.released'') \<and>
    (int (length (t_audit (sw_db w))) \<le> max_int64 \<and> (\<forall>n. sw_stored w (sw_now w n) = sw_now w n) \<longrightarrow>
      (\<forall>tenant. VerifyAuditChain tenant (sw_db w) = Inr ()))"
proof -
  have "system_ok (w0, \<lambda>_. Idle)"
    using assms(2-4) reach_jobs_empty by (simp add: auth_ok_def) (simp add: empty_db_def)
  with assms(1) have "system_ok (w, pc)" by (induction rule: rtranclp_induct) (auto intro: system_step_ok simp del: system_ok.simps)
  with system_ok_tables [OF this] show ?thesis by auto
qed

text \<open>A server that stores its first users and then runs its reaper once.\<close>

theorem running_system_is_consistent_witness:
  "\<exists>auth2. fst (Bootstrap (\<lambda>p. Inr ''digest'') \<lparr>a_users = [], a_sessions = []\<rparr>) = Inr () \<and>
    (system_step example_server example_mux (\<lambda>x. x) \<lparr>sr_HasDB = True, sr_Batch = 0, sr_Retention = 0\<rparr>)\<^sup>*\<^sup>*
      (server_world \<lparr>a_users = [], a_sessions = []\<rparr>, \<lambda>_. Idle) (server_world auth2, \<lambda>_. Idle) \<and>
    auth_ok auth2 \<and> VerifyAuditChain ''panama-east'' (sw_db (server_world auth2)) = Inr ()"
proof -
  let ?none = "\<lparr>a_users = [], a_sessions = []\<rparr>" and ?reaper = "\<lparr>sr_HasDB = True, sr_Batch = 0, sr_Retention = 0\<rparr>"
  let ?step = "system_step example_server example_mux (\<lambda>x. x) ?reaper" and ?tick = "\<lparr>tk_Now = 60 * 24 * Hour, tk_Database = Inr ()\<rparr>"
  have world: "server_world auth\<lparr>sw_auth := auth1\<rparr> = server_world auth1" for auth auth1 by (simp add: server_world_def)
  have ok: "fst (Bootstrap (\<lambda>p. Inr ''digest'') ?none) = Inr ()" by code_simp
  obtain r auth1 where boot: "Bootstrap (\<lambda>p. Inr ''digest'') (sw_auth (server_world ?none)) = (r, auth1)" by fastforce
  obtain q auth2 where reap: "reaper_round (sw_stored (server_world auth1)) ?reaper ?tick (sw_auth (server_world auth1)) = (q, auth2)" by fastforce
  have "?step (server_world ?none, \<lambda>_. Idle) (server_world auth1, \<lambda>_. Idle)"
    using system_step.restart [OF boot, of example_server example_mux "\<lambda>x. x" ?reaper "\<lambda>_. Idle"] by (simp only: world)
  moreover have "?step (server_world auth1, \<lambda>_. Idle) (server_world auth2, \<lambda>_. Idle)"
    using system_step.reap [OF reap, of example_server example_mux "\<lambda>x. x" "\<lambda>_. Idle"] by (simp only: world)
  ultimately have steps: "?step\<^sup>*\<^sup>* (server_world ?none, \<lambda>_. Idle) (server_world auth2, \<lambda>_. Idle)"
    by (rule converse_rtranclp_into_rtranclp [OF _ r_into_rtranclp])
  from running_system_is_consistent [OF steps] have "auth_ok auth2 \<and> VerifyAuditChain ''panama-east'' (sw_db (server_world auth2)) = Inr ()"
    by (simp add: server_world_def mono_def) (simp add: empty_db_def max_int64_def)
  with ok steps show ?thesis by (intro exI [of _ auth2]) simp
qed

end
