(* ===== verification/Spec2Isabelle.thy ===== *)
theory Spec2Isabelle
  imports Workflow_Properties Timeline Passage_Queue Schedule Manifest_Ops Idempotency Customs_Delivery
    Compliance Voyage_Query Notification Outbox_Properties Idempotency_Store Session_Store
    Detail_Sanitizer Store_Pages Reporting Batch Identifier Http_Properties Server_System
begin

text \<open>
  CanalClear is a service, in Go over PostgreSQL, for the clearance of ships and their passage through
  a canal. A carrier declares a voyage with its manifest; customs open and close inspections and release the
  voyage; a dispatcher reserves a slot of a lock chamber for it; the lock master records its movements.
  Every one of these is a serializable transaction that also appends an event to a hash chain per tenant,
  the audit trail. The code under \<^verbatim>\<open>src/internal\<close> has a layer of pure functions
  (\<^verbatim>\<open>domain\<close>, \<^verbatim>\<open>clearance\<close>, \<^verbatim>\<open>passage\<close>,
  \<^verbatim>\<open>audit\<close>, \<^verbatim>\<open>auth\<close>, \<^verbatim>\<open>idempotency\<close>,
  \<^verbatim>\<open>customs\<close>), the transactions that call them (\<^verbatim>\<open>store\<close>), and services, workers
  and HTTP handlers above those.

  Conventions. An instant is the integer number of nanoseconds since the zero \<^verbatim>\<open>time.Time\<close>
  (so \<^verbatim>\<open>IsZero\<close> is equality with 0) and a duration an integer number of nanoseconds that
  the definitions saturate or wrap where the code does; time zones other than UTC are parameters. A Go
  string is the list of its bytes. \<^verbatim>\<open>int64\<close> values are integers with \<open>wrap64\<close> written out
  where the code computes with them. A \<^verbatim>\<open>float64\<close> is a datatype of finite rationals, infinities
  and NaN, for the code only compares them. A function that returns an error returns a sum; the errors
  are those of \<^verbatim>\<open>domain/errors.go\<close> and what \<^verbatim>\<open>fmt.Errorf\<close> makes of them.
  \<^verbatim>\<open>sort.Slice\<close> promises a sorted permutation and nothing on ties: \<open>Sort_Slice\<close>
  models it by an insertion sort and its locale says which comparators leave no choice. Names
  follow the code; a name that two packages share, or that HOL uses, gets a prefix.

  The theories, each with the part it models:

  \<^item> \<open>Prelude\<close>: results, errors, strings, integers at 64 bits, times, the lemma collections;
  \<^item> \<open>Sort_Slice\<close>: sorting by a comparator and its locale, interpreted for the comparators of the code;
  \<^item> \<open>Sha256\<close>, \<open>Json\<close>, \<open>Rfc3339\<close>: the parts of the standard library that decide
    which bytes are hashed: SHA-256 and hexadecimal, the JSON of strings, numbers, arrays and objects, and the
    text of a time, with the lemmas that encodings are injective;
  \<^item> \<open>Json_Parse\<close>, \<open>Base64\<close>, \<open>Rfc3339_Parse\<close>: the decoders of the standard
    library that the code uses, each with the lemma that it reads back what the encoder wrote;
  \<^item> \<open>Pagination\<close> (\<^verbatim>\<open>domain/pagination.go\<close>): cursors, pages, and the locale
    \<open>keyset_listing\<close> of lists that page by a cursor, with the client that follows the cursors;
  \<^item> \<open>Audit_Query\<close>, \<open>Detail_Sanitizer\<close> (\<^verbatim>\<open>audit/query.go\<close>,
    \<^verbatim>\<open>redaction.go\<close>, \<^verbatim>\<open>detail_sanitizer.go\<close>): selecting and summarising events,
    and what the redaction of their details hides;
  \<^item> \<open>Store_Pages\<close> (\<^verbatim>\<open>store/query.go\<close>, \<^verbatim>\<open>audit_query.go\<close>): the two
    paged lists in SQL, interpretations of that locale, compared with the filters in memory;
  \<^item> \<open>TimeWindow\<close> (\<^verbatim>\<open>domain/timewindow.go\<close>): merging and subtracting windows
    are union and difference of sets of instants, in a normal form;
  \<^item> \<open>Audit_Chain\<close> (\<^verbatim>\<open>audit/chain.go\<close>): Verify accepts exactly the chains, Append
    extends them, and two accepted chains with the same last hash are equal or exhibit a collision;
  \<^item> \<open>Voyage\<close>, \<open>Timeline\<close>, \<open>Manifest_Ops\<close>
    (\<^verbatim>\<open>clearance/model.go\<close>, \<^verbatim>\<open>timeline.go\<close>, \<^verbatim>\<open>manifest.go\<close>):
    the life of a voyage, the conditions of each operation, canonical manifests, histories of
    events, and comparison and amendment of manifests as inverse operations;
  \<^item> \<open>Reservation\<close>, \<open>Movement\<close>, \<open>Passage_Queue\<close>, \<open>Schedule\<close>
    (\<^verbatim>\<open>passage/model.go\<close>, \<^verbatim>\<open>operations.go\<close>, \<^verbatim>\<open>queue.go\<close>,
    \<^verbatim>\<open>schedule.go\<close>): slots that never overlap, their state machine, the movements it
    records, the order of the queue, and candidates that can be reserved;
  \<^item> \<open>Auth\<close> (\<^verbatim>\<open>auth\<close>): roles and permissions, the life of a session and its limits;
  \<^item> \<open>Idempotency\<close> (\<^verbatim>\<open>idempotency/record.go\<close>): records of requests, whose
    completion is final and whose version fences off a worker that was overtaken;
  \<^item> \<open>Inspection_Policy\<close>, \<open>Compliance\<close>, \<open>Voyage_Query\<close>
    (\<^verbatim>\<open>clearance/inspection_policy.go\<close>, \<^verbatim>\<open>compliance.go\<close>,
    \<^verbatim>\<open>query.go\<close>): which inspections the risk of a manifest asks for, what compliance rules
    find in it, and filters over voyages;
  \<^item> \<open>Notification\<close> (\<^verbatim>\<open>notification\<close>): routing of events, and the dispatcher,
    whose result does not depend on how its workers interleave;
  \<^item> \<open>Outbox\<close>, \<open>Outbox_Inv\<close>, \<open>Outbox_Properties\<close>
    (\<^verbatim>\<open>worker/outbox.go\<close>, \<^verbatim>\<open>policy.go\<close>, \<^verbatim>\<open>recovery.go\<close>):
    a round of the outbox worker, the step relation of any number of workers with recovery and
    cleanup, its invariant, the refinement of the steps by a round, and what rounds do to the jobs;
  \<^item> \<open>Idempotency_Store\<close>, \<open>Session_Store\<close> (\<^verbatim>\<open>store/idempotency.go\<close>,
    \<^verbatim>\<open>store/auth.go\<close>, \<^verbatim>\<open>store/session_lifecycle.go\<close>): the tables of requests and of
    sessions with the step relations of their clients: completed responses are replayed, overtaken clients are
    fenced off, and a login opens exactly its session;
  \<^item> \<open>Worker_Loops\<close> (\<^verbatim>\<open>worker/outbox.go\<close>,
    \<^verbatim>\<open>session_reaper.go\<close>): the loops around the rounds of the two workers, over lists of ticks: the
    outbox loop settles every job, and the reaper deletes the sessions that are dead, which nobody notices;
  \<^item> \<open>Customs_Gateway\<close>, \<open>Url\<close>, \<open>Customs_Client\<close>,
    \<open>Customs_Delivery\<close> (\<^verbatim>\<open>customs/client.go\<close>, \<^verbatim>\<open>retry.go\<close>):
    validation and the retry loop over a gateway that is a parameter; what the library makes of a URL; the client,
    whose exchange is a request and an answer on a world of its own; and the submission of a declaration through all
    of them, which gets through failures that pass;
  \<^item> \<open>Store\<close>, \<open>Store_Query\<close> (\<^verbatim>\<open>store/workflow.go\<close>,
    \<^verbatim>\<open>passage_operations.go\<close>, \<^verbatim>\<open>query.go\<close> and the migrations): the tables and the
    transactions; \<open>Store_Inv\<close>: the step relation of committed transactions, the reachable databases and
    their invariants; \<open>Workflow_Properties\<close>: what follows for the audit trail, clearance, the
    timetable and the tenants;
  \<^item> \<open>Service_Ports\<close>, \<open>Coordinator\<close> (\<^verbatim>\<open>service/ports.go\<close>,
    \<^verbatim>\<open>coordinator.go\<close>): the repositories as records of operations on a world of any type, the
    commands over them, and the locale \<open>declaration_service\<close>: what the coordinator relies on when it answers a
    repeated declaration;
  \<^item> \<open>Service_Store\<close> (\<^verbatim>\<open>store/service_adapter.go\<close>): the coordinator on the store, an
    interpretation of that locale: a declaration takes effect once, and a call is one transaction at most;
  \<^item> \<open>Reporting\<close>, \<open>Batch\<close> (\<^verbatim>\<open>service/reporting.go\<close>,
    \<^verbatim>\<open>eligibility.go\<close>, \<^verbatim>\<open>customs.go\<close>, \<^verbatim>\<open>batch.go\<close>): the reports on
    the store, which agree with what the workflow does, the submission to customs, and the pool that declares
    many voyages;
  \<^item> \<open>Identifier\<close> (\<^verbatim>\<open>domain/identifier.go\<close>): normal forms of identifiers, and what the
    check digit of a container finds;
  \<^item> \<open>Http_Codec\<close>, \<open>Http_Middleware\<close>, \<open>Http_Api\<close>
    (\<^verbatim>\<open>httpapi/server.go\<close>, \<^verbatim>\<open>middleware.go\<close>,
    \<^verbatim>\<open>contract.go\<close>, \<^verbatim>\<open>read_handlers.go\<close>): bodies and queries, the writer of a
    response, the middlewares, the handlers and their routes; \<open>Http_Properties\<close>: every request is
    answered once, the answer tells what was committed, nothing happens without a session, and every response is
    labelled and logged;
  \<^item> \<open>Config\<close> (\<^verbatim>\<open>config\<close>) and \<open>Database\<close>
    (\<^verbatim>\<open>store/database.go\<close>): what a configuration that loads promises, the connection, and migrations
    that run once;
  \<^item> \<open>Job_Frame\<close>, \<open>Server_System\<close> (\<^verbatim>\<open>cmd/server/main.go\<close>): the server. A
    transaction does not look at the state of the jobs, so the invariants of the databases that transactions reach
    hold while the outbox worker changes the jobs between them; the start of the server, which serves
    nothing before everything is ready; and the step relation in which requests, the workers and restarts share
    one world, where what holds of every part alone holds of the whole.

  Bounds. Recursions are structural or have a measure, except that the parser of JSON takes fuel: twice the
  length of the text, which \<open>parse_enough_fuel\<close> shows to be enough for every text that has a value. The loop
  of the retrying gateway runs over the attempts the policy allows, the days of the schedule over its
  horizon, and a client that follows cursors needs one page per row at most. Theorems on sequence numbers ask for fewer than \<open>2 ^ 63\<close> events, and those on sums
  of weights for a total in range; what happens beyond is stated as a lemma where the code wraps.

  Parameters. \<^verbatim>\<open>bcrypt\<close>, \<^verbatim>\<open>crypto/rand\<close>, the customs service, the router \<^verbatim>\<open>go-chi\<close>, the text of a \<^verbatim>\<open>float64\<close>, the sleep
  function, the tickers, the HTTP exchange with customs, what happens to the process while it listens, and the time zone of
  an operating window are arguments of the definitions that use them. So is
  \<open>stored\<close>, what a column of instants keeps of an instant: PostgreSQL drops nanoseconds, the hash of an
  event covers them, and the theorem on the audit trail is about transactions whose instants survive.

  Not modelled. The pool of connections, the sockets and the HTTP server and client of the standard library, the delivery
  of signals and the encoding of log records are I/O: of the pool the model knows that it is open or
  closed, of the rest what the code is told (a tick, the end of a context, an answer, an error), as a value.
  Cancellation of a context is modelled where the code asks for it (the coordinator, batches, the dispatcher and the
  outbox), not inside a statement of the database. The handlers run one at a time against the tables: a transaction
  is serializable, so its effect is that of running alone, and a failed serialization is an error of the database.
\<close>

end
